(* ===== verification/Onadata_Prelude.thy ===== *)
theory Onadata_Prelude
  imports Main "HOL-Library.AList" "HOL-Library.Sublist"
begin

text \<open>
  Shared vocabulary of the development: the Python string methods the code uses
  (\<open>split\<close>, \<open>join\<close>, \<open>strip\<close>, \<open>lower\<close>, \<open>find\<close>, decimal
  printing), Python dictionaries as association lists in insertion order, the
  dictionary interface as a locale with its interpretation, the JSON-like values
  (\<open>pyval\<close>) that submissions are turned into, and small lemmas on lists that
  several components use.
\<close>

named_theorems py_str \<open>facts about the Python string methods\<close>
named_theorems py_dict_simps \<open>facts about dictionaries in insertion order\<close>

section \<open>Strings\<close>

fun split_by :: "('a \<Rightarrow> bool) \<Rightarrow> 'a list \<Rightarrow> 'a list list" where
  "split_by P [] = [[]]"
| "split_by P (x # xs) =
     (if P x then [] # split_by P xs
      else (case split_by P xs of [] \<Rightarrow> [[x]] | p # ps \<Rightarrow> (x # p) # ps))"

text \<open>\<open>s.split(c)\<close> for a one character separator.\<close>

definition split_on :: "char \<Rightarrow> string \<Rightarrow> string list" where
  "split_on c s = split_by (\<lambda>x. x = c) s"

text \<open>\<open>sep.join(parts)\<close>.\<close>

fun join :: "string \<Rightarrow> string list \<Rightarrow> string" where
  "join sep [] = []"
| "join sep [p] = p"
| "join sep (p # q # ps) = p @ sep @ join sep (q # ps)"

text \<open>The characters \<open>str.split()\<close> and \<open>str.strip()\<close> treat as white space.\<close>

definition is_space :: "char \<Rightarrow> bool" where
  "is_space c = ((of_char c :: nat) \<in> {9, 10, 11, 12, 13, 28, 29, 30, 31, 32, 133, 160})"

definition split_ws :: "string \<Rightarrow> string list" where
  "split_ws s = filter (\<lambda>p. p \<noteq> []) (split_by is_space s)"

definition strip :: "string \<Rightarrow> string" where
  "strip s = rev (dropWhile is_space (rev (dropWhile is_space s)))"

definition lower_char :: "char \<Rightarrow> char" where
  "lower_char c =
     (let n = (of_char c :: nat)
      in if 65 \<le> n \<and> n \<le> 90 \<or> 192 \<le> n \<and> n \<le> 222 \<and> n \<noteq> 215 then char_of (n + 32) else c)"

definition lower :: "string \<Rightarrow> string" where
  "lower s = map lower_char s"

text \<open>\<open>s.find(c)\<close>: the first position, or \<open>-1\<close>.\<close>

fun find_char :: "char \<Rightarrow> string \<Rightarrow> int" where
  "find_char c [] = - 1"
| "find_char c (x # xs) =
     (if x = c then 0 else (let i = find_char c xs in if i < 0 then - 1 else i + 1))"

definition digit_char :: "nat \<Rightarrow> char" where
  "digit_char d = char_of (48 + d)"

text \<open>\<open>str(n)\<close> for a non-negative integer.\<close>

fun show_nat :: "nat \<Rightarrow> string" where
  "show_nat n =
     (if n < 10 then [digit_char n] else show_nat (n div 10) @ [digit_char (n mod 10)])"

declare show_nat.simps [simp del]

definition show_int :: "int \<Rightarrow> string" where
  "show_int i = (if i < 0 then CHR ''-'' # show_nat (nat (- i)) else show_nat (nat i))"

lemma split_by_neq_Nil [simp]: "split_by P xs \<noteq> []"
  by (induction xs) (auto split: list.splits)

lemma split_on_neq_Nil [simp]: "split_on c s \<noteq> []"
  by (simp add: split_on_def)

lemma join_Cons: "ps \<noteq> [] \<Longrightarrow> join sep (p # ps) = p @ sep @ join sep ps"
  by (cases ps) auto

lemma join_cons_char: "join sep ((x # p) # ps) = x # join sep (p # ps)"
  by (cases ps) auto

lemma join_split_by: "join [c] (split_by (\<lambda>x. x = c) s) = s"
proof (induction s)
  case Nil
  then show ?case by simp
next
  case (Cons x s)
  obtain p ps where sp: "split_by (\<lambda>x. x = c) s = p # ps"
    by (cases "split_by (\<lambda>x. x = c) s") auto
  have "x = c \<Longrightarrow> join [c] ([] # p # ps) = c # join [c] (p # ps)" by simp
  with Cons sp show ?case
    by (auto simp: join_cons_char)
qed

lemma join_split_on [simp, py_str]: "join [c] (split_on c s) = s"
  by (simp add: split_on_def join_split_by)

lemma split_by_no_sep: "(\<forall>x \<in> set p. \<not> P x) \<Longrightarrow> split_by P p = [p]"
  by (induction p) auto

lemma split_by_append_sep:
  "(\<forall>x \<in> set p. \<not> P x) \<Longrightarrow> P c \<Longrightarrow> split_by P (p @ c # s) = p # split_by P s"
  by (induction p) auto

lemma split_join [py_str]:
  "ps \<noteq> [] \<Longrightarrow> (\<forall>p \<in> set ps. c \<notin> set p) \<Longrightarrow> split_on c (join [c] ps) = ps"
proof (induction ps)
  case Nil
  then show ?case by simp
next
  case (Cons p ps)
  show ?case
  proof (cases "ps = []")
    case True
    with Cons.prems show ?thesis
      by (auto simp: split_on_def intro!: split_by_no_sep)
  next
    case False
    with Cons have IH: "split_by (\<lambda>x. x = c) (join [c] ps) = ps"
      by (simp add: split_on_def)
    have "split_by (\<lambda>x. x = c) (p @ c # join [c] ps) = p # split_by (\<lambda>x. x = c) (join [c] ps)"
      by (rule split_by_append_sep) (use Cons.prems in auto)
    with False IH show ?thesis
      by (simp add: split_on_def join_Cons)
  qed
qed

lemma split_by_pieces: "p \<in> set (split_by P s) \<Longrightarrow> \<forall>x \<in> set p. \<not> P x"
proof (induction s arbitrary: p)
  case Nil
  then show ?case by simp
next
  case (Cons x s)
  obtain q qs where "split_by P s = q # qs"
    by (cases "split_by P s") auto
  with Cons show ?case
    by (fastforce split: if_splits)
qed

lemma split_on_pieces: "p \<in> set (split_on c s) \<Longrightarrow> c \<notin> set p"
  using split_by_pieces by (fastforce simp: split_on_def)

lemma find_char_range: "find_char c s = - 1 \<and> c \<notin> set s \<or> 0 \<le> find_char c s \<and> c \<in> set s"
  by (induction s) (auto simp: Let_def)

lemma find_char_nonneg_iff: "0 \<le> find_char c s \<longleftrightarrow> c \<in> set s"
  using find_char_range [of c s] by auto

lemma find_char_neg_iff: "find_char c s = - 1 \<longleftrightarrow> c \<notin> set s"
  using find_char_range [of c s] by auto

lemma find_char_pos_iff: "0 < find_char c s \<longleftrightarrow> c \<in> set s \<and> hd s \<noteq> c"
proof (cases s)
  case Nil
  then show ?thesis by simp
next
  case (Cons x xs)
  then show ?thesis
    using find_char_range [of c xs] by (auto simp: Let_def)
qed

lemma digit_char_inj: "i < 10 \<Longrightarrow> j < 10 \<Longrightarrow> digit_char i = digit_char j \<longleftrightarrow> i = j"
  by (auto simp: digit_char_def char_of_eq_iff take_bit_eq_mod)

lemma show_nat_neq_Nil [simp]: "show_nat n \<noteq> []" "[] \<noteq> show_nat n"
  by (subst show_nat.simps, simp)+

lemma show_nat_small: "n < 10 \<Longrightarrow> show_nat n = [digit_char n]"
  by (subst show_nat.simps) simp

lemma show_nat_large:
  "\<not> n < 10 \<Longrightarrow> show_nat n = show_nat (n div 10) @ [digit_char (n mod 10)]"
  by (subst show_nat.simps) simp

lemma show_nat_inj: "show_nat m = show_nat n \<Longrightarrow> m = n"
proof (induction m arbitrary: n rule: show_nat.induct)
  case (1 m)
  consider (small) "m < 10" "n < 10" | (mixed) "m < 10 \<longleftrightarrow> \<not> n < 10"
    | (large) "\<not> m < 10" "\<not> n < 10" by blast
  then show ?case
  proof cases
    case small
    with "1.prems" show ?thesis by (simp add: show_nat_small digit_char_inj)
  next
    case mixed
    with "1.prems" show ?thesis
      by (cases "m < 10") (auto simp: show_nat_small show_nat_large)
  next
    case large
    with "1.prems" have eq: "show_nat (m div 10) = show_nat (n div 10)"
      and d: "digit_char (m mod 10) = digit_char (n mod 10)"
      by (simp_all add: show_nat_large)
    from "1.IH" large(1) eq have "m div 10 = n div 10" by blast
    moreover from d have "m mod 10 = n mod 10" by (simp add: digit_char_inj)
    ultimately show ?thesis by (metis mult_div_mod_eq)
  qed
qed

lemma show_nat_eq_iff [simp, py_str]: "show_nat m = show_nat n \<longleftrightarrow> m = n"
  using show_nat_inj by blast

section \<open>Dictionaries in insertion order\<close>

text \<open>
  A Python dictionary is an association list with distinct keys; \<open>d[k] = v\<close> is
  \<^const>\<open>AList.update\<close> (it keeps the position of an old key and appends a new
  one), \<open>del d[k]\<close> is \<^const>\<open>AList.delete\<close>, lookup is \<^const>\<open>map_of\<close>.
\<close>

type_synonym ('k, 'v) dict = "('k \<times> 'v) list"

definition dict_ok :: "('k, 'v) dict \<Rightarrow> bool" where
  "dict_ok d = distinct (map fst d)"

text \<open>\<open>d.update(e)\<close>, and a dictionary built from a list of pairs.\<close>

definition dict_update :: "('k, 'v) dict \<Rightarrow> ('k \<times> 'v) list \<Rightarrow> ('k, 'v) dict" where
  "dict_update d es = fold (\<lambda>(k, v). AList.update k v) es d"

locale py_dict =
  fixes empty :: 'd
    and get :: "'d \<Rightarrow> 'k \<Rightarrow> 'v option"
    and put :: "'k \<Rightarrow> 'v \<Rightarrow> 'd \<Rightarrow> 'd"
    and del :: "'k \<Rightarrow> 'd \<Rightarrow> 'd"
    and items :: "'d \<Rightarrow> ('k \<times> 'v) list"
    and ok :: "'d \<Rightarrow> bool"
  assumes get_empty: "get empty k = None"
    and get_put: "get (put k v d) k' = (if k' = k then Some v else get d k')"
    and get_del: "get (del k d) k' = (if k' = k then None else get d k')"
    and ok_empty: "ok empty"
    and ok_put: "ok d \<Longrightarrow> ok (put k v d)"
    and ok_del: "ok d \<Longrightarrow> ok (del k d)"
    and items_iff: "ok d \<Longrightarrow> (k, v) \<in> set (items d) \<longleftrightarrow> get d k = Some v"
begin

lemma get_put_all:
  "get (fold (\<lambda>(k, v). put k v) es d) k =
     (case map_of (rev es) k of Some v \<Rightarrow> Some v | None \<Rightarrow> get d k)"
proof (induction es arbitrary: d)
  case Nil
  then show ?case by simp
next
  case (Cons e es)
  obtain k' v' where "e = (k', v')" by (cases e)
  with Cons show ?case
    by (auto simp: get_put map_add_def split: option.splits)
qed

lemma ok_put_all: "ok d \<Longrightarrow> ok (fold (\<lambda>(k, v). put k v) es d)"
  by (induction es arbitrary: d) (auto simp: ok_put)

lemma put_put_get: "get (put k w (put k v d)) = get (put k w d)"
  by (auto simp: get_put)

end

interpretation ad: py_dict "[]" map_of AList.update AList.delete "\<lambda>d. d" dict_ok
  by unfold_locales
    (auto simp: dict_ok_def update_conv' delete_conv' distinct_update distinct_delete
      dest: map_of_is_SomeI map_of_SomeD)

lemmas dict_get_put [simp, py_dict_simps] = ad.get_put
lemmas dict_get_del [simp, py_dict_simps] = ad.get_del

lemma dict_get_update [py_dict_simps]:
  "map_of (dict_update d es) k =
     (case map_of (rev es) k of Some v \<Rightarrow> Some v | None \<Rightarrow> map_of d k)"
  by (simp add: dict_update_def ad.get_put_all)

lemma dict_ok_update [simp, py_dict_simps]: "dict_ok d \<Longrightarrow> dict_ok (dict_update d es)"
  by (simp add: dict_update_def ad.ok_put_all)

lemma dict_keys_put [py_dict_simps]:
  "map fst (AList.update k v d) = (if k \<in> fst ` set d then map fst d else map fst d @ [k])"
  by (induction d) auto

lemma dict_put_new: "k \<notin> fst ` set d \<Longrightarrow> AList.update k v d = d @ [(k, v)]"
  by (induction d) auto

section \<open>JSON-like values\<close>

datatype pyval =
    PNone
  | PBool bool
  | PInt int
  | PStr string
  | PList "pyval list"
  | PDict "(string \<times> pyval) list"

fun is_dict :: "pyval \<Rightarrow> bool" where
  "is_dict (PDict _) = True"
| "is_dict _ = False"

fun is_list :: "pyval \<Rightarrow> bool" where
  "is_list (PList _) = True"
| "is_list _ = False"

fun is_str :: "pyval \<Rightarrow> bool" where
  "is_str (PStr _) = True"
| "is_str _ = False"

text \<open>Truthiness, \<open>bool(v)\<close>.\<close>

fun truthy :: "pyval \<Rightarrow> bool" where
  "truthy PNone = False"
| "truthy (PBool b) = b"
| "truthy (PInt i) = (i \<noteq> 0)"
| "truthy (PStr s) = (s \<noteq> [])"
| "truthy (PList xs) = (xs \<noteq> [])"
| "truthy (PDict d) = (d \<noteq> [])"

end
