(* ===== verification/Py_Time.thy ===== *)
theory Py_Time
  imports Onadata_Prelude
begin

text \<open>
  Times.  A time is the integer number of microseconds since the epoch, in UTC (the
  resolution of Python's \<open>datetime\<close>); a \<open>timedelta\<close> is a number of microseconds.
  The formatting functions are the \<open>strftime\<close> patterns the code uses.
\<close>

section \<open>Times and dates\<close>

type_synonym time = int

definition second :: time where "second = 1000000"
definition day :: time where "day = 86400000000"

text \<open>\<open>timedelta(days=n)\<close>.\<close>

definition days :: "int \<Rightarrow> time" where
  "days n = n * day"

text \<open>The civil date of a day number (days since 1970-01-01), as \<open>date.fromordinal\<close>.\<close>

definition civil_date :: "int \<Rightarrow> int \<times> int \<times> int" where
  "civil_date z =
     (let z' = z + 719468; era = z' div 146097; doe = z' mod 146097;
          yoe = (doe - doe div 1460 + doe div 36524 - doe div 146096) div 365;
          doy = doe - (365 * yoe + yoe div 4 - yoe div 100);
          mp = (5 * doy + 2) div 153;
          d = doy - (153 * mp + 2) div 5 + 1;
          mo = (if mp < 10 then mp + 3 else mp - 9)
      in (yoe + era * 400 + (if mo \<le> 2 then 1 else 0), mo, d))"

definition pad :: "nat \<Rightarrow> int \<Rightarrow> string" where
  "pad w n = (let s = show_nat (nat n) in replicate (w - length s) CHR ''0'' @ s)"

text \<open>\<open>strftime("%Y%m%d%H%M%S%f")\<close> and \<open>isoformat()\<close> of an aware UTC time.\<close>

definition strftime_compact :: "time \<Rightarrow> string" where
  "strftime_compact t =
     (let (y, mo, d) = civil_date (t div day); r = t mod day; s = r div second
      in pad 4 y @ pad 2 mo @ pad 2 d @ pad 2 (s div 3600) @ pad 2 (s div 60 mod 60)
         @ pad 2 (s mod 60) @ pad 6 (r mod second))"

definition isoformat :: "time \<Rightarrow> string" where
  "isoformat t =
     (let (y, mo, d) = civil_date (t div day); r = t mod day; s = r div second; us = r mod second
      in pad 4 y @ ''-'' @ pad 2 mo @ ''-'' @ pad 2 d @ ''T'' @ pad 2 (s div 3600) @ '':''
         @ pad 2 (s div 60 mod 60) @ '':'' @ pad 2 (s mod 60)
         @ (if us = 0 then [] else ''.'' @ pad 6 us) @ ''+00:00'')"

text \<open>\<open>strftime("%Y-%m-%d")\<close>, \<open>strftime("%Y%m%d%H%M")\<close>, and the date of a time in UTC.\<close>

definition strftime_date :: "time \<Rightarrow> string" where
  "strftime_date t =
     (let (y, mo, d) = civil_date (t div day) in pad 4 y @ ''-'' @ pad 2 mo @ ''-'' @ pad 2 d)"

definition strftime_minute :: "time \<Rightarrow> string" where
  "strftime_minute t =
     (let (y, mo, d) = civil_date (t div day); s = (t mod day) div second
      in pad 4 y @ pad 2 mo @ pad 2 d @ pad 2 (s div 3600) @ pad 2 (s div 60 mod 60))"

definition date_of :: "time \<Rightarrow> int" where
  "date_of t = t div day"

lemma days_mono: "0 < n \<Longrightarrow> 0 < days n"
  by (simp add: days_def day_def)

end
