(* ===== verification/Permissions.thy ===== *)
theory Permissions
  imports Onadata_Prelude
begin

text \<open>
  Roles and object permissions (\<open>onadata/libs/permissions.py\<close>).  The permission
  code names, the roles with their \<open>class_to_permissions\<close> tables, the recognition of
  a role from a set of permissions (\<open>Role.has_role\<close>, \<open>get_role\<close>), adding and
  removing a role on an object (\<open>Role.add\<close>), the propagation of project permissions
  to a new form (\<open>set_project_perms_to_object\<close>) and the filters that keep
  submissions from users who may only see their own.

  The permission store (django-guardian) is the locale \<open>perm_store\<close>; its
  interpretation is the table of user and group object permission rows that the
  repository declares for forms and projects.
\<close>

section \<open>Code names\<close>

abbreviation CAN_ADD_USERPROFILE :: string where "CAN_ADD_USERPROFILE \<equiv> ''add_userprofile''"
abbreviation CAN_CHANGE_USERPROFILE :: string where "CAN_CHANGE_USERPROFILE \<equiv> ''change_userprofile''"
abbreviation CAN_DELETE_USERPROFILE :: string where "CAN_DELETE_USERPROFILE \<equiv> ''delete_userprofile''"
abbreviation CAN_ADD_PROJECT_TO_PROFILE :: string where "CAN_ADD_PROJECT_TO_PROFILE \<equiv> ''can_add_project''"
abbreviation CAN_ADD_XFORM_TO_PROFILE :: string where "CAN_ADD_XFORM_TO_PROFILE \<equiv> ''can_add_xform''"
abbreviation CAN_VIEW_PROFILE :: string where "CAN_VIEW_PROFILE \<equiv> ''view_profile''"
abbreviation CAN_VIEW_ORGANIZATION_PROFILE :: string where "CAN_VIEW_ORGANIZATION_PROFILE \<equiv> ''view_organizationprofile''"
abbreviation CAN_ADD_ORGANIZATION_PROFILE :: string where "CAN_ADD_ORGANIZATION_PROFILE \<equiv> ''add_organizationprofile''"
abbreviation CAN_ADD_ORGANIZATION_PROJECT :: string where "CAN_ADD_ORGANIZATION_PROJECT \<equiv> ''can_add_project''"
abbreviation CAN_ADD_ORGANIZATION_XFORM :: string where "CAN_ADD_ORGANIZATION_XFORM \<equiv> ''can_add_xform''"
abbreviation CAN_CHANGE_ORGANIZATION_PROFILE :: string where "CAN_CHANGE_ORGANIZATION_PROFILE \<equiv> ''change_organizationprofile''"
abbreviation CAN_DELETE_ORGANIZATION_PROFILE :: string where "CAN_DELETE_ORGANIZATION_PROFILE \<equiv> ''delete_organizationprofile''"
abbreviation IS_ORGANIZATION_OWNER :: string where "IS_ORGANIZATION_OWNER \<equiv> ''is_org_owner''"
abbreviation CAN_CHANGE_XFORM :: string where "CAN_CHANGE_XFORM \<equiv> ''change_xform''"
abbreviation CAN_ADD_XFORM :: string where "CAN_ADD_XFORM \<equiv> ''add_xform''"
abbreviation CAN_DELETE_XFORM :: string where "CAN_DELETE_XFORM \<equiv> ''delete_xform''"
abbreviation CAN_VIEW_XFORM :: string where "CAN_VIEW_XFORM \<equiv> ''view_xform''"
abbreviation CAN_VIEW_XFORM_DATA :: string where "CAN_VIEW_XFORM_DATA \<equiv> ''view_xform_data''"
abbreviation CAN_VIEW_XFORM_ALL :: string where "CAN_VIEW_XFORM_ALL \<equiv> ''view_xform_all''"
abbreviation CAN_ADD_SUBMISSIONS :: string where "CAN_ADD_SUBMISSIONS \<equiv> ''report_xform''"
abbreviation CAN_DELETE_SUBMISSION :: string where "CAN_DELETE_SUBMISSION \<equiv> ''delete_submission''"
abbreviation CAN_TRANSFER_OWNERSHIP :: string where "CAN_TRANSFER_OWNERSHIP \<equiv> ''transfer_xform''"
abbreviation CAN_MOVE_TO_FOLDER :: string where "CAN_MOVE_TO_FOLDER \<equiv> ''move_xform''"
abbreviation CAN_EXPORT_XFORM :: string where "CAN_EXPORT_XFORM \<equiv> ''can_export_xform_data''"
abbreviation CAN_VIEW_MERGED_XFORM :: string where "CAN_VIEW_MERGED_XFORM \<equiv> ''view_mergedxform''"
abbreviation CAN_ADD_PROJECT :: string where "CAN_ADD_PROJECT \<equiv> ''add_project''"
abbreviation CAN_VIEW_PROJECT :: string where "CAN_VIEW_PROJECT \<equiv> ''view_project''"
abbreviation CAN_VIEW_PROJECT_DATA :: string where "CAN_VIEW_PROJECT_DATA \<equiv> ''view_project_data''"
abbreviation CAN_VIEW_PROJECT_ALL :: string where "CAN_VIEW_PROJECT_ALL \<equiv> ''view_project_all''"
abbreviation CAN_CHANGE_PROJECT :: string where "CAN_CHANGE_PROJECT \<equiv> ''change_project''"
abbreviation CAN_TRANSFER_PROJECT_OWNERSHIP :: string where "CAN_TRANSFER_PROJECT_OWNERSHIP \<equiv> ''transfer_project''"
abbreviation CAN_DELETE_PROJECT :: string where "CAN_DELETE_PROJECT \<equiv> ''delete_project''"
abbreviation CAN_ADD_PROJECT_XFORM :: string where "CAN_ADD_PROJECT_XFORM \<equiv> ''add_project_xform''"
abbreviation CAN_ADD_SUBMISSIONS_PROJECT :: string where "CAN_ADD_SUBMISSIONS_PROJECT \<equiv> ''report_project_xform''"
abbreviation CAN_EXPORT_PROJECT :: string where "CAN_EXPORT_PROJECT \<equiv> ''can_export_project_data''"
abbreviation CAN_ADD_PROJECT_ENTITYLIST :: string where "CAN_ADD_PROJECT_ENTITYLIST \<equiv> ''add_project_entitylist''"
abbreviation CAN_ADD_DATADICTIONARY :: string where "CAN_ADD_DATADICTIONARY \<equiv> ''add_datadictionary''"
abbreviation CAN_CHANGE_DATADICTIONARY :: string where "CAN_CHANGE_DATADICTIONARY \<equiv> ''change_datadictionary''"
abbreviation CAN_DELETE_DATADICTIONARY :: string where "CAN_DELETE_DATADICTIONARY \<equiv> ''delete_datadictionary''"
abbreviation CAN_ADD_ENTITYLIST :: string where "CAN_ADD_ENTITYLIST \<equiv> ''add_entitylist''"
abbreviation CAN_VIEW_ENTITYLIST :: string where "CAN_VIEW_ENTITYLIST \<equiv> ''view_entitylist''"
abbreviation CAN_CHANGE_ENTITYLIST :: string where "CAN_CHANGE_ENTITYLIST \<equiv> ''change_entitylist''"
abbreviation CAN_DELETE_ENTITYLIST :: string where "CAN_DELETE_ENTITYLIST \<equiv> ''delete_entitylist''"

abbreviation OWNER_TEAM_NAME :: string where "OWNER_TEAM_NAME \<equiv> ''Owners''"
abbreviation XFORM_META_PERMS :: string where "XFORM_META_PERMS \<equiv> ''xform_meta_perms''"

section \<open>Roles\<close>

datatype model_class =
    MergedXForm | Project | XForm | OrganizationProfile | UserProfile
  | DataDictionary | EntityList | OtherModel string

datatype role =
    ReadOnlyRoleNoDownload | ReadOnlyRole | DataEntryOnlyRole | DataEntryMinorRole
  | DataEntryRole | EditorNoDownload | EditorMinorRole | EditorRole | ManagerRole
  | MemberRole | OwnerRole

type_synonym class_perms = "(model_class, string list) dict"

definition ReadOnlyRoleNoDownload_perms :: class_perms where
  "ReadOnlyRoleNoDownload_perms =
    [(MergedXForm, [CAN_VIEW_MERGED_XFORM]),
     (Project, [CAN_VIEW_PROJECT, CAN_VIEW_PROJECT_ALL]),
     (XForm, [CAN_VIEW_XFORM, CAN_VIEW_XFORM_ALL, CAN_VIEW_XFORM_DATA])]"

definition ReadOnlyRole_perms :: class_perms where
  "ReadOnlyRole_perms =
    [(MergedXForm, [CAN_VIEW_MERGED_XFORM]),
     (OrganizationProfile, [CAN_VIEW_ORGANIZATION_PROFILE]),
     (Project, [CAN_EXPORT_PROJECT, CAN_VIEW_PROJECT, CAN_VIEW_PROJECT_ALL]),
     (XForm, [CAN_EXPORT_XFORM, CAN_VIEW_XFORM, CAN_VIEW_XFORM_ALL, CAN_VIEW_XFORM_DATA])]"

definition DataEntryOnlyRole_perms :: class_perms where
  "DataEntryOnlyRole_perms =
    [(MergedXForm, [CAN_VIEW_MERGED_XFORM]),
     (OrganizationProfile, [CAN_VIEW_ORGANIZATION_PROFILE]),
     (Project, [CAN_ADD_SUBMISSIONS_PROJECT, CAN_EXPORT_PROJECT, CAN_VIEW_PROJECT, CAN_VIEW_PROJECT_ALL, CAN_VIEW_PROJECT_DATA]),
     (XForm, [CAN_VIEW_XFORM, CAN_ADD_SUBMISSIONS])]"

definition DataEntryMinorRole_perms :: class_perms where
  "DataEntryMinorRole_perms =
    [(MergedXForm, [CAN_VIEW_MERGED_XFORM]),
     (OrganizationProfile, [CAN_VIEW_ORGANIZATION_PROFILE]),
     (Project, [CAN_ADD_SUBMISSIONS_PROJECT, CAN_EXPORT_PROJECT, CAN_VIEW_PROJECT, CAN_VIEW_PROJECT_DATA]),
     (XForm, [CAN_ADD_SUBMISSIONS, CAN_EXPORT_XFORM, CAN_VIEW_XFORM, CAN_VIEW_XFORM_DATA])]"

definition DataEntryRole_perms :: class_perms where
  "DataEntryRole_perms =
    [(MergedXForm, [CAN_VIEW_MERGED_XFORM]),
     (OrganizationProfile, [CAN_VIEW_ORGANIZATION_PROFILE]),
     (Project, [CAN_ADD_SUBMISSIONS_PROJECT, CAN_EXPORT_PROJECT, CAN_VIEW_PROJECT, CAN_VIEW_PROJECT_ALL, CAN_VIEW_PROJECT_DATA]),
     (XForm, [CAN_ADD_SUBMISSIONS, CAN_EXPORT_XFORM, CAN_VIEW_XFORM, CAN_VIEW_XFORM_ALL, CAN_VIEW_XFORM_DATA])]"

definition EditorNoDownload_perms :: class_perms where
  "EditorNoDownload_perms =
    [(MergedXForm, [CAN_VIEW_MERGED_XFORM]),
     (OrganizationProfile, [CAN_VIEW_ORGANIZATION_PROFILE]),
     (Project, [CAN_ADD_SUBMISSIONS_PROJECT, CAN_CHANGE_PROJECT, CAN_EXPORT_PROJECT, CAN_VIEW_PROJECT, CAN_VIEW_PROJECT_DATA]),
     (XForm, [CAN_ADD_SUBMISSIONS, CAN_CHANGE_XFORM, CAN_DELETE_SUBMISSION, CAN_VIEW_XFORM, CAN_VIEW_XFORM_DATA])]"

definition EditorMinorRole_perms :: class_perms where
  "EditorMinorRole_perms =
    [(MergedXForm, [CAN_VIEW_MERGED_XFORM]),
     (OrganizationProfile, [CAN_VIEW_ORGANIZATION_PROFILE]),
     (Project, [CAN_ADD_SUBMISSIONS_PROJECT, CAN_CHANGE_PROJECT, CAN_EXPORT_PROJECT, CAN_VIEW_PROJECT, CAN_VIEW_PROJECT_DATA]),
     (XForm, [CAN_ADD_SUBMISSIONS, CAN_CHANGE_XFORM, CAN_DELETE_SUBMISSION, CAN_EXPORT_XFORM, CAN_VIEW_XFORM, CAN_VIEW_XFORM_DATA])]"

definition EditorRole_perms :: class_perms where
  "EditorRole_perms =
    [(MergedXForm, [CAN_VIEW_MERGED_XFORM]),
     (OrganizationProfile, [CAN_VIEW_ORGANIZATION_PROFILE]),
     (Project, [CAN_ADD_SUBMISSIONS_PROJECT, CAN_CHANGE_PROJECT, CAN_EXPORT_PROJECT, CAN_VIEW_PROJECT, CAN_VIEW_PROJECT_ALL, CAN_VIEW_PROJECT_DATA]),
     (XForm, [CAN_ADD_SUBMISSIONS, CAN_CHANGE_XFORM, CAN_DELETE_SUBMISSION, CAN_EXPORT_XFORM, CAN_VIEW_XFORM, CAN_VIEW_XFORM_ALL, CAN_VIEW_XFORM_DATA])]"

definition ManagerRole_perms :: class_perms where
  "ManagerRole_perms =
    [(MergedXForm, [CAN_VIEW_MERGED_XFORM]),
     (OrganizationProfile, [CAN_ADD_ORGANIZATION_PROJECT, CAN_ADD_ORGANIZATION_XFORM, CAN_VIEW_ORGANIZATION_PROFILE]),
     (Project, [CAN_ADD_PROJECT, CAN_ADD_PROJECT_XFORM, CAN_ADD_SUBMISSIONS_PROJECT, CAN_CHANGE_PROJECT, CAN_EXPORT_PROJECT, CAN_VIEW_PROJECT, CAN_VIEW_PROJECT_ALL, CAN_VIEW_PROJECT_DATA, CAN_ADD_PROJECT_ENTITYLIST]),
     (UserProfile, [CAN_ADD_PROJECT_TO_PROFILE, CAN_ADD_XFORM_TO_PROFILE, CAN_VIEW_PROFILE]),
     (XForm, [CAN_ADD_SUBMISSIONS, CAN_ADD_XFORM, CAN_CHANGE_XFORM, CAN_DELETE_SUBMISSION, CAN_DELETE_XFORM, CAN_EXPORT_XFORM, CAN_VIEW_XFORM, CAN_VIEW_XFORM_ALL, CAN_VIEW_XFORM_DATA]),
     (EntityList, [CAN_ADD_ENTITYLIST, CAN_VIEW_ENTITYLIST, CAN_CHANGE_ENTITYLIST, CAN_DELETE_ENTITYLIST])]"

definition OwnerRole_perms :: class_perms where
  "OwnerRole_perms =
    [(DataDictionary, [CAN_ADD_DATADICTIONARY, CAN_CHANGE_DATADICTIONARY, CAN_DELETE_DATADICTIONARY]),
     (MergedXForm, [CAN_VIEW_MERGED_XFORM]),
     (OrganizationProfile, [CAN_ADD_ORGANIZATION_PROJECT, CAN_ADD_ORGANIZATION_XFORM, CAN_ADD_ORGANIZATION_PROFILE, CAN_CHANGE_ORGANIZATION_PROFILE, CAN_DELETE_ORGANIZATION_PROFILE, CAN_VIEW_ORGANIZATION_PROFILE, IS_ORGANIZATION_OWNER]),
     (Project, [CAN_ADD_PROJECT, CAN_ADD_PROJECT_XFORM, CAN_ADD_SUBMISSIONS_PROJECT, CAN_CHANGE_PROJECT, CAN_DELETE_PROJECT, CAN_EXPORT_PROJECT, CAN_TRANSFER_PROJECT_OWNERSHIP, CAN_VIEW_PROJECT, CAN_VIEW_PROJECT_ALL, CAN_VIEW_PROJECT_DATA, CAN_ADD_PROJECT_ENTITYLIST]),
     (UserProfile, [CAN_ADD_PROJECT_TO_PROFILE, CAN_ADD_XFORM_TO_PROFILE, CAN_ADD_USERPROFILE, CAN_CHANGE_USERPROFILE, CAN_DELETE_USERPROFILE, CAN_VIEW_PROFILE]),
     (XForm, [CAN_ADD_SUBMISSIONS, CAN_ADD_XFORM, CAN_CHANGE_XFORM, CAN_DELETE_SUBMISSION, CAN_DELETE_XFORM, CAN_EXPORT_XFORM, CAN_VIEW_XFORM, CAN_VIEW_XFORM_ALL, CAN_VIEW_XFORM_DATA, CAN_MOVE_TO_FOLDER, CAN_TRANSFER_OWNERSHIP]),
     (EntityList, [CAN_ADD_ENTITYLIST, CAN_VIEW_ENTITYLIST, CAN_CHANGE_ENTITYLIST, CAN_DELETE_ENTITYLIST])]"

text \<open>\<open>MemberRole\<close> declares no table of its own: it inherits the empty default dictionary.\<close>

fun class_to_permissions :: "role \<Rightarrow> class_perms" where
  "class_to_permissions ReadOnlyRoleNoDownload = ReadOnlyRoleNoDownload_perms"
| "class_to_permissions ReadOnlyRole = ReadOnlyRole_perms"
| "class_to_permissions DataEntryOnlyRole = DataEntryOnlyRole_perms"
| "class_to_permissions DataEntryMinorRole = DataEntryMinorRole_perms"
| "class_to_permissions DataEntryRole = DataEntryRole_perms"
| "class_to_permissions EditorNoDownload = EditorNoDownload_perms"
| "class_to_permissions EditorMinorRole = EditorMinorRole_perms"
| "class_to_permissions EditorRole = EditorRole_perms"
| "class_to_permissions ManagerRole = ManagerRole_perms"
| "class_to_permissions OwnerRole = OwnerRole_perms"
| "class_to_permissions MemberRole = []"

fun role_name :: "role \<Rightarrow> string" where
  "role_name ReadOnlyRoleNoDownload = ''readonly-no-download''"
| "role_name ReadOnlyRole = ''readonly''"
| "role_name DataEntryOnlyRole = ''dataentry-only''"
| "role_name DataEntryMinorRole = ''dataentry-minor''"
| "role_name DataEntryRole = ''dataentry''"
| "role_name EditorNoDownload = ''editor-no-download''"
| "role_name EditorMinorRole = ''editor-minor''"
| "role_name EditorRole = ''editor''"
| "role_name ManagerRole = ''manager''"
| "role_name OwnerRole = ''owner''"
| "role_name MemberRole = ''member''"

definition ROLES_ORDERED :: "role list" where
  "ROLES_ORDERED = [ReadOnlyRoleNoDownload, ReadOnlyRole, DataEntryOnlyRole, DataEntryMinorRole, DataEntryRole,
     EditorNoDownload, EditorMinorRole, EditorRole, ManagerRole, OwnerRole]"
text \<open>\<open>ROLES\<close>: the dictionary from role names to roles.\<close>

definition ROLES :: "(string, role) dict" where
  "ROLES = dict_update [] (map (\<lambda>r. (role_name r, r)) ROLES_ORDERED)"

text \<open>
  \<open>cls.class_to_permissions[klass]\<close>: a plain dictionary raises \<open>KeyError\<close>
  (\<open>None\<close>) for a class it does not list, the default dictionary of the base class
  gives the empty list.
\<close>

definition perms_getitem :: "role \<Rightarrow> model_class \<Rightarrow> string list option" where
  "perms_getitem r c =
     (case map_of (class_to_permissions r) c of
        Some ps \<Rightarrow> Some ps
      | None \<Rightarrow> if r = MemberRole then Some [] else None)"

definition has_role :: "role \<Rightarrow> string list \<Rightarrow> model_class \<Rightarrow> bool" where
  "has_role r permissions c =
     (case perms_getitem r c of None \<Rightarrow> False | Some ps \<Rightarrow> set ps \<subseteq> set permissions)"

text \<open>\<open>user.has_perms\<close> holds when each single permission holds.\<close>

definition user_has_role :: "role \<Rightarrow> (string \<Rightarrow> bool) \<Rightarrow> model_class \<Rightarrow> bool" where
  "user_has_role r has_perm c =
     (case perms_getitem r c of None \<Rightarrow> False | Some ps \<Rightarrow> list_all has_perm ps)"

fun first_role :: "role list \<Rightarrow> string list \<Rightarrow> model_class \<Rightarrow> string option" where
  "first_role [] permissions c = None"
| "first_role (r # rs) permissions c =
     (if has_role r permissions c then Some (role_name r) else first_role rs permissions c)"

definition get_role :: "string list \<Rightarrow> model_class \<Rightarrow> string option" where
  "get_role permissions c = first_role (rev ROLES_ORDERED) permissions c"

definition get_role_in_org :: "string list \<Rightarrow> string" where
  "get_role_in_org perms =
     (if ''is_org_owner'' \<in> set perms then role_name OwnerRole
      else (case get_role perms OrganizationProfile of
              Some n \<Rightarrow> n
            | None \<Rightarrow> role_name MemberRole))"

definition get_team_project_default_permissions :: "string list \<Rightarrow> string" where
  "get_team_project_default_permissions perms =
     (case get_role perms Project of Some n \<Rightarrow> n | None \<Rightarrow> [])"

section \<open>The permission store\<close>

datatype grantee = User string | Group string

type_synonym db_obj = "model_class \<times> nat"

definition remove_obj_permissions ::
    "('s \<Rightarrow> grantee \<Rightarrow> db_obj \<Rightarrow> string list) \<Rightarrow>
     (string \<Rightarrow> grantee \<Rightarrow> db_obj \<Rightarrow> 's \<Rightarrow> 's) \<Rightarrow> grantee \<Rightarrow> db_obj \<Rightarrow> 's \<Rightarrow> 's" where
  "remove_obj_permissions get_perms remove_perm g ob s =
     fold (\<lambda>p s. remove_perm p g ob s) (get_perms s g ob) s"

definition role_perms_for :: "role \<Rightarrow> model_class \<Rightarrow> string list" where
  "role_perms_for r c =
     (case map_of (class_to_permissions r) c of Some ps \<Rightarrow> ps | None \<Rightarrow> [])"

definition role_add ::
    "('s \<Rightarrow> grantee \<Rightarrow> db_obj \<Rightarrow> string list) \<Rightarrow>
     (string \<Rightarrow> grantee \<Rightarrow> db_obj \<Rightarrow> 's \<Rightarrow> 's) \<Rightarrow>
     (string \<Rightarrow> grantee \<Rightarrow> db_obj \<Rightarrow> 's \<Rightarrow> 's) \<Rightarrow> role \<Rightarrow> grantee \<Rightarrow> db_obj \<Rightarrow> 's \<Rightarrow> 's" where
  "role_add get_perms assign_perm remove_perm r g ob s =
     fold (\<lambda>p s. assign_perm p g ob s) (role_perms_for r (fst ob))
       (remove_obj_permissions get_perms remove_perm g ob s)"

text \<open>
  What the code relies on of the store: \<open>direct\<close> is the set of permissions recorded
  for a grantee on an object, \<open>get_perms\<close> returns at least those (for a user also
  those of the user's groups), granting and removing change exactly one of them.
\<close>

locale perm_store =
  fixes get_perms :: "'s \<Rightarrow> grantee \<Rightarrow> db_obj \<Rightarrow> string list"
    and assign_perm :: "string \<Rightarrow> grantee \<Rightarrow> db_obj \<Rightarrow> 's \<Rightarrow> 's"
    and remove_perm :: "string \<Rightarrow> grantee \<Rightarrow> db_obj \<Rightarrow> 's \<Rightarrow> 's"
    and direct :: "'s \<Rightarrow> grantee \<Rightarrow> db_obj \<Rightarrow> string set"
  assumes direct_assign:
      "direct (assign_perm p g ob s) g' ob' =
         (if g' = g \<and> ob' = ob then insert p (direct s g ob) else direct s g' ob')"
    and direct_remove:
      "direct (remove_perm p g ob s) g' ob' =
         (if g' = g \<and> ob' = ob then direct s g ob - {p} else direct s g' ob')"
    and direct_get: "direct s g ob \<subseteq> set (get_perms s g ob)"
begin

lemma direct_assign_all:
  "direct (fold (\<lambda>p s. assign_perm p g ob s) ps s) g' ob' =
     (if g' = g \<and> ob' = ob then set ps \<union> direct s g ob else direct s g' ob')"
  by (induction ps arbitrary: s) (auto simp: direct_assign)

lemma direct_remove_all:
  "direct (fold (\<lambda>p s. remove_perm p g ob s) ps s) g' ob' =
     (if g' = g \<and> ob' = ob then direct s g ob - set ps else direct s g' ob')"
  by (induction ps arbitrary: s) (auto simp: direct_remove)

lemma direct_remove_obj_permissions:
  "direct (remove_obj_permissions get_perms remove_perm g ob s) g' ob' =
     (if g' = g \<and> ob' = ob then {} else direct s g' ob')"
  using direct_get by (auto simp: remove_obj_permissions_def direct_remove_all)

lemma direct_role_add:
  "direct (role_add get_perms assign_perm remove_perm r g ob s) g' ob' =
     (if g' = g \<and> ob' = ob then set (role_perms_for r (fst ob)) else direct s g' ob')"
  by (simp add: role_add_def direct_assign_all direct_remove_obj_permissions)

end

text \<open>
  The tables \<open>XFormUserObjectPermission\<close>, \<open>XFormGroupObjectPermission\<close>,
  \<open>ProjectUserObjectPermission\<close>, \<open>ProjectGroupObjectPermission\<close>: one row per
  grantee, code name and object, with the members of each group.
\<close>

record perm_db =
  perm_rows :: "(grantee \<times> string \<times> db_obj) list"
  group_table :: "(string, string list) dict"

definition group_members :: "perm_db \<Rightarrow> string \<Rightarrow> string list" where
  "group_members db grp = (case map_of (group_table db) grp of None \<Rightarrow> [] | Some us \<Rightarrow> us)"

fun applies_to :: "perm_db \<Rightarrow> grantee \<Rightarrow> grantee \<Rightarrow> bool" where
  "applies_to db (User u) (User v) = (u = v)"
| "applies_to db (User u) (Group grp) = (u \<in> set (group_members db grp))"
| "applies_to db (Group a) (Group b) = (a = b)"
| "applies_to db (Group a) (User u) = False"

definition tbl_get_perms :: "perm_db \<Rightarrow> grantee \<Rightarrow> db_obj \<Rightarrow> string list" where
  "tbl_get_perms db g ob =
     remdups (map (\<lambda>(_, p, _). p) (filter (\<lambda>(h, _, ob'). ob' = ob \<and> applies_to db g h) (perm_rows db)))"

definition tbl_assign_perm :: "string \<Rightarrow> grantee \<Rightarrow> db_obj \<Rightarrow> perm_db \<Rightarrow> perm_db" where
  "tbl_assign_perm p g ob db =
     (if (g, p, ob) \<in> set (perm_rows db) then db else db\<lparr>perm_rows := perm_rows db @ [(g, p, ob)]\<rparr>)"

definition tbl_remove_perm :: "string \<Rightarrow> grantee \<Rightarrow> db_obj \<Rightarrow> perm_db \<Rightarrow> perm_db" where
  "tbl_remove_perm p g ob db = db\<lparr>perm_rows := filter (\<lambda>r. r \<noteq> (g, p, ob)) (perm_rows db)\<rparr>"

definition tbl_direct :: "perm_db \<Rightarrow> grantee \<Rightarrow> db_obj \<Rightarrow> string set" where
  "tbl_direct db g ob = {p. (g, p, ob) \<in> set (perm_rows db)}"

lemma applies_to_self [simp]: "applies_to db g g"
  by (cases g) auto

interpretation tbl: perm_store tbl_get_perms tbl_assign_perm tbl_remove_perm tbl_direct
  by unfold_locales
    (force simp: tbl_direct_def tbl_assign_perm_def tbl_remove_perm_def tbl_get_perms_def)+

abbreviation tbl_role_add :: "role \<Rightarrow> grantee \<Rightarrow> db_obj \<Rightarrow> perm_db \<Rightarrow> perm_db" where
  "tbl_role_add \<equiv> role_add tbl_get_perms tbl_assign_perm tbl_remove_perm"


section \<open>Users of an object and their roles\<close>

text \<open>\<open>isinstance(obj, XForm)\<close>: merged forms and data dictionaries are forms too.\<close>

definition is_xform :: "model_class \<Rightarrow> bool" where
  "is_xform c = (c \<in> {XForm, MergedXForm, DataDictionary})"

fun grantee_user :: "grantee \<Rightarrow> string option" where
  "grantee_user (User u) = Some u"
| "grantee_user (Group _) = None"

fun grantee_group :: "grantee \<Rightarrow> string option" where
  "grantee_group (User _) = None"
| "grantee_group (Group grp) = Some grp"

text \<open>The model whose rows are read, keyed by \<open>content_object_id\<close>.\<close>

definition perm_model :: "db_obj \<Rightarrow> db_obj option" where
  "perm_model ob =
     (if fst ob = Project then Some ob
      else if is_xform (fst ob) then Some (XForm, snd ob) else None)"

definition get_user_perms :: "perm_db \<Rightarrow> db_obj \<Rightarrow> (string \<times> string) list option" where
  "get_user_perms db ob =
     map_option
       (\<lambda>m. List.map_filter
          (\<lambda>(g, p, ob'). if ob' = m then map_option (\<lambda>u. (u, p)) (grantee_user g) else None)
          (perm_rows db))
       (perm_model ob)"

definition get_group_perms :: "perm_db \<Rightarrow> db_obj \<Rightarrow> (string \<times> string) list option" where
  "get_group_perms db ob =
     map_option
       (\<lambda>m. List.map_filter
          (\<lambda>(g, p, ob'). if ob' = m then map_option (\<lambda>grp. (grp, p)) (grantee_group g) else None)
          (perm_rows db))
       (perm_model ob)"

text \<open>One entry per user, the code names collected in a set (here a duplicate free list).\<close>

type_synonym user_perms = "(string, string list) dict"

definition add_code :: "user_perms \<Rightarrow> string \<times> string \<Rightarrow> user_perms" where
  "add_code d up =
     (case map_of d (fst up) of
        Some ps \<Rightarrow> AList.update (fst up) (List.insert (snd up) ps) d
      | None \<Rightarrow> AList.update (fst up) [snd up] d)"

definition group_users_with_perms ::
    "perm_db \<Rightarrow> (string \<times> string) list \<Rightarrow> user_perms \<Rightarrow> user_perms" where
  "group_users_with_perms db gps user_perms =
     fold (\<lambda>(grp, p) d. fold (\<lambda>u d. add_code d (u, p)) (group_members db grp) d) gps user_perms"

text \<open>
  \<open>_get_users_with_perms(obj, attach_perms=True, with_group_users)\<close>; for an object
  that is neither a form nor a project the library function \<open>guardian\<close> answers.
\<close>

definition get_users_with_perms ::
    "(perm_db \<Rightarrow> db_obj \<Rightarrow> bool \<Rightarrow> user_perms) \<Rightarrow> perm_db \<Rightarrow> db_obj \<Rightarrow> bool \<Rightarrow> user_perms" where
  "get_users_with_perms guardian db ob with_group_users =
     (case get_user_perms db ob of
        None \<Rightarrow> guardian db ob with_group_users
      | Some ups \<Rightarrow>
          let user_perms = fold (\<lambda>up d. add_code d up) ups []
          in if with_group_users
             then (case get_group_perms db ob of
                     None \<Rightarrow> guardian db ob True
                   | Some gps \<Rightarrow> group_users_with_perms db gps user_perms)
             else user_perms)"

text \<open>
  \<open>get_object_users_with_permissions\<close>: users and their roles.  A missing profile is
  created on the way; \<open>profiles\<close> tells of each user with a profile whether it is an
  organization.
\<close>

definition get_object_users_with_permissions ::
    "(perm_db \<Rightarrow> db_obj \<Rightarrow> bool \<Rightarrow> user_perms) \<Rightarrow> perm_db \<Rightarrow> (string, bool) dict \<Rightarrow> db_obj \<Rightarrow> bool \<Rightarrow>
     (string \<times> string option \<times> bool) list \<times> (string, bool) dict" where
  "get_object_users_with_permissions guardian db profiles ob with_group_users =
     fold (\<lambda>(u, perms) (result, profiles).
         let profiles' = (case map_of profiles u of Some _ \<Rightarrow> profiles
                          | None \<Rightarrow> AList.update u False profiles)
         in (result @ [(u, get_role perms (fst ob), map_of profiles' u = Some True)], profiles'))
       (get_users_with_perms guardian db ob with_group_users) ([], profiles)"

section \<open>Project permissions on a new object\<close>

record project =
  proj_pk :: nat
  proj_org :: string

text \<open>\<open>teams\<close>: the name of each team with the organization it belongs to.\<close>

definition owner_teams :: "(string \<times> string) list \<Rightarrow> project \<Rightarrow> string list" where
  "owner_teams teams pr =
     map fst (filter (\<lambda>(n, org). n = proj_org pr @ ''#'' @ OWNER_TEAM_NAME \<and> org = proj_org pr) teams)"

definition apply_project_user ::
    "db_obj \<Rightarrow> string option \<Rightarrow> string \<times> string option \<times> bool \<Rightarrow> perm_db \<Rightarrow> perm_db" where
  "apply_project_user ob created_by entry db =
     (case entry of (u, role_nm, _) \<Rightarrow>
        if is_xform (fst ob) \<and> created_by = Some u then tbl_role_add OwnerRole (User u) ob db
        else (case Option.bind role_nm (map_of ROLES) of
                Some r \<Rightarrow> tbl_role_add r (User u) ob db
              | None \<Rightarrow> db))"

definition set_project_perms_to_object ::
    "(perm_db \<Rightarrow> db_obj \<Rightarrow> bool \<Rightarrow> user_perms) \<Rightarrow> (string \<times> string) list \<Rightarrow> (string, bool) dict \<Rightarrow>
     db_obj \<Rightarrow> string option \<Rightarrow> project \<Rightarrow> perm_db \<Rightarrow> perm_db" where
  "set_project_perms_to_object guardian teams profiles ob created_by pr db =
     (let db1 = (case owner_teams teams pr of
                   [] \<Rightarrow> db
                 | t # _ \<Rightarrow> tbl_role_add OwnerRole (Group t) ob db)
      in fold (apply_project_user ob created_by)
           (fst (get_object_users_with_permissions guardian db1 profiles (Project, proj_pk pr) True))
           db1)"

section \<open>Restricting submissions to their submitter\<close>

record form_access =
  fa_pk :: nat
  fa_shared_data :: bool
  fa_metadata :: "string list"

record submission_row =
  sub_user :: "string option"
  sub_xform :: nat

definition check_meta_perms_enabled :: "form_access \<Rightarrow> bool" where
  "check_meta_perms_enabled xf = (0 < length (filter (\<lambda>t. t = XFORM_META_PERMS) (fa_metadata xf)))"

definition sees_all :: "form_access \<Rightarrow> (string \<Rightarrow> bool) \<Rightarrow> bool" where
  "sees_all xf has_perm =
     (has_perm CAN_VIEW_XFORM_ALL \<or> fa_shared_data xf \<or> \<not> check_meta_perms_enabled xf)"

definition exclude_items_from_queryset_using_xform_meta_perms ::
    "form_access \<Rightarrow> string \<Rightarrow> (string \<Rightarrow> bool) \<Rightarrow> submission_row list \<Rightarrow> submission_row list" where
  "exclude_items_from_queryset_using_xform_meta_perms xf me has_perm qs =
     (if sees_all xf has_perm then qs
      else if has_perm CAN_VIEW_XFORM_DATA
      then filter (\<lambda>s. \<not> (sub_user s \<noteq> Some me \<and> sub_xform s = fa_pk xf)) qs
      else [])"

definition filter_queryset_xform_meta_perms ::
    "form_access \<Rightarrow> string \<Rightarrow> (string \<Rightarrow> bool) \<Rightarrow> submission_row list \<Rightarrow> submission_row list" where
  "filter_queryset_xform_meta_perms xf me has_perm qs =
     (if sees_all xf has_perm then qs
      else if has_perm CAN_VIEW_XFORM_DATA then filter (\<lambda>s. sub_user s = Some me) qs
      else [])"

datatype perm_error = NoRecordsPermission | QueryIndexError

text \<open>
  The variant for JSON queries: \<open>loads\<close> is \<open>json.loads\<close> (\<open>None\<close> for its
  \<open>ValueError\<close>).  A value that is not a dictionary has no \<open>update\<close> method, which
  ends in the same handler as a text that is not JSON.
\<close>

definition own_query :: "string \<Rightarrow> pyval" where
  "own_query me = PDict [(''_submitted_by'', PStr me)]"

fun update_own :: "string \<Rightarrow> pyval \<Rightarrow> pyval" where
  "update_own me (PDict d) = PDict (AList.update ''_submitted_by'' (PStr me) d)"
| "update_own me v = PList [own_query me, v]"

definition filter_queryset_xform_meta_perms_sql ::
    "(string \<Rightarrow> pyval option) \<Rightarrow> form_access \<Rightarrow> string \<Rightarrow> (string \<Rightarrow> bool) \<Rightarrow> pyval \<Rightarrow> perm_error + pyval" where
  "filter_queryset_xform_meta_perms_sql loads xf me has_perm query =
     (if sees_all xf has_perm then Inr query
      else if has_perm CAN_VIEW_XFORM_DATA
      then (case query of
              PStr (c # cs) \<Rightarrow>
                (case loads (c # cs) of
                   None \<Rightarrow> Inr (PList [own_query me, query])
                 | Some (PList []) \<Rightarrow> Inl QueryIndexError
                 | Some (PList (v # _)) \<Rightarrow> Inr (update_own me v)
                 | Some v \<Rightarrow> Inr (update_own me v))
            | _ \<Rightarrow> Inr (update_own me (PDict [])))
      else Inl NoRecordsPermission)"

section \<open>Recognising a role\<close>

lemmas role_tables =
  ReadOnlyRoleNoDownload_perms_def ReadOnlyRole_perms_def DataEntryOnlyRole_perms_def
  DataEntryMinorRole_perms_def DataEntryRole_perms_def EditorNoDownload_perms_def
  EditorMinorRole_perms_def EditorRole_perms_def ManagerRole_perms_def OwnerRole_perms_def

lemmas role_eval =
  role_tables get_role_def ROLES_ORDERED_def has_role_def perms_getitem_def role_perms_for_def

lemma first_role_SomeD:
  "first_role rs ps c = Some n \<Longrightarrow>
     \<exists>us r vs. rs = us @ r # vs \<and> role_name r = n \<and> has_role r ps c \<and>
        (\<forall>u \<in> set us. \<not> has_role u ps c)"
proof (induction rs)
  case Nil
  then show ?case by simp
next
  case (Cons r rs)
  show ?case
  proof (cases "has_role r ps c")
    case True
    with Cons.prems have "r # rs = [] @ r # rs \<and> role_name r = n \<and> has_role r ps c" by simp
    then show ?thesis by fastforce
  next
    case False
    with Cons obtain us r' vs where "rs = us @ r' # vs" "role_name r' = n" "has_role r' ps c"
      "\<forall>u \<in> set us. \<not> has_role u ps c" by auto
    with False have "r # rs = (r # us) @ r' # vs" "\<forall>u \<in> set (r # us). \<not> has_role u ps c"
      by auto
    with \<open>role_name r' = n\<close> \<open>has_role r' ps c\<close> show ?thesis by blast
  qed
qed

lemma first_role_None_iff: "first_role rs ps c = None \<longleftrightarrow> (\<forall>r \<in> set rs. \<not> has_role r ps c)"
  by (induction rs) auto

lemma has_role_mono: "set ps \<subseteq> set qs \<Longrightarrow> has_role r ps c \<Longrightarrow> has_role r qs c"
  by (auto simp: has_role_def split: option.splits)

lemma has_role_cong: "set ps = set qs \<Longrightarrow> has_role r ps c = has_role r qs c"
  by (auto simp: has_role_def split: option.splits)

lemma get_role_cong: "set ps = set qs \<Longrightarrow> get_role ps c = get_role qs c"
proof -
  assume eq: "set ps = set qs"
  have "first_role rs ps c = first_role rs qs c" for rs
    by (induction rs) (simp_all add: has_role_cong [OF eq])
  then show ?thesis by (simp add: get_role_def)
qed

text \<open>The place of a role name in \<open>ROLES_ORDERED\<close>, from the weakest to the strongest role.\<close>

fun role_index :: "role list \<Rightarrow> string \<Rightarrow> nat" where
  "role_index [] n = 0"
| "role_index (r # rs) n = (if role_name r = n then 0 else Suc (role_index rs n))"

lemma role_index_append:
  "n \<notin> role_name ` set us \<Longrightarrow> role_index (us @ r # vs) n = length us + role_index (r # vs) n"
  by (induction us) auto

lemma distinct_role_names: "distinct (map role_name ROLES_ORDERED)"
  by (simp add: ROLES_ORDERED_def)

lemma role_index_at:
  assumes "ROLES_ORDERED = us @ r # vs"
  shows "role_index ROLES_ORDERED (role_name r) = length us"
proof -
  have "role_name r \<notin> role_name ` set us"
    using distinct_role_names by (auto simp: assms)
  then show ?thesis by (simp add: assms role_index_append)
qed

lemma get_role_mono_rank:
  assumes sub: "set ps \<subseteq> set qs" and n: "get_role ps c = Some n"
  obtains m where "get_role qs c = Some m" and
    "role_index ROLES_ORDERED n \<le> role_index ROLES_ORDERED m"
proof -
  from n [unfolded get_role_def, THEN first_role_SomeD] obtain us r vs where rev: "rev ROLES_ORDERED = us @ r # vs"
    and r: "role_name r = n" "has_role r ps c"
    by blast
  then have hr: "has_role r qs c" using sub has_role_mono by blast
  have "r \<in> set (rev ROLES_ORDERED)" unfolding rev by simp
  then have "first_role (rev ROLES_ORDERED) qs c \<noteq> None"
    unfolding first_role_None_iff using hr by blast
  then obtain m where m: "get_role qs c = Some m" by (auto simp: get_role_def)
  from m [unfolded get_role_def, THEN first_role_SomeD] obtain us' r' vs' where rev': "rev ROLES_ORDERED = us' @ r' # vs'"
    and r': "role_name r' = m" "\<forall>u \<in> set us'. \<not> has_role u qs c"
    by blast
  have fwd: "ROLES_ORDERED = rev vs @ r # rev us" "ROLES_ORDERED = rev vs' @ r' # rev us'"
    using arg_cong [OF rev, of rev] arg_cong [OF rev', of rev] by simp_all
  have "length us' \<le> length us"
  proof (rule ccontr)
    assume "\<not> ?thesis"
    then have lt: "length us < length us'" by simp
    have "us' ! length us = r"
      using lt rev rev' by (metis nth_append nth_append_length)
    then have "r \<in> set us'" using lt nth_mem by blast
    with r' hr show False by blast
  qed
  moreover have "length vs + length us = length vs' + length us'"
    using arg_cong [OF fwd(1), of length] arg_cong [OF fwd(2), of length] by simp
  ultimately have "length vs \<le> length vs'" by simp
  then show thesis
    using that m role_index_at [OF fwd(1)] role_index_at [OF fwd(2)] r(1) r'(1) by auto
qed

lemma get_role_of_role_xform:
  "list_all (\<lambda>r. get_role (role_perms_for r XForm) XForm = Some (role_name r)) ROLES_ORDERED"
  by code_simp

lemma ROLES_role_name_all: "list_all (\<lambda>r. map_of ROLES (role_name r) = Some r) ROLES_ORDERED"
  by code_simp

lemma ROLES_role_name: "r \<in> set ROLES_ORDERED \<Longrightarrow> map_of ROLES (role_name r) = Some r"
  using ROLES_role_name_all by (simp add: list_all_iff)

section \<open>Users of an object: the collected code names\<close>

definition codes :: "user_perms \<Rightarrow> string \<Rightarrow> string set" where
  "codes d u = (case map_of d u of None \<Rightarrow> {} | Some ps \<Rightarrow> set ps)"

text \<open>No user is listed without a code name.\<close>

definition no_empty :: "user_perms \<Rightarrow> bool" where
  "no_empty d \<longleftrightarrow> dict_ok d \<and> [] \<notin> snd ` set d"

lemma codes_add_code: "codes (add_code d (v, p)) u = (if u = v then insert p (codes d u) else codes d u)"
  by (auto simp: codes_def add_code_def split: option.splits)

lemma List_insert_neq_Nil [simp]: "List.insert p ps \<noteq> []" "[] \<noteq> List.insert p ps"
  by (auto simp: List.insert_def)

lemma no_empty_update: "no_empty d \<Longrightarrow> ps \<noteq> [] \<Longrightarrow> no_empty (AList.update v ps d)"
proof -
  have "snd ` set (AList.update v ps d) \<subseteq> insert ps (snd ` set d)"
    by (induction d) auto
  then show "no_empty d \<Longrightarrow> ps \<noteq> [] \<Longrightarrow> no_empty (AList.update v ps d)"
    by (auto simp: no_empty_def ad.ok_put)
qed

lemma no_empty_add_code: "no_empty d \<Longrightarrow> no_empty (add_code d up)"
  by (auto simp: add_code_def no_empty_update split: option.splits)

lemma codes_fold_users:
  "codes (fold (\<lambda>up d. add_code d up) ups d) u = {p. (u, p) \<in> set ups} \<union> codes d u"
  by (induction ups arbitrary: d) (auto simp: codes_add_code split: if_splits)

lemma codes_fold_group:
  "codes (fold (\<lambda>v d. add_code d (v, p)) vs d) u = (if u \<in> set vs then insert p (codes d u) else codes d u)"
  by (induction vs arbitrary: d) (simp_all add: codes_add_code)

lemma codes_group_users:
  "codes (group_users_with_perms db gps d) u =
     {p. \<exists>grp. (grp, p) \<in> set gps \<and> u \<in> set (group_members db grp)} \<union> codes d u"
proof (induction gps arbitrary: d)
  case Nil
  then show ?case by (simp add: group_users_with_perms_def)
next
  case (Cons gp gps)
  obtain grp p where [simp]: "gp = (grp, p)" by (cases gp)
  show ?case
    using Cons [of "fold (\<lambda>u d. add_code d (u, p)) (group_members db grp) d"]
    by (auto simp: group_users_with_perms_def codes_fold_group)
qed

lemma no_empty_fold: "(\<And>x d. no_empty d \<Longrightarrow> no_empty (f x d)) \<Longrightarrow> no_empty d \<Longrightarrow> no_empty (fold f xs d)"
  by (induction xs arbitrary: d) auto

lemma no_empty_Nil [simp]: "no_empty []"
  by (simp add: no_empty_def dict_ok_def)

lemma no_empty_users_with_perms:
  "fst ob = Project \<Longrightarrow> no_empty (get_users_with_perms guardian db ob True)"
  by (auto simp: get_users_with_perms_def get_user_perms_def get_group_perms_def perm_model_def
      group_users_with_perms_def Let_def intro!: no_empty_fold no_empty_add_code)

lemma set_tbl_get_perms:
  "set (tbl_get_perms db g ob) = {p. \<exists>h. (h, p, ob) \<in> set (perm_rows db) \<and> applies_to db g h}"
  by (force simp: tbl_get_perms_def)

lemma grantee_user_Some [simp]: "grantee_user g = Some u \<longleftrightarrow> g = User u"
  by (cases g) auto

lemma grantee_group_Some [simp]: "grantee_group g = Some u \<longleftrightarrow> g = Group u"
  by (cases g) auto

lemma set_map_filter: "set (List.map_filter f xs) = {y. \<exists>x \<in> set xs. f x = Some y}"
  by (induction xs) (auto simp: List.map_filter_simps split: option.splits)

lemma codes_users_with_perms:
  assumes "fst ob = Project"
  shows "codes (get_users_with_perms guardian db ob True) u = set (tbl_get_perms db (User u) ob)"
proof -
  have user_case: "applies_to db (User u) h \<longleftrightarrow>
      h = User u \<or> (\<exists>grp. h = Group grp \<and> u \<in> set (group_members db grp))" for h
    by (cases h) auto
  have model: "perm_model ob = Some ob" using assms by (simp add: perm_model_def)
  show ?thesis
    unfolding get_users_with_perms_def get_user_perms_def get_group_perms_def model
    by (simp add: Let_def codes_group_users codes_fold_users set_map_filter set_tbl_get_perms
        user_case codes_def [of "[]"])
      (fastforce split: if_splits)
qed

text \<open>The list of roles: one entry per listed user, with the role of the user's code names.\<close>

lemma object_users_roles:
  "map (\<lambda>(u, n, _). (u, n))
     (fst (get_object_users_with_permissions guardian db profiles ob wg)) =
   map (\<lambda>(u, ps). (u, get_role ps (fst ob))) (get_users_with_perms guardian db ob wg)"
proof -
  define f where "f = (\<lambda>(u :: string, perms) (result :: (string \<times> string option \<times> bool) list, profiles).
         let profiles' = (case map_of profiles u of Some _ \<Rightarrow> profiles
                          | None \<Rightarrow> AList.update u False profiles)
         in (result @ [(u, get_role perms (fst ob), map_of profiles' u = Some True)], profiles'))"
  have "map (\<lambda>(u, n, _). (u, n)) (fst (fold f d (acc, prof))) =
      map (\<lambda>(u, n, _). (u, n)) acc @ map (\<lambda>(u, ps). (u, get_role ps (fst ob))) d" for d acc prof
    by (induction d arbitrary: acc prof) (auto simp: f_def Let_def)
  from this [of "get_users_with_perms guardian db ob wg" "[]" profiles]
  show ?thesis
    by (simp add: get_object_users_with_permissions_def f_def)
qed

text \<open>What the loop over the project's users leaves recorded for each of them.\<close>

definition loop_target :: "db_obj \<Rightarrow> string option \<Rightarrow> string \<Rightarrow> string option \<Rightarrow> role option" where
  "loop_target ob created_by u role_nm =
     (if is_xform (fst ob) \<and> created_by = Some u then Some OwnerRole
      else Option.bind role_nm (map_of ROLES))"

lemma direct_apply_project_user:
  "tbl_direct (apply_project_user ob cb (u, n, b) db) g ob' =
     (case loop_target ob cb u n of
        Some r \<Rightarrow> if g = User u \<and> ob' = ob then set (role_perms_for r (fst ob)) else tbl_direct db g ob'
      | None \<Rightarrow> tbl_direct db g ob')"
  by (auto simp: apply_project_user_def loop_target_def tbl.direct_role_add split: option.splits)

lemma direct_apply_project_users_other:
  "u \<notin> fst ` set es \<Longrightarrow>
     tbl_direct (fold (apply_project_user ob cb) es db) (User u) ob = tbl_direct db (User u) ob"
  by (induction es arbitrary: db)
    (auto simp: direct_apply_project_user image_iff split: option.splits)

lemma direct_apply_project_users:
  "distinct (map fst es) \<Longrightarrow> (u, n, b) \<in> set es \<Longrightarrow>
     tbl_direct (fold (apply_project_user ob cb) es db) (User u) ob =
       (case loop_target ob cb u n of
          Some r \<Rightarrow> set (role_perms_for r (fst ob))
        | None \<Rightarrow> tbl_direct db (User u) ob)"
proof (induction es arbitrary: db)
  case Nil
  then show ?case by simp
next
  case (Cons e es)
  show ?case
  proof (cases "e = (u, n, b)")
    case True
    with Cons.prems have "u \<notin> fst ` set es" by force
    then show ?thesis
      using True by (simp add: direct_apply_project_users_other direct_apply_project_user split: option.splits)
  next
    case False
    obtain v n' b' where e: "e = (v, n', b')" by (cases e)
    with False Cons.prems have "v \<noteq> u" by force
    with Cons False e show ?thesis
      by (simp add: direct_apply_project_user split: option.splits)
  qed
qed

lemma group_table_role_add: "group_table (tbl_role_add r g ob db) = group_table db"
proof -
  have 1: "group_table (fold (\<lambda>p s. tbl_assign_perm p g ob s) ps s) = group_table s" for ps s
    by (induction ps arbitrary: s) (auto simp: tbl_assign_perm_def)
  have 2: "group_table (fold (\<lambda>p s. tbl_remove_perm p g ob s) ps s) = group_table s" for ps s
    by (induction ps arbitrary: s) (auto simp: tbl_remove_perm_def)
  show ?thesis by (simp add: role_add_def remove_obj_permissions_def 1 2)
qed

lemma tbl_get_perms_user:
  "set (tbl_get_perms db (User u) ob) =
     tbl_direct db (User u) ob \<union>
     (\<Union>grp \<in> {grp. u \<in> set (group_members db grp)}. tbl_direct db (Group grp) ob)"
proof -
  have "applies_to db (User u) h \<longleftrightarrow>
      h = User u \<or> (\<exists>grp. h = Group grp \<and> u \<in> set (group_members db grp))" for h
    by (cases h) auto
  then show ?thesis by (auto simp: set_tbl_get_perms tbl_direct_def)
qed

lemma role_add_perms_other_object:
  "ob' \<noteq> ob \<Longrightarrow> set (tbl_get_perms (tbl_role_add r g ob db) (User u) ob') = set (tbl_get_perms db (User u) ob')"
  by (simp add: tbl_get_perms_user tbl.direct_role_add group_members_def group_table_role_add)

lemma set_project_perms_role:
  assumes xf: "is_xform (fst ob)" and ne: "cb \<noteq> Some u"
    and n: "get_role (tbl_get_perms db (User u) (Project, proj_pk pr)) Project = Some n"
    and r: "map_of ROLES n = Some r"
    and nonempty: "tbl_get_perms db (User u) (Project, proj_pk pr) \<noteq> []"
  shows "tbl_direct (set_project_perms_to_object guardian teams profiles ob cb pr db) (User u) ob
           = set (role_perms_for r (fst ob))"
proof -
  define pj where "pj = (Project, proj_pk pr)"
  define db1 where "db1 = (case owner_teams teams pr of [] \<Rightarrow> db
      | t # _ \<Rightarrow> tbl_role_add OwnerRole (Group t) ob db)"
  define es where "es = fst (get_object_users_with_permissions guardian db1 profiles pj True)"
  define us where "us = get_users_with_perms guardian db1 pj True"
  have pj: "fst pj = Project" "pj \<noteq> ob" using xf by (auto simp: pj_def is_xform_def)
  have same: "set (tbl_get_perms db1 (User u) pj) = set (tbl_get_perms db (User u) pj)"
    using pj(2) by (auto simp: db1_def role_add_perms_other_object split: list.splits)
  have ok: "no_empty us" using no_empty_users_with_perms [OF pj(1)] by (simp add: us_def)
  have codes_us: "codes us u = set (tbl_get_perms db (User u) pj)"
    using codes_users_with_perms [OF pj(1)] same by (simp add: us_def)
  moreover have "set (tbl_get_perms db (User u) pj) \<noteq> {}" using nonempty by (simp add: pj_def)
  ultimately obtain ps where ps: "map_of us u = Some ps" "set ps = set (tbl_get_perms db (User u) pj)"
    by (auto simp: codes_def split: option.splits)
  have proj: "map (\<lambda>(u, n, _). (u, n)) es = map (\<lambda>(u, ps). (u, get_role ps Project)) us"
    using object_users_roles [of guardian db1 profiles pj True] pj(1) by (simp add: es_def us_def)
  have "map fst es = map fst us"
    using arg_cong [OF proj, of "map fst"] by (simp add: comp_def case_prod_unfold)
  with ok have dist: "distinct (map fst es)" by (simp add: no_empty_def dict_ok_def)
  from ps have "(u, get_role ps Project) \<in> set (map (\<lambda>(u, ps). (u, get_role ps Project)) us)"
    by (force dest: map_of_SomeD)
  moreover have "get_role ps Project = Some n"
    using get_role_cong [OF ps(2)] n by (simp add: pj_def)
  ultimately obtain b where "(u, Some n, b) \<in> set es"
    unfolding proj [symmetric] by auto
  from direct_apply_project_users [OF dist this, of ob cb db1] ne r xf
  show ?thesis
    by (simp add: set_project_perms_to_object_def Let_def loop_target_def flip: db1_def pj_def es_def)
qed

section \<open>Properties\<close>

text \<open>C1: adding a role to a user or team on an object leaves the grantee with exactly the
  permissions the role's table lists for the object's class, whatever was recorded before,
  and leaves every other grantee and every other object untouched.\<close>

theorem role_add_exact:
  "tbl_direct (tbl_role_add r g ob db) g' ob' =
     (if g' = g \<and> ob' = ob then set (role_perms_for r (fst ob)) else tbl_direct db g' ob')"
  by (rule tbl.direct_role_add)

text \<open>C2: a role given on a form is read back as the same role: after \<open>Role.add\<close>,
  \<open>get_role\<close> of the user's permissions names that role, for every role of
  \<open>ROLES_ORDERED\<close>, when no group adds permissions of its own.\<close>

theorem share_form_role_roundtrip:
  assumes "r \<in> set ROLES_ORDERED"
    and "\<forall>grp. u \<in> set (group_members db grp) \<longrightarrow> tbl_direct db (Group grp) (XForm, k) = {}"
  shows "get_role (tbl_get_perms (tbl_role_add r (User u) (XForm, k) db) (User u) (XForm, k)) XForm
           = Some (role_name r)"
proof -
  have grp: "group_members (tbl_role_add r (User u) (XForm, k) db) = group_members db"
    by (rule ext) (simp add: group_members_def group_table_role_add)
  have "set (tbl_get_perms (tbl_role_add r (User u) (XForm, k) db) (User u) (XForm, k))
      = set (role_perms_for r XForm)"
    using assms(2) by (simp add: tbl_get_perms_user tbl.direct_role_add grp)
  then have "get_role (tbl_get_perms (tbl_role_add r (User u) (XForm, k) db) (User u) (XForm, k)) XForm
      = get_role (role_perms_for r XForm) XForm"
    by (rule get_role_cong)
  with get_role_of_role_xform assms(1) show ?thesis by (simp add: list_all_iff)
qed

theorem share_form_role_roundtrip_witness:
  "get_role (tbl_get_perms
      (tbl_role_add EditorMinorRole (User ''bob'') (XForm, 7) \<lparr>perm_rows = [], group_table = []\<rparr>)
      (User ''bob'') (XForm, 7)) XForm = Some ''editor-minor''"
  using share_form_role_roundtrip [of EditorMinorRole "''bob''" "\<lparr>perm_rows = [], group_table = []\<rparr>" 7]
  by (simp add: ROLES_ORDERED_def tbl_direct_def)

text \<open>C3: more permissions never mean a weaker role: if the permissions grow, the role
  \<open>get_role\<close> finds stays or moves up the order of \<open>ROLES_ORDERED\<close>.\<close>

theorem get_role_monotone:
  assumes "set ps \<subseteq> set qs" and "get_role ps c = Some n"
  shows "\<exists>m. get_role qs c = Some m \<and> role_index ROLES_ORDERED n \<le> role_index ROLES_ORDERED m"
  using get_role_mono_rank [OF assms] by metis

theorem get_role_monotone_witness:
  "\<exists>m. get_role (role_perms_for EditorRole XForm) XForm = Some m \<and>
     role_index ROLES_ORDERED ''dataentry'' \<le> role_index ROLES_ORDERED m"
  by (rule get_role_monotone [of "role_perms_for DataEntryRole XForm"]; code_simp)

text \<open>C4: a user whom a project lists as \<open>dataentry-only\<close> receives the full
  \<open>dataentry\<close> permissions, reading everybody's submissions included, on a form that is
  published later: the two roles have the same project permissions, so the role read back
  from the project is the stronger one.\<close>

theorem dataentry_only_escalates_on_new_form:
  assumes "\<forall>grp. u \<in> set (group_members db grp) \<longrightarrow>
             tbl_direct db (Group grp) (Project, proj_pk pr) = {}"
    and "cb \<noteq> Some u"
  shows "tbl_direct
           (set_project_perms_to_object guardian teams profiles (XForm, k) cb pr
             (tbl_role_add DataEntryOnlyRole (User u) (Project, proj_pk pr) db)) (User u) (XForm, k)
         = set (role_perms_for DataEntryRole XForm)
       \<and> CAN_VIEW_XFORM_ALL \<in> set (role_perms_for DataEntryRole XForm)
       \<and> CAN_VIEW_XFORM_ALL \<notin> set (role_perms_for DataEntryOnlyRole XForm)"
proof -
  define db' where "db' = tbl_role_add DataEntryOnlyRole (User u) (Project, proj_pk pr) db"
  have grp: "group_members db' = group_members db"
    by (rule ext) (simp add: db'_def group_members_def group_table_role_add)
  have perms: "set (tbl_get_perms db' (User u) (Project, proj_pk pr))
      = set (role_perms_for DataEntryOnlyRole Project)"
    using assms(1) by (simp add: tbl_get_perms_user db'_def tbl.direct_role_add grp [unfolded db'_def])
  have "get_role (role_perms_for DataEntryOnlyRole Project) Project = Some ''dataentry''"
    by code_simp
  with get_role_cong [OF perms]
  have n: "get_role (tbl_get_perms db' (User u) (Project, proj_pk pr)) Project = Some ''dataentry''"
    by simp
  have "map_of ROLES ''dataentry'' = Some DataEntryRole"
    using ROLES_role_name [of DataEntryRole] by (simp add: ROLES_ORDERED_def)
  moreover have "role_perms_for DataEntryOnlyRole Project \<noteq> []"
    by (simp add: role_perms_for_def role_tables)
  then have "tbl_get_perms db' (User u) (Project, proj_pk pr) \<noteq> []"
    using perms by (metis set_empty)
  ultimately have "tbl_direct
      (set_project_perms_to_object guardian teams profiles (XForm, k) cb pr db') (User u) (XForm, k)
      = set (role_perms_for DataEntryRole XForm)"
    using set_project_perms_role [OF _ assms(2) n, where ob = "(XForm, k)"]
    by (simp add: is_xform_def)
  then show ?thesis
    by (simp add: db'_def) (simp add: role_perms_for_def role_tables)
qed

theorem dataentry_only_escalates_on_new_form_witness:
  "CAN_VIEW_XFORM_ALL \<in> tbl_direct
      (set_project_perms_to_object (\<lambda>_ _ _. []) [] [] (XForm, 5) (Some ''alice'')
        \<lparr>proj_pk = 1, proj_org = ''org''\<rparr>
        (tbl_role_add DataEntryOnlyRole (User ''bob'') (Project, 1) \<lparr>perm_rows = [], group_table = []\<rparr>))
      (User ''bob'') (XForm, 5)"
  using dataentry_only_escalates_on_new_form
    [of "''bob''" "\<lparr>perm_rows = [], group_table = []\<rparr>" "\<lparr>proj_pk = 1, proj_org = ''org''\<rparr>"
      "Some ''alice''" "\<lambda>_ _ _. []" "[]" "[]" 5]
  by (simp add: tbl_direct_def)

text \<open>C5: the two queryset filters agree on the submissions of the form itself: excluding
  other users' submissions from any queryset and then looking at this form's rows gives what
  filtering the form's rows by submitter gives.  In particular a user without the view-all
  permission sees none but the own submissions once meta permissions are on.\<close>

theorem meta_perms_filters_agree:
  "filter (\<lambda>s. sub_xform s = fa_pk xf)
     (exclude_items_from_queryset_using_xform_meta_perms xf me has_perm qs) =
   filter_queryset_xform_meta_perms xf me has_perm (filter (\<lambda>s. sub_xform s = fa_pk xf) qs)
   \<and> (sees_all xf has_perm \<or>
      {s \<in> set (filter_queryset_xform_meta_perms xf me has_perm qs). sub_user s \<noteq> Some me} = {})"
  by (auto simp: exclude_items_from_queryset_using_xform_meta_perms_def
      filter_queryset_xform_meta_perms_def intro: filter_cong)

text \<open>The constraint on the submitter a restricted query carries: in the dictionary itself,
  or in the first element of the list.\<close>

fun carries_own :: "string \<Rightarrow> pyval \<Rightarrow> bool" where
  "carries_own me (PDict d) = (map_of d ''_submitted_by'' = Some (PStr me))"
| "carries_own me (PList (PDict d # _)) = (map_of d ''_submitted_by'' = Some (PStr me))"
| "carries_own me _ = False"

lemma carries_own_update_own: "carries_own me (update_own me v)"
  by (cases v) (auto simp: own_query_def)

text \<open>The JSON variant of the filter never lets a restricted user's query through
  unrestricted: whatever the query text, the answer is an error or a query that demands the
  user's own submissions.\<close>

theorem meta_perms_sql_restricts:
  assumes "\<not> sees_all xf has_perm"
    and "filter_queryset_xform_meta_perms_sql loads xf me has_perm query = Inr q"
  shows "carries_own me q"
proof -
  have own: "carries_own me (PList [own_query me, v])" for v
    by (simp add: own_query_def)
  show ?thesis
    using assms
    by (auto simp: filter_queryset_xform_meta_perms_sql_def carries_own_update_own own
        split: if_splits pyval.splits list.splits option.splits)
qed

theorem meta_perms_sql_restricts_witness:
  "filter_queryset_xform_meta_perms_sql (\<lambda>_. Some (PList [PInt 3]))
      \<lparr>fa_pk = 1, fa_shared_data = False, fa_metadata = [XFORM_META_PERMS]\<rparr> ''bob''
      (\<lambda>p. p = CAN_VIEW_XFORM_DATA) (PStr ''[3]'') = Inr (PList [own_query ''bob'', PInt 3])
   \<and> carries_own ''bob'' (PList [own_query ''bob'', PInt 3])"
proof -
  let ?xf = "\<lparr>fa_pk = 1, fa_shared_data = False, fa_metadata = [XFORM_META_PERMS]\<rparr>"
  have q: "filter_queryset_xform_meta_perms_sql (\<lambda>_. Some (PList [PInt 3])) ?xf ''bob''
      (\<lambda>p. p = CAN_VIEW_XFORM_DATA) (PStr ''[3]'') = Inr (PList [own_query ''bob'', PInt 3])"
    by (simp add: filter_queryset_xform_meta_perms_sql_def sees_all_def check_meta_perms_enabled_def)
  show ?thesis
    using q meta_perms_sql_restricts [OF _ q]
    by (simp add: sees_all_def check_meta_perms_enabled_def)
qed

end
