(* ===== verification/Deactivation.thy ===== *)
theory Deactivation
  imports Py_Time
begin

text \<open>
  The inactive account lifecycle of \<open>onadata/apps/main/models/user_deactivation.py\<close>
  and the activity tracking it is driven by (\<open>user_activity.py\<close>): when an account
  becomes due, which warnings are owed, what deactivation and reactivation change,
  and the report.

  \<open>dsettings\<close> are the Django settings the
  code reads (\<open>None\<close>: not set), \<open>ddb\<close> the tables it reads and writes; the
  row order of a table is the order in which an unordered query yields it.  A raised
  \<open>ValueError\<close> or \<open>DoesNotExist\<close> is \<open>Inl\<close>, and since every writer runs
  in \<open>transaction.atomic\<close> the database is then unchanged.  The clock value the code
  takes from \<open>timezone.now()\<close>, or gets as \<open>when\<close>, is an argument.
\<close>

section \<open>Data\<close>

abbreviation PERMISSION_POLICY_PRESERVE :: string where
  "PERMISSION_POLICY_PRESERVE \<equiv> ''preserve''"
abbreviation PERMISSION_POLICY_REVOKE :: string where
  "PERMISSION_POLICY_REVOKE \<equiv> ''revoke''"
abbreviation DEACTIVATION_ACTION_SEND_WARNING :: string where
  "DEACTIVATION_ACTION_SEND_WARNING \<equiv> ''send_warning''"
abbreviation DEACTIVATION_ACTION_DEACTIVATE :: string where
  "DEACTIVATION_ACTION_DEACTIVATE \<equiv> ''deactivate''"
abbreviation DEACTIVATION_ACTION_NONE :: string where
  "DEACTIVATION_ACTION_NONE \<equiv> ''none''"
abbreviation DEACTIVATION_REPORT_COHORT_DUE_WARNING :: string where
  "DEACTIVATION_REPORT_COHORT_DUE_WARNING \<equiv> ''due_for_warning''"
abbreviation DEACTIVATION_REPORT_COHORT_DUE_DEACTIVATION :: string where
  "DEACTIVATION_REPORT_COHORT_DUE_DEACTIVATION \<equiv> ''due_for_deactivation''"
abbreviation DEACTIVATION_REPORT_COHORT_ALREADY_WARNED :: string where
  "DEACTIVATION_REPORT_COHORT_ALREADY_WARNED \<equiv> ''already_warned''"
abbreviation DEACTIVATION_REPORT_COHORT_SKIPPED :: string where
  "DEACTIVATION_REPORT_COHORT_SKIPPED \<equiv> ''skipped''"
abbreviation DEACTIVATION_REPORT_COHORT_RECENTLY_DEACTIVATED :: string where
  "DEACTIVATION_REPORT_COHORT_RECENTLY_DEACTIVATED \<equiv> ''recently_deactivated''"
abbreviation DEACTIVATION_REPORT_COHORT_RECENTLY_REACTIVATED :: string where
  "DEACTIVATION_REPORT_COHORT_RECENTLY_REACTIVATED \<equiv> ''recently_reactivated''"
abbreviation DEACTIVATION_EXCLUSION_INACTIVE :: string where
  "DEACTIVATION_EXCLUSION_INACTIVE \<equiv> ''inactive''"
abbreviation DEACTIVATION_EXCLUSION_STAFF :: string where
  "DEACTIVATION_EXCLUSION_STAFF \<equiv> ''staff''"
abbreviation DEACTIVATION_EXCLUSION_SUPERUSER :: string where
  "DEACTIVATION_EXCLUSION_SUPERUSER \<equiv> ''superuser''"
abbreviation DEACTIVATION_EXCLUSION_ORGANIZATION :: string where
  "DEACTIVATION_EXCLUSION_ORGANIZATION \<equiv> ''organization''"
abbreviation DEACTIVATION_EXCLUSION_USER_ID :: string where
  "DEACTIVATION_EXCLUSION_USER_ID \<equiv> ''excluded_user_id''"
abbreviation DEACTIVATION_EXCLUSION_USERNAME :: string where
  "DEACTIVATION_EXCLUSION_USERNAME \<equiv> ''excluded_username''"
abbreviation DEFAULT_DEACTIVATION_INACTIVITY_DAYS :: int where
  "DEFAULT_DEACTIVATION_INACTIVITY_DAYS \<equiv> 365"
abbreviation DEFAULT_DEACTIVATION_WARNING_DAYS :: "int list" where
  "DEFAULT_DEACTIVATION_WARNING_DAYS \<equiv> [30, 7]"
abbreviation DEFAULT_DEACTIVATION_PERMISSION_POLICY :: string where
  "DEFAULT_DEACTIVATION_PERMISSION_POLICY \<equiv> PERMISSION_POLICY_REVOKE"
abbreviation DEFAULT_DEACTIVATION_REPORT_WINDOW_DAYS :: int where
  "DEFAULT_DEACTIVATION_REPORT_WINDOW_DAYS \<equiv> 30"
definition PERMISSION_SNAPSHOT_BATCH_SIZE :: nat where
  "PERMISSION_SNAPSHOT_BATCH_SIZE = 1000"
definition CSV_FORMULA_PREFIXES :: "char list" where
  "CSV_FORMULA_PREFIXES =
     [CHR ''='', CHR ''+'', CHR ''-'', CHR ''@'', CHR 0x09, CHR 0x0D]"

definition DEACTIVATION_REPORT_COLUMNS :: "string list" where
  "DEACTIVATION_REPORT_COLUMNS =
     [''username'', ''email'', ''display_name'', ''last_login'', ''computed_last_activity'',
      ''deactivation_scheduled_at'', ''warnings_sent'', ''cohort'', ''next_action'',
      ''next_action_date'', ''exclusion_reason'', ''permission_policy'',
      ''dry_run_action_summary'']"

datatype derror = ValueError string | DoesNotExist string | DispatchFailed

record dsettings =
  DEACTIVATION_INACTIVITY_DAYS :: "int option"
  DEACTIVATION_WARNING_DAYS :: "int list option"
  DEACTIVATION_EXCLUDED_USER_IDS :: "int list option"
  DEACTIVATION_EXCLUDED_USERNAMES :: "string list option"
  ANONYMOUS_DEFAULT_USERNAME :: "string option"
  DEACTIVATION_PERMISSION_POLICY :: "string option"
  ACTIVITY_TRACKING_MIN_INTERVAL_SECONDS :: "int option"

record duser =
  u_pk :: int
  u_username :: string
  u_email :: string
  u_full_name :: string
  u_active :: bool
  u_staff :: bool
  u_superuser :: bool
  u_last_login :: "time option"
  u_date_joined :: "time option"

text \<open>\<open>UserDeactivationState\<close>.\<close>

record dstate =
  ds_pk :: int
  ds_user :: int
  deactivation_scheduled_at :: "time option"
  first_warning_sent_at :: "time option"
  warned_offsets :: "int list"
  deactivated_at :: "time option"
  reactivated_at :: "time option"
  permissions_revoked_at :: "time option"
  permission_policy_applied :: string

text \<open>
  What a direct permission row points at: a project with its organization, or a form
  with its user, project and that project's organization.
\<close>

datatype content_object =
    ProjectObj (obj_pk: int) (obj_org: int) (obj_repr: string)
  | XFormObj (obj_pk: int) (form_user: "int option") (form_project: int) (obj_org: int)
      (obj_repr: string)

datatype storage_model = ProjectUserObjectPermission | XFormUserObjectPermission

record perm_row =
  pr_pk :: int
  pr_user :: int
  pr_codename :: string
  pr_name :: string
  pr_object :: content_object

text \<open>The model a row is stored in, and \<open>_meta.label\<close>.\<close>

definition row_model :: "perm_row \<Rightarrow> storage_model" where
  "row_model r =
     (case pr_object r of ProjectObj _ _ _ \<Rightarrow> ProjectUserObjectPermission
      | XFormObj _ _ _ _ _ \<Rightarrow> XFormUserObjectPermission)"

fun model_label :: "storage_model \<Rightarrow> string" where
  "model_label ProjectUserObjectPermission = ''logger.ProjectUserObjectPermission''"
| "model_label XFormUserObjectPermission = ''logger.XFormUserObjectPermission''"

text \<open>\<open>UserDeactivationPermissionSnapshot\<close>.\<close>

record snapshot =
  sn_state :: int
  sn_user :: int
  permission_storage_model :: string
  permission_record_id :: int
  permission_codename :: string
  permission_name :: string
  sn_content_type :: storage_model
  sn_object_id :: int
  object_repr :: string
  source_organization_id :: int
  source_project_id :: int
  source_form_id :: "int option"
  deactivation_run_id :: string
  removed_at :: time

record dorg =
  org_user :: int
  org_creator :: int
  org_created_by :: "int option"

record dteam =
  team_pk :: int
  team_name :: string
  team_organization :: int

text \<open>The columns of \<open>Instance\<close> that date a user's submissions and edits.\<close>

record dinstance =
  di_user :: "int option"
  di_date_created :: "time option"
  di_last_edited_by :: "int option"
  di_last_edited :: "time option"

text \<open>
  The database.  Token tables are reduced to the owning user (with the status for ODK
  tokens).  \<open>outbox\<close> is what the dispatch function was called with: the user, the
  time of the call and the deactivation date the mail announces.
\<close>

record ddb =
  users :: "int \<Rightarrow> duser option"
  activities :: "int \<Rightarrow> time option"
  activity_cache :: "int \<Rightarrow> time option"
  states :: "dstate list"
  snapshots :: "snapshot list"
  perms :: "perm_row list"
  refresh_tokens :: "int list"
  access_tokens :: "int list"
  api_tokens :: "int list"
  temp_tokens :: "int list"
  odk_tokens :: "(int \<times> string) list"
  orgs :: "dorg list"
  teams :: "dteam list"
  group_members :: "(int \<times> int) list"
  instances :: "dinstance list"
  outbox :: "(int \<times> time \<times> time option) list"

abbreviation ODK_ACTIVE :: string where "ODK_ACTIVE \<equiv> ''1''"
abbreviation ODK_INACTIVE :: string where "ODK_INACTIVE \<equiv> ''2''"
abbreviation OWNER_TEAM_SUFFIX :: string where "OWNER_TEAM_SUFFIX \<equiv> ''#Owners''"

text \<open>\<open>user is None or not getattr(user, "pk", None)\<close>: the pk \<open>0\<close> is an unsaved object.\<close>

definition no_pk :: "duser option \<Rightarrow> bool" where
  "no_pk uo = (case uo of None \<Rightarrow> True | Some u \<Rightarrow> u_pk u = 0)"

section \<open>Settings\<close>

definition get_deactivation_inactivity_days :: "dsettings \<Rightarrow> derror + int" where
  "get_deactivation_inactivity_days cfg =
     (let n = (case DEACTIVATION_INACTIVITY_DAYS cfg of
                 None \<Rightarrow> DEFAULT_DEACTIVATION_INACTIVITY_DAYS | Some v \<Rightarrow> v)
      in if n \<le> 0
         then Inl (ValueError ''DEACTIVATION_INACTIVITY_DAYS must be greater than zero'')
         else Inr n)"

definition normalize_warning_days :: "int list \<Rightarrow> int list" where
  "normalize_warning_days offsets = rev (sorted_list_of_set (set (filter (\<lambda>x. 0 < x) offsets)))"

definition get_deactivation_warning_days :: "dsettings \<Rightarrow> int list" where
  "get_deactivation_warning_days cfg =
     normalize_warning_days
       (case DEACTIVATION_WARNING_DAYS cfg of
          None \<Rightarrow> DEFAULT_DEACTIVATION_WARNING_DAYS | Some v \<Rightarrow> v)"

definition get_deactivation_excluded_user_ids :: "dsettings \<Rightarrow> int list" where
  "get_deactivation_excluded_user_ids cfg =
     (case DEACTIVATION_EXCLUDED_USER_IDS cfg of None \<Rightarrow> [] | Some v \<Rightarrow> v)"

definition get_deactivation_excluded_usernames :: "dsettings \<Rightarrow> string list" where
  "get_deactivation_excluded_usernames cfg =
     filter (\<lambda>u. u \<noteq> [])
       (remdups ((case ANONYMOUS_DEFAULT_USERNAME cfg of None \<Rightarrow> [] | Some a \<Rightarrow> a)
          # (case DEACTIVATION_EXCLUDED_USERNAMES cfg of None \<Rightarrow> [] | Some v \<Rightarrow> v)))"

definition get_deactivation_permission_policy :: "dsettings \<Rightarrow> derror + string" where
  "get_deactivation_permission_policy cfg =
     (let p = (case DEACTIVATION_PERMISSION_POLICY cfg of
                 None \<Rightarrow> DEFAULT_DEACTIVATION_PERMISSION_POLICY | Some v \<Rightarrow> v)
      in if p \<notin> {PERMISSION_POLICY_PRESERVE, PERMISSION_POLICY_REVOKE}
         then Inl (ValueError (''DEACTIVATION_PERMISSION_POLICY must be '' @ join '' or ''
                 (map (\<lambda>v. CHR 0x27 # v @ [CHR 0x27])
                   [PERMISSION_POLICY_PRESERVE, PERMISSION_POLICY_REVOKE])))
         else Inr p)"

section \<open>Formatting\<close>

definition format_warning_offsets :: "int list \<Rightarrow> string" where
  "format_warning_offsets offsets = join '','' (map show_int (normalize_warning_days offsets))"

definition format_warning_labels :: "int list \<Rightarrow> string" where
  "format_warning_labels offsets =
     (let labels = map (\<lambda>n. show_int n @ ''-day'') (normalize_warning_days offsets)
      in if labels = [] then ''configured''
         else if length labels = 1 then labels ! 0
         else join '', '' (butlast labels) @ '' and '' @ last labels)"

definition get_deactivation_action_summary ::
    "dsettings \<Rightarrow> string \<Rightarrow> int list \<Rightarrow> string \<Rightarrow> derror + string" where
  "get_deactivation_action_summary cfg action offsets policy =
     (case (if policy \<noteq> [] then Inr policy else get_deactivation_permission_policy cfg) of
        Inl e \<Rightarrow> Inl e
      | Inr p \<Rightarrow>
          Inr (if action = DEACTIVATION_ACTION_SEND_WARNING
               then ''would send '' @ format_warning_labels offsets @ '' warning email''
               else if action = DEACTIVATION_ACTION_DEACTIVATE
               then ''would deactivate user and revoke tokens''
                 @ (if p = PERMISSION_POLICY_REVOKE
                    then ''; would snapshot and revoke eligible direct project/form permissions''
                    else ''; would preserve direct project/form permissions'')
               else ''no action''))"

text \<open>Days remaining, rounded up: \<open>ceil(seconds / 86400.0)\<close>, at least 0.\<close>

definition get_deactivation_days_remaining :: "time option \<Rightarrow> time \<Rightarrow> int" where
  "get_deactivation_days_remaining scheduled w =
     (case scheduled of None \<Rightarrow> 0 | Some s \<Rightarrow> max 0 (- ((w - s) div day)))"

section \<open>Schedules\<close>

definition is_organization_user :: "ddb \<Rightarrow> int \<Rightarrow> bool" where
  "is_organization_user db pk = (\<exists>org \<in> set (orgs db). org_user org = pk)"

definition get_deactivation_exclusion_reason ::
    "dsettings \<Rightarrow> ddb \<Rightarrow> duser option \<Rightarrow> string" where
  "get_deactivation_exclusion_reason cfg db uo =
     (if no_pk uo then []
      else (case uo of None \<Rightarrow> []
            | Some u \<Rightarrow>
                if \<not> u_active u then DEACTIVATION_EXCLUSION_INACTIVE
                else if u_staff u then DEACTIVATION_EXCLUSION_STAFF
                else if u_superuser u then DEACTIVATION_EXCLUSION_SUPERUSER
                else if is_organization_user db (u_pk u) then DEACTIVATION_EXCLUSION_ORGANIZATION
                else if u_pk u \<in> set (get_deactivation_excluded_user_ids cfg)
                then DEACTIVATION_EXCLUSION_USER_ID
                else if u_username u \<in> set (get_deactivation_excluded_usernames cfg)
                then DEACTIVATION_EXCLUSION_USERNAME
                else []))"

definition get_effective_deactivation_scheduled_at ::
    "dsettings \<Rightarrow> dstate \<Rightarrow> time \<Rightarrow> time option" where
  "get_effective_deactivation_scheduled_at cfg st w =
     (case deactivation_scheduled_at st of
        None \<Rightarrow> None
      | Some s \<Rightarrow>
          (case get_deactivation_warning_days cfg of
             [] \<Rightarrow> Some s
           | req # _ \<Rightarrow>
               if req \<in> set (warned_offsets st)
               then (case first_warning_sent_at st of
                       None \<Rightarrow> Some s
                     | Some f \<Rightarrow> Some (max s (f + days req)))
               else Some (max s (w + days req))))"

definition get_deactivation_scheduled_at ::
    "dsettings \<Rightarrow> time \<Rightarrow> int option \<Rightarrow> bool \<Rightarrow> time \<Rightarrow> derror + time" where
  "get_deactivation_scheduled_at cfg last_activity inactivity_days apply_grace w =
     (case (case inactivity_days of
              Some n \<Rightarrow> if n = 0 then get_deactivation_inactivity_days cfg else Inr n
            | None \<Rightarrow> get_deactivation_inactivity_days cfg) of
        Inl e \<Rightarrow> Inl e
      | Inr n \<Rightarrow>
          (let s = last_activity + days n
           in if apply_grace
              then (case get_deactivation_warning_days cfg of
                      [] \<Rightarrow> Inr s
                    | req # _ \<Rightarrow> if s \<le> w then Inr (w + days req) else Inr s)
              else Inr s))"

section \<open>Permission revocation\<close>

definition get_permission_revocation_protected_organization_ids ::
    "ddb \<Rightarrow> duser option \<Rightarrow> int list" where
  "get_permission_revocation_protected_organization_ids db uo =
     (if no_pk uo then []
      else (case uo of None \<Rightarrow> []
            | Some u \<Rightarrow>
                map org_user
                  (filter (\<lambda>org. org_creator org = u_pk u \<or> org_created_by org = Some (u_pk u))
                    (orgs db))
                @ map team_organization
                    (filter (\<lambda>t. (team_pk t, u_pk u) \<in> set (group_members db)
                                 \<and> suffix OWNER_TEAM_SUFFIX (team_name t)) (teams db))))"

text \<open>The rows of one storage model the two querysets keep, in table order.\<close>

definition revocable_project_row :: "int \<Rightarrow> int list \<Rightarrow> perm_row \<Rightarrow> bool" where
  "revocable_project_row pk protected r =
     (case pr_object r of
        ProjectObj _ org _ \<Rightarrow> pr_user r = pk \<and> org \<noteq> pk \<and> org \<notin> set protected
      | XFormObj _ _ _ _ _ \<Rightarrow> False)"

definition revocable_xform_row :: "int \<Rightarrow> int list \<Rightarrow> perm_row \<Rightarrow> bool" where
  "revocable_xform_row pk protected r =
     (case pr_object r of
        ProjectObj _ _ _ \<Rightarrow> False
      | XFormObj _ fu _ org _ \<Rightarrow>
          pr_user r = pk \<and> org \<noteq> pk
          \<and> \<not> (org \<in> set protected \<or> (case fu of None \<Rightarrow> False | Some f \<Rightarrow> f \<in> set protected)))"

definition get_revocable_user_permission_rows :: "ddb \<Rightarrow> duser option \<Rightarrow> perm_row list" where
  "get_revocable_user_permission_rows db uo =
     (if no_pk uo then []
      else (case uo of None \<Rightarrow> []
            | Some u \<Rightarrow>
                (let protected = get_permission_revocation_protected_organization_ids db uo
                 in filter (revocable_project_row (u_pk u) protected) (perms db)
                    @ filter (revocable_xform_row (u_pk u) protected) (perms db))))"

fun permission_snapshot_source_ids :: "content_object \<Rightarrow> int \<times> int \<times> int option" where
  "permission_snapshot_source_ids (ProjectObj pk org r) = (org, pk, None)"
| "permission_snapshot_source_ids (XFormObj pk fu proj org r) = (org, proj, Some pk)"

definition build_permission_snapshot ::
    "dstate \<Rightarrow> perm_row \<Rightarrow> time \<Rightarrow> string \<Rightarrow> snapshot" where
  "build_permission_snapshot st r removed run_id =
     (let ob = pr_object r; (org, proj, form) = permission_snapshot_source_ids ob
      in \<lparr>sn_state = ds_pk st, sn_user = ds_user st,
          permission_storage_model = model_label (row_model r),
          permission_record_id = pr_pk r, permission_codename = pr_codename r,
          permission_name = pr_name r, sn_content_type = row_model r,
          sn_object_id = obj_pk ob, object_repr = take 255 (obj_repr ob),
          source_organization_id = org, source_project_id = proj, source_form_id = form,
          deactivation_run_id = run_id, removed_at = removed\<rparr>)"

text \<open>The unique constraint, and \<open>bulk_create(..., ignore_conflicts=True)\<close>.\<close>

definition snapshot_key :: "snapshot \<Rightarrow> int \<times> string \<times> int \<times> string" where
  "snapshot_key s =
     (sn_state s, permission_storage_model s, permission_record_id s, deactivation_run_id s)"

definition insert_snapshot :: "snapshot \<Rightarrow> snapshot list \<Rightarrow> snapshot list" where
  "insert_snapshot s tab = (if snapshot_key s \<in> set (map snapshot_key tab) then tab else tab @ [s])"

definition snapshot_permission_batch ::
    "dstate \<Rightarrow> perm_row list \<Rightarrow> time \<Rightarrow> string \<Rightarrow> ddb \<Rightarrow> ddb \<times> nat" where
  "snapshot_permission_batch st rows removed run_id db =
     (let existing =
            map (\<lambda>s. (permission_storage_model s, permission_record_id s))
              (filter (\<lambda>s. sn_state s = ds_pk st \<and> deactivation_run_id s = run_id
                 \<and> permission_storage_model s \<in> set (map (\<lambda>r. model_label (row_model r)) rows)
                 \<and> permission_record_id s \<in> set (map pr_pk rows)) (snapshots db));
          new = map (\<lambda>r. build_permission_snapshot st r removed run_id)
                  (filter (\<lambda>r. (model_label (row_model r), pr_pk r) \<notin> set existing) rows)
      in (db\<lparr>snapshots := fold insert_snapshot new (snapshots db)\<rparr>, length new))"

definition permission_ids_by_model :: "perm_row list \<Rightarrow> (storage_model, int list) dict" where
  "permission_ids_by_model rows =
     fold (\<lambda>r d. AList.update (row_model r)
             ((case map_of d (row_model r) of None \<Rightarrow> [] | Some ids \<Rightarrow> ids) @ [pr_pk r]) d)
       rows []"

text \<open>\<open>model.objects.filter(pk__in=ids, user=user)\<close>.\<close>

definition stored_row :: "int \<Rightarrow> storage_model \<Rightarrow> int list \<Rightarrow> perm_row \<Rightarrow> bool" where
  "stored_row user model ids r \<longleftrightarrow>
     row_model r = model \<and> pr_pk r \<in> set ids \<and> pr_user r = user"

definition delete_permission_batch :: "int \<Rightarrow> perm_row list \<Rightarrow> ddb \<Rightarrow> ddb \<times> nat" where
  "delete_permission_batch user rows db =
     fold (\<lambda>(model, ids) (db, n).
             (db\<lparr>perms := filter (\<lambda>r. \<not> stored_row user model ids r) (perms db)\<rparr>,
              n + length (filter (stored_row user model ids) (perms db))))
       (permission_ids_by_model rows) (db, 0)"

text \<open>
  \<open>get_deactivation_run_id\<close>, and the batch loops: a batch is flushed when it has
  reached the batch size, and a last partial batch after the loop.
\<close>

definition get_deactivation_run_id :: "dstate \<Rightarrow> string" where
  "get_deactivation_run_id st =
     take 64 (''state-'' @ show_int (ds_pk st) @ ''-''
       @ (case deactivation_scheduled_at st of
            None \<Rightarrow> ''unscheduled'' | Some s \<Rightarrow> strftime_compact s))"

fun snapshot_loop ::
    "nat \<Rightarrow> dstate \<Rightarrow> time \<Rightarrow> string \<Rightarrow> perm_row list \<Rightarrow> perm_row list \<Rightarrow> ddb \<times> nat \<Rightarrow> ddb \<times> nat" where
  "snapshot_loop bsize st w run_id batch [] (db, stored) =
     (if batch \<noteq> []
      then (let (db', k) = snapshot_permission_batch st batch w run_id db in (db', stored + k))
      else (db, stored))"
| "snapshot_loop bsize st w run_id batch (r # rs) (db, stored) =
     (let batch' = batch @ [r]
      in if bsize \<le> length batch'
         then (let (db', k) = snapshot_permission_batch st batch' w run_id db
               in snapshot_loop bsize st w run_id [] rs (db', stored + k))
         else snapshot_loop bsize st w run_id batch' rs (db, stored))"

fun revoke_loop ::
    "nat \<Rightarrow> dstate \<Rightarrow> time \<Rightarrow> string \<Rightarrow> perm_row list \<Rightarrow> perm_row list \<Rightarrow> ddb \<times> nat \<times> nat
     \<Rightarrow> ddb \<times> nat \<times> nat" where
  "revoke_loop bsize st w run_id batch [] (db, stored, revoked) =
     (if batch \<noteq> []
      then (let (db1, k) = snapshot_permission_batch st batch w run_id db;
                (db2, d) = delete_permission_batch (ds_user st) batch db1
            in (db2, stored + k, revoked + d))
      else (db, stored, revoked))"
| "revoke_loop bsize st w run_id batch (r # rs) (db, stored, revoked) =
     (let batch' = batch @ [r]
      in if bsize \<le> length batch'
         then (let (db1, k) = snapshot_permission_batch st batch' w run_id db;
                   (db2, d) = delete_permission_batch (ds_user st) batch' db1
               in revoke_loop bsize st w run_id [] rs (db2, stored + k, revoked + d))
         else revoke_loop bsize st w run_id batch' rs (db, stored, revoked))"

definition snapshot_revocable_user_permissions ::
    "dsettings \<Rightarrow> dstate option \<Rightarrow> time \<Rightarrow> string \<Rightarrow> ddb \<Rightarrow> derror + ddb \<times> nat" where
  "snapshot_revocable_user_permissions cfg sto w run_id db =
     (case sto of
        None \<Rightarrow> Inr (db, 0)
      | Some st \<Rightarrow>
          if ds_pk st = 0 then Inr (db, 0)
          else (case get_deactivation_permission_policy cfg of
                  Inl e \<Rightarrow> Inl e
                | Inr p \<Rightarrow>
                    if p \<noteq> PERMISSION_POLICY_REVOKE then Inr (db, 0)
                    else Inr (snapshot_loop PERMISSION_SNAPSHOT_BATCH_SIZE st w run_id []
                           (get_revocable_user_permission_rows db (users db (ds_user st)))
                           (db, 0))))"

definition revoke_revocable_user_permissions ::
    "dsettings \<Rightarrow> dstate option \<Rightarrow> time \<Rightarrow> string \<Rightarrow> ddb \<Rightarrow> derror + ddb \<times> nat \<times> nat" where
  "revoke_revocable_user_permissions cfg sto w run_id db =
     (case sto of
        None \<Rightarrow> Inr (db, 0, 0)
      | Some st \<Rightarrow>
          if ds_pk st = 0 then Inr (db, 0, 0)
          else (case get_deactivation_permission_policy cfg of
                  Inl e \<Rightarrow> Inl e
                | Inr p \<Rightarrow>
                    if p \<noteq> PERMISSION_POLICY_REVOKE then Inr (db, 0, 0)
                    else Inr (revoke_loop PERMISSION_SNAPSHOT_BATCH_SIZE st w
                           (if run_id \<noteq> [] then run_id else get_deactivation_run_id st) []
                           (get_revocable_user_permission_rows db (users db (ds_user st)))
                           (db, 0, 0))))"

definition revoke_user_tokens :: "duser option \<Rightarrow> ddb \<Rightarrow> ddb \<times> nat" where
  "revoke_user_tokens uo db =
     (if no_pk uo then (db, 0)
      else (case uo of None \<Rightarrow> (db, 0)
            | Some u \<Rightarrow>
                (let pk = u_pk u;
                     gone = (\<lambda>ts. length (filter (\<lambda>t. t = pk) ts));
                     keep = filter (\<lambda>t. t \<noteq> pk)
                 in (db\<lparr>refresh_tokens := keep (refresh_tokens db),
                        access_tokens := keep (access_tokens db),
                        api_tokens := keep (api_tokens db),
                        temp_tokens := keep (temp_tokens db),
                        odk_tokens := map (\<lambda>(o', s). if o' = pk \<and> s = ODK_ACTIVE
                                            then (o', ODK_INACTIVE) else (o', s)) (odk_tokens db)\<rparr>,
                     gone (refresh_tokens db) + gone (access_tokens db) + gone (api_tokens db)
                     + gone (temp_tokens db)
                     + length (filter (\<lambda>t. t = (pk, ODK_ACTIVE)) (odk_tokens db))))))"

section \<open>Lifecycle state\<close>

text \<open>\<open>save(update_fields=...)\<close> of the row with a primary key.\<close>

definition save_fields :: "int \<Rightarrow> (dstate \<Rightarrow> dstate) \<Rightarrow> ddb \<Rightarrow> ddb" where
  "save_fields pk f db = db\<lparr>states := map (\<lambda>s. if ds_pk s = pk then f s else s) (states db)\<rparr>"

definition get_state :: "int \<Rightarrow> ddb \<Rightarrow> dstate option" where
  "get_state pk db = find (\<lambda>s. ds_pk s = pk) (states db)"

definition clear_warning_state :: "dstate \<Rightarrow> dstate" where
  "clear_warning_state st = st\<lparr>first_warning_sent_at := None, warned_offsets := []\<rparr>"

definition mark_warning_offsets_sent :: "int list \<Rightarrow> time \<Rightarrow> dstate \<Rightarrow> dstate" where
  "mark_warning_offsets_sent offsets w st =
     st\<lparr>first_warning_sent_at :=
          (case first_warning_sent_at st of None \<Rightarrow> Some w | Some f \<Rightarrow> Some f),
        warned_offsets :=
          normalize_warning_days (warned_offsets st @ normalize_warning_days offsets)\<rparr>"

definition mark_warning_sent :: "int \<Rightarrow> time \<Rightarrow> dstate \<Rightarrow> dstate" where
  "mark_warning_sent offset w st = mark_warning_offsets_sent [offset] w st"

subsection \<open>Activity\<close>

definition latest :: "time option list \<Rightarrow> time option" where
  "latest ts = fold (\<lambda>t a. case (t, a) of (None, _) \<Rightarrow> a | (Some x, None) \<Rightarrow> Some x
                            | (Some x, Some y) \<Rightarrow> Some (max y x)) ts None"

definition get_initial_last_activity :: "ddb \<Rightarrow> duser \<Rightarrow> time \<Rightarrow> time" where
  "get_initial_last_activity db u now =
     (let latest_submission_time =
            (if u_pk u = 0 then None
             else latest (map di_date_created
                    (filter (\<lambda>i. di_user i = Some (u_pk u)) (instances db))));
          latest_edit_time =
            (if u_pk u = 0 then None
             else latest (map di_last_edited
                    (filter (\<lambda>i. di_last_edited_by i = Some (u_pk u)) (instances db))))
      in case latest [u_last_login u, latest_submission_time, latest_edit_time, u_date_joined u] of
           None \<Rightarrow> now | Some t \<Rightarrow> t)"

definition new_dstate :: "int \<Rightarrow> int \<Rightarrow> time \<Rightarrow> dstate" where
  "new_dstate pk user s =
     \<lparr>ds_pk = pk, ds_user = user, deactivation_scheduled_at = Some s,
      first_warning_sent_at = None, warned_offsets = [], deactivated_at = None,
      reactivated_at = None, permissions_revoked_at = None, permission_policy_applied = []\<rparr>"

text \<open>The primary key the database gives a new row.\<close>

definition next_pk :: "dstate list \<Rightarrow> int" where
  "next_pk ss = fold (\<lambda>s m. max m (ds_pk s)) ss 0 + 1"

text \<open>\<open>sync_user_deactivation_state\<close> after the activity row has been read.\<close>

definition sync_schedule ::
    "dsettings \<Rightarrow> time \<Rightarrow> int option \<Rightarrow> int \<Rightarrow> time \<Rightarrow> ddb \<Rightarrow> derror + ddb" where
  "sync_schedule cfg now inactivity_days user last_activity db =
     (case get_deactivation_scheduled_at cfg last_activity inactivity_days True now of
        Inl e \<Rightarrow> Inl e
      | Inr s \<Rightarrow>
          (case find (\<lambda>st. ds_user st = user) (states db) of
             None \<Rightarrow> Inr (db\<lparr>states := states db @ [new_dstate (next_pk (states db)) user s]\<rparr>)
           | Some st \<Rightarrow>
               if deactivation_scheduled_at st = Some s then Inr db
               else Inr (save_fields (ds_pk st)
                      (\<lambda>r. clear_warning_state (r\<lparr>deactivation_scheduled_at := Some s\<rparr>)) db)))"

text \<open>
  Creating the activity row fires \<open>post_save\<close>, whose handler is
  \<open>sync_deactivation_state_from_activity\<close>; the activity then exists, so that inner
  call goes straight to the schedule.
\<close>

definition get_or_create_user_activity ::
    "dsettings \<Rightarrow> time \<Rightarrow> duser \<Rightarrow> ddb \<Rightarrow> derror + ddb \<times> time" where
  "get_or_create_user_activity cfg now u db =
     (case activities db (u_pk u) of
        Some a \<Rightarrow> Inr (db, a)
      | None \<Rightarrow>
          (let a = get_initial_last_activity db u now;
               db1 = db\<lparr>activities := (activities db)(u_pk u \<mapsto> a)\<rparr>
           in case sync_schedule cfg now None (u_pk u) a db1 of
                Inl e \<Rightarrow> Inl e | Inr db2 \<Rightarrow> Inr (db2, a)))"

definition sync_user_deactivation_state ::
    "dsettings \<Rightarrow> time \<Rightarrow> int option \<Rightarrow> duser option \<Rightarrow> ddb \<Rightarrow> derror + ddb" where
  "sync_user_deactivation_state cfg now inactivity_days uo db =
     (if no_pk uo then Inr db
      else (case uo of None \<Rightarrow> Inr db
            | Some u \<Rightarrow>
                (case get_or_create_user_activity cfg now u db of
                   Inl e \<Rightarrow> Inl e
                 | Inr (db1, a) \<Rightarrow> sync_schedule cfg now inactivity_days (u_pk u) a db1)))"

text \<open>
  \<open>add_user_activity_cache_key\<close>: \<open>cache.add\<close> succeeds when there is no unexpired
  entry; \<open>None\<close> when the cache backend fails (\<open>cache_up\<close> is false).
\<close>

definition add_user_activity_cache_key ::
    "bool \<Rightarrow> time \<Rightarrow> int \<Rightarrow> int \<Rightarrow> ddb \<Rightarrow> ddb \<times> bool option" where
  "add_user_activity_cache_key cache_up now pk timeout db =
     (if \<not> cache_up then (db, None)
      else if (case activity_cache db pk of None \<Rightarrow> False | Some expires \<Rightarrow> now < expires)
      then (db, Some False)
      else (db\<lparr>activity_cache := (activity_cache db)(pk \<mapsto> now + timeout * second)\<rparr>, Some True))"

text \<open>The part of \<open>record_user_activity\<close> after the cache check.\<close>

definition record_activity_row ::
    "dsettings \<Rightarrow> time \<Rightarrow> bool \<Rightarrow> int \<Rightarrow> duser \<Rightarrow> ddb \<Rightarrow> derror + ddb" where
  "record_activity_row cfg w force min_interval u db =
     (case activities db (u_pk u) of
        None \<Rightarrow>
          sync_user_deactivation_state cfg w None (Some u)
            (db\<lparr>activities := (activities db)(u_pk u \<mapsto> w)\<rparr>)
      | Some a \<Rightarrow>
          if w \<le> a then Inr db
          else if a < w \<and> (force \<or> a \<le> w - min_interval * second)
          then sync_user_deactivation_state cfg w None (Some u)
                 (db\<lparr>activities := (activities db)(u_pk u \<mapsto> w)\<rparr>)
          else Inr db)"

definition record_user_activity ::
    "dsettings \<Rightarrow> bool \<Rightarrow> duser option \<Rightarrow> time \<Rightarrow> bool \<Rightarrow> ddb \<Rightarrow> derror + ddb" where
  "record_user_activity cfg cache_up uo w force db =
     (if no_pk uo then Inr db
      else (case uo of None \<Rightarrow> Inr db
            | Some u \<Rightarrow>
                if \<not> u_active u then Inr db
                else
                  (let min_interval =
                         (case ACTIVITY_TRACKING_MIN_INTERVAL_SECONDS cfg of
                            None \<Rightarrow> 300 | Some v \<Rightarrow> v)
                   in if \<not> force \<and> 0 < min_interval
                      then (case add_user_activity_cache_key cache_up w (u_pk u) min_interval db of
                              (db1, Some False) \<Rightarrow> Inr db1
                            | (db1, _) \<Rightarrow> record_activity_row cfg w force min_interval u db1)
                      else record_activity_row cfg w force min_interval u db)))"

text \<open>The handler of \<open>post_save\<close> of a new user.\<close>

definition create_user_activity ::
    "dsettings \<Rightarrow> time \<Rightarrow> duser \<Rightarrow> bool \<Rightarrow> ddb \<Rightarrow> derror + ddb" where
  "create_user_activity cfg now u created db =
     (if created then map_sum id fst (get_or_create_user_activity cfg now u db) else Inr db)"

subsection \<open>Querysets\<close>

text \<open>\<open>Q(deactivated_at__isnull=True) | Q(reactivated_at__gt=F("deactivated_at"))\<close>.\<close>

definition not_deactivated :: "dstate \<Rightarrow> bool" where
  "not_deactivated st =
     (case deactivated_at st of
        None \<Rightarrow> True
      | Some d \<Rightarrow> (case reactivated_at st of None \<Rightarrow> False | Some r \<Rightarrow> d < r))"

definition has_current_deactivation :: "dstate \<Rightarrow> bool" where
  "has_current_deactivation st =
     (case deactivated_at st of
        None \<Rightarrow> False
      | Some d \<Rightarrow> (case reactivated_at st of None \<Rightarrow> True | Some r \<Rightarrow> r \<le> d))"

definition is_active_deactivation_state :: "dsettings \<Rightarrow> ddb \<Rightarrow> dstate \<Rightarrow> bool" where
  "is_active_deactivation_state cfg db st =
     (case users db (ds_user st) of
        None \<Rightarrow> False
      | Some u \<Rightarrow>
          not_deactivated st \<and> u_active u \<and> \<not> u_staff u \<and> \<not> u_superuser u
          \<and> \<not> is_organization_user db (ds_user st)
          \<and> deactivation_scheduled_at st \<noteq> None
          \<and> ds_user st \<notin> set (get_deactivation_excluded_user_ids cfg)
          \<and> u_username u \<notin> set (get_deactivation_excluded_usernames cfg))"

definition get_active_deactivation_states :: "dsettings \<Rightarrow> ddb \<Rightarrow> dstate list" where
  "get_active_deactivation_states cfg db =
     filter (is_active_deactivation_state cfg db) (states db)"

text \<open>A comparison with a NULL column is not true.\<close>

definition sql_le :: "time option \<Rightarrow> time \<Rightarrow> bool" where
  "sql_le c t = (case c of None \<Rightarrow> False | Some x \<Rightarrow> x \<le> t)"

definition sql_gt :: "time option \<Rightarrow> time \<Rightarrow> bool" where
  "sql_gt c t = (case c of None \<Rightarrow> False | Some x \<Rightarrow> t < x)"

definition sql_ge :: "time option \<Rightarrow> time \<Rightarrow> bool" where
  "sql_ge c t = (case c of None \<Rightarrow> False | Some x \<Rightarrow> t \<le> x)"

definition due_for_warning :: "dsettings \<Rightarrow> int \<Rightarrow> time \<Rightarrow> dstate \<Rightarrow> bool" where
  "due_for_warning cfg offset w st =
     (let cutoff = w + days offset; s = deactivation_scheduled_at st;
          upcoming = sql_gt s w \<and> sql_le s cutoff
      in offset \<notin> set (warned_offsets st)
         \<and> (case get_deactivation_warning_days cfg of
              [] \<Rightarrow> upcoming
            | req # _ \<Rightarrow>
                if offset = req then upcoming \<or> sql_le s w
                else req \<in> set (warned_offsets st) \<and> upcoming))"

definition get_deactivation_states_due_for_warning ::
    "dsettings \<Rightarrow> ddb \<Rightarrow> int \<Rightarrow> time \<Rightarrow> dstate list" where
  "get_deactivation_states_due_for_warning cfg db offset w =
     filter (due_for_warning cfg offset w) (get_active_deactivation_states cfg db)"

definition due_for_deactivation :: "dsettings \<Rightarrow> time \<Rightarrow> dstate \<Rightarrow> bool" where
  "due_for_deactivation cfg w st =
     (sql_le (deactivation_scheduled_at st) w
      \<and> (case get_deactivation_warning_days cfg of
           [] \<Rightarrow> True
         | req # _ \<Rightarrow>
             sql_le (first_warning_sent_at st) (w - days req) \<and> req \<in> set (warned_offsets st)))"

definition get_deactivation_states_due_for_deactivation ::
    "dsettings \<Rightarrow> ddb \<Rightarrow> time \<Rightarrow> dstate list" where
  "get_deactivation_states_due_for_deactivation cfg db w =
     filter (due_for_deactivation cfg w) (get_active_deactivation_states cfg db)"

text \<open>\<open>order_by("deactivation_scheduled_at", "user_id")\<close> and its descending variants.\<close>

definition time_key :: "time option \<Rightarrow> time" where
  "time_key c = (case c of None \<Rightarrow> 0 | Some t \<Rightarrow> t)"

definition order_states :: "(dstate \<Rightarrow> time) \<Rightarrow> dstate list \<Rightarrow> dstate list" where
  "order_states key ss = sort_key key (sort_key ds_user ss)"

abbreviation by_schedule :: "dstate list \<Rightarrow> dstate list" where
  "by_schedule \<equiv> order_states (\<lambda>s. time_key (deactivation_scheduled_at s))"

subsection \<open>Pending actions\<close>

record action_plan =
  ap_state :: dstate
  ap_action :: string
  ap_when :: time
  ap_offsets :: "int list"
  ap_policy :: string

definition add_warning_action ::
    "time \<Rightarrow> string \<Rightarrow> int \<Rightarrow> dstate \<Rightarrow> (int, action_plan) dict \<Rightarrow> (int, action_plan) dict" where
  "add_warning_action w policy offset st acts =
     AList.update (ds_pk st)
       (case map_of acts (ds_pk st) of
          None \<Rightarrow> \<lparr>ap_state = st, ap_action = DEACTIVATION_ACTION_SEND_WARNING, ap_when = w,
                   ap_offsets = [offset], ap_policy = policy\<rparr>
        | Some a \<Rightarrow> a\<lparr>ap_offsets := normalize_warning_days (ap_offsets a @ [offset])\<rparr>)
       acts"

definition get_pending_deactivation_actions ::
    "dsettings \<Rightarrow> ddb \<Rightarrow> time \<Rightarrow> derror + action_plan list" where
  "get_pending_deactivation_actions cfg db w =
     (case get_deactivation_permission_policy cfg of
        Inl e \<Rightarrow> Inl e
      | Inr policy \<Rightarrow>
          (let due = by_schedule (get_deactivation_states_due_for_deactivation cfg db w);
               acts0 = fold (\<lambda>st acts. AList.update (ds_pk st)
                          \<lparr>ap_state = st, ap_action = DEACTIVATION_ACTION_DEACTIVATE, ap_when = w,
                           ap_offsets = [], ap_policy = policy\<rparr> acts) due [];
               ids = map fst acts0;
               acts = fold (\<lambda>offset acts.
                        fold (add_warning_action w policy offset)
                          (filter (\<lambda>st. ds_pk st \<notin> set ids)
                            (by_schedule (get_deactivation_states_due_for_warning cfg db offset w)))
                          acts)
                      (get_deactivation_warning_days cfg) acts0
           in Inr (map snd acts)))"

definition get_next_deactivation_action ::
    "dsettings \<Rightarrow> ddb \<Rightarrow> dstate \<Rightarrow> time \<Rightarrow> string \<times> time option \<times> int list" where
  "get_next_deactivation_action cfg db st w =
     (case get_effective_deactivation_scheduled_at cfg st w of
        None \<Rightarrow> (DEACTIVATION_ACTION_NONE, None, [])
      | Some eff \<Rightarrow>
          if get_deactivation_exclusion_reason cfg db (users db (ds_user st)) \<noteq> []
          then (DEACTIVATION_ACTION_NONE, None, [])
          else (case find (\<lambda>o'. o' \<notin> set (warned_offsets st)) (get_deactivation_warning_days cfg) of
                  Some offset \<Rightarrow>
                    (DEACTIVATION_ACTION_SEND_WARNING, Some (max (eff - days offset) w), [offset])
                | None \<Rightarrow> (DEACTIVATION_ACTION_DEACTIVATE, Some (max eff w), [])))"

subsection \<open>Warnings\<close>

definition get_due_warning_offsets ::
    "dsettings \<Rightarrow> ddb \<Rightarrow> dstate \<Rightarrow> int list \<Rightarrow> time \<Rightarrow> int list" where
  "get_due_warning_offsets cfg db st offsets w =
     normalize_warning_days
       (filter (\<lambda>offset. \<exists>s \<in> set (get_deactivation_states_due_for_warning cfg db offset w).
                           ds_pk s = ds_pk st)
         (normalize_warning_days offsets))"

text \<open>The state object with its schedule possibly moved (and saved), and the offsets left.\<close>

definition apply_required_warning_grace ::
    "dsettings \<Rightarrow> dstate \<Rightarrow> int list \<Rightarrow> time \<Rightarrow> ddb \<Rightarrow> ddb \<times> dstate \<times> int list" where
  "apply_required_warning_grace cfg st offsets w db =
     (case get_deactivation_warning_days cfg of
        [] \<Rightarrow> (db, st, offsets)
      | req # _ \<Rightarrow>
          (let offsets = normalize_warning_days offsets
           in if req \<notin> set offsets then (db, st, offsets)
              else
                (let eff = get_effective_deactivation_scheduled_at cfg st w;
                     (db', st') =
                       (case (eff, deactivation_scheduled_at st) of
                          (Some e, Some s) \<Rightarrow>
                            if s < e
                            then (save_fields (ds_pk st)
                                    (\<lambda>r. r\<lparr>deactivation_scheduled_at := Some e\<rparr>) db,
                                  st\<lparr>deactivation_scheduled_at := Some e\<rparr>)
                            else (db, st)
                        | _ \<Rightarrow> (db, st))
                 in (db', st',
                     filter (\<lambda>o'. sql_le (deactivation_scheduled_at st') (w + days o')) offsets))))"

text \<open>
  The mail a warning sends: the recipient, the days remaining and the announced date
  (\<open>get_account_deactivation_email_data\<close> renders them with templates).
\<close>

record warning_email =
  em_email :: string
  em_username :: string
  em_days_remaining :: int
  em_deactivation_date :: "time option"

definition get_deactivation_warning_email_data ::
    "dsettings \<Rightarrow> duser \<Rightarrow> dstate \<Rightarrow> time \<Rightarrow> warning_email" where
  "get_deactivation_warning_email_data cfg u st w =
     (let eff = get_effective_deactivation_scheduled_at cfg st w
      in \<lparr>em_email = u_email u, em_username = u_username u,
          em_days_remaining = get_deactivation_days_remaining eff w, em_deactivation_date = eff\<rparr>)"

record warning_result =
  wr_state :: dstate
  wr_offsets :: "int list"
  wr_email :: string
  wr_sent :: bool

text \<open>
  \<open>dispatch\<close> says whether the caller's dispatch function, given the mail, returns; when
  it raises the transaction is rolled back.
\<close>

definition dispatch_deactivation_warning ::
    "dsettings \<Rightarrow> (warning_email \<Rightarrow> bool) \<Rightarrow> action_plan option \<Rightarrow> time \<Rightarrow> ddb
     \<Rightarrow> derror + ddb \<times> warning_result" where
  "dispatch_deactivation_warning cfg dispatch plan w db =
     (case plan of
        None \<Rightarrow> Inl (ValueError ''Only send warning action plans can be dispatched'')
      | Some p \<Rightarrow>
          if ap_action p \<noteq> DEACTIVATION_ACTION_SEND_WARNING
          then Inl (ValueError ''Only send warning action plans can be dispatched'')
          else
            (case get_state (ds_pk (ap_state p)) db of
               None \<Rightarrow> Inl (DoesNotExist ''UserDeactivationState'')
             | Some st \<Rightarrow>
                 (case users db (ds_user st) of
                    None \<Rightarrow> Inl (DoesNotExist ''User'')
                  | Some u \<Rightarrow>
                      (let offsets = get_due_warning_offsets cfg db st (ap_offsets p) w
                       in if offsets = [] \<or> u_email u = []
                          then Inr (db, \<lparr>wr_state = st, wr_offsets = offsets,
                                         wr_email = u_email u, wr_sent = False\<rparr>)
                          else
                            (let (db1, st1, offsets1) =
                                   apply_required_warning_grace cfg st offsets w db;
                                 mail = get_deactivation_warning_email_data cfg u st1 w
                             in if \<not> dispatch mail then Inl DispatchFailed
                                else
                                  (let db2 = db1\<lparr>outbox := outbox db1
                                               @ [(ds_user st, w, em_deactivation_date mail)]\<rparr>;
                                       st2 = mark_warning_offsets_sent offsets1 w st1
                                   in Inr (save_fields (ds_pk st)
                                             (\<lambda>r. r\<lparr>first_warning_sent_at := first_warning_sent_at st2,
                                                    warned_offsets := warned_offsets st2\<rparr>) db2,
                                           \<lparr>wr_state = st2, wr_offsets = offsets1,
                                            wr_email = u_email u, wr_sent = True\<rparr>)))))))"

subsection \<open>Deactivation and reactivation\<close>

record deactivation_result =
  dr_state :: dstate
  dr_deactivated :: bool
  token_revocation_count :: nat
  permission_snapshot_count :: nat
  permission_revocation_count :: nat

definition is_deactivation_due :: "dsettings \<Rightarrow> ddb \<Rightarrow> dstate \<Rightarrow> time \<Rightarrow> bool" where
  "is_deactivation_due cfg db st w =
     (\<exists>s \<in> set (get_deactivation_states_due_for_deactivation cfg db w). ds_pk s = ds_pk st)"

text \<open>\<open>user.is_active = ...; user.save(update_fields=["is_active"])\<close>.\<close>

definition set_user_active :: "int \<Rightarrow> bool \<Rightarrow> ddb \<Rightarrow> ddb" where
  "set_user_active pk b db =
     (case users db pk of
        None \<Rightarrow> db
      | Some u \<Rightarrow> db\<lparr>users := (users db)(pk \<mapsto> u\<lparr>u_active := b\<rparr>)\<rparr>)"

definition unchanged_result :: "dstate \<Rightarrow> deactivation_result" where
  "unchanged_result st =
     \<lparr>dr_state = st, dr_deactivated = False, token_revocation_count = 0,
      permission_snapshot_count = 0, permission_revocation_count = 0\<rparr>"

definition mark_deactivated :: "time \<Rightarrow> time option \<Rightarrow> string \<Rightarrow> dstate \<Rightarrow> dstate" where
  "mark_deactivated w revoked_at policy st =
     st\<lparr>deactivated_at := Some w, permissions_revoked_at := revoked_at,
        permission_policy_applied := policy\<rparr>"

definition deactivate_user ::
    "dsettings \<Rightarrow> dstate option \<Rightarrow> time \<Rightarrow> string \<Rightarrow> ddb \<Rightarrow> derror + ddb \<times> deactivation_result" where
  "deactivate_user cfg sto w run_id db =
     (case sto of
        None \<Rightarrow> Inl (ValueError ''A persisted UserDeactivationState is required'')
      | Some arg \<Rightarrow>
          if ds_pk arg = 0
          then Inl (ValueError ''A persisted UserDeactivationState is required'')
          else
            (case get_state (ds_pk arg) db of
               None \<Rightarrow> Inl (DoesNotExist ''UserDeactivationState'')
             | Some st \<Rightarrow>
                 (case users db (ds_user st) of
                    None \<Rightarrow> Inl (DoesNotExist ''User'')
                  | Some u \<Rightarrow>
                      if has_current_deactivation st \<and> \<not> u_active u
                      then Inr (db, unchanged_result st)
                      else if \<not> is_deactivation_due cfg db st w
                      then Inr (db, unchanged_result st)
                      else if get_deactivation_exclusion_reason cfg db (Some u) \<noteq> []
                      then Inl (ValueError (''Cannot deactivate excluded user: ''
                                  @ get_deactivation_exclusion_reason cfg db (Some u)))
                      else
                        (case get_deactivation_permission_policy cfg of
                           Inl e \<Rightarrow> Inl e
                         | Inr policy \<Rightarrow>
                             (let run_id = (if run_id \<noteq> [] then run_id else get_deactivation_run_id st);
                                  (db1, tokens) = revoke_user_tokens (Some u) db
                              in case (if policy = PERMISSION_POLICY_REVOKE
                                       then revoke_revocable_user_permissions cfg (Some st) w run_id db1
                                       else Inr (db1, 0, 0)) of
                                   Inl e \<Rightarrow> Inl e
                                 | Inr (db2, stored, revoked) \<Rightarrow>
                                     (let revoked_at =
                                            (if policy = PERMISSION_POLICY_REVOKE then Some w else None);
                                          db3 = set_user_active (ds_user st) False db2
                                      in Inr (save_fields (ds_pk st)
                                                (mark_deactivated w revoked_at policy) db3,
                                              \<lparr>dr_state = mark_deactivated w revoked_at policy st,
                                               dr_deactivated = True,
                                               token_revocation_count = tokens,
                                               permission_snapshot_count = stored,
                                               permission_revocation_count = revoked\<rparr>)))))))"

definition perform_deactivation_action ::
    "dsettings \<Rightarrow> action_plan option \<Rightarrow> time option \<Rightarrow> string \<Rightarrow> ddb
     \<Rightarrow> derror + ddb \<times> deactivation_result" where
  "perform_deactivation_action cfg plan w run_id db =
     (case plan of
        None \<Rightarrow> Inl (ValueError ''Only deactivate action plans can be performed'')
      | Some p \<Rightarrow>
          if ap_action p \<noteq> DEACTIVATION_ACTION_DEACTIVATE
          then Inl (ValueError ''Only deactivate action plans can be performed'')
          else deactivate_user cfg (Some (ap_state p))
                 (case w of None \<Rightarrow> ap_when p | Some t \<Rightarrow> t) run_id db)"

record reactivation_result =
  rr_state :: dstate
  rr_reactivated :: bool
  token_created :: bool
  temp_token_created :: bool

text \<open>\<open>get_or_create(user=user)\<close> on a token table.\<close>

definition ensure_token :: "int \<Rightarrow> int list \<Rightarrow> int list \<times> bool" where
  "ensure_token pk ts = (if pk \<in> set ts then (ts, False) else (ts @ [pk], True))"

text \<open>
  The activity row is set to \<open>when\<close>: created (with the signal handler's
  synchronisation) or updated by a queryset \<open>update\<close>, which sends no signal.
\<close>

definition touch_activity :: "dsettings \<Rightarrow> duser \<Rightarrow> time \<Rightarrow> ddb \<Rightarrow> derror + ddb" where
  "touch_activity cfg u w db =
     (let db1 = db\<lparr>activities := (activities db)(u_pk u \<mapsto> w)\<rparr>
      in case activities db (u_pk u) of
           None \<Rightarrow> sync_user_deactivation_state cfg w None (Some u) db1
         | Some a \<Rightarrow> if a \<noteq> w then Inr db1 else Inr db)"

definition mark_reactivated :: "time \<Rightarrow> time \<Rightarrow> dstate \<Rightarrow> dstate" where
  "mark_reactivated w s st =
     clear_warning_state (st\<lparr>reactivated_at := Some w, deactivation_scheduled_at := Some s\<rparr>)"

definition reactivate_user ::
    "dsettings \<Rightarrow> dstate option \<Rightarrow> time \<Rightarrow> ddb \<Rightarrow> derror + ddb \<times> reactivation_result" where
  "reactivate_user cfg sto w db =
     (case sto of
        None \<Rightarrow> Inl (ValueError ''A persisted UserDeactivationState is required'')
      | Some arg \<Rightarrow>
          if ds_pk arg = 0
          then Inl (ValueError ''A persisted UserDeactivationState is required'')
          else
            (case get_state (ds_pk arg) db of
               None \<Rightarrow> Inl (DoesNotExist ''UserDeactivationState'')
             | Some st \<Rightarrow>
                 if \<not> has_current_deactivation st
                 then Inr (db, \<lparr>rr_state = st, rr_reactivated = False,
                                token_created = False, temp_token_created = False\<rparr>)
                 else
                   (case users db (ds_user st) of
                      None \<Rightarrow> Inl (DoesNotExist ''User'')
                    | Some u \<Rightarrow>
                        (let db1 = (if \<not> u_active u then set_user_active (ds_user st) True db else db)
                         in case touch_activity cfg (u\<lparr>u_active := True\<rparr>) w db1 of
                              Inl e \<Rightarrow> Inl e
                            | Inr db2 \<Rightarrow>
                                (let (api, api_new) = ensure_token (ds_user st) (api_tokens db2);
                                     (temp, temp_new) = ensure_token (ds_user st) (temp_tokens db2);
                                     db3 = db2\<lparr>api_tokens := api, temp_tokens := temp\<rparr>
                                 in case get_deactivation_scheduled_at cfg w None False w of
                                      Inl e \<Rightarrow> Inl e
                                    | Inr s \<Rightarrow>
                                        Inr (save_fields (ds_pk st) (mark_reactivated w s) db3,
                                             \<lparr>rr_state = mark_reactivated w s st,
                                              rr_reactivated = True, token_created = api_new,
                                              temp_token_created = temp_new\<rparr>))))))"

section \<open>The report\<close>

record report_row =
  row_state :: dstate
  row_cohort :: string
  row_action :: string
  row_action_date :: "time option"
  row_offsets :: "int list"
  row_exclusion :: string
  row_policy :: string
  row_summary :: string

definition as_report_row :: "dsettings \<Rightarrow> action_plan \<Rightarrow> derror + report_row" where
  "as_report_row cfg p =
     (case get_deactivation_action_summary cfg (ap_action p) (ap_offsets p) (ap_policy p) of
        Inl e \<Rightarrow> Inl e
      | Inr summary \<Rightarrow>
          Inr \<lparr>row_state = ap_state p,
               row_cohort = (if ap_action p = DEACTIVATION_ACTION_DEACTIVATE
                             then DEACTIVATION_REPORT_COHORT_DUE_DEACTIVATION
                             else DEACTIVATION_REPORT_COHORT_DUE_WARNING),
               row_action = ap_action p, row_action_date = Some (ap_when p),
               row_offsets = ap_offsets p, row_exclusion = [], row_policy = ap_policy p,
               row_summary = summary\<rparr>)"

text \<open>
  The helpers extend \<open>seen_state_ids\<close>, a set shared by reference; here the seen
  primary keys are returned with the rows.
\<close>

definition already_warned_row ::
    "dsettings \<Rightarrow> ddb \<Rightarrow> time \<Rightarrow> string \<Rightarrow> dstate \<Rightarrow> report_row" where
  "already_warned_row cfg db w policy st =
     (let (action, date, offsets) = get_next_deactivation_action cfg db st w
      in \<lparr>row_state = st, row_cohort = DEACTIVATION_REPORT_COHORT_ALREADY_WARNED,
          row_action = action, row_action_date = date, row_offsets = offsets,
          row_exclusion = [], row_policy = policy,
          row_summary = (case get_deactivation_action_summary cfg action offsets policy of
                           Inl e \<Rightarrow> [] | Inr s \<Rightarrow> s)\<rparr>)"

definition get_already_warned_report_rows ::
    "dsettings \<Rightarrow> ddb \<Rightarrow> time \<Rightarrow> time \<Rightarrow> int list \<Rightarrow> string \<Rightarrow> report_row list \<times> int list" where
  "get_already_warned_report_rows cfg db w window_end seen policy =
     (let q = by_schedule
                (filter (\<lambda>s. sql_gt (deactivation_scheduled_at s) w
                     \<and> sql_le (deactivation_scheduled_at s) window_end
                     \<and> first_warning_sent_at s \<noteq> None \<and> ds_pk s \<notin> set seen)
                   (get_active_deactivation_states cfg db))
      in (map (already_warned_row cfg db w policy) q, seen @ map ds_pk q))"

definition recent_row :: "string \<Rightarrow> string \<Rightarrow> string \<Rightarrow> dstate \<Rightarrow> report_row" where
  "recent_row cohort summary policy st =
     \<lparr>row_state = st, row_cohort = cohort, row_action = DEACTIVATION_ACTION_NONE,
      row_action_date = None, row_offsets = [], row_exclusion = [],
      row_policy = (if permission_policy_applied st \<noteq> [] then permission_policy_applied st
                    else policy),
      row_summary = summary\<rparr>"

definition get_recent_lifecycle_report_rows ::
    "ddb \<Rightarrow> time \<Rightarrow> time \<Rightarrow> int list \<Rightarrow> string \<Rightarrow> report_row list \<times> int list" where
  "get_recent_lifecycle_report_rows db w window_start seen policy =
     (let deact = order_states (\<lambda>s. - time_key (deactivated_at s))
            (filter (\<lambda>s. sql_ge (deactivated_at s) window_start \<and> sql_le (deactivated_at s) w
                 \<and> has_current_deactivation s \<and> ds_pk s \<notin> set seen) (states db));
          seen1 = seen @ map ds_pk deact;
          react = order_states (\<lambda>s. - time_key (reactivated_at s))
            (filter (\<lambda>s. sql_ge (reactivated_at s) window_start \<and> sql_le (reactivated_at s) w
                 \<and> ds_pk s \<notin> set seen1) (states db))
      in (map (recent_row DEACTIVATION_REPORT_COHORT_RECENTLY_DEACTIVATED
                ''already deactivated'' policy) deact
          @ map (recent_row DEACTIVATION_REPORT_COHORT_RECENTLY_REACTIVATED
                ''already reactivated'' policy) react,
          seen1 @ map ds_pk react))"

definition skipped_row :: "dsettings \<Rightarrow> ddb \<Rightarrow> string \<Rightarrow> dstate \<Rightarrow> report_row" where
  "skipped_row cfg db policy st =
     (let reason = get_deactivation_exclusion_reason cfg db (users db (ds_user st))
      in \<lparr>row_state = st, row_cohort = DEACTIVATION_REPORT_COHORT_SKIPPED,
          row_action = DEACTIVATION_ACTION_NONE, row_action_date = None, row_offsets = [],
          row_exclusion = reason, row_policy = policy, row_summary = ''skipped: '' @ reason\<rparr>)"

definition get_skipped_report_rows ::
    "dsettings \<Rightarrow> ddb \<Rightarrow> time \<Rightarrow> int list \<Rightarrow> string \<Rightarrow> report_row list" where
  "get_skipped_report_rows cfg db window_end seen policy =
     map (skipped_row cfg db policy)
       (filter (\<lambda>s. get_deactivation_exclusion_reason cfg db (users db (ds_user s)) \<noteq> [])
         (by_schedule
            (filter (\<lambda>s. not_deactivated s \<and> sql_le (deactivation_scheduled_at s) window_end
                 \<and> ds_pk s \<notin> set seen) (states db))))"

fun collect_results :: "('e + 'a) list \<Rightarrow> 'e + 'a list" where
  "collect_results [] = Inr []"
| "collect_results (Inl e # rs) = Inl e"
| "collect_results (Inr x # rs) =
     (case collect_results rs of Inl e \<Rightarrow> Inl e | Inr xs \<Rightarrow> Inr (x # xs))"

definition get_deactivation_report_rows ::
    "dsettings \<Rightarrow> ddb \<Rightarrow> int option \<Rightarrow> time \<Rightarrow> derror + report_row list" where
  "get_deactivation_report_rows cfg db window_days w =
     (let n = (case window_days of None \<Rightarrow> DEFAULT_DEACTIVATION_REPORT_WINDOW_DAYS | Some v \<Rightarrow> v)
      in if n \<le> 0 then Inl (ValueError ''window_days must be greater than zero'')
         else
           (case get_deactivation_permission_policy cfg of
              Inl e \<Rightarrow> Inl e
            | Inr policy \<Rightarrow>
                (case get_pending_deactivation_actions cfg db w of
                   Inl e \<Rightarrow> Inl e
                 | Inr acts \<Rightarrow>
                     (case collect_results (map (as_report_row cfg) acts) of
                        Inl e \<Rightarrow> Inl e
                      | Inr rows \<Rightarrow>
                          (let seen = map (\<lambda>r. ds_pk (row_state r)) rows;
                               (warned, seen1) =
                                 get_already_warned_report_rows cfg db w (w + days n) seen policy;
                               (recent, seen2) =
                                 get_recent_lifecycle_report_rows db w (w - days n) seen1 policy
                           in Inr (rows @ warned @ recent
                                @ get_skipped_report_rows cfg db (w + days n) seen2 policy))))))"

datatype report_value = RNone | RTime time | RStr string

definition row_as_dict :: "ddb \<Rightarrow> report_row \<Rightarrow> (string, report_value) dict" where
  "row_as_dict db row =
     (let st = row_state row; opt = (\<lambda>c. case c of None \<Rightarrow> RNone | Some t \<Rightarrow> RTime t);
          user = (\<lambda>f. case users db (ds_user st) of None \<Rightarrow> RNone | Some u \<Rightarrow> f u)
      in [(''username'', user (\<lambda>u. RStr (u_username u))),
          (''email'', user (\<lambda>u. RStr (u_email u))),
          (''display_name'', user (\<lambda>u. RStr (u_full_name u))),
          (''last_login'', user (\<lambda>u. opt (u_last_login u))),
          (''computed_last_activity'', opt (activities db (ds_user st))),
          (''deactivation_scheduled_at'', opt (deactivation_scheduled_at st)),
          (''warnings_sent'', RStr (format_warning_offsets (warned_offsets st))),
          (''cohort'', RStr (row_cohort row)),
          (''next_action'', RStr (row_action row)),
          (''next_action_date'', opt (row_action_date row)),
          (''exclusion_reason'', RStr (row_exclusion row)),
          (''permission_policy'', RStr (row_policy row)),
          (''dry_run_action_summary'', RStr (row_summary row))])"

fun format_deactivation_report_value :: "report_value \<Rightarrow> string" where
  "format_deactivation_report_value RNone = []"
| "format_deactivation_report_value (RTime t) = isoformat t"
| "format_deactivation_report_value (RStr s) =
     (case s of [] \<Rightarrow> []
      | c # _ \<Rightarrow> if c \<in> set CSV_FORMULA_PREFIXES then CHR 0x27 # s else s)"

definition serialize_deactivation_report_row :: "ddb \<Rightarrow> report_row \<Rightarrow> (string, string) dict" where
  "serialize_deactivation_report_row db row =
     map (\<lambda>column. (column, format_deactivation_report_value
            (case map_of (row_as_dict db row) column of None \<Rightarrow> RNone | Some v \<Rightarrow> v)))
       DEACTIVATION_REPORT_COLUMNS"

text \<open>\<open>csv.DictWriter\<close> with the default dialect: minimal quoting, CRLF line ends.\<close>

definition csv_cell :: "string \<Rightarrow> string" where
  "csv_cell s =
     (if \<exists>c \<in> set s. c \<in> {CHR '','', CHR 0x22, CHR 0x0D, CHR 0x0A}
      then CHR 0x22 # concat (map (\<lambda>c. if c = CHR 0x22 then [c, c] else [c]) s) @ [CHR 0x22]
      else s)"

definition csv_line :: "string list \<Rightarrow> string" where
  "csv_line cells = join '','' (map csv_cell cells) @ [CHR 0x0D, CHR 0x0A]"

text \<open>The text written to \<open>output\<close> and the row count.\<close>

definition write_deactivation_report_csv :: "ddb \<Rightarrow> report_row list \<Rightarrow> string \<times> nat" where
  "write_deactivation_report_csv db rows =
     (csv_line DEACTIVATION_REPORT_COLUMNS
        @ concat (map (\<lambda>r. csv_line (map snd (serialize_deactivation_report_row db r))) rows),
      length rows)"

section \<open>Warning offsets\<close>

lemma normalize_warning_days_set [simp]:
  "set (normalize_warning_days offsets) = {x \<in> set offsets. 0 < x}"
  by (auto simp: normalize_warning_days_def)

lemma normalize_warning_days_sorted: "sorted (rev (normalize_warning_days offsets))"
  by (simp add: normalize_warning_days_def)

lemma normalize_warning_days_distinct: "distinct (normalize_warning_days offsets)"
  by (simp add: normalize_warning_days_def)

lemma normalize_warning_days_idem [simp]:
  "normalize_warning_days (normalize_warning_days offsets) = normalize_warning_days offsets"
proof -
  have "{x \<in> set offsets. 0 < x \<and> 0 < x} = {x \<in> set offsets. 0 < x}" by blast
  then show ?thesis
    unfolding normalize_warning_days_def by (simp add: Collect_conj_eq Int_commute)
qed

lemma normalize_warning_days_Nil_iff:
  "normalize_warning_days offsets = [] \<longleftrightarrow> (\<forall>x \<in> set offsets. x \<le> 0)"
proof -
  have "normalize_warning_days offsets = [] \<longleftrightarrow> set (normalize_warning_days offsets) = {}"
    by (rule set_empty [symmetric])
  also have "\<dots> \<longleftrightarrow> (\<forall>x \<in> set offsets. x \<le> 0)" by (auto simp: not_less)
  finally show ?thesis .
qed

lemma warning_days_pos: "get_deactivation_warning_days cfg = req # rest \<Longrightarrow> 0 < req"
proof -
  assume "get_deactivation_warning_days cfg = req # rest"
  then have "req \<in> set (get_deactivation_warning_days cfg)" by simp
  then show "0 < req" by (simp add: get_deactivation_warning_days_def)
qed

section \<open>Revoking permissions\<close>

definition row_key :: "perm_row \<Rightarrow> storage_model \<times> int" where
  "row_key r = (row_model r, pr_pk r)"

definition row_hit :: "int \<Rightarrow> perm_row list \<Rightarrow> perm_row \<Rightarrow> bool" where
  "row_hit user rows r \<longleftrightarrow> pr_user r = user \<and> row_key r \<in> row_key ` set rows"

lemma permission_ids_by_model_acc:
  assumes "dict_ok d"
  shows "dict_ok (fold (\<lambda>r d. AList.update (row_model r)
             ((case map_of d (row_model r) of None \<Rightarrow> [] | Some ids \<Rightarrow> ids) @ [pr_pk r]) d) rows d)
    \<and> ((\<exists>ids. map_of (fold (\<lambda>r d. AList.update (row_model r)
             ((case map_of d (row_model r) of None \<Rightarrow> [] | Some ids \<Rightarrow> ids) @ [pr_pk r]) d) rows d) m
           = Some ids \<and> k \<in> set ids)
       \<longleftrightarrow> (\<exists>ids. map_of d m = Some ids \<and> k \<in> set ids) \<or> (m, k) \<in> row_key ` set rows)"
  using assms
proof (induction rows arbitrary: d)
  case Nil
  then show ?case by simp
next
  case (Cons r rows)
  have "dict_ok (AList.update (row_model r)
      ((case map_of d (row_model r) of None \<Rightarrow> [] | Some ids \<Rightarrow> ids) @ [pr_pk r]) d)"
    using Cons.prems by (rule ad.ok_put)
  from Cons.IH [OF this] show ?case
    by (auto simp: row_key_def split: option.splits if_splits)
qed

lemma permission_ids_by_model_iff:
  "(\<exists>(m', ids) \<in> set (permission_ids_by_model rows). m' = m \<and> k \<in> set ids)
     \<longleftrightarrow> (m, k) \<in> row_key ` set rows"
proof -
  have "dict_ok ([] :: (storage_model, int list) dict)" by (simp add: dict_ok_def)
  note acc = permission_ids_by_model_acc [OF this, of rows m k,
      folded permission_ids_by_model_def]
  then have ok: "dict_ok (permission_ids_by_model rows)" by (rule conjunct1)
  from conjunct2 [OF acc] have "(\<exists>ids. map_of (permission_ids_by_model rows) m = Some ids \<and> k \<in> set ids)
      \<longleftrightarrow> (m, k) \<in> row_key ` set rows"
    by simp
  then show ?thesis
    using ad.items_iff [OF ok] by blast
qed

lemma delete_fold:
  "\<exists>n'. fold (\<lambda>(model, ids) (db, n).
             (db\<lparr>perms := filter (\<lambda>r. \<not> stored_row user model ids r) (perms db)\<rparr>,
              n + length (filter (stored_row user model ids) (perms db)))) ds (db, n)
     = (db\<lparr>perms := filter (\<lambda>r. \<not> (\<exists>(m, ids) \<in> set ds. stored_row user m ids r)) (perms db)\<rparr>, n')
     \<and> n' + length (filter (\<lambda>r. \<not> (\<exists>(m, ids) \<in> set ds. stored_row user m ids r)) (perms db))
         = n + length (perms db)"
proof (induction ds arbitrary: db n)
  case Nil
  then show ?case by simp
next
  case (Cons e ds)
  obtain model ids where e: "e = (model, ids)" by (cases e)
  let ?h = "stored_row user model ids"
  let ?db = "db\<lparr>perms := filter (\<lambda>r. \<not> ?h r) (perms db)\<rparr>"
  have len: "length (filter ?h (perms db)) + length (filter (\<lambda>r. \<not> ?h r) (perms db))
      = length (perms db)"
    by (rule sum_length_filter_compl)
  have same: "filter (\<lambda>r. \<not> (\<exists>(m, ids) \<in> set ds. stored_row user m ids r)) (perms ?db)
    = filter (\<lambda>r. \<not> (\<exists>(m, ids) \<in> set (e # ds). stored_row user m ids r)) (perms db)"
    by (simp add: e conj_commute)
  show ?case
    using Cons.IH [of ?db "n + length (filter ?h (perms db))", unfolded same]
    by (simp add: e add.assoc len)
qed

lemma delete_permission_batch_spec:
  "\<exists>n. delete_permission_batch user rows db
     = (db\<lparr>perms := filter (\<lambda>r. \<not> row_hit user rows r) (perms db)\<rparr>, n)
     \<and> n + length (filter (\<lambda>r. \<not> row_hit user rows r) (perms db)) = length (perms db)"
proof -
  have eq: "(\<exists>(m, ids) \<in> set (permission_ids_by_model rows). stored_row user m ids r)
      \<longleftrightarrow> row_hit user rows r" for r
    using permission_ids_by_model_iff [of rows "row_model r" "pr_pk r"]
    unfolding row_hit_def stored_row_def row_key_def by blast
  show ?thesis
    using delete_fold [of user "permission_ids_by_model rows" db 0]
    unfolding delete_permission_batch_def eq by simp
qed

definition snapshot_of :: "dstate \<Rightarrow> string \<Rightarrow> perm_row \<Rightarrow> int \<times> string \<times> int \<times> string" where
  "snapshot_of st run_id r = (ds_pk st, model_label (row_model r), pr_pk r, run_id)"

lemma snapshot_key_build [simp]:
  "snapshot_key (build_permission_snapshot st r w run_id) = snapshot_of st run_id r"
  by (simp add: snapshot_key_def build_permission_snapshot_def snapshot_of_def Let_def
      split: prod.split)

lemma model_label_inj [simp]: "model_label a = model_label b \<longleftrightarrow> a = b"
  by (cases a; cases b) simp_all

lemma insert_snapshots_spec:
  "snapshot_key ` set (fold insert_snapshot new tab) = snapshot_key ` set tab \<union> snapshot_key ` set new
   \<and> set tab \<subseteq> set (fold insert_snapshot new tab)
   \<and> set (fold insert_snapshot new tab) \<subseteq> set tab \<union> set new"
proof (induction new arbitrary: tab)
  case Nil
  then show ?case by simp
next
  case (Cons s new)
  show ?case
    using Cons.IH [of "insert_snapshot s tab"] by (auto simp: insert_snapshot_def)
qed

text \<open>What a run over some rows has achieved, however the rows were batched.\<close>

definition revoked_by ::
    "dstate \<Rightarrow> time \<Rightarrow> string \<Rightarrow> perm_row list \<Rightarrow> ddb \<Rightarrow> nat \<Rightarrow> ddb \<Rightarrow> nat \<Rightarrow> bool" where
  "revoked_by st w run_id rows db v db' v' \<longleftrightarrow>
     (\<exists>S. db' = db\<lparr>snapshots := S,
                  perms := filter (\<lambda>r. \<not> row_hit (ds_user st) rows r) (perms db)\<rparr>
        \<and> snapshot_key ` set S = snapshot_key ` set (snapshots db) \<union> snapshot_of st run_id ` set rows
        \<and> set (snapshots db) \<subseteq> set S
        \<and> set S \<subseteq> set (snapshots db) \<union> (\<lambda>r. build_permission_snapshot st r w run_id) ` set rows)
     \<and> v' + length (perms db') = v + length (perms db)"

lemma revoked_by_Nil [simp]: "revoked_by st w run_id [] db v db v"
  unfolding revoked_by_def by (intro conjI exI [of _ "snapshots db"]) (auto simp: row_hit_def)

lemma revoked_by_append:
  assumes "revoked_by st w run_id xs db v db1 v1" "revoked_by st w run_id ys db1 v1 db2 v2"
  shows "revoked_by st w run_id (xs @ ys) db v db2 v2"
proof -
  from assms(1) obtain S1 where 1: "db1 = db\<lparr>snapshots := S1,
        perms := filter (\<lambda>r. \<not> row_hit (ds_user st) xs r) (perms db)\<rparr>"
      "snapshot_key ` set S1 = snapshot_key ` set (snapshots db) \<union> snapshot_of st run_id ` set xs"
      "set (snapshots db) \<subseteq> set S1"
      "set S1 \<subseteq> set (snapshots db) \<union> (\<lambda>r. build_permission_snapshot st r w run_id) ` set xs"
      "v1 + length (perms db1) = v + length (perms db)"
    unfolding revoked_by_def by blast
  from assms(2) obtain S2 where 2: "db2 = db1\<lparr>snapshots := S2,
        perms := filter (\<lambda>r. \<not> row_hit (ds_user st) ys r) (perms db1)\<rparr>"
      "snapshot_key ` set S2 = snapshot_key ` set (snapshots db1) \<union> snapshot_of st run_id ` set ys"
      "set (snapshots db1) \<subseteq> set S2"
      "set S2 \<subseteq> set (snapshots db1) \<union> (\<lambda>r. build_permission_snapshot st r w run_id) ` set ys"
      "v2 + length (perms db2) = v1 + length (perms db1)"
    unfolding revoked_by_def by blast
  have p: "filter (\<lambda>r. \<not> row_hit (ds_user st) ys r) (perms db1)
      = filter (\<lambda>r. \<not> row_hit (ds_user st) (xs @ ys) r) (perms db)"
    unfolding 1(1) by (auto simp: row_hit_def intro: filter_cong)
  show ?thesis
    unfolding revoked_by_def
  proof (intro conjI exI [of _ S2])
    show "db2 = db\<lparr>snapshots := S2,
        perms := filter (\<lambda>r. \<not> row_hit (ds_user st) (xs @ ys) r) (perms db)\<rparr>"
      unfolding 2(1) p by (simp add: 1(1))
    show "snapshot_key ` set S2
        = snapshot_key ` set (snapshots db) \<union> snapshot_of st run_id ` set (xs @ ys)"
      using 1(2) 2(2) by (simp add: 1(1) image_Un Un_assoc)
    show "set (snapshots db) \<subseteq> set S2" using 1(3) 2(3) by (simp add: 1(1))
    show "set S2 \<subseteq> set (snapshots db)
        \<union> (\<lambda>r. build_permission_snapshot st r w run_id) ` set (xs @ ys)"
      using 1(4) 2(4) by (auto simp: 1(1))
    show "v2 + length (perms db2) = v + length (perms db)" using 1(5) 2(5) by simp
  qed
qed

lemma batch_revoked_by:
  assumes "snapshot_permission_batch st rows w run_id db = (db1, k)"
    and "delete_permission_batch (ds_user st) rows db1 = (db2, d)"
  shows "revoked_by st w run_id rows db v db2 (v + d)"
proof -
  define E where "E = set (map (\<lambda>s. (permission_storage_model s, permission_record_id s))
              (filter (\<lambda>s. sn_state s = ds_pk st \<and> deactivation_run_id s = run_id
                 \<and> permission_storage_model s \<in> set (map (\<lambda>r. model_label (row_model r)) rows)
                 \<and> permission_record_id s \<in> set (map pr_pk rows)) (snapshots db)))"
  let ?rows = "filter (\<lambda>r. (model_label (row_model r), pr_pk r) \<notin> E) rows"
  let ?new = "map (\<lambda>r. build_permission_snapshot st r w run_id) ?rows"
  let ?S = "fold insert_snapshot ?new (snapshots db)"
  have db1: "db1 = db\<lparr>snapshots := ?S\<rparr>"
    using assms(1) unfolding snapshot_permission_batch_def Let_def E_def by simp
  obtain n where db2: "db2 = db1\<lparr>perms := filter (\<lambda>r. \<not> row_hit (ds_user st) rows r) (perms db1)\<rparr>"
    and cnt: "d + length (filter (\<lambda>r. \<not> row_hit (ds_user st) rows r) (perms db1)) = length (perms db1)"
    using delete_permission_batch_spec [of "ds_user st" rows db1] assms(2) by auto
  have old: "snapshot_of st run_id r \<in> snapshot_key ` set (snapshots db)"
    if "(model_label (row_model r), pr_pk r) \<in> E" for r
    using that unfolding E_def by (auto simp: snapshot_of_def snapshot_key_def image_iff) metis
  have keys: "snapshot_key ` set ?S
      = snapshot_key ` set (snapshots db) \<union> snapshot_of st run_id ` set rows"
  proof -
    have "snapshot_key ` set ?S = snapshot_key ` set (snapshots db) \<union> snapshot_of st run_id ` set ?rows"
      using insert_snapshots_spec [of ?new "snapshots db"] by (simp add: image_image)
    moreover have "snapshot_of st run_id ` set rows
        \<subseteq> snapshot_key ` set (snapshots db) \<union> snapshot_of st run_id ` set ?rows"
    proof (rule image_subsetI)
      fix r assume r: "r \<in> set rows"
      show "snapshot_of st run_id r
          \<in> snapshot_key ` set (snapshots db) \<union> snapshot_of st run_id ` set ?rows"
      proof (cases "(model_label (row_model r), pr_pk r) \<in> E")
        case True
        then show ?thesis by (rule UnI1 [OF old])
      next
        case False
        with r have "r \<in> set ?rows" by simp
        then show ?thesis by (rule UnI2 [OF imageI])
      qed
    qed
    moreover have "snapshot_of st run_id ` set ?rows \<subseteq> snapshot_of st run_id ` set rows"
      by (intro image_mono filter_is_subset)
    moreover have "K \<union> A = K \<union> B" if "B \<subseteq> K \<union> A" "A \<subseteq> B"
      for K A B :: "(int \<times> string \<times> int \<times> string) set"
      using that by blast
    ultimately show ?thesis by simp
  qed
  show ?thesis
    unfolding revoked_by_def
  proof (intro conjI exI [of _ ?S])
    show "db2 = db\<lparr>snapshots := ?S, perms := filter (\<lambda>r. \<not> row_hit (ds_user st) rows r) (perms db)\<rparr>"
      unfolding db2 db1 by simp
    show "snapshot_key ` set ?S
        = snapshot_key ` set (snapshots db) \<union> snapshot_of st run_id ` set rows" by (rule keys)
    show "set (snapshots db) \<subseteq> set ?S" using insert_snapshots_spec by blast
    have "set ?new \<subseteq> (\<lambda>r. build_permission_snapshot st r w run_id) ` set rows" by auto
    then show "set ?S \<subseteq> set (snapshots db) \<union> (\<lambda>r. build_permission_snapshot st r w run_id) ` set rows"
      using insert_snapshots_spec [of ?new "snapshots db"] by blast
    show "v + d + length (perms db2) = v + length (perms db)"
      using cnt unfolding db2 db1 by simp
  qed
qed

lemma revoke_loop_revoked_by:
  assumes "revoke_loop bsize st w run_id batch rows (db, s, v) = (db', s', v')"
  shows "revoked_by st w run_id (batch @ rows) db v db' v'"
  using assms
proof (induction rows arbitrary: batch db s v)
  case Nil
  show ?case
  proof (cases "batch = []")
    case True
    with Nil show ?thesis by simp
  next
    case False
    with Nil show ?thesis
      by (auto simp: batch_revoked_by split: prod.splits)
  qed
next
  case (Cons r rows)
  show ?case
  proof (cases "bsize \<le> length (batch @ [r])")
    case True
    obtain db1 k where 1: "snapshot_permission_batch st (batch @ [r]) w run_id db = (db1, k)"
      by fastforce
    obtain db2 d where 2: "delete_permission_batch (ds_user st) (batch @ [r]) db1 = (db2, d)"
      by fastforce
    from Cons.prems True 1 2
    have "revoke_loop bsize st w run_id [] rows (db2, s + k, v + d) = (db', s', v')"
      by simp
    from revoked_by_append [OF batch_revoked_by [OF 1 2] Cons.IH [OF this]]
    show ?thesis by simp
  next
    case False
    with Cons.prems have "revoke_loop bsize st w run_id (batch @ [r]) rows (db, s, v) = (db', s', v')"
      by simp
    from Cons.IH [OF this] show ?thesis by simp
  qed
qed

section \<open>Deactivation step by step\<close>

lemma revoke_user_tokens_frame:
  assumes "revoke_user_tokens uo db = (db', n)"
  shows "users db' = users db" "states db' = states db" "perms db' = perms db"
    "orgs db' = orgs db" "teams db' = teams db" "group_members db' = group_members db"
    "snapshots db' = snapshots db" "outbox db' = outbox db" "activities db' = activities db"
  using assms by (auto simp: revoke_user_tokens_def Let_def split: if_splits option.splits)

lemma revocable_rows_cong:
  assumes "perms db' = perms db" "orgs db' = orgs db" "teams db' = teams db"
    "group_members db' = group_members db"
  shows "get_revocable_user_permission_rows db' uo = get_revocable_user_permission_rows db uo"
  using assms
  by (cases uo) (simp_all add: get_revocable_user_permission_rows_def
      get_permission_revocation_protected_organization_ids_def Let_def)

lemma revoke_permissions_revoked_by:
  assumes "revoke_revocable_user_permissions cfg (Some st) w run_id db = Inr (db', s, v)"
  shows "\<exists>rows run. revoked_by st w run rows db 0 db' v"
proof (cases "ds_pk st = 0 \<or> get_deactivation_permission_policy cfg \<noteq> Inr PERMISSION_POLICY_REVOKE")
  case True
  with assms have "db' = db \<and> v = 0"
    by (auto simp: revoke_revocable_user_permissions_def split: sum.splits if_splits)
  then show ?thesis using revoked_by_Nil by blast
next
  case False
  with assms show ?thesis
    by (auto simp: revoke_revocable_user_permissions_def dest!: revoke_loop_revoked_by)
qed

lemma revoked_by_frame:
  assumes "revoked_by st w run_id rows db v db' v'"
  shows "users db' = users db" "states db' = states db" "outbox db' = outbox db"
    "orgs db' = orgs db" "refresh_tokens db' = refresh_tokens db"
    "access_tokens db' = access_tokens db" "api_tokens db' = api_tokens db"
    "temp_tokens db' = temp_tokens db" "odk_tokens db' = odk_tokens db"
  using assms by (auto simp: revoked_by_def)

lemma deactivate_user_success:
  assumes "deactivate_user cfg sto w run_id db = Inr (db', res)" "dr_deactivated res"
  obtains arg st u policy db1 tokens db2 stored revoked where
    "sto = Some arg" "get_state (ds_pk arg) db = Some st" "ds_pk arg \<noteq> 0"
    "users db (ds_user st) = Some u"
    "is_deactivation_due cfg db st w" "get_deactivation_exclusion_reason cfg db (Some u) = []"
    "get_deactivation_permission_policy cfg = Inr policy"
    "revoke_user_tokens (Some u) db = (db1, tokens)"
    "(if policy = PERMISSION_POLICY_REVOKE
      then revoke_revocable_user_permissions cfg (Some st) w
             (if run_id \<noteq> [] then run_id else get_deactivation_run_id st) db1
      else Inr (db1, 0, 0)) = Inr (db2, stored, revoked)"
    "db' = save_fields (ds_pk st)
       (mark_deactivated w (if policy = PERMISSION_POLICY_REVOKE then Some w else None) policy)
       (set_user_active (ds_user st) False db2)"
    "token_revocation_count res = tokens" "permission_snapshot_count res = stored"
    "permission_revocation_count res = revoked"
    "dr_state res = mark_deactivated w
       (if policy = PERMISSION_POLICY_REVOKE then Some w else None) policy st"
  using assms unfolding deactivate_user_def unchanged_result_def Let_def
  by (auto split: option.splits if_splits sum.splits prod.splits)

lemma save_fields_frame [simp]:
  "users (save_fields pk f db) = users db" "perms (save_fields pk f db) = perms db"
  "snapshots (save_fields pk f db) = snapshots db" "outbox (save_fields pk f db) = outbox db"
  "orgs (save_fields pk f db) = orgs db" "activities (save_fields pk f db) = activities db"
  "refresh_tokens (save_fields pk f db) = refresh_tokens db"
  "access_tokens (save_fields pk f db) = access_tokens db"
  "api_tokens (save_fields pk f db) = api_tokens db"
  "temp_tokens (save_fields pk f db) = temp_tokens db"
  "odk_tokens (save_fields pk f db) = odk_tokens db"
  "states (save_fields pk f db) = map (\<lambda>s. if ds_pk s = pk then f s else s) (states db)"
  by (simp_all add: save_fields_def)

lemma set_user_active_frame [simp]:
  "states (set_user_active pk b db) = states db" "perms (set_user_active pk b db) = perms db"
  "snapshots (set_user_active pk b db) = snapshots db" "outbox (set_user_active pk b db) = outbox db"
  "orgs (set_user_active pk b db) = orgs db" "activities (set_user_active pk b db) = activities db"
  "refresh_tokens (set_user_active pk b db) = refresh_tokens db"
  "access_tokens (set_user_active pk b db) = access_tokens db"
  "api_tokens (set_user_active pk b db) = api_tokens db"
  "temp_tokens (set_user_active pk b db) = temp_tokens db"
  "odk_tokens (set_user_active pk b db) = odk_tokens db"
  by (simp_all add: set_user_active_def split: option.splits)

lemma users_set_user_active:
  "users (set_user_active pk b db) q =
     (if q = pk then map_option (\<lambda>u. u\<lparr>u_active := b\<rparr>) (users db pk) else users db q)"
  by (simp add: set_user_active_def split: option.splits)

lemma get_state_SomeD: "get_state pk db = Some st \<Longrightarrow> st \<in> set (states db) \<and> ds_pk st = pk"
  by (auto simp: get_state_def find_Some_iff)

lemma get_state_save_fields:
  assumes "\<And>s. ds_pk (f s) = ds_pk s"
  shows "get_state pk (save_fields q f db)
    = map_option (\<lambda>s. if pk = q then f s else s) (get_state pk db)"
proof -
  have "find (\<lambda>s. ds_pk s = pk) (map (\<lambda>s. if ds_pk s = q then f s else s) ss)
      = map_option (\<lambda>s. if pk = q then f s else s) (find (\<lambda>s. ds_pk s = pk) ss)" for ss
    by (induction ss) (auto simp: assms)
  then show ?thesis by (simp add: get_state_def)
qed

lemma get_state_cong: "states db' = states db \<Longrightarrow> get_state pk db' = get_state pk db"
  by (simp add: get_state_def)

lemma mark_deactivated_sel [simp]:
  "ds_pk (mark_deactivated w r p st) = ds_pk st" "ds_user (mark_deactivated w r p st) = ds_user st"
  "warned_offsets (mark_deactivated w r p st) = warned_offsets st"
  "first_warning_sent_at (mark_deactivated w r p st) = first_warning_sent_at st"
  "deactivation_scheduled_at (mark_deactivated w r p st) = deactivation_scheduled_at st"
  "deactivated_at (mark_deactivated w r p st) = Some w"
  "reactivated_at (mark_deactivated w r p st) = reactivated_at st"
  by (simp_all add: mark_deactivated_def)

lemma get_state_unique:
  assumes "distinct (map ds_pk (states db))" "s \<in> set (states db)" "st \<in> set (states db)"
    "ds_pk s = ds_pk st"
  shows "s = st"
  using assms by (auto simp: distinct_map inj_on_def)

lemma inactive_not_due:
  assumes "distinct (map ds_pk (states db))" "st \<in> set (states db)"
    and "users db (ds_user st) = Some u" "\<not> u_active u"
  shows "\<not> is_deactivation_due cfg db st w"
proof
  assume "is_deactivation_due cfg db st w"
  then obtain s where s: "s \<in> set (states db)" "ds_pk s = ds_pk st"
      "is_active_deactivation_state cfg db s"
    by (auto simp: is_deactivation_due_def get_deactivation_states_due_for_deactivation_def
        get_active_deactivation_states_def)
  with assms get_state_unique have "s = st" by blast
  with s assms show False by (simp add: is_active_deactivation_state_def)
qed

section \<open>Every account is warned first\<close>

text \<open>
  The lifecycle as a step relation over the operations of the module; \<open>other\<close> is any
  other writer (user administration, sharing, submissions), which leaves the lifecycle
  table and the mails alone.
\<close>

inductive lifecycle :: "dsettings \<Rightarrow> ddb \<Rightarrow> bool" for cfg where
  start: "\<lbrakk>distinct (map ds_pk (states db));
           \<forall>st \<in> set (states db). warned_offsets st = [] \<and> first_warning_sent_at st = None\<rbrakk>
          \<Longrightarrow> lifecycle cfg db"
| other: "\<lbrakk>lifecycle cfg db; states db' = states db; outbox db' = outbox db\<rbrakk> \<Longrightarrow> lifecycle cfg db'"
| activity: "\<lbrakk>lifecycle cfg db; record_user_activity cfg up uo w force db = Inr db'\<rbrakk>
          \<Longrightarrow> lifecycle cfg db'"
| new_user: "\<lbrakk>lifecycle cfg db; create_user_activity cfg w u created db = Inr db'\<rbrakk>
          \<Longrightarrow> lifecycle cfg db'"
| sync: "\<lbrakk>lifecycle cfg db; sync_user_deactivation_state cfg w n uo db = Inr db'\<rbrakk>
          \<Longrightarrow> lifecycle cfg db'"
| warn: "\<lbrakk>lifecycle cfg db; dispatch_deactivation_warning cfg dispatch plan w db = Inr (db', wres)\<rbrakk>
          \<Longrightarrow> lifecycle cfg db'"
| deactivate: "\<lbrakk>lifecycle cfg db; deactivate_user cfg sto w run_id db = Inr (db', dres)\<rbrakk>
          \<Longrightarrow> lifecycle cfg db'"
| reactivate: "\<lbrakk>lifecycle cfg db; reactivate_user cfg sto w db = Inr (db', rres)\<rbrakk>
          \<Longrightarrow> lifecycle cfg db'"

text \<open>A state that counts as warned has its mail, which announced the present schedule.\<close>

definition noticed :: "dsettings \<Rightarrow> (int \<times> time \<times> time option) list \<Rightarrow> dstate \<Rightarrow> bool" where
  "noticed cfg box st =
     (case get_deactivation_warning_days cfg of
        [] \<Rightarrow> True
      | req # _ \<Rightarrow>
          warned_offsets st \<noteq> [] \<or> first_warning_sent_at st \<noteq> None
          \<longrightarrow> req \<in> set (warned_offsets st)
              \<and> (\<exists>f s. first_warning_sent_at st = Some f \<and> deactivation_scheduled_at st = Some s
                    \<and> (ds_user st, f, Some s) \<in> set box \<and> f + days req \<le> s))"

definition notice_inv :: "dsettings \<Rightarrow> ddb \<Rightarrow> bool" where
  "notice_inv cfg db \<longleftrightarrow>
     distinct (map ds_pk (states db)) \<and> (\<forall>st \<in> set (states db). noticed cfg (outbox db) st)"

lemma noticed_cleared:
  "warned_offsets st = [] \<Longrightarrow> first_warning_sent_at st = None \<Longrightarrow> noticed cfg box st"
  by (simp add: noticed_def split: list.splits)

lemma noticed_mono: "noticed cfg box st \<Longrightarrow> set box \<subseteq> set box' \<Longrightarrow> noticed cfg box' st"
  by (auto simp: noticed_def split: list.splits)

lemma noticed_cong:
  "warned_offsets st' = warned_offsets st \<Longrightarrow> first_warning_sent_at st' = first_warning_sent_at st
   \<Longrightarrow> deactivation_scheduled_at st' = deactivation_scheduled_at st \<Longrightarrow> ds_user st' = ds_user st
   \<Longrightarrow> noticed cfg box st' = noticed cfg box st"
  by (simp add: noticed_def split: list.splits)

lemma notice_inv_cong:
  "states db' = states db \<Longrightarrow> set (outbox db) \<subseteq> set (outbox db') \<Longrightarrow> notice_inv cfg db
   \<Longrightarrow> notice_inv cfg db'"
  by (auto simp: notice_inv_def intro: noticed_mono)

lemma notice_inv_save:
  assumes "notice_inv cfg db" "\<And>s. ds_pk (f s) = ds_pk s"
    and "\<And>s. s \<in> set (states db) \<Longrightarrow> ds_pk s = pk \<Longrightarrow> noticed cfg (outbox db) s
          \<Longrightarrow> noticed cfg (outbox db) (f s)"
  shows "notice_inv cfg (save_fields pk f db)"
proof -
  have "ds_pk \<circ> (\<lambda>s. if ds_pk s = pk then f s else s) = ds_pk"
    by (rule ext) (simp add: assms(2))
  with assms show ?thesis
    unfolding notice_inv_def by auto
qed

lemma next_pk_fresh: "next_pk ss \<notin> ds_pk ` set ss"
proof -
  have "\<forall>s \<in> set ss. ds_pk s \<le> fold (\<lambda>s m. max m (ds_pk s)) ss m
      \<and> m \<le> fold (\<lambda>s m. max m (ds_pk s)) ss m" for m
  proof (induction ss arbitrary: m)
    case Nil
    then show ?case by simp
  next
    case (Cons a ss)
    have grow: "m \<le> fold (\<lambda>s m. max m (ds_pk s)) xs m" for xs m
    proof (induction xs arbitrary: m)
      case (Cons b xs)
      show ?case using Cons [of "max m (ds_pk b)"] by simp
    qed simp
    show ?case using Cons [of "max m (ds_pk a)"] grow [of "max m (ds_pk a)" ss] by auto
  qed
  from this [of 0] show ?thesis by (force simp: next_pk_def)
qed

lemma clear_warning_state_sel [simp]:
  "ds_pk (clear_warning_state st) = ds_pk st" "ds_user (clear_warning_state st) = ds_user st"
  "warned_offsets (clear_warning_state st) = []"
  "first_warning_sent_at (clear_warning_state st) = None"
  "deactivation_scheduled_at (clear_warning_state st) = deactivation_scheduled_at st"
  by (simp_all add: clear_warning_state_def)

lemma sync_schedule_notice:
  assumes "sync_schedule cfg now n user a db = Inr db'" "notice_inv cfg db"
  shows "notice_inv cfg db' \<and> outbox db' = outbox db"
proof (cases "find (\<lambda>st. ds_user st = user) (states db)")
  case None
  with assms(1) obtain s where "db' = db\<lparr>states := states db @ [new_dstate (next_pk (states db)) user s]\<rparr>"
    by (auto simp: sync_schedule_def split: sum.splits)
  with assms(2) show ?thesis
    using next_pk_fresh [of "states db"]
    by (auto simp: notice_inv_def new_dstate_def intro: noticed_cleared)
next
  case (Some st)
  then consider "db' = db"
    | s where "db' = save_fields (ds_pk st)
            (\<lambda>r. clear_warning_state (r\<lparr>deactivation_scheduled_at := Some s\<rparr>)) db"
    using assms(1) by (auto simp: sync_schedule_def split: sum.splits if_splits)
  then show ?thesis
  proof cases
    case 1
    with assms(2) show ?thesis by simp
  next
    case 2
    then show ?thesis
      by (simp add: notice_inv_save assms(2) noticed_cleared)
  qed
qed

lemma get_or_create_notice:
  assumes "get_or_create_user_activity cfg now u db = Inr (db', a)" "notice_inv cfg db"
  shows "notice_inv cfg db' \<and> outbox db' = outbox db"
proof (cases "activities db (u_pk u)")
  case None
  let ?db = "db\<lparr>activities := (activities db)(u_pk u \<mapsto> get_initial_last_activity db u now)\<rparr>"
  from assms None have "sync_schedule cfg now None (u_pk u) (get_initial_last_activity db u now) ?db
      = Inr db'"
    by (auto simp: get_or_create_user_activity_def Let_def split: sum.splits)
  moreover have "notice_inv cfg ?db" by (rule notice_inv_cong [OF _ _ assms(2)]) simp_all
  ultimately show ?thesis using sync_schedule_notice by fastforce
next
  case (Some b)
  with assms show ?thesis by (simp add: get_or_create_user_activity_def)
qed

lemma sync_notice:
  assumes "sync_user_deactivation_state cfg now n uo db = Inr db'" "notice_inv cfg db"
  shows "notice_inv cfg db' \<and> outbox db' = outbox db"
proof (cases "no_pk uo \<or> uo = None")
  case True
  with assms(1) have "db' = db"
    by (auto simp: sync_user_deactivation_state_def no_pk_def split: if_splits option.splits)
  with assms(2) show ?thesis by simp
next
  case False
  then obtain u where u: "uo = Some u" "\<not> no_pk uo" by blast
  with assms(1) obtain db1 a where 1: "get_or_create_user_activity cfg now u db = Inr (db1, a)"
      "sync_schedule cfg now n (u_pk u) a db1 = Inr db'"
    by (auto simp: sync_user_deactivation_state_def split: sum.splits)
  with assms(2) show ?thesis
    using get_or_create_notice sync_schedule_notice by metis
qed

lemma record_activity_row_notice:
  assumes "record_activity_row cfg w force n u db = Inr db'" "notice_inv cfg db"
  shows "notice_inv cfg db' \<and> outbox db' = outbox db"
proof -
  let ?db = "db\<lparr>activities := (activities db)(u_pk u \<mapsto> w)\<rparr>"
  have "notice_inv cfg ?db" by (rule notice_inv_cong [OF _ _ assms(2)]) simp_all
  moreover have "db' = db \<or> sync_user_deactivation_state cfg w None (Some u) ?db = Inr db'"
    using assms(1) by (auto simp: record_activity_row_def split: option.splits if_splits)
  ultimately show ?thesis using sync_notice [of cfg w None "Some u" ?db db'] assms(2) by auto
qed

lemma record_activity_notice:
  assumes "record_user_activity cfg up uo w force db = Inr db'" "notice_inv cfg db"
  shows "notice_inv cfg db' \<and> outbox db' = outbox db"
proof -
  have cache: "states (fst c) = states db \<and> outbox (fst c) = outbox db"
    if "c = add_user_activity_cache_key up w pk m db" for c pk m
    using that by (auto simp: add_user_activity_cache_key_def split: if_splits option.splits)
  show ?thesis
  proof (cases "no_pk uo \<or> uo = None \<or> \<not> u_active (the uo)")
    case True
    then have "db' = db"
      using assms(1) by (auto simp: record_user_activity_def no_pk_def split: if_splits option.splits)
    with assms(2) show ?thesis by simp
  next
    case False
    then obtain u where u: "uo = Some u" "\<not> no_pk (Some u)" "u_active u" by auto
    define n where "n = (case ACTIVITY_TRACKING_MIN_INTERVAL_SECONDS cfg of None \<Rightarrow> 300 | Some v \<Rightarrow> v)"
    obtain db1 b where c: "add_user_activity_cache_key up w (u_pk u) n db = (db1, b)" by fastforce
    have f: "states db1 = states db" "outbox db1 = outbox db"
      using cache [OF c [symmetric]] by simp_all
    then have inv1: "notice_inv cfg db1" using notice_inv_cong [OF _ _ assms(2), of db1] by simp
    have eq: "record_user_activity cfg up uo w force db
        = (if \<not> force \<and> 0 < n
           then (case (db1, b) of (db1, Some False) \<Rightarrow> Inr db1
                 | (db1, _) \<Rightarrow> record_activity_row cfg w force n u db1)
           else record_activity_row cfg w force n u db)"
      unfolding record_user_activity_def u(1) Let_def n_def [symmetric] using u(2,3) by (simp add: c)
    have "db' = db1 \<or> record_activity_row cfg w force n u db1 = Inr db'
      \<or> record_activity_row cfg w force n u db = Inr db'"
      using assms(1) unfolding eq by (simp split: if_splits option.splits bool.splits)
    then show ?thesis
      using inv1 f record_activity_row_notice [of cfg w force n u db1 db']
        record_activity_row_notice [of cfg w force n u db db'] assms(2)
      by (elim disjE) simp_all
  qed
qed

lemma touch_activity_notice:
  assumes "touch_activity cfg u w db = Inr db'" "notice_inv cfg db"
  shows "notice_inv cfg db' \<and> outbox db' = outbox db"
proof -
  let ?db = "db\<lparr>activities := (activities db)(u_pk u \<mapsto> w)\<rparr>"
  have inv: "notice_inv cfg ?db" by (rule notice_inv_cong [OF _ _ assms(2)]) simp_all
  have "sync_user_deactivation_state cfg w None (Some u) ?db = Inr db' \<or> ?db = db' \<or> db = db'"
    using assms(1) unfolding touch_activity_def Let_def by (simp split: option.splits if_splits)
  then show ?thesis
    using sync_notice [of cfg w None "Some u" ?db db'] inv assms(2) by (elim disjE) auto
qed

lemma mark_reactivated_sel [simp]:
  "ds_pk (mark_reactivated w s st) = ds_pk st" "ds_user (mark_reactivated w s st) = ds_user st"
  "warned_offsets (mark_reactivated w s st) = []"
  "first_warning_sent_at (mark_reactivated w s st) = None"
  "deactivation_scheduled_at (mark_reactivated w s st) = Some s"
  "reactivated_at (mark_reactivated w s st) = Some w"
  "deactivated_at (mark_reactivated w s st) = deactivated_at st"
  by (simp_all add: mark_reactivated_def clear_warning_state_def)

lemma reactivate_user_success:
  assumes "reactivate_user cfg sto w db = Inr (db', res)" "rr_reactivated res"
  obtains arg st u db2 s where
    "sto = Some arg" "get_state (ds_pk arg) db = Some st" "has_current_deactivation st"
    "users db (ds_user st) = Some u"
    "touch_activity cfg (u\<lparr>u_active := True\<rparr>) w
       (if \<not> u_active u then set_user_active (ds_user st) True db else db) = Inr db2"
    "get_deactivation_scheduled_at cfg w None False w = Inr s"
    "db' = save_fields (ds_pk st) (mark_reactivated w s)
       (db2\<lparr>api_tokens := fst (ensure_token (ds_user st) (api_tokens db2)),
            temp_tokens := fst (ensure_token (ds_user st) (temp_tokens db2))\<rparr>)"
  using assms unfolding reactivate_user_def Let_def
  by (auto split: option.splits if_splits sum.splits prod.splits)

lemma reactivate_unchanged:
  assumes "reactivate_user cfg sto w db = Inr (db', res)" "\<not> rr_reactivated res"
  shows "db' = db"
  using assms unfolding reactivate_user_def Let_def
  by (auto split: option.splits if_splits sum.splits prod.splits)

lemma reactivate_notice:
  assumes "reactivate_user cfg sto w db = Inr (db', res)" "notice_inv cfg db"
  shows "notice_inv cfg db'"
proof (cases "rr_reactivated res")
  case False
  with assms reactivate_unchanged show ?thesis by blast
next
  case True
  from assms(1) True show ?thesis
  proof (rule reactivate_user_success)
    fix arg st u db2 s
    assume t: "touch_activity cfg (u\<lparr>u_active := True\<rparr>) w
       (if \<not> u_active u then set_user_active (ds_user st) True db else db) = Inr db2"
      and db': "db' = save_fields (ds_pk st) (mark_reactivated w s)
       (db2\<lparr>api_tokens := fst (ensure_token (ds_user st) (api_tokens db2)),
            temp_tokens := fst (ensure_token (ds_user st) (temp_tokens db2))\<rparr>)"
    have "notice_inv cfg (if \<not> u_active u then set_user_active (ds_user st) True db else db)"
      by (rule notice_inv_cong [OF _ _ assms(2)]) simp_all
    from touch_activity_notice [OF t this] have "notice_inv cfg db2" by blast
    then have "notice_inv cfg (db2\<lparr>api_tokens := fst (ensure_token (ds_user st) (api_tokens db2)),
            temp_tokens := fst (ensure_token (ds_user st) (temp_tokens db2))\<rparr>)"
      by (rule notice_inv_cong [rotated 2]) simp_all
    then show ?thesis
      unfolding db' by (rule notice_inv_save) (simp_all add: noticed_cleared)
  qed
qed

lemma deactivate_unchanged:
  assumes "deactivate_user cfg sto w run_id db = Inr (db', res)" "\<not> dr_deactivated res"
  shows "db' = db"
  using assms unfolding deactivate_user_def Let_def
  by (auto split: option.splits if_splits sum.splits prod.splits)

lemma deactivate_frame:
  assumes "deactivate_user cfg sto w run_id db = Inr (db', res)" "dr_deactivated res"
  obtains pk user revoked_at policy db2 where
    "db' = save_fields pk (mark_deactivated w revoked_at policy) (set_user_active user False db2)"
    "states db2 = states db" "outbox db2 = outbox db"
  using assms
proof (rule deactivate_user_success)
  fix arg st u policy db1 tokens db2 stored revoked
  assume t: "revoke_user_tokens (Some u) db = (db1, tokens)"
    and r: "(if policy = PERMISSION_POLICY_REVOKE
      then revoke_revocable_user_permissions cfg (Some st) w
             (if run_id \<noteq> [] then run_id else get_deactivation_run_id st) db1
      else Inr (db1, 0, 0)) = Inr (db2, stored, revoked)"
    and d: "db' = save_fields (ds_pk st)
       (mark_deactivated w (if policy = PERMISSION_POLICY_REVOKE then Some w else None) policy)
       (set_user_active (ds_user st) False db2)"
  have "states db2 = states db1 \<and> outbox db2 = outbox db1"
  proof (cases "policy = PERMISSION_POLICY_REVOKE")
    case True
    with r revoke_permissions_revoked_by obtain rows run where
      "revoked_by st w run rows db1 0 db2 revoked" by (metis (no_types, lifting))
    from revoked_by_frame(2,3) [OF this] show ?thesis by simp
  next
    case False
    with r show ?thesis by simp
  qed
  with revoke_user_tokens_frame(2,8) [OF t] that [OF d] show thesis by simp
qed

lemma deactivate_notice:
  assumes "deactivate_user cfg sto w run_id db = Inr (db', res)" "notice_inv cfg db"
  shows "notice_inv cfg db'"
proof (cases "dr_deactivated res")
  case False
  with assms deactivate_unchanged show ?thesis by blast
next
  case True
  from assms(1) True show ?thesis
  proof (rule deactivate_frame)
    fix pk user revoked_at policy db2
    assume d: "db' = save_fields pk (mark_deactivated w revoked_at policy) (set_user_active user False db2)"
      and f: "states db2 = states db" "outbox db2 = outbox db"
    have "notice_inv cfg (set_user_active user False db2)"
      by (rule notice_inv_cong [OF _ _ assms(2)]) (simp_all add: f)
    then show ?thesis
      unfolding d
      by (rule notice_inv_save) (simp_all add: noticed_cong [where st' = "mark_deactivated w revoked_at policy _"])
  qed
qed

lemma due_warning_offsets_due:
  assumes "distinct (map ds_pk (states db))" "st \<in> set (states db)"
    and "offset \<in> set (get_due_warning_offsets cfg db st offsets w)"
  shows "due_for_warning cfg offset w st" "0 < offset"
proof -
  from assms(3) obtain s where s: "s \<in> set (states db)" "ds_pk s = ds_pk st"
      "due_for_warning cfg offset w s" and pos: "0 < offset"
    by (auto simp: get_due_warning_offsets_def get_deactivation_states_due_for_warning_def
        get_active_deactivation_states_def)
  with get_state_unique [OF assms(1)] assms(2) show "due_for_warning cfg offset w st" by blast
  show "0 < offset" by (rule pos)
qed

text \<open>A sent warning: what it stores in the row and puts in the outbox.\<close>

lemma dispatch_sent:
  assumes "dispatch_deactivation_warning cfg dispatch plan w db = Inr (db', res)" "wr_sent res"
  obtains st u offsets db1 st1 offsets1 date where
    "st \<in> set (states db)" "users db (ds_user st) = Some u"
    "offsets = get_due_warning_offsets cfg db st (ap_offsets (the plan)) w" "offsets \<noteq> []"
    "apply_required_warning_grace cfg st offsets w db = (db1, st1, offsets1)"
    "date = get_effective_deactivation_scheduled_at cfg st1 w"
    "db' = save_fields (ds_pk st)
       (\<lambda>r. r\<lparr>first_warning_sent_at :=
                 first_warning_sent_at (mark_warning_offsets_sent offsets1 w st1),
               warned_offsets := warned_offsets (mark_warning_offsets_sent offsets1 w st1)\<rparr>)
       (db1\<lparr>outbox := outbox db1 @ [(ds_user st, w, date)]\<rparr>)"
proof -
  from assms obtain p st u where p: "plan = Some p" "get_state (ds_pk (ap_state p)) db = Some st"
      "users db (ds_user st) = Some u"
    unfolding dispatch_deactivation_warning_def by (simp split: option.splits if_splits)
  let ?offsets = "get_due_warning_offsets cfg db st (ap_offsets p) w"
  obtain db1 st1 offsets1 where g: "apply_required_warning_grace cfg st ?offsets w db = (db1, st1, offsets1)"
    using prod_cases3 by blast
  show thesis
    by (rule that [OF _ p(3) refl _ _ refl])
      (use assms p g get_state_SomeD [OF p(2)] in
        \<open>auto simp: dispatch_deactivation_warning_def get_deactivation_warning_email_data_def Let_def
          split: if_splits\<close>)
qed

lemma dispatch_not_sent:
  assumes "dispatch_deactivation_warning cfg dispatch plan w db = Inr (db', res)" "\<not> wr_sent res"
  shows "db' = db"
  using assms unfolding dispatch_deactivation_warning_def Let_def
  by (auto split: option.splits if_splits prod.splits)

lemma notice_inv_warned:
  assumes "notice_inv cfg db" "st \<in> set (states db)" "get_deactivation_warning_days cfg = req # rest"
    and "warned_offsets st \<noteq> [] \<or> first_warning_sent_at st \<noteq> None"
  obtains f s where "req \<in> set (warned_offsets st)" "first_warning_sent_at st = Some f"
    "deactivation_scheduled_at st = Some s" "(ds_user st, f, Some s) \<in> set (outbox db)"
    "f + days req \<le> s"
proof -
  have "noticed cfg (outbox db) st" using assms(1,2) by (simp add: notice_inv_def)
  with assms(3,4) that show thesis unfolding noticed_def by auto
qed

lemma required_warning_grace:
  assumes "get_deactivation_warning_days cfg = req # rest" "req \<in> set offsets"
    and "due_for_warning cfg req w st"
  shows "\<exists>e db1 offsets1. apply_required_warning_grace cfg st offsets w db
           = (db1, st\<lparr>deactivation_scheduled_at := Some e\<rparr>, offsets1)
       \<and> (db1 = db \<and> deactivation_scheduled_at st = Some e
          \<or> db1 = save_fields (ds_pk st) (\<lambda>r. r\<lparr>deactivation_scheduled_at := Some e\<rparr>) db)
       \<and> e = w + days req \<and> req \<in> set offsets1"
proof -
  have pos: "0 < req" by (rule warning_days_pos [OF assms(1)])
  then have dpos: "0 < days req" by (rule days_mono)
  from assms(1,3) obtain s where s: "deactivation_scheduled_at st = Some s" "s \<le> w + days req"
      "req \<notin> set (warned_offsets st)"
    using dpos by (auto simp: due_for_warning_def Let_def sql_le_def sql_gt_def split: option.splits)
  then have eff: "get_effective_deactivation_scheduled_at cfg st w = Some (w + days req)"
    using assms(1) by (simp add: get_effective_deactivation_scheduled_at_def max_def)
  have upd: "st\<lparr>deactivation_scheduled_at := Some s\<rparr> = st" using s(1) by simp
  show ?thesis
  proof (cases "s < w + days req")
    case True
    then show ?thesis
      using assms(1,2) s eff pos by (simp add: apply_required_warning_grace_def Let_def sql_le_def)
  next
    case False
    with s(2) have "s = w + days req" by simp
    then show ?thesis
      using assms(1,2) s eff pos upd
      by (simp add: apply_required_warning_grace_def Let_def sql_le_def)
  qed
qed

lemma dispatch_notice:
  assumes "dispatch_deactivation_warning cfg dispatch plan w db = Inr (db', res)" "notice_inv cfg db"
  shows "notice_inv cfg db'"
proof (cases "wr_sent res")
  case False
  with assms dispatch_not_sent show ?thesis by blast
next
  case True
  from assms(1) True show ?thesis
  proof (rule dispatch_sent)
    fix st u offsets db1 st1 offsets1 date
    assume st: "st \<in> set (states db)"
      and off: "offsets = get_due_warning_offsets cfg db st (ap_offsets (the plan)) w" "offsets \<noteq> []"
      and g: "apply_required_warning_grace cfg st offsets w db = (db1, st1, offsets1)"
      and date: "date = get_effective_deactivation_scheduled_at cfg st1 w"
      and db': "db' = save_fields (ds_pk st)
       (\<lambda>r. r\<lparr>first_warning_sent_at :=
                 first_warning_sent_at (mark_warning_offsets_sent offsets1 w st1),
               warned_offsets := warned_offsets (mark_warning_offsets_sent offsets1 w st1)\<rparr>)
       (db1\<lparr>outbox := outbox db1 @ [(ds_user st, w, date)]\<rparr>)"
    have dist: "distinct (map ds_pk (states db))" using assms(2) by (simp add: notice_inv_def)
    have due: "due_for_warning cfg o' w st \<and> 0 < o'" if "o' \<in> set offsets" for o'
      using due_warning_offsets_due [OF dist st] that off(1) by blast
    show ?thesis
    proof (cases "get_deactivation_warning_days cfg")
      case Nil
      then have "db1 = db" using g by (simp add: apply_required_warning_grace_def)
      with dist show ?thesis
        unfolding db' notice_inv_def by (auto simp: noticed_def Nil distinct_map inj_on_def)
    next
      case (Cons req rest)
      have pos: "0 < req" by (rule warning_days_pos [OF Cons])
      let ?f = "\<lambda>r. r\<lparr>first_warning_sent_at :=
                 first_warning_sent_at (mark_warning_offsets_sent offsets1 w st1),
               warned_offsets := warned_offsets (mark_warning_offsets_sent offsets1 w st1)\<rparr>"
      show ?thesis
      proof (cases "req \<in> set offsets")
        case True
        from required_warning_grace [OF Cons True conjunct1 [OF due [OF True]], of db] g
        obtain e where e: "st1 = st\<lparr>deactivation_scheduled_at := Some e\<rparr>" "e = w + days req"
            "req \<in> set offsets1"
          and db1: "db1 = db \<and> deactivation_scheduled_at st = Some e
            \<or> db1 = save_fields (ds_pk st) (\<lambda>r. r\<lparr>deactivation_scheduled_at := Some e\<rparr>) db"
          by auto
        have nw: "req \<notin> set (warned_offsets st)"
          using due [OF True] Cons by (auto simp: due_for_warning_def Let_def)
        have none: "first_warning_sent_at st = None"
          using notice_inv_warned [OF assms(2) st Cons] nw by blast
        have date': "date = Some e"
          unfolding date using Cons nw e by (simp add: get_effective_deactivation_scheduled_at_def)
        have same: "s = st" if "s \<in> set (states db)" "ds_pk s = ds_pk st" for s
          using get_state_unique [OF dist that(1) st that(2)] .
        have good: "noticed cfg (outbox db @ [(ds_user st, w, date)])
            (?f (st\<lparr>deactivation_scheduled_at := Some e\<rparr>))"
          using none e pos date' Cons by (simp add: noticed_def mark_warning_offsets_sent_def)
        have rest: "noticed cfg (outbox db @ [(ds_user st, w, date)]) s" if "s \<in> set (states db)" for s
          using assms(2) that by (auto simp: notice_inv_def intro: noticed_mono [of cfg "outbox db"])
        have st_e: "st\<lparr>deactivation_scheduled_at := Some e\<rparr> = st"
          if "deactivation_scheduled_at st = Some e" using that by simp
        from db1 show ?thesis
        proof (elim disjE conjE)
          assume "db1 = db" "deactivation_scheduled_at st = Some e"
          with good st_e have "noticed cfg (outbox db @ [(ds_user st, w, date)]) (?f st)" by metis
          then show ?thesis
            unfolding db' \<open>db1 = db\<close> notice_inv_def
            using dist rest same by (auto simp: distinct_map inj_on_def)
        next
          assume d: "db1 = save_fields (ds_pk st) (\<lambda>r. r\<lparr>deactivation_scheduled_at := Some e\<rparr>) db"
          show ?thesis
            unfolding db' d notice_inv_def
            using dist rest same good by (auto simp: distinct_map inj_on_def)
        qed
      next
        case False
        then have g': "db1 = db" "st1 = st" "set offsets1 \<subseteq> set offsets"
          using g Cons by (auto simp: apply_required_warning_grace_def Let_def split: if_splits)
        from off(2) obtain o' where "o' \<in> set offsets" by (cases offsets) auto
        with due [OF this] False Cons have "req \<in> set (warned_offsets st)"
          by (auto simp: due_for_warning_def Let_def split: if_splits)
        then have "warned_offsets st \<noteq> [] \<or> first_warning_sent_at st \<noteq> None" by auto
        from notice_inv_warned [OF assms(2) st Cons this] obtain f s where
          w: "req \<in> set (warned_offsets st)" "first_warning_sent_at st = Some f"
            "deactivation_scheduled_at st = Some s" "(ds_user st, f, Some s) \<in> set (outbox db)"
            "f + days req \<le> s" by blast
        have same: "x = st" if "x \<in> set (states db)" "ds_pk x = ds_pk st" for x
          using get_state_unique [OF dist that(1) st that(2)] .
        have good: "noticed cfg (outbox db @ [(ds_user st, w, date)]) (?f st)"
          using w pos Cons g' by (auto simp: noticed_def mark_warning_offsets_sent_def)
        have rest: "noticed cfg (outbox db @ [(ds_user st, w, date)]) s" if "s \<in> set (states db)" for s
          using assms(2) that by (auto simp: notice_inv_def intro: noticed_mono [of cfg "outbox db"])
        show ?thesis
          unfolding db' g' notice_inv_def
          using dist rest same good g' by (auto simp: distinct_map inj_on_def)
      qed
    qed
  qed
qed

lemma lifecycle_notice_inv: "lifecycle cfg db \<Longrightarrow> notice_inv cfg db"
proof (induction rule: lifecycle.induct)
  case (start db)
  then show ?case by (simp add: notice_inv_def noticed_cleared)
next
  case (other db db')
  then show ?case by (auto intro: notice_inv_cong [of db' db])
next
  case (new_user db w u created db')
  show ?case
  proof (cases "get_or_create_user_activity cfg w u db")
    case (Inl e)
    with new_user show ?thesis by (simp add: create_user_activity_def split: if_splits)
  next
    case (Inr r)
    obtain db1 a where r: "r = (db1, a)" by (cases r)
    with Inr new_user have "db' = db1 \<or> db' = db"
      by (simp add: create_user_activity_def split: if_splits)
    with get_or_create_notice [of cfg w u db db1 a] Inr r new_user(3) show ?thesis by auto
  qed
next
  case activity
  then show ?case using record_activity_notice by blast
next
  case sync
  then show ?case using sync_notice by blast
next
  case warn
  then show ?case using dispatch_notice by blast
next
  case deactivate
  then show ?case using deactivate_notice by blast
next
  case reactivate
  then show ?case using reactivate_notice by blast
qed

section \<open>Deadlines\<close>

lemma due_state:
  assumes "distinct (map ds_pk (states db))" "st \<in> set (states db)"
  shows "is_deactivation_due cfg db st w \<longleftrightarrow>
    is_active_deactivation_state cfg db st \<and> due_for_deactivation cfg w st"
  using assms get_state_unique [OF assms(1)]
  by (auto simp: is_deactivation_due_def get_deactivation_states_due_for_deactivation_def
      get_active_deactivation_states_def)

lemma due_iff_effective:
  assumes "get_deactivation_warning_days cfg \<noteq> [] \<longrightarrow> first_warning_sent_at st \<noteq> None"
  shows "due_for_deactivation cfg w st \<longleftrightarrow>
    (\<exists>e. get_effective_deactivation_scheduled_at cfg st w = Some e \<and> e \<le> w)"
proof (cases "get_deactivation_warning_days cfg")
  case Nil
  then show ?thesis
    by (auto simp: due_for_deactivation_def get_effective_deactivation_scheduled_at_def sql_le_def
        split: option.splits)
next
  case (Cons req rest)
  then have "0 < days req" by (rule days_mono [OF warning_days_pos])
  with Cons assms show ?thesis
    by (auto simp: due_for_deactivation_def get_effective_deactivation_scheduled_at_def sql_le_def
        split: option.splits)
qed

section \<open>A concrete instance\<close>

definition demo_settings :: dsettings where
  "demo_settings = \<lparr>DEACTIVATION_INACTIVITY_DAYS = None, DEACTIVATION_WARNING_DAYS = None,
     DEACTIVATION_EXCLUDED_USER_IDS = None, DEACTIVATION_EXCLUDED_USERNAMES = None,
     ANONYMOUS_DEFAULT_USERNAME = Some ''AnonymousUser'', DEACTIVATION_PERMISSION_POLICY = None,
     ACTIVITY_TRACKING_MIN_INTERVAL_SECONDS = None\<rparr>"

definition demo_user :: duser where
  "demo_user = \<lparr>u_pk = 5, u_username = ''bob'', u_email = ''bob@x.org'', u_full_name = ''=Bob'',
     u_active = True, u_staff = False, u_superuser = False, u_last_login = None,
     u_date_joined = Some 0\<rparr>"

definition demo_db :: ddb where
  "demo_db = \<lparr>users = [5 \<mapsto> demo_user], activities = [5 \<mapsto> 0], activity_cache = Map.empty,
     states = [new_dstate 1 5 (days 365), new_dstate 2 6 (days 9)], snapshots = [],
     perms = [\<lparr>pr_pk = 1, pr_user = 5, pr_codename = ''view_project'', pr_name = [],
                pr_object = ProjectObj 11 7 ''p''\<rparr>,
              \<lparr>pr_pk = 2, pr_user = 5, pr_codename = ''view_project'', pr_name = [],
                pr_object = ProjectObj 12 8 ''own org''\<rparr>,
              \<lparr>pr_pk = 1, pr_user = 5, pr_codename = ''view_xform'', pr_name = [],
                pr_object = XFormObj 21 None 11 7 ''f''\<rparr>],
     refresh_tokens = [5], access_tokens = [5, 6], api_tokens = [5], temp_tokens = [5],
     odk_tokens = [(5, ''1''), (6, ''1'')],
     orgs = [\<lparr>org_user = 8, org_creator = 5, org_created_by = None\<rparr>], teams = [],
     group_members = [], instances = [], outbox = []\<rparr>"

definition demo_plan :: action_plan where
  "demo_plan = \<lparr>ap_state = new_dstate 1 5 (days 365), ap_action = DEACTIVATION_ACTION_SEND_WARNING,
     ap_when = days 335, ap_offsets = [30], ap_policy = ''revoke''\<rparr>"

text \<open>Warned a day late, then deactivated on the announced date.\<close>

definition demo_warning :: "derror + ddb \<times> warning_result" where
  "demo_warning = dispatch_deactivation_warning demo_settings (\<lambda>_. True) (Some demo_plan)
     (days 336) demo_db"

definition demo_warned :: ddb where
  "demo_warned = fst (projr demo_warning)"

definition demo_deactivation :: "derror + ddb \<times> deactivation_result" where
  "demo_deactivation = deactivate_user demo_settings (Some (new_dstate 1 5 0)) (days 366) ''run''
     demo_warned"

lemma demo_runs:
  "\<not> isl demo_warning" "\<not> isl demo_deactivation" "dr_deactivated (snd (projr demo_deactivation))"
  "get_deactivation_warning_days demo_settings = [30, 7]"
  "get_deactivation_permission_policy demo_settings = Inr ''revoke''"
  by code_simp+

lemma demo_warning_eq: "demo_warning = Inr (demo_warned, snd (projr demo_warning))"
  using demo_runs(1) by (cases demo_warning) (auto simp: demo_warned_def)

lemma demo_deactivation_eq:
  "deactivate_user demo_settings (Some (new_dstate 1 5 0)) (days 366) ''run'' demo_warned
   = Inr (fst (projr demo_deactivation), snd (projr demo_deactivation))"
  using demo_runs(2) unfolding demo_deactivation_def by (cases "deactivate_user demo_settings
    (Some (new_dstate 1 5 0)) (days 366) ''run'' demo_warned") auto

lemma demo_lifecycle: "lifecycle demo_settings demo_warned"
  by (rule lifecycle.warn [OF lifecycle.start demo_warning_eq [unfolded demo_warning_def]])
    (simp_all add: demo_db_def new_dstate_def)

lemma demo_states:
  "get_state 1 demo_warned
     = Some \<lparr>ds_pk = 1, ds_user = 5, deactivation_scheduled_at = Some (days 366),
             first_warning_sent_at = Some (days 336), warned_offsets = [30], deactivated_at = None,
             reactivated_at = None, permissions_revoked_at = None, permission_policy_applied = []\<rparr>"
  "users demo_warned 5 = Some demo_user"
  by code_simp+

lemma no_pk_Some [simp]: "no_pk (Some u) \<longleftrightarrow> u_pk u = 0"
  by (simp add: no_pk_def)

text \<open>With unique row keys, the rows a set of revocable rows hits are the rows themselves.\<close>

lemma row_hit_own:
  assumes "distinct (map row_key (perms db))" "set rows \<subseteq> set (perms db)"
    "\<forall>r \<in> set rows. pr_user r = user" "r \<in> set (perms db)"
  shows "row_hit user rows r \<longleftrightarrow> r \<in> set rows"
proof
  assume "row_hit user rows r"
  then obtain r' where "r' \<in> set rows" "row_key r' = row_key r" by (auto simp: row_hit_def)
  with assms show "r \<in> set rows" by (metis distinct_map inj_onD subsetD)
next
  assume "r \<in> set rows"
  with assms(3) show "row_hit user rows r" by (auto simp: row_hit_def)
qed

lemma revocable_rows_iff:
  fixes db :: ddb and u :: duser
  assumes "u_pk u \<noteq> 0"
  defines "protected \<equiv> set (get_permission_revocation_protected_organization_ids db (Some u))"
  shows "r \<in> set (get_revocable_user_permission_rows db (Some u)) \<longleftrightarrow>
     r \<in> set (perms db) \<and> pr_user r = u_pk u \<and> obj_org (pr_object r) \<noteq> u_pk u
     \<and> obj_org (pr_object r) \<notin> protected
     \<and> (case pr_object r of ProjectObj _ _ _ \<Rightarrow> True
        | XFormObj _ fu _ _ _ \<Rightarrow> (case fu of None \<Rightarrow> True | Some f \<Rightarrow> f \<notin> protected))"
  using assms(1) unfolding protected_def
  by (auto simp: get_revocable_user_permission_rows_def Let_def revocable_project_row_def
      revocable_xform_row_def split: content_object.splits option.splits)

section \<open>Properties\<close>

text \<open>C6: No account is deactivated without notice: in every reachable state of the
  lifecycle, when deactivation succeeds and warnings are configured, a warning was
  mailed to that user at least the required number of days before, and the date it
  announced is the schedule that has now passed.  This holds over any order of activity
  updates, synchronisations, warnings, deactivations and reactivations.\<close>

theorem deactivation_needs_notice:
  assumes "lifecycle cfg db" "get_deactivation_warning_days cfg = req # rest"
    and "deactivate_user cfg (Some arg) w run_id db = Inr (db', res)" "dr_deactivated res"
  shows "\<exists>sent date. (ds_user (dr_state res), sent, Some date) \<in> set (outbox db)
     \<and> deactivation_scheduled_at (dr_state res) = Some date
     \<and> sent + days req \<le> date \<and> date \<le> w \<and> sent + days req \<le> w"
  using assms(3,4)
proof (rule deactivate_user_success)
  fix a st u policy
  assume a: "get_state (ds_pk a) db = Some st"
    and due: "is_deactivation_due cfg db st w"
    and res: "dr_state res = mark_deactivated w
       (if policy = PERMISSION_POLICY_REVOKE then Some w else None) policy st"
  have inv: "notice_inv cfg db" by (rule lifecycle_notice_inv [OF assms(1)])
  have st: "st \<in> set (states db)" using get_state_SomeD [OF a] by blast
  from due have d: "due_for_deactivation cfg w st"
    using due_state [OF _ st] inv by (simp add: notice_inv_def)
  with assms(2) have "req \<in> set (warned_offsets st)" by (simp add: due_for_deactivation_def)
  then have "warned_offsets st \<noteq> [] \<or> first_warning_sent_at st \<noteq> None" by auto
  from notice_inv_warned [OF inv st assms(2) this] obtain f s where
    "deactivation_scheduled_at st = Some s" "(ds_user st, f, Some s) \<in> set (outbox db)"
    "f + days req \<le> s" by blast
  with d show ?thesis
    unfolding res by (intro exI [of _ f] exI [of _ s]) (simp add: due_for_deactivation_def sql_le_def)
qed

theorem deactivation_needs_notice_witness:
  "\<exists>sent date. (ds_user (dr_state (snd (projr demo_deactivation))), sent, Some date)
       \<in> set (outbox demo_warned)
     \<and> deactivation_scheduled_at (dr_state (snd (projr demo_deactivation))) = Some date
     \<and> sent + days 30 \<le> date \<and> date \<le> days 366 \<and> sent + days 30 \<le> days 366"
  by (rule deactivation_needs_notice [OF demo_lifecycle demo_runs(4) demo_deactivation_eq demo_runs(3)])

text \<open>C7: Under the revoke policy a deactivation removes exactly the account's direct
  project and form permissions outside its own and its protected organizations (those
  it created or owns), whatever the batch size: every other row stays, in order; each
  removed row has an audit snapshot under the run id, no snapshot is lost; and the
  reported count is the number of rows removed.\<close>

theorem deactivation_revokes_exactly:
  assumes "get_deactivation_permission_policy cfg = Inr PERMISSION_POLICY_REVOKE"
    and "deactivate_user cfg (Some arg) w run_id db = Inr (db', res)" "dr_deactivated res"
    and "get_state (ds_pk arg) db = Some st" "users db (ds_user st) = Some u"
    and "u_pk u = ds_user st" "u_pk u \<noteq> 0"
    and "distinct (map row_key (perms db))"
    and "gone = get_revocable_user_permission_rows db (Some u)"
    and "run = (if run_id \<noteq> [] then run_id else get_deactivation_run_id st)"
  shows "perms db' = filter (\<lambda>r. r \<notin> set gone) (perms db)
     \<and> snapshot_key ` set (snapshots db')
         = snapshot_key ` set (snapshots db) \<union> snapshot_of st run ` set gone
     \<and> set (snapshots db) \<subseteq> set (snapshots db')
     \<and> permission_revocation_count res + length (perms db') = length (perms db)"
  using assms(2,3)
proof (rule deactivate_user_success)
  fix a st' u' policy db1 tokens db2 stored revoked
  assume a: "Some arg = Some a" "get_state (ds_pk a) db = Some st'" "ds_pk a \<noteq> 0"
      "users db (ds_user st') = Some u'"
    and p: "get_deactivation_permission_policy cfg = Inr policy"
    and t: "revoke_user_tokens (Some u') db = (db1, tokens)"
    and r: "(if policy = PERMISSION_POLICY_REVOKE
      then revoke_revocable_user_permissions cfg (Some st') w
             (if run_id \<noteq> [] then run_id else get_deactivation_run_id st') db1
      else Inr (db1, 0, 0)) = Inr (db2, stored, revoked)"
    and d: "db' = save_fields (ds_pk st')
       (mark_deactivated w (if policy = PERMISSION_POLICY_REVOKE then Some w else None) policy)
       (set_user_active (ds_user st') False db2)"
    and cnt: "permission_revocation_count res = revoked"
  from a assms(4,5) have eq: "st' = st" "u' = u" by simp_all
  note f = revoke_user_tokens_frame [OF t]
  have pk: "ds_pk st \<noteq> 0" using get_state_SomeD [OF a(2)] a(3) eq by simp
  have run: "(if run_id \<noteq> [] then run_id else get_deactivation_run_id st) = run"
    by (simp add: assms(10))
  have run_ne: "run \<noteq> []" by (simp add: assms(10) get_deactivation_run_id_def)
  have rows: "get_revocable_user_permission_rows db1 (users db1 (ds_user st)) = gone"
    unfolding assms(9) f(1) assms(5) by (rule revocable_rows_cong [OF f(3-6)])
  have "revoke_loop PERMISSION_SNAPSHOT_BATCH_SIZE st w run [] gone (db1, 0, 0)
      = (db2, stored, revoked)"
    using r p assms(1) pk run_ne unfolding eq run
    by (simp add: revoke_revocable_user_permissions_def rows split: if_splits)
  from revoke_loop_revoked_by [OF this] have rby: "revoked_by st w run gone db1 0 db2 revoked" by simp
  have own: "set gone \<subseteq> set (perms db)" "\<forall>r \<in> set gone. pr_user r = ds_user st"
    using revocable_rows_iff [OF assms(7), where db = db] assms(6,9) by auto
  have "perms db2 = filter (\<lambda>r. \<not> row_hit (ds_user st) gone r) (perms db)"
    using rby f(3) by (auto simp: revoked_by_def)
  also have "\<dots> = filter (\<lambda>r. r \<notin> set gone) (perms db)"
    by (rule filter_cong) (use row_hit_own [OF assms(8) own] in auto)
  finally have perms: "perms db2 = filter (\<lambda>r. r \<notin> set gone) (perms db)" .
  have "snapshot_key ` set (snapshots db2)
         = snapshot_key ` set (snapshots db) \<union> snapshot_of st run ` set gone
     \<and> set (snapshots db) \<subseteq> set (snapshots db2) \<and> revoked + length (perms db2) = length (perms db)"
    using rby f(3,7) unfolding revoked_by_def by auto
  with perms show ?thesis unfolding d cnt by simp
qed

lemma demo_row_keys: "distinct (map row_key (perms demo_warned))"
  by code_simp

theorem deactivation_revokes_exactly_witness:
  "perms (fst (projr demo_deactivation))
     = filter (\<lambda>r. r \<notin> set (get_revocable_user_permission_rows demo_warned (Some demo_user)))
         (perms demo_warned)
   \<and> map pr_pk (perms (fst (projr demo_deactivation))) = [2]"
proof -
  have "users demo_warned (ds_user (the (get_state 1 demo_warned))) = Some demo_user"
    "get_state (ds_pk (new_dstate 1 5 0)) demo_warned = Some (the (get_state 1 demo_warned))"
    "u_pk demo_user = ds_user (the (get_state 1 demo_warned))" "u_pk demo_user \<noteq> 0"
    by (simp_all add: demo_states new_dstate_def demo_user_def)
  from deactivation_revokes_exactly [OF demo_runs(5) demo_deactivation_eq demo_runs(3) this(2,1,3,4)
      demo_row_keys refl refl]
  have 1: "perms (fst (projr demo_deactivation))
     = filter (\<lambda>r. r \<notin> set (get_revocable_user_permission_rows demo_warned (Some demo_user)))
         (perms demo_warned)"
    by blast
  have "map pr_pk (perms (fst (projr demo_deactivation))) = [2]" by code_simp
  with 1 show ?thesis by blast
qed

text \<open>The tables after a successful deactivation.\<close>

lemma deactivate_tables:
  assumes "deactivate_user cfg sto w run_id db = Inr (db', res)" "dr_deactivated res"
    and "user = ds_user (dr_state res)"
    and "\<forall>u. users db user = Some u \<longrightarrow> u_pk u = user \<and> user \<noteq> 0"
  obtains u arg st where
    "sto = Some arg" "ds_pk arg \<noteq> 0" "get_state (ds_pk arg) db = Some st" "ds_user st = user"
    "users db' = (users db)(user \<mapsto> u\<lparr>u_active := False\<rparr>)"
    "states db' = map (\<lambda>s. if ds_pk s = ds_pk st
       then mark_deactivated w (permissions_revoked_at (dr_state res))
              (permission_policy_applied (dr_state res)) s
       else s) (states db)"
    "refresh_tokens db' = filter (\<lambda>t. t \<noteq> user) (refresh_tokens db)"
    "access_tokens db' = filter (\<lambda>t. t \<noteq> user) (access_tokens db)"
    "api_tokens db' = filter (\<lambda>t. t \<noteq> user) (api_tokens db)"
    "temp_tokens db' = filter (\<lambda>t. t \<noteq> user) (temp_tokens db)"
    "odk_tokens db' = map (\<lambda>(o', s). if o' = user \<and> s = ODK_ACTIVE
                         then (o', ODK_INACTIVE) else (o', s)) (odk_tokens db)"
  using assms(1,2)
proof (rule deactivate_user_success)
  fix a st u policy db1 tokens db2 stored revoked
  assume a: "sto = Some a" "get_state (ds_pk a) db = Some st" "ds_pk a \<noteq> 0"
      "users db (ds_user st) = Some u"
    and t: "revoke_user_tokens (Some u) db = (db1, tokens)"
    and r: "(if policy = PERMISSION_POLICY_REVOKE
      then revoke_revocable_user_permissions cfg (Some st) w
             (if run_id \<noteq> [] then run_id else get_deactivation_run_id st) db1
      else Inr (db1, 0, 0)) = Inr (db2, stored, revoked)"
    and d: "db' = save_fields (ds_pk st)
       (mark_deactivated w (if policy = PERMISSION_POLICY_REVOKE then Some w else None) policy)
       (set_user_active (ds_user st) False db2)"
    and res: "dr_state res = mark_deactivated w
       (if policy = PERMISSION_POLICY_REVOKE then Some w else None) policy st"
  have user: "user = ds_user st" using assms(3) res by simp
  with a assms(4) have pk: "u_pk u = user" "user \<noteq> 0" by auto
  have "\<exists>rows run v. revoked_by st w run rows db1 0 db2 v"
  proof (cases "policy = PERMISSION_POLICY_REVOKE")
    case True
    with r revoke_permissions_revoked_by show ?thesis by (metis (no_types, lifting))
  next
    case False
    with r have "db2 = db1" by simp
    then show ?thesis using revoked_by_Nil by blast
  qed
  then obtain rows run v where "revoked_by st w run rows db1 0 db2 v" by blast
  note f2 = revoked_by_frame [OF this]
  show thesis
    by (rule that [OF a(1,3,2) user [symmetric], of u])
      (use a user pk t f2 revoke_user_tokens_frame [OF t] res in
        \<open>auto simp: d users_set_user_active revoke_user_tokens_def Let_def mark_deactivated_def\<close>)
qed

text \<open>After a successful deactivation the account is inactive and nothing is left that
  authenticates it: no refresh, access, API or temporary token and no active ODK token;
  other users and their tokens are untouched, and a second attempt at any time changes
  nothing.\<close>

theorem deactivation_closes_access:
  assumes "deactivate_user cfg (Some arg) w run_id db = Inr (db', res)" "dr_deactivated res"
    and "distinct (map ds_pk (states db))" "user = ds_user (dr_state res)"
    and "\<forall>u. users db user = Some u \<longrightarrow> u_pk u = user \<and> user \<noteq> 0"
  shows "(\<exists>u. users db' user = Some u \<and> \<not> u_active u)
     \<and> user \<notin> set (refresh_tokens db') \<union> set (access_tokens db') \<union> set (api_tokens db')
         \<union> set (temp_tokens db')
     \<and> (user, ODK_ACTIVE) \<notin> set (odk_tokens db')
     \<and> (\<forall>q. q \<noteq> user \<longrightarrow> users db' q = users db q
          \<and> (q \<in> set (access_tokens db') \<longleftrightarrow> q \<in> set (access_tokens db)))
     \<and> (\<exists>st'. deactivate_user cfg (Some arg) w' run_id' db' = Inr (db', unchanged_result st'))"
  using assms(1,2,4,5)
proof (rule deactivate_tables)
  fix u a st
  let ?p = "mark_deactivated w (permissions_revoked_at (dr_state res))
              (permission_policy_applied (dr_state res))"
  assume a: "Some arg = Some a" "ds_pk a \<noteq> 0" "get_state (ds_pk a) db = Some st" "ds_user st = user"
    and users': "users db' = (users db)(user \<mapsto> u\<lparr>u_active := False\<rparr>)"
    and states': "states db' = map (\<lambda>s. if ds_pk s = ds_pk st then ?p s else s) (states db)"
    and tok: "refresh_tokens db' = filter (\<lambda>t. t \<noteq> user) (refresh_tokens db)"
    "access_tokens db' = filter (\<lambda>t. t \<noteq> user) (access_tokens db)"
    "api_tokens db' = filter (\<lambda>t. t \<noteq> user) (api_tokens db)"
    "temp_tokens db' = filter (\<lambda>t. t \<noteq> user) (temp_tokens db)"
    "odk_tokens db' = map (\<lambda>(o', s). if o' = user \<and> s = ODK_ACTIVE
                         then (o', ODK_INACTIVE) else (o', s)) (odk_tokens db)"
  have gs: "get_state (ds_pk arg) db' = Some (?p st)"
    using get_state_save_fields [of ?p "ds_pk arg" "ds_pk st" db] a get_state_SomeD [OF a(3)]
      get_state_cong [of db' "save_fields (ds_pk st) ?p db"] states' by simp
  have "ds_pk \<circ> (\<lambda>s. if ds_pk s = ds_pk st then ?p s else s) = ds_pk" by (rule ext) simp
  then have dist': "distinct (map ds_pk (states db'))" using assms(3) unfolding states' by simp
  have "\<not> is_deactivation_due cfg db' (?p st) w'"
    by (rule inactive_not_due [OF dist', where u = "u\<lparr>u_active := False\<rparr>"])
      (use get_state_SomeD [OF gs] users' a(4) in simp_all)
  then have again: "deactivate_user cfg (Some arg) w' run_id' db' = Inr (db', unchanged_result (?p st))"
    using a gs users' by (simp add: deactivate_user_def)
  have "(user, ODK_ACTIVE) \<notin> set (odk_tokens db')"
    unfolding tok by (auto split: if_splits prod.splits)
  with again show ?thesis by (auto simp: tok users')
qed

lemma demo_states_distinct: "distinct (map ds_pk (states demo_warned))"
  by code_simp

lemma demo_deactivated_user: "ds_user (dr_state (snd (projr demo_deactivation))) = 5"
  by code_simp

theorem deactivation_closes_access_witness:
  "5 \<notin> set (access_tokens (fst (projr demo_deactivation)))
   \<and> 6 \<in> set (access_tokens (fst (projr demo_deactivation)))"
proof -
  have u: "\<forall>u. users demo_warned 5 = Some u \<longrightarrow> u_pk u = 5 \<and> (5::int) \<noteq> 0"
    by (simp add: demo_states demo_user_def)
  have "(6::int) \<in> set (access_tokens demo_warned)" by code_simp
  with deactivation_closes_access [OF demo_deactivation_eq demo_runs(3) demo_states_distinct
      demo_deactivated_user [symmetric] u, of 0 "[]"]
  show ?thesis by auto
qed

text \<open>The query that selects accounts to deactivate and the deadline that warnings and
  reports announce agree: deactivation of a state is due exactly when the state is active
  and its effective deadline has passed.\<close>

theorem due_iff_announced_deadline:
  assumes "lifecycle cfg db" "st \<in> set (states db)"
  shows "is_deactivation_due cfg db st w \<longleftrightarrow>
     is_active_deactivation_state cfg db st
     \<and> (\<exists>e. get_effective_deactivation_scheduled_at cfg st w = Some e \<and> e \<le> w)"
proof -
  have inv: "notice_inv cfg db" by (rule lifecycle_notice_inv [OF assms(1)])
  then have due: "is_deactivation_due cfg db st w \<longleftrightarrow>
      is_active_deactivation_state cfg db st \<and> due_for_deactivation cfg w st"
    using due_state assms(2) by (simp add: notice_inv_def)
  show ?thesis
  proof (cases "get_deactivation_warning_days cfg \<noteq> [] \<longrightarrow> first_warning_sent_at st \<noteq> None")
    case True
    from due_iff_effective [OF this] due show ?thesis by simp
  next
    case False
    then obtain req rest where c: "get_deactivation_warning_days cfg = req # rest"
      and n: "first_warning_sent_at st = None" by (cases "get_deactivation_warning_days cfg") auto
    have "warned_offsets st = []"
      using notice_inv_warned [OF inv assms(2) c] n by fastforce
    moreover have "0 < days req" by (rule days_mono [OF warning_days_pos [OF c]])
    ultimately show ?thesis
      using c n due by (auto simp: due_for_deactivation_def
          get_effective_deactivation_scheduled_at_def sql_le_def split: option.splits)
  qed
qed

theorem due_iff_announced_deadline_witness:
  "is_deactivation_due demo_settings demo_warned (the (get_state 1 demo_warned)) (days 366)
     \<longleftrightarrow> is_active_deactivation_state demo_settings demo_warned (the (get_state 1 demo_warned))
       \<and> (\<exists>e. get_effective_deactivation_scheduled_at demo_settings
                (the (get_state 1 demo_warned)) (days 366) = Some e \<and> e \<le> days 366)"
  by (rule due_iff_announced_deadline [OF demo_lifecycle])
    (use get_state_SomeD [OF demo_states(1)] demo_states(1) in simp)

section \<open>Pending actions\<close>

lemma set_order_states [simp]: "set (order_states key ss) = set ss"
  by (simp add: order_states_def)

lemma distinct_pk_order_states [simp]:
  "distinct (map ds_pk (order_states key ss)) \<longleftrightarrow> distinct (map ds_pk ss)"
  by (simp add: order_states_def distinct_map)

definition deactivation_plan :: "time \<Rightarrow> string \<Rightarrow> dstate \<Rightarrow> action_plan" where
  "deactivation_plan w policy st =
     \<lparr>ap_state = st, ap_action = DEACTIVATION_ACTION_DEACTIVATE, ap_when = w,
      ap_offsets = [], ap_policy = policy\<rparr>"

text \<open>A warning plan names a state that is active, under its key, and only offsets due for it.\<close>

definition warning_plan_ok :: "dsettings \<Rightarrow> ddb \<Rightarrow> time \<Rightarrow> int \<Rightarrow> action_plan \<Rightarrow> bool" where
  "warning_plan_ok cfg db w pk a \<longleftrightarrow>
     ap_action a = DEACTIVATION_ACTION_SEND_WARNING \<and> ds_pk (ap_state a) = pk
     \<and> ap_state a \<in> set (get_active_deactivation_states cfg db) \<and> ap_offsets a \<noteq> []
     \<and> (\<forall>offset \<in> set (ap_offsets a). 0 < offset \<and> due_for_warning cfg offset w (ap_state a))"

text \<open>The dictionary after the deactivations \<open>acts0\<close> and some warnings.\<close>

definition plans_ok ::
    "dsettings \<Rightarrow> ddb \<Rightarrow> time \<Rightarrow> (int, action_plan) dict \<Rightarrow> (int, action_plan) dict \<Rightarrow> bool" where
  "plans_ok cfg db w acts0 acts \<longleftrightarrow>
     dict_ok acts
     \<and> (\<forall>k a. map_of acts k = Some a \<longrightarrow> k \<in> set (map fst acts0) \<and> map_of acts0 k = Some a
           \<or> k \<notin> set (map fst acts0) \<and> warning_plan_ok cfg db w k a)
     \<and> (\<forall>k a. map_of acts0 k = Some a \<longrightarrow> map_of acts k = Some a)"

lemma add_warning_action_ok:
  assumes "distinct (map ds_pk (states db))" "plans_ok cfg db w acts0 acts"
    and "ds_pk st \<notin> set (map fst acts0)" "0 < offset"
    and "st \<in> set (get_deactivation_states_due_for_warning cfg db offset w)"
  shows "plans_ok cfg db w acts0 (add_warning_action w policy offset st acts)"
proof -
  have st: "st \<in> set (get_active_deactivation_states cfg db)" "due_for_warning cfg offset w st"
    using assms(5) by (auto simp: get_deactivation_states_due_for_warning_def)
  then have st_in: "st \<in> set (states db)" by (simp add: get_active_deactivation_states_def)
  define new where "new = (case map_of acts (ds_pk st) of
          None \<Rightarrow> \<lparr>ap_state = st, ap_action = DEACTIVATION_ACTION_SEND_WARNING, ap_when = w,
                   ap_offsets = [offset], ap_policy = policy\<rparr>
        | Some a \<Rightarrow> a\<lparr>ap_offsets := normalize_warning_days (ap_offsets a @ [offset])\<rparr>)"
  have new: "warning_plan_ok cfg db w (ds_pk st) new"
  proof (cases "map_of acts (ds_pk st)")
    case None
    then show ?thesis using st assms(4) by (simp add: new_def warning_plan_ok_def)
  next
    case (Some a)
    with assms(2,3) have a: "warning_plan_ok cfg db w (ds_pk st) a" by (auto simp: plans_ok_def)
    then have "ap_state a \<in> set (states db)" "ds_pk (ap_state a) = ds_pk st"
      by (simp_all add: warning_plan_ok_def get_active_deactivation_states_def)
    from get_state_unique [OF assms(1) this(1) st_in this(2)] have eq: "ap_state a = st" .
    have "normalize_warning_days (ap_offsets a @ [offset]) \<noteq> []"
      using assms(4) by (auto simp: normalize_warning_days_Nil_iff)
    then show ?thesis using a eq st Some by (auto simp: new_def warning_plan_ok_def)
  qed
  have key: "map_of acts0 (ds_pk st) = None"
    using assms(3) by (simp add: map_of_eq_None_iff)
  show ?thesis
    unfolding plans_ok_def add_warning_action_def new_def [symmetric]
    using assms(2,3) new key by (auto simp: plans_ok_def ad.ok_put split: if_splits)
qed

lemma fold_invariant: "I a \<Longrightarrow> (\<And>x a. x \<in> set xs \<Longrightarrow> I a \<Longrightarrow> I (f x a)) \<Longrightarrow> I (fold f xs a)"
  by (induction xs arbitrary: a) auto

lemma map_of_plans:
  assumes "distinct (map ds_pk ss)"
  shows "map_of (fold (\<lambda>st acts. AList.update (ds_pk st) (g st) acts) ss []) k = Some a
    \<longleftrightarrow> (\<exists>st \<in> set ss. ds_pk st = k \<and> g st = a)"
    "dict_ok (fold (\<lambda>st acts. AList.update (ds_pk st) (g st) acts) ss [])"
proof -
  have eq: "fold (\<lambda>st acts. AList.update (ds_pk st) (g st) acts) ss d
      = dict_update d (map (\<lambda>st. (ds_pk st, g st)) ss)" for d
    by (induction ss arbitrary: d) (auto simp: dict_update_def)
  have "map fst (rev (map (\<lambda>st. (ds_pk st, g st)) ss)) = rev (map ds_pk ss)"
    by (simp add: rev_map)
  then have "distinct (map fst (rev (map (\<lambda>st. (ds_pk st, g st)) ss)))"
    using assms by simp
  then have "map_of (rev (map (\<lambda>st. (ds_pk st, g st)) ss)) k = Some a
      \<longleftrightarrow> (k, a) \<in> set (rev (map (\<lambda>st. (ds_pk st, g st)) ss))"
    by (rule map_of_eq_Some_iff)
  then show "map_of (fold (\<lambda>st acts. AList.update (ds_pk st) (g st) acts) ss []) k = Some a
    \<longleftrightarrow> (\<exists>st \<in> set ss. ds_pk st = k \<and> g st = a)"
    unfolding eq dict_get_update by (auto split: option.splits)
  show "dict_ok (fold (\<lambda>st acts. AList.update (ds_pk st) (g st) acts) ss [])"
    unfolding eq by (rule dict_ok_update) (simp add: dict_ok_def)
qed

lemma pending_plans_ok:
  assumes "distinct (map ds_pk (states db))"
    and "get_pending_deactivation_actions cfg db w = Inr plans"
  obtains policy acts where "get_deactivation_permission_policy cfg = Inr policy"
    "plans = map snd acts" "dict_ok acts"
    "\<And>k a. map_of acts k = Some a \<Longrightarrow>
       (\<exists>st \<in> set (get_deactivation_states_due_for_deactivation cfg db w).
           ds_pk st = k \<and> a = deactivation_plan w policy st)
       \<or> warning_plan_ok cfg db w k a"
    "\<And>st. st \<in> set (get_deactivation_states_due_for_deactivation cfg db w) \<Longrightarrow>
       map_of acts (ds_pk st) = Some (deactivation_plan w policy st)"
proof -
  from assms(2) obtain policy where p: "get_deactivation_permission_policy cfg = Inr policy"
    by (auto simp: get_pending_deactivation_actions_def split: sum.splits)
  define due where "due = by_schedule (get_deactivation_states_due_for_deactivation cfg db w)"
  define acts0 where "acts0 =
    fold (\<lambda>st acts. AList.update (ds_pk st) (deactivation_plan w policy st) acts) due []"
  define acts where "acts = fold (\<lambda>offset acts.
                        fold (add_warning_action w policy offset)
                          (filter (\<lambda>st. ds_pk st \<notin> set (map fst acts0))
                            (by_schedule (get_deactivation_states_due_for_warning cfg db offset w)))
                          acts)
                      (get_deactivation_warning_days cfg) acts0"
  have plans: "plans = map snd acts"
    using assms(2) p
    unfolding get_pending_deactivation_actions_def Let_def acts_def acts0_def due_def
      deactivation_plan_def by simp
  have ddue: "distinct (map ds_pk due)"
    using assms(1) unfolding due_def get_deactivation_states_due_for_deactivation_def
      get_active_deactivation_states_def distinct_pk_order_states
    by (simp add: distinct_map inj_on_def)
  note m0 = map_of_plans [OF ddue, where g = "deactivation_plan w policy", folded acts0_def]
  have "plans_ok cfg db w acts0 acts0"
    using m0(2) by (auto simp: plans_ok_def) (metis fst_conv image_eqI map_of_SomeD)
  then have ok: "plans_ok cfg db w acts0 acts"
    unfolding acts_def
  proof (rule fold_invariant [where I = "plans_ok cfg db w acts0"])
    fix offset acts'
    assume o: "offset \<in> set (get_deactivation_warning_days cfg)" and I: "plans_ok cfg db w acts0 acts'"
    then have pos: "0 < offset" by (simp add: get_deactivation_warning_days_def)
    show "plans_ok cfg db w acts0
       (fold (add_warning_action w policy offset)
          (filter (\<lambda>st. ds_pk st \<notin> set (map fst acts0))
            (by_schedule (get_deactivation_states_due_for_warning cfg db offset w))) acts')"
      by (rule fold_invariant [where I = "plans_ok cfg db w acts0", OF I])
        (rule add_warning_action_ok [OF assms(1) _ _ pos], auto)
  qed
  show thesis
  proof (rule that [OF p plans])
    show "dict_ok acts" using ok by (simp add: plans_ok_def)
    show "(\<exists>st \<in> set (get_deactivation_states_due_for_deactivation cfg db w).
           ds_pk st = k \<and> a = deactivation_plan w policy st) \<or> warning_plan_ok cfg db w k a"
      if "map_of acts k = Some a" for k a
      using ok that m0(1) [of k a] unfolding plans_ok_def due_def by auto
    show "map_of acts (ds_pk st) = Some (deactivation_plan w policy st)"
      if "st \<in> set (get_deactivation_states_due_for_deactivation cfg db w)" for st
      using ok that m0(1) [of "ds_pk st" "deactivation_plan w policy st"]
      unfolding plans_ok_def due_def by auto
  qed
qed

lemma active_not_excluded:
  assumes "is_active_deactivation_state cfg db st" "\<forall>pk u. users db pk = Some u \<longrightarrow> u_pk u = pk"
  shows "\<exists>u. users db (ds_user st) = Some u \<and> u_active u
     \<and> get_deactivation_exclusion_reason cfg db (Some u) = []"
  using assms
  by (auto simp: is_active_deactivation_state_def get_deactivation_exclusion_reason_def
      split: option.splits)

lemma deactivate_due:
  assumes "distinct (map ds_pk (states db))" "st \<in> set (states db)" "ds_pk st \<noteq> 0"
    and "\<forall>pk u. users db pk = Some u \<longrightarrow> u_pk u = pk"
    and "get_deactivation_permission_policy cfg = Inr policy"
    and "is_deactivation_due cfg db st w"
  shows "\<exists>db' res. deactivate_user cfg (Some st) w run_id db = Inr (db', res) \<and> dr_deactivated res"
proof -
  have gs: "get_state (ds_pk st) db = Some st"
  proof -
    have "get_state (ds_pk st) db \<noteq> None" using assms(2) by (auto simp: get_state_def find_None_iff)
    then obtain s where "get_state (ds_pk st) db = Some s" by blast
    with get_state_SomeD [OF this] get_state_unique [OF assms(1) _ assms(2)] show ?thesis by simp
  qed
  have act: "is_active_deactivation_state cfg db st"
    using due_state [OF assms(1,2)] assms(6) by simp
  from active_not_excluded [OF this assms(4)] obtain u where
    u: "users db (ds_user st) = Some u" "u_active u"
      "get_deactivation_exclusion_reason cfg db (Some u) = []" by blast
  obtain db1 tokens where t: "revoke_user_tokens (Some u) db = (db1, tokens)" by fastforce
  have "\<exists>r. (if policy = PERMISSION_POLICY_REVOKE
      then revoke_revocable_user_permissions cfg (Some st) w
             (if run_id \<noteq> [] then run_id else get_deactivation_run_id st) db1
      else Inr (db1, 0, 0)) = Inr r"
    using assms(3,5) by (cases "policy = PERMISSION_POLICY_REVOKE")
      (simp_all add: revoke_revocable_user_permissions_def del: split_paired_Ex)
  then obtain r where r: "(if policy = PERMISSION_POLICY_REVOKE
      then revoke_revocable_user_permissions cfg (Some st) w
             (if run_id \<noteq> [] then run_id else get_deactivation_run_id st) db1
      else Inr (db1, 0, 0)) = Inr r" by blast
  obtain db2 stored revoked where r': "r = (db2, stored, revoked)" by (cases r)
  show ?thesis
    unfolding deactivate_user_def
    by (simp add: assms(3,5,6) gs u t r r' Let_def del: split_paired_Ex)
qed

lemma warning_action_differs: "DEACTIVATION_ACTION_DEACTIVATE \<noteq> DEACTIVATION_ACTION_SEND_WARNING"
  by simp

text \<open>A state has a planned deactivation exactly when it is due.\<close>

lemma pending_facts:
  assumes "distinct (map ds_pk (states db))"
    and "get_pending_deactivation_actions cfg db w = Inr plans"
  shows "distinct (map (\<lambda>p. ds_pk (ap_state p)) plans)"
    "(\<exists>p \<in> set plans. ap_action p = DEACTIVATION_ACTION_DEACTIVATE \<and> ap_state p = st)
       \<longleftrightarrow> st \<in> set (get_deactivation_states_due_for_deactivation cfg db w)"
    "p \<in> set plans \<Longrightarrow> ap_action p = DEACTIVATION_ACTION_SEND_WARNING \<Longrightarrow>
       warning_plan_ok cfg db w (ds_pk (ap_state p)) p"
proof -
  obtain policy acts where plans: "plans = map snd acts" and ok: "dict_ok acts"
    and each: "\<And>k a. map_of acts k = Some a \<Longrightarrow>
       (\<exists>st \<in> set (get_deactivation_states_due_for_deactivation cfg db w).
           ds_pk st = k \<and> a = deactivation_plan w policy st)
       \<or> warning_plan_ok cfg db w k a"
    and all: "\<And>st. st \<in> set (get_deactivation_states_due_for_deactivation cfg db w) \<Longrightarrow>
       map_of acts (ds_pk st) = Some (deactivation_plan w policy st)"
    using pending_plans_ok [OF assms] by (metis (no_types, lifting))
  have entry: "map_of acts k = Some a" if "(k, a) \<in> set acts" for k a
    using ad.items_iff [OF ok] that by simp
  have key: "ds_pk (ap_state a) = k" if "(k, a) \<in> set acts" for k a
    using each [OF entry [OF that]] by (auto simp: deactivation_plan_def warning_plan_ok_def)
  have "map (\<lambda>p. ds_pk (ap_state p)) plans = map fst acts"
    unfolding plans using key by (auto simp: o_def intro!: map_cong)
  then show "distinct (map (\<lambda>p. ds_pk (ap_state p)) plans)"
    using ok by (simp add: dict_ok_def)
  show "(\<exists>p \<in> set plans. ap_action p = DEACTIVATION_ACTION_DEACTIVATE \<and> ap_state p = st)
       \<longleftrightarrow> st \<in> set (get_deactivation_states_due_for_deactivation cfg db w)"
  proof
    assume "\<exists>p \<in> set plans. ap_action p = DEACTIVATION_ACTION_DEACTIVATE \<and> ap_state p = st"
    then obtain k a where "(k, a) \<in> set acts" "ap_action a = DEACTIVATION_ACTION_DEACTIVATE"
        "ap_state a = st" unfolding plans by auto
    with each [OF entry] show "st \<in> set (get_deactivation_states_due_for_deactivation cfg db w)"
      by (fastforce simp: deactivation_plan_def warning_plan_ok_def)
  next
    assume "st \<in> set (get_deactivation_states_due_for_deactivation cfg db w)"
    from map_of_SomeD [OF all [OF this]]
    show "\<exists>p \<in> set plans. ap_action p = DEACTIVATION_ACTION_DEACTIVATE \<and> ap_state p = st"
      unfolding plans by (force simp: deactivation_plan_def)
  qed
  assume p: "p \<in> set plans" "ap_action p = DEACTIVATION_ACTION_SEND_WARNING"
  then obtain k where k: "(k, p) \<in> set acts" unfolding plans by auto
  have "p \<noteq> deactivation_plan w policy s" for s
    using p(2) by (metis action_plan.select_convs(2) deactivation_plan_def warning_action_differs)
  with each [OF entry [OF k]] key [OF k]
  show "warning_plan_ok cfg db w (ds_pk (ap_state p)) p" by metis
qed

text \<open>Executing succeeds exactly when the state is due.\<close>

lemma deactivate_succeeds_iff:
  assumes "distinct (map ds_pk (states db))" "st \<in> set (states db)" "ds_pk st \<noteq> 0"
    and "\<forall>pk u. users db pk = Some u \<longrightarrow> u_pk u = pk"
    and "get_deactivation_permission_policy cfg = Inr policy"
  shows "(\<exists>db' res. deactivate_user cfg (Some st) w run_id db = Inr (db', res) \<and> dr_deactivated res)
    \<longleftrightarrow> st \<in> set (get_deactivation_states_due_for_deactivation cfg db w)"
proof -
  have due: "is_deactivation_due cfg db st w
      \<longleftrightarrow> st \<in> set (get_deactivation_states_due_for_deactivation cfg db w)"
    using due_state [OF assms(1,2)] assms(2)
    by (simp add: get_deactivation_states_due_for_deactivation_def get_active_deactivation_states_def)
  have "is_deactivation_due cfg db st w"
    if "deactivate_user cfg (Some st) w run_id db = Inr (db', res)" "dr_deactivated res" for db' res
    using that
  proof (rule deactivate_user_success)
    fix a st' assume "Some st = Some a" "get_state (ds_pk a) db = Some st'"
        "is_deactivation_due cfg db st' w"
    with get_state_SomeD [of "ds_pk a" db st'] show ?thesis by (simp add: is_deactivation_due_def)
  qed
  then have "(\<exists>db' res. deactivate_user cfg (Some st) w run_id db = Inr (db', res)
      \<and> dr_deactivated res) \<Longrightarrow> is_deactivation_due cfg db st w" by (elim exE conjE)
  then show ?thesis using deactivate_due [OF assms] unfolding due [symmetric] by (rule iffI)
qed

text \<open>C8: The planner and the executor agree: in a reachable state the planned actions name
  each state at most once, an account has a planned deactivation exactly when deactivating
  it at that moment succeeds, and every planned warning names an active account and only
  offsets that are due.\<close>

theorem planned_actions_execute:
  assumes "lifecycle cfg db" "get_pending_deactivation_actions cfg db w = Inr plans"
    and "\<forall>pk u. users db pk = Some u \<longrightarrow> u_pk u = pk" "\<forall>st \<in> set (states db). ds_pk st \<noteq> 0"
  shows "distinct (map (\<lambda>p. ds_pk (ap_state p)) plans)
     \<and> (\<forall>st \<in> set (states db).
          (\<exists>p \<in> set plans. ap_action p = DEACTIVATION_ACTION_DEACTIVATE \<and> ap_state p = st)
          \<longleftrightarrow> (\<exists>db' res. deactivate_user cfg (Some st) w run_id db = Inr (db', res)
                        \<and> dr_deactivated res))
     \<and> (\<forall>p \<in> set plans. ap_action p = DEACTIVATION_ACTION_SEND_WARNING
          \<longrightarrow> is_active_deactivation_state cfg db (ap_state p) \<and> ap_offsets p \<noteq> []
              \<and> (\<forall>offset \<in> set (ap_offsets p). due_for_warning cfg offset w (ap_state p)))"
proof -
  have dist: "distinct (map ds_pk (states db))"
    using lifecycle_notice_inv [OF assms(1)] by (simp add: notice_inv_def)
  note f = pending_facts [OF dist assms(2)]
  obtain policy where p: "get_deactivation_permission_policy cfg = Inr policy"
    using pending_plans_ok [OF dist assms(2)] by blast
  show ?thesis
  proof (intro conjI ballI impI)
    fix st assume st: "st \<in> set (states db)"
    show "(\<exists>p \<in> set plans. ap_action p = DEACTIVATION_ACTION_DEACTIVATE \<and> ap_state p = st)
          \<longleftrightarrow> (\<exists>db' res. deactivate_user cfg (Some st) w run_id db = Inr (db', res)
                        \<and> dr_deactivated res)"
      using f(2) deactivate_succeeds_iff [OF dist st _ assms(3) p] assms(4) st by simp
  qed (use f(1,3) in \<open>auto simp: warning_plan_ok_def get_active_deactivation_states_def\<close>)
qed

lemma demo_pending:
  "\<not> isl (get_pending_deactivation_actions demo_settings demo_warned (days 366))"
  "map ap_action (projr (get_pending_deactivation_actions demo_settings demo_warned (days 366)))
     = [DEACTIVATION_ACTION_DEACTIVATE]"
  "list_all (\<lambda>st. ds_pk st \<noteq> 0) (states demo_warned)"
  by code_simp+

lemma dispatch_users:
  assumes "dispatch_deactivation_warning cfg dispatch plan w db = Inr (db', res)"
  shows "users db' = users db"
proof (cases "wr_sent res")
  case True
  from assms True show ?thesis
  proof (rule dispatch_sent)
    fix st offsets db1 st1 offsets1 date
    assume g: "apply_required_warning_grace cfg st offsets w db = (db1, st1, offsets1)"
      and d: "db' = save_fields (ds_pk st)
       (\<lambda>r. r\<lparr>first_warning_sent_at :=
                 first_warning_sent_at (mark_warning_offsets_sent offsets1 w st1),
               warned_offsets := warned_offsets (mark_warning_offsets_sent offsets1 w st1)\<rparr>)
       (db1\<lparr>outbox := outbox db1 @ [(ds_user st, w, date)]\<rparr>)"
    have "users db1 = users db"
      using g by (auto simp: apply_required_warning_grace_def Let_def
          split: list.splits if_splits option.splits)
    then show ?thesis unfolding d by simp
  qed
next
  case False
  with assms dispatch_not_sent show ?thesis by blast
qed

lemma demo_users: "\<forall>pk u. users demo_warned pk = Some u \<longrightarrow> u_pk u = pk"
proof -
  have "users demo_warned = users demo_db"
    by (rule dispatch_users [OF demo_warning_eq [unfolded demo_warning_def]])
  then show ?thesis by (simp add: demo_db_def demo_user_def)
qed

theorem planned_actions_execute_witness:
  "distinct (map (\<lambda>p. ds_pk (ap_state p))
     (projr (get_pending_deactivation_actions demo_settings demo_warned (days 366))))"
proof -
  have "get_pending_deactivation_actions demo_settings demo_warned (days 366)
      = Inr (projr (get_pending_deactivation_actions demo_settings demo_warned (days 366)))"
    using demo_pending(1) by (cases "get_pending_deactivation_actions demo_settings demo_warned
      (days 366)") auto
  moreover have "\<forall>st \<in> set (states demo_warned). ds_pk st \<noteq> 0"
    using demo_pending(3) by (simp add: list_all_iff)
  ultimately show ?thesis
    using planned_actions_execute [OF demo_lifecycle _ demo_users] by blast
qed

section \<open>Reactivation\<close>

lemma sync_schedule_keeps:
  assumes "sync_schedule cfg now n user a db = Inr db'" "get_state pk db = Some st"
  shows "users db' = users db
    \<and> (\<exists>st'. get_state pk db' = Some st' \<and> deactivated_at st' = deactivated_at st
           \<and> ds_user st' = ds_user st)"
proof (cases "find (\<lambda>st. ds_user st = user) (states db)")
  case None
  with assms(1) obtain s where db': "db' = db\<lparr>states := states db @ [new_dstate (next_pk (states db)) user s]\<rparr>"
    by (auto simp: sync_schedule_def split: sum.splits)
  have "find P (xs @ ys) = Some x" if "find P xs = Some x" for P and xs ys :: "dstate list" and x
    using that by (induction xs) auto
  with assms(2) show ?thesis unfolding db' by (simp add: get_state_def)
next
  case (Some r)
  then consider "db = db'"
    | s where "db' = save_fields (ds_pk r)
            (\<lambda>r. clear_warning_state (r\<lparr>deactivation_scheduled_at := Some s\<rparr>)) db"
    using assms(1) by (auto simp: sync_schedule_def split: sum.splits if_splits)
  then show ?thesis
  proof cases
    case 1
    with assms(2) show ?thesis by simp
  next
    case 2
    then show ?thesis
      using assms(2) get_state_save_fields [of "\<lambda>r. clear_warning_state (r\<lparr>deactivation_scheduled_at := Some s\<rparr>)"
          pk "ds_pk r" db]
      by (simp add: clear_warning_state_def)
  qed
qed

lemma touch_activity_keeps:
  assumes "touch_activity cfg u w db = Inr db'" "get_state pk db = Some st" "u_pk u \<noteq> 0"
  shows "users db' = users db
    \<and> (\<exists>st'. get_state pk db' = Some st' \<and> deactivated_at st' = deactivated_at st
           \<and> ds_user st' = ds_user st)"
proof -
  let ?db = "db\<lparr>activities := (activities db)(u_pk u \<mapsto> w)\<rparr>"
  have "sync_schedule cfg w None (u_pk u) w ?db = Inr db' \<or> ?db = db' \<or> db = db'"
    using assms(1,3) unfolding touch_activity_def Let_def sync_user_deactivation_state_def
      get_or_create_user_activity_def
    by (simp split: option.splits if_splits)
  moreover have "get_state pk ?db = Some st" using assms(2) by (simp add: get_state_def)
  ultimately show ?thesis
    using sync_schedule_keeps [of cfg w None "u_pk u" w ?db db' pk st] assms(2) by auto
qed

text \<open>C9: Reactivation gives the account a fresh lifecycle: it is active again with an API
  and a temporary token, its deactivation no longer counts as current, the warnings are
  cleared, and it is not due for deactivation before the whole inactivity period has
  passed; where warnings are configured it is not due at all until it has been warned
  again.\<close>

theorem reactivation_restarts_lifecycle:
  assumes "lifecycle cfg db" "reactivate_user cfg (Some arg) w db = Inr (db', res)"
    and "rr_reactivated res" "get_deactivation_inactivity_days cfg = Inr n"
    and "get_state (ds_pk arg) db = Some st" "deactivated_at st = Some d" "d < w"
    and "\<forall>pk u. users db pk = Some u \<longrightarrow> u_pk u = pk" "ds_user st \<noteq> 0"
  shows "\<exists>st'. get_state (ds_pk arg) db' = Some st' \<and> ds_user st' = ds_user st
     \<and> \<not> has_current_deactivation st' \<and> warned_offsets st' = []
     \<and> (\<exists>u. users db' (ds_user st) = Some u \<and> u_active u)
     \<and> ds_user st \<in> set (api_tokens db') \<and> ds_user st \<in> set (temp_tokens db')
     \<and> (\<forall>t. is_deactivation_due cfg db' st' t \<longrightarrow>
          w + days n \<le> t \<and> get_deactivation_warning_days cfg = [])"
  using assms(2,3)
proof (rule reactivate_user_success)
  fix a st0 u db2 s
  assume a: "Some arg = Some a" "get_state (ds_pk a) db = Some st0"
      "users db (ds_user st0) = Some u"
    and t: "touch_activity cfg (u\<lparr>u_active := True\<rparr>) w
       (if \<not> u_active u then set_user_active (ds_user st0) True db else db) = Inr db2"
    and s: "get_deactivation_scheduled_at cfg w None False w = Inr s"
    and d: "db' = save_fields (ds_pk st0) (mark_reactivated w s)
       (db2\<lparr>api_tokens := fst (ensure_token (ds_user st0) (api_tokens db2)),
            temp_tokens := fst (ensure_token (ds_user st0) (temp_tokens db2))\<rparr>)"
  have st0: "st0 = st" using a assms(5) by simp
  have pk: "ds_pk st = ds_pk arg" using get_state_SomeD [OF assms(5)] by simp
  have s_eq: "s = w + days n"
    using s assms(4) by (simp add: get_deactivation_scheduled_at_def Let_def)
  let ?db1 = "if \<not> u_active u then set_user_active (ds_user st0) True db else db"
  have g1: "get_state (ds_pk arg) ?db1 = Some st"
    using assms(5) by (simp add: get_state_def)
  have upk: "u_pk (u\<lparr>u_active := True\<rparr>) \<noteq> 0" using a(3) st0 assms(8,9) by auto
  from touch_activity_keeps [OF t g1 upk] obtain st2 where
    k: "users db2 = users ?db1" "get_state (ds_pk arg) db2 = Some st2"
      "deactivated_at st2 = deactivated_at st" "ds_user st2 = ds_user st" by blast
  let ?db3 = "db2\<lparr>api_tokens := fst (ensure_token (ds_user st0) (api_tokens db2)),
            temp_tokens := fst (ensure_token (ds_user st0) (temp_tokens db2))\<rparr>"
  have "get_state (ds_pk arg) ?db3 = Some st2" using k(2) by (simp add: get_state_def)
  then have g': "get_state (ds_pk arg) db' = Some (mark_reactivated w s st2)"
    unfolding d using get_state_save_fields [of "mark_reactivated w s" "ds_pk arg" "ds_pk st0" ?db3]
    by (simp add: st0 pk)
  have inv: "notice_inv cfg db'"
    by (rule reactivate_notice [OF assms(2) lifecycle_notice_inv [OF assms(1)]])
  have u': "\<exists>u. users db' (ds_user st) = Some u \<and> u_active u"
    unfolding d using k(1) a(3) st0 by (auto simp: users_set_user_active)
  have due: "w + days n \<le> t \<and> get_deactivation_warning_days cfg = []"
    if "is_deactivation_due cfg db' (mark_reactivated w s st2) t" for t
  proof -
    have "due_for_deactivation cfg t (mark_reactivated w s st2)"
      using that due_state [of db' "mark_reactivated w s st2" cfg t] inv get_state_SomeD [OF g']
      by (simp add: notice_inv_def)
    then show ?thesis
      by (auto simp: due_for_deactivation_def sql_le_def s_eq split: list.splits)
  qed
  show ?thesis
    by (intro exI [of _ "mark_reactivated w s st2"] conjI allI impI)
      (use g' k u' due assms(6,7) st0 in
        \<open>auto simp: d has_current_deactivation_def ensure_token_def\<close>)
qed

definition demo_deactivated :: ddb where
  "demo_deactivated = fst (projr demo_deactivation)"

definition demo_reactivation :: "derror + ddb \<times> reactivation_result" where
  "demo_reactivation =
     reactivate_user demo_settings (Some (new_dstate 1 5 0)) (days 400) demo_deactivated"

lemma demo_reactivates:
  "\<not> isl demo_reactivation" "rr_reactivated (snd (projr demo_reactivation))"
  "get_deactivation_inactivity_days demo_settings = Inr 365"
  "get_state 1 demo_deactivated \<noteq> None"
  "deactivated_at (the (get_state 1 demo_deactivated)) = Some (days 366)"
  "ds_user (the (get_state 1 demo_deactivated)) = 5"
  "(366::int) * 86400000000 < 400 * 86400000000"
  by code_simp+

lemma demo_deactivated_users: "\<forall>pk u. users demo_deactivated pk = Some u \<longrightarrow> u_pk u = pk"
proof -
  have u: "\<forall>u. users demo_warned 5 = Some u \<longrightarrow> u_pk u = 5 \<and> (5::int) \<noteq> 0"
    by (simp add: demo_states demo_user_def)
  have others: "users demo_deactivated q = users demo_warned q" if "q \<noteq> 5" for q
  proof -
    have "users (fst (projr demo_deactivation)) q = users demo_warned q"
    proof (rule deactivate_user_success [OF demo_deactivation_eq demo_runs(3)])
      fix a st u policy db1 tokens db2 stored revoked
      assume t: "revoke_user_tokens (Some u) demo_warned = (db1, tokens)"
        and r: "(if policy = PERMISSION_POLICY_REVOKE
      then revoke_revocable_user_permissions demo_settings (Some st) (days 366)
             (if ''run'' \<noteq> [] then ''run'' else get_deactivation_run_id st) db1
      else Inr (db1, 0, 0)) = Inr (db2, stored, revoked)"
        and d: "fst (projr demo_deactivation) = save_fields (ds_pk st)
       (mark_deactivated (days 366) (if policy = PERMISSION_POLICY_REVOKE then Some (days 366) else None) policy)
       (set_user_active (ds_user st) False db2)"
        and res: "dr_state (snd (projr demo_deactivation)) = mark_deactivated (days 366)
       (if policy = PERMISSION_POLICY_REVOKE then Some (days 366) else None) policy st"
      have "users db2 = users db1"
        using r revoke_permissions_revoked_by revoked_by_frame(1)
        by (metis (no_types, lifting) Pair_inject sum.inject(2))
      moreover have "ds_user st = 5" using demo_deactivated_user res by simp
      ultimately show "users (fst (projr demo_deactivation)) q = users demo_warned q"
        unfolding d using that by (simp add: users_set_user_active revoke_user_tokens_frame(1) [OF t])
    qed
    then show ?thesis by (simp add: demo_deactivated_def)
  qed
  have "u_pk (the (users demo_deactivated 5)) = 5" by code_simp
  with others demo_users show ?thesis by (metis option.sel)
qed

theorem reactivation_restarts_lifecycle_witness:
  "\<exists>st'. get_state 1 (fst (projr demo_reactivation)) = Some st' \<and> warned_offsets st' = []
     \<and> \<not> has_current_deactivation st'"
proof -
  have life: "lifecycle demo_settings demo_deactivated"
    unfolding demo_deactivated_def
    by (rule lifecycle.deactivate [OF demo_lifecycle demo_deactivation_eq])
  have r: "reactivate_user demo_settings (Some (new_dstate 1 5 0)) (days 400) demo_deactivated
      = Inr (fst (projr demo_reactivation), snd (projr demo_reactivation))"
    using demo_reactivates(1) unfolding demo_reactivation_def
    by (cases "reactivate_user demo_settings (Some (new_dstate 1 5 0)) (days 400) demo_deactivated") auto
  have "get_state (ds_pk (new_dstate 1 5 0)) demo_deactivated
      = Some (the (get_state 1 demo_deactivated))"
    using demo_reactivates(4) by (auto simp: new_dstate_def)
  from reactivation_restarts_lifecycle [OF life r demo_reactivates(2,3) this demo_reactivates(5) _
      demo_deactivated_users] demo_reactivates(6)
  show ?thesis by (auto simp: new_dstate_def days_def day_def)
qed

section \<open>Report\<close>

lemma collect_results_map:
  "collect_results (map f xs) = Inr ys \<Longrightarrow> (\<And>x y. f x = Inr y \<Longrightarrow> g y = h x) \<Longrightarrow> map g ys = map h xs"
proof (induction xs arbitrary: ys)
  case Nil
  then show ?case by simp
next
  case (Cons x xs)
  then show ?case by (cases "f x") (auto split: sum.splits)
qed

lemma distinct_pk_filter:
  "distinct (map ds_pk ss) \<Longrightarrow> distinct (map ds_pk (filter P ss))"
  by (rule distinct_map_filter)

lemma show_nat_digits: "set (show_nat n) \<subseteq> digit_char ` {..<10}"
proof (induction n rule: show_nat.induct)
  case (1 n)
  show ?case
  proof (cases "n < 10")
    case True
    then show ?thesis by (simp add: show_nat_small)
  next
    case False
    with 1 have "set (show_nat (n div 10)) \<subseteq> digit_char ` {..<10}" by simp
    moreover have "n mod 10 < 10" by simp
    ultimately show ?thesis by (simp add: show_nat_large False)
  qed
qed

lemma digit_not_formula: "k < 10 \<Longrightarrow> digit_char k \<notin> set CSV_FORMULA_PREFIXES"
proof -
  have "list_all (\<lambda>k. digit_char k \<notin> set CSV_FORMULA_PREFIXES) [0..<10]" by code_simp
  moreover assume "k < 10"
  ultimately show ?thesis by (simp add: list_all_iff)
qed

lemma pad_head: "pad w n \<noteq> [] \<and> hd (pad w n) \<notin> set CSV_FORMULA_PREFIXES"
proof -
  have ne: "show_nat (nat n) \<noteq> []" by simp
  then have h: "hd (show_nat (nat n)) \<in> digit_char ` {..<10}"
    using show_nat_digits hd_in_set by blast
  have z: "CHR ''0'' \<notin> set CSV_FORMULA_PREFIXES" by (simp add: CSV_FORMULA_PREFIXES_def)
  have "hd (replicate m CHR ''0'' @ s) \<notin> set CSV_FORMULA_PREFIXES"
    if "s \<noteq> []" "hd s \<notin> set CSV_FORMULA_PREFIXES" for m and s :: string
    using that z by (cases m) simp_all
  moreover have "hd (show_nat (nat n)) \<notin> set CSV_FORMULA_PREFIXES" using h digit_not_formula by auto
  ultimately show ?thesis using ne by (simp add: pad_def Let_def)
qed

lemma isoformat_head: "isoformat t \<noteq> [] \<and> hd (isoformat t) \<notin> set CSV_FORMULA_PREFIXES"
proof -
  obtain y mo d where c: "civil_date (t div day) = (y, mo, d)" using prod_cases3 by blast
  show ?thesis using pad_head [of 4 y] by (simp add: isoformat_def c Let_def hd_append)
qed

lemma report_value_head:
  "format_deactivation_report_value v = []
   \<or> hd (format_deactivation_report_value v) \<notin> set CSV_FORMULA_PREFIXES"
proof (cases v)
  case (RStr s)
  show ?thesis
    by (cases s) (auto simp: RStr CSV_FORMULA_PREFIXES_def)
qed (use isoformat_head in simp_all)

lemma recent_report_rows:
  assumes "distinct (map ds_pk (states db))"
    and "get_recent_lifecycle_report_rows db w start seen policy = (recent, seen')"
  shows "seen' = seen @ map (\<lambda>r. ds_pk (row_state r)) recent
    \<and> distinct (map (\<lambda>r. ds_pk (row_state r)) recent)
    \<and> set (map (\<lambda>r. ds_pk (row_state r)) recent) \<inter> set seen = {}"
proof -
  define D where "D = order_states (\<lambda>s. - time_key (deactivated_at s))
            (filter (\<lambda>s. sql_ge (deactivated_at s) start \<and> sql_le (deactivated_at s) w
                 \<and> has_current_deactivation s \<and> ds_pk s \<notin> set seen) (states db))"
  define R where "R = order_states (\<lambda>s. - time_key (reactivated_at s))
            (filter (\<lambda>s. sql_ge (reactivated_at s) start \<and> sql_le (reactivated_at s) w
                 \<and> ds_pk s \<notin> set (seen @ map ds_pk D)) (states db))"
  have D: "distinct (map ds_pk D)" "set (map ds_pk D) \<inter> set seen = {}"
    unfolding D_def distinct_pk_order_states using distinct_pk_filter [OF assms(1)] by auto
  have R: "distinct (map ds_pk R)" "set (map ds_pk R) \<inter> set (seen @ map ds_pk D) = {}"
    unfolding R_def distinct_pk_order_states using distinct_pk_filter [OF assms(1)] by auto
  have pk: "ds_pk (row_state (recent_row c m q st)) = ds_pk st" for c m q st
    by (simp add: recent_row_def)
  from assms(2) have r: "recent = map (recent_row DEACTIVATION_REPORT_COHORT_RECENTLY_DEACTIVATED
                ''already deactivated'' policy) D
          @ map (recent_row DEACTIVATION_REPORT_COHORT_RECENTLY_REACTIVATED
                ''already reactivated'' policy) R"
      "seen' = (seen @ map ds_pk D) @ map ds_pk R"
    unfolding get_recent_lifecycle_report_rows_def Let_def D_def [symmetric] R_def [symmetric]
    by simp_all
  have m: "map (\<lambda>r. ds_pk (row_state r)) recent = map ds_pk D @ map ds_pk R"
    unfolding r(1) by (simp add: pk o_def)
  show ?thesis
    unfolding m r(2) using D R by auto
qed

lemma warned_report_rows:
  assumes "distinct (map ds_pk (states db))"
    and "get_already_warned_report_rows cfg db w window_end seen policy = (warned, seen')"
  shows "seen' = seen @ map (\<lambda>r. ds_pk (row_state r)) warned
    \<and> distinct (map (\<lambda>r. ds_pk (row_state r)) warned)
    \<and> set (map (\<lambda>r. ds_pk (row_state r)) warned) \<inter> set seen = {}"
proof -
  have active: "distinct (map ds_pk (filter P (get_active_deactivation_states cfg db)))" for P
    unfolding get_active_deactivation_states_def by (intro distinct_pk_filter assms(1))
  have warned_pk: "ds_pk (row_state (already_warned_row cfg db w policy st)) = ds_pk st" for st
    by (simp add: already_warned_row_def split: prod.split)
  from assms(2) active show ?thesis
    by (auto simp: get_already_warned_report_rows_def Let_def warned_pk o_def)
qed

lemma report_pks_distinct:
  assumes "distinct (map ds_pk (states db))"
    and "get_deactivation_report_rows cfg db window_days w = Inr rows"
  shows "distinct (map (\<lambda>r. ds_pk (row_state r)) rows)"
proof -
  let ?n = "case window_days of None \<Rightarrow> DEFAULT_DEACTIVATION_REPORT_WINDOW_DAYS | Some v \<Rightarrow> v"
  let ?pk = "\<lambda>r. ds_pk (row_state r)"
  obtain policy acts rows0 where
    p: "get_pending_deactivation_actions cfg db w = Inr acts"
      "collect_results (map (as_report_row cfg) acts) = Inr rows0"
    and pol: "get_deactivation_permission_policy cfg = Inr policy" and n: "\<not> ?n \<le> 0"
    using assms(2) unfolding get_deactivation_report_rows_def
    by (auto simp: Let_def split: sum.splits if_splits)
  have "map ?pk rows0 = map (\<lambda>p. ds_pk (ap_state p)) acts"
    by (rule collect_results_map [OF p(2)]) (auto simp: as_report_row_def split: sum.splits)
  with pending_facts(1) [OF assms(1) p(1)] have d0: "distinct (map ?pk rows0)" by simp
  have states: "distinct (map ds_pk (filter P (states db)))" for P
    by (rule distinct_pk_filter [OF assms(1)])
  obtain warned seen1 where w1: "get_already_warned_report_rows cfg db w (w + days ?n)
      (map ?pk rows0) policy = (warned, seen1)" by fastforce
  from warned_report_rows [OF assms(1) w1] have s1: "seen1 = map ?pk rows0 @ map ?pk warned"
    and d1: "distinct (map ?pk warned)" and f1: "set (map ?pk warned) \<inter> set (map ?pk rows0) = {}"
    by blast+
  obtain recent seen2 where w2: "get_recent_lifecycle_report_rows db w (w - days ?n) seen1 policy
      = (recent, seen2)" by fastforce
  from recent_report_rows [OF assms(1) w2] have s2: "seen2 = seen1 @ map ?pk recent"
    and d2: "distinct (map ?pk recent)" and f2: "set (map ?pk recent) \<inter> set seen1 = {}" by blast+
  let ?skipped = "get_skipped_report_rows cfg db (w + days ?n) seen2 policy"
  have "map ?pk ?skipped = map ds_pk
       (filter (\<lambda>s. get_deactivation_exclusion_reason cfg db (users db (ds_user s)) \<noteq> [])
         (by_schedule
            (filter (\<lambda>s. not_deactivated s \<and> sql_le (deactivation_scheduled_at s) (w + days ?n)
                 \<and> ds_pk s \<notin> set seen2) (states db))))"
    by (simp add: get_skipped_report_rows_def skipped_row_def Let_def o_def)
  then have d3: "distinct (map ?pk ?skipped)" and f3: "set (map ?pk ?skipped) \<inter> set seen2 = {}"
    using states by (auto intro!: distinct_pk_filter)
  have "rows = rows0 @ warned @ recent @ ?skipped"
    using assms(2) n by (simp add: get_deactivation_report_rows_def Let_def p pol w1 w2)
  with d0 d1 d2 d3 f1 f2 f3 show "distinct (map ?pk rows)"
    unfolding s2 s1 by (auto simp: disjoint_iff)
qed

text \<open>The report lists every lifecycle state at most once, whichever cohorts it would
  fit, and each cell of a serialised row is safe against spreadsheet formula injection:
  it is empty or does not start with a formula character.\<close>

theorem report_rows_distinct_and_safe:
  assumes "distinct (map ds_pk (states db))"
    and "get_deactivation_report_rows cfg db window_days w = Inr rows"
  shows "distinct (map (\<lambda>r. ds_pk (row_state r)) rows)
     \<and> (\<forall>r \<in> set rows. \<forall>cell \<in> set (map snd (serialize_deactivation_report_row db r)).
          cell = [] \<or> hd cell \<notin> set CSV_FORMULA_PREFIXES)"
  using report_pks_distinct [OF assms] report_value_head
  by (auto simp: serialize_deactivation_report_row_def)

lemma demo_report:
  "\<not> isl (get_deactivation_report_rows demo_settings demo_warned None (days 366))"
  "\<exists>r \<in> set (projr (get_deactivation_report_rows demo_settings demo_warned None (days 366))).
     map_of (serialize_deactivation_report_row demo_warned r) ''display_name'' = Some (CHR 0x27 # ''=Bob'')"
  by code_simp+

theorem report_rows_distinct_and_safe_witness:
  "distinct (map (\<lambda>r. ds_pk (row_state r))
     (projr (get_deactivation_report_rows demo_settings demo_warned None (days 366))))"
proof -
  have "get_deactivation_report_rows demo_settings demo_warned None (days 366)
      = Inr (projr (get_deactivation_report_rows demo_settings demo_warned None (days 366)))"
    using demo_report(1) by (cases "get_deactivation_report_rows demo_settings demo_warned None
      (days 366)") auto
  from report_rows_distinct_and_safe [OF demo_states_distinct this] show ?thesis by blast
qed

end
