(* ===== verification/Kms.thy ===== *)
theory Kms
  imports Py_Time
begin

text \<open>
  Managed encryption keys: \<open>onadata/libs/kms/tools.py\<close> on the models of
  \<open>onadata/apps/logger/models/kms.py\<close>.  A key is created, rotated (replaced, with a
  grace period) and disabled; forms are encrypted with a key under a new version, and a
  submission is decrypted with the key its version was encrypted with.

  The key service (the \<open>valigetta\<close> client), the XLSForm renderer and the form hash are
  arguments of the model (\<open>kms_env\<close>).  What the service was asked to do is kept in a
  log that, unlike the database, survives the rollback of a transaction: an operation
  returns the log with either an exception or the new database.
\<close>

section \<open>Data\<close>

datatype provider_kind = AWS | API

record kms_key =
  kk_pk :: int
  key_id :: string
  kk_description :: string
  kk_public_key :: string
  kk_provider :: "provider_kind option"
  expiry_date :: "time option"
  grace_end_date :: "time option"
  disabled_at :: "time option"
  disabled_by :: "int option"
  rotated_at :: "time option"
  rotated_by :: "int option"
  rotation_reason :: "string option"
  is_active :: bool
  kk_org :: int
  created_by :: "int option"

record xform_key =
  xk_xform :: int
  xk_kms_key :: int
  xk_version :: string
  xk_encrypted_by :: "int option"

record kform =
  kf_pk :: int
  kf_org :: "int option"
  kf_version :: string
  kf_public_key :: "string option"
  kf_encrypted :: bool
  kf_managed :: bool
  kf_xml :: string
  kf_hash :: string
  kf_num_of_submissions :: nat

record kattachment =
  ka_name :: string
  ka_content :: string
  ka_mimetype :: string
  ka_extension :: string
  ka_file_size :: nat
  ka_deleted_at :: "time option"

datatype decryption_status = Pending | Success | Failed

record khistory =
  kh_xml :: string
  kh_checksum :: string
  kh_uuid :: string

record kinstance =
  ki_pk :: int
  ki_xform :: int
  ki_version :: string
  ki_xml :: string
  ki_uuid :: string
  ki_checksum :: string
  ki_is_encrypted :: bool
  ki_status :: "decryption_status option"
  ki_decryption_error :: "string option"
  ki_media_all_received :: bool
  ki_attachments :: "kattachment list"
  ki_history :: "khistory list"

record kdb =
  kms_keys :: "kms_key list"
  xform_keys :: "xform_key list"
  kforms :: "kform list"
  xform_versions :: "(int \<times> string \<times> string) list"
  kinstances :: "kinstance list"
  mails :: "(string list \<times> string) list"
  decrypted_incr :: "int list"

datatype kerror =
    EncryptionError string
  | DecryptionError string
  | NotAllMediaReceivedError string
  | GetPublicKeyException
  | CreateAliasException
  | ClientError
  | InvalidSubmission
  | TypeError
  | IntegrityError
  | MultipleObjectsReturned
  | KeyDoesNotExist

datatype provider_event = CreatedKey string string | Aliased string string | DisabledKey string

datatype alias_reply = AliasCreated | AliasAlreadyExists | AliasFailed

datatype decrypt_outcome = Decrypted | RaisedInvalidSubmission | RaisedOther

record kms_env =
  env_provider :: "provider_kind option"
  env_new_key_id :: "provider_event list \<Rightarrow> string option"
  env_public_key :: "string \<Rightarrow> string option"
  env_alias :: "string \<Rightarrow> string \<Rightarrow> alias_reply"
  env_disable_ok :: "string \<Rightarrow> bool"
  env_decrypt :: "string \<Rightarrow> string \<Rightarrow> (string \<times> string) list
                  \<Rightarrow> (string \<times> string) list \<times> decrypt_outcome"
  env_render :: "int \<Rightarrow> string option \<Rightarrow> string \<Rightarrow> string"
  env_hash :: "string \<Rightarrow> string"
  env_sha256 :: "string \<Rightarrow> string"
  env_guess_type :: "string \<Rightarrow> string option"
  env_xml_encrypted :: "string \<Rightarrow> bool"
  env_owner_emails :: "int \<Rightarrow> string list"
  env_org_name :: "int \<Rightarrow> string"
  env_org_username :: "int \<Rightarrow> string"

section \<open>Settings\<close>

datatype duration_setting = NotSet | Duration time | DurationList "time list" | OtherValue

record kms_settings =
  KMS_ROTATION_DURATION :: duration_setting
  KMS_GRACE_PERIOD_DURATION :: duration_setting
  KMS_ROTATION_REMINDER_DURATION :: duration_setting
  KMS_GRACE_EXPIRY_REMINDER_DURATION :: duration_setting
  DEPLOYMENT_NAME :: "string option"

fun get_kms_rotation_duration :: "kms_settings \<Rightarrow> time option" where
  "get_kms_rotation_duration cfg =
     (case KMS_ROTATION_DURATION cfg of Duration d \<Rightarrow> Some d | _ \<Rightarrow> None)"

fun get_kms_grace_period_duration :: "kms_settings \<Rightarrow> time" where
  "get_kms_grace_period_duration cfg =
     (case KMS_GRACE_PERIOD_DURATION cfg of Duration d \<Rightarrow> d | _ \<Rightarrow> days 30)"

fun get_kms_rotation_reminder_duration :: "kms_settings \<Rightarrow> time" where
  "get_kms_rotation_reminder_duration cfg =
     (case KMS_ROTATION_REMINDER_DURATION cfg of Duration d \<Rightarrow> d | _ \<Rightarrow> days 14)"

fun get_kms_grace_expiry_reminder_duration :: "kms_settings \<Rightarrow> time list" where
  "get_kms_grace_expiry_reminder_duration cfg =
     (case KMS_GRACE_EXPIRY_REMINDER_DURATION cfg of
        Duration d \<Rightarrow> [d] | DurationList ds \<Rightarrow> ds | _ \<Rightarrow> [days 1])"

section \<open>Keys\<close>

text \<open>\<open>value.replace(pat, "")\<close> for a non-empty pattern.\<close>

function remove_all :: "string \<Rightarrow> string \<Rightarrow> string" where
  "remove_all pat s =
     (if pat = [] then s
      else if prefix pat s then remove_all pat (drop (length pat) s)
      else (case s of [] \<Rightarrow> [] | c # cs \<Rightarrow> c # remove_all pat cs))"
  by pat_completeness auto
termination
  by (relation "measure (\<lambda>(pat, s). length s)") (auto simp: prefix_def)

declare remove_all.simps [simp del]

definition clean_public_key :: "string \<Rightarrow> string" where
  "clean_public_key v =
     (let header = ''-----BEGIN PUBLIC KEY-----''; footer = ''-----END PUBLIC KEY-----'';
          s = strip v
      in if prefix header s \<and> suffix footer s
         then strip (remove_all '' '' (remove_all footer (remove_all header s)))
         else s)"

definition next_key_pk :: "kms_key list \<Rightarrow> int" where
  "next_key_pk ks = fold (\<lambda>k m. max m (kk_pk k)) ks 0 + 1"

text \<open>The description a new key gets: the date, with a suffix when it is taken.\<close>

definition key_description :: "kms_key list \<Rightarrow> int \<Rightarrow> time \<Rightarrow> string" where
  "key_description ks org now =
     (let description = ''Key-'' @ strftime_date now;
          duplicate = filter (\<lambda>k. kk_org k = org \<and> prefix description (kk_description k)) ks
      in if duplicate \<noteq> [] then description @ ''-v'' @ show_nat (length duplicate + 1)
         else description)"

definition create_key ::
    "kms_env \<Rightarrow> kms_settings \<Rightarrow> time \<Rightarrow> int \<Rightarrow> int option \<Rightarrow> provider_event list \<Rightarrow> kdb
     \<Rightarrow> provider_event list \<times> (kerror + kdb \<times> kms_key)" where
  "create_key env cfg now org by log db =
     (let description = key_description (kms_keys db) org now;
          kms_description = description
            @ (case by of None \<Rightarrow> '' via automatic rotation'' | Some _ \<Rightarrow> '' via manual rotation'')
      in case env_new_key_id env log of
           None \<Rightarrow> (log, Inl ClientError)
         | Some kid \<Rightarrow>
             (let log1 = log @ [CreatedKey kid kms_description];
                  deployment = (case DEPLOYMENT_NAME cfg of None \<Rightarrow> ''Ona'' | Some d \<Rightarrow> d);
                  alias_name = ''alias/'' @ deployment @ ''/'' @ env_org_username env org @ ''/'' @ description
              in case env_public_key env kid of
                   None \<Rightarrow> (log1 @ [DisabledKey kid], Inl GetPublicKeyException)
                 | Some pub \<Rightarrow>
                     (case env_alias env alias_name kid of
                        AliasFailed \<Rightarrow> (log1 @ [DisabledKey kid], Inl CreateAliasException)
                      | reply \<Rightarrow>
                          (let expiry = (case get_kms_rotation_duration cfg of
                                           None \<Rightarrow> None
                                         | Some d \<Rightarrow> if d = 0 then None else Some (now + d));
                               k = \<lparr>kk_pk = next_key_pk (kms_keys db), key_id = kid,
                                    kk_description = description,
                                    kk_public_key = clean_public_key pub,
                                    kk_provider = env_provider env, expiry_date = expiry,
                                    grace_end_date = None, disabled_at = None, disabled_by = None,
                                    rotated_at = None, rotated_by = None, rotation_reason = None,
                                    is_active = True, kk_org = org, created_by = by\<rparr>
                           in (log1 @ (if reply = AliasCreated then [Aliased alias_name kid] else []),
                               Inr (db\<lparr>kms_keys := kms_keys db @ [k]\<rparr>, k))))))"

text \<open>\<open>kms_key.save(update_fields=...)\<close>.\<close>

definition save_key :: "int \<Rightarrow> (kms_key \<Rightarrow> kms_key) \<Rightarrow> kdb \<Rightarrow> kdb" where
  "save_key pk f db = db\<lparr>kms_keys := map (\<lambda>k. if kk_pk k = pk then f k else k) (kms_keys db)\<rparr>"

definition mark_disabled :: "time \<Rightarrow> int option \<Rightarrow> kms_key \<Rightarrow> kms_key" where
  "mark_disabled now by k = k\<lparr>disabled_at := Some now, disabled_by := by, is_active := False\<rparr>"

text \<open>The key is the object the caller holds; its row is found by primary key.\<close>

definition disable_key ::
    "kms_env \<Rightarrow> time \<Rightarrow> kms_key \<Rightarrow> int option \<Rightarrow> provider_event list \<Rightarrow> kdb
     \<Rightarrow> provider_event list \<times> (kerror + kdb)" where
  "disable_key env now k by log db =
     (if disabled_at k \<noteq> None then (log, Inr db)
      else if \<not> env_disable_ok env (key_id k) then (log, Inl ClientError)
      else (log @ [DisabledKey (key_id k)], Inr (save_key (kk_pk k) (mark_disabled now by) db)))"

section \<open>Forms\<close>

definition save_form :: "kform \<Rightarrow> kdb \<Rightarrow> kdb" where
  "save_form x db = db\<lparr>kforms := map (\<lambda>y. if kf_pk y = kf_pk x then x else y) (kforms db)\<rparr>"

text \<open>\<open>create_xform_version\<close>: an existing row for the version is kept.\<close>

definition create_xform_version :: "kform \<Rightarrow> kdb \<Rightarrow> kdb" where
  "create_xform_version x db =
     (if \<exists>(pk, v, _) \<in> set (xform_versions db). pk = kf_pk x \<and> v = kf_version x then db
      else db\<lparr>xform_versions := xform_versions db @ [(kf_pk x, kf_version x, kf_xml x)]\<rparr>)"

definition encrypted_form :: "kms_env \<Rightarrow> time \<Rightarrow> kms_key \<Rightarrow> kform \<Rightarrow> kform" where
  "encrypted_form env now k x =
     (let version = strftime_minute now;
          xml = env_render env (kf_pk x) (Some (kk_public_key k)) version
      in x\<lparr>kf_xml := xml, kf_version := version, kf_public_key := Some (kk_public_key k),
           kf_encrypted := True, kf_managed := True, kf_hash := env_hash env xml\<rparr>)"

definition encrypt_form ::
    "kms_env \<Rightarrow> time \<Rightarrow> kms_key \<Rightarrow> int option \<Rightarrow> kform \<Rightarrow> kdb \<Rightarrow> kerror + kdb" where
  "encrypt_form env now k by x db =
     (let x' = encrypted_form env now k x; db1 = save_form x' db;
          row = \<lparr>xk_xform = kf_pk x, xk_kms_key = kk_pk k, xk_version = kf_version x',
                 xk_encrypted_by = by\<rparr>
      in if \<exists>r \<in> set (xform_keys db). xk_xform r = kf_pk x \<and> xk_kms_key r = kk_pk k
                \<and> xk_version r = kf_version x'
         then Inl IntegrityError
         else Inr (create_xform_version x' (db1\<lparr>xform_keys := xform_keys db1 @ [row]\<rparr>)))"

fun encrypt_forms ::
    "kms_env \<Rightarrow> time \<Rightarrow> kms_key \<Rightarrow> int option \<Rightarrow> kform list \<Rightarrow> kdb \<Rightarrow> kerror + kdb" where
  "encrypt_forms env now k by [] db = Inr db"
| "encrypt_forms env now k by (x # xs) db =
     (case encrypt_form env now k by x db of
        Inl e \<Rightarrow> Inl e | Inr db' \<Rightarrow> encrypt_forms env now k by xs db')"

definition forms_of_key :: "kms_key \<Rightarrow> kdb \<Rightarrow> kform list" where
  "forms_of_key k db =
     filter (\<lambda>x. \<exists>r \<in> set (xform_keys db). xk_kms_key r = kk_pk k \<and> xk_xform r = kf_pk x) (kforms db)"

definition mark_rotated ::
    "time \<Rightarrow> time \<Rightarrow> time \<Rightarrow> int option \<Rightarrow> string option \<Rightarrow> kms_key \<Rightarrow> kms_key" where
  "mark_rotated expiry grace now by reason k =
     k\<lparr>expiry_date := Some expiry, grace_end_date := Some grace, rotated_at := Some now,
       rotated_by := by, rotation_reason := reason, is_active := False\<rparr>"

definition rotate_key ::
    "kms_env \<Rightarrow> kms_settings \<Rightarrow> time \<Rightarrow> kms_key \<Rightarrow> int option \<Rightarrow> string option
     \<Rightarrow> provider_event list \<Rightarrow> kdb \<Rightarrow> provider_event list \<times> (kerror + kdb \<times> kms_key)" where
  "rotate_key env cfg now k by reason log db =
     (if disabled_at k \<noteq> None then (log, Inl (EncryptionError ''Key is disabled.''))
      else if rotated_at k \<noteq> None then (log, Inl (EncryptionError ''Key already rotated.''))
      else
        (case create_key env cfg now (kk_org k) by log db of
           (log1, Inl e) \<Rightarrow> (log1, Inl e)
         | (log1, Inr (db1, new)) \<Rightarrow>
             (case encrypt_forms env now new by (forms_of_key k db1) db1 of
                Inl e \<Rightarrow> (log1, Inl e)
              | Inr db2 \<Rightarrow>
                  (case expiry_date k of
                     None \<Rightarrow> (log1, Inl TypeError)
                   | Some e \<Rightarrow>
                       (let expiry = min e now;
                            grace = expiry + get_kms_grace_period_duration cfg;
                            db3 = save_key (kk_pk k) (mark_rotated expiry grace now by reason) db2;
                            to = env_owner_emails env (kk_org k)
                        in (log1,
                            Inr (if to = [] then db3
                                 else db3\<lparr>mails := mails db3
                                   @ [(to, ''Key Rotated for Organization: '' @ env_org_name env (kk_org k))]\<rparr>,
                                 new)))))))"

definition encrypt_xform ::
    "kms_env \<Rightarrow> time \<Rightarrow> kform \<Rightarrow> int option \<Rightarrow> bool \<Rightarrow> kdb \<Rightarrow> kerror + kdb" where
  "encrypt_xform env now x by override_encryption db =
     (if kf_encrypted x \<and> \<not> override_encryption then Inr db
      else if kf_num_of_submissions x \<noteq> 0
      then Inl (EncryptionError ''XForm already has submissions.'')
      else
        (case kf_org x of
           None \<Rightarrow> Inl (EncryptionError ''XForm owner is not an organization user.'')
         | Some org \<Rightarrow>
             (case filter (\<lambda>k. kk_org k = org \<and> is_active k) (kms_keys db) of
                [] \<Rightarrow> Inl (EncryptionError ''No encryption key found for the organization.'')
              | k # _ \<Rightarrow> encrypt_form env now k by x db)))"

definition disable_xform_encryption ::
    "kms_env \<Rightarrow> time \<Rightarrow> kform \<Rightarrow> int option \<Rightarrow> kdb \<Rightarrow> kerror + kdb" where
  "disable_xform_encryption env now x by db =
     (if \<not> kf_encrypted x then Inr db
      else if kf_num_of_submissions x \<noteq> 0
      then Inl (EncryptionError ''XForm already has submissions.'')
      else if \<not> (\<exists>r \<in> set (xform_keys db). xk_xform r = kf_pk x \<and> xk_version r = kf_version x)
      then Inl (EncryptionError ''XForm encryption is not via managed keys.'')
      else
        (let version = strftime_minute now; xml = env_render env (kf_pk x) None version;
             x' = x\<lparr>kf_xml := xml, kf_version := version, kf_public_key := None,
                    kf_encrypted := False, kf_managed := False, kf_hash := env_hash env xml\<rparr>
         in Inr (create_xform_version x' (save_form x' db))))"

section \<open>Decryption\<close>

definition save_instance :: "int \<Rightarrow> (kinstance \<Rightarrow> kinstance) \<Rightarrow> kdb \<Rightarrow> kdb" where
  "save_instance pk f db =
     db\<lparr>kinstances := map (\<lambda>i. if ki_pk i = pk then f i else i) (kinstances db)\<rparr>"

definition save_decryption_error :: "kinstance \<Rightarrow> string \<Rightarrow> kdb \<Rightarrow> kdb" where
  "save_decryption_error i err db =
     save_instance (ki_pk i) (\<lambda>r. r\<lparr>ki_decryption_error := Some err, ki_status := Some Failed\<rparr>) db"

text \<open>\<open>os.path.splitext(name)[1].lstrip(".")\<close>: the part after the last dot that is not leading.\<close>

definition file_extension :: "string \<Rightarrow> string" where
  "file_extension name =
     (let base = dropWhile (\<lambda>c. c = CHR ''.'') (last (split_on (CHR ''/'') name));
          parts = split_on (CHR ''.'') base
      in if length parts < 2 then [] else last parts)"

definition is_was_managed :: "kdb \<Rightarrow> kinstance \<Rightarrow> bool" where
  "is_was_managed db i =
     ((\<exists>x \<in> set (kforms db). kf_pk x = ki_xform i \<and> kf_managed x)
      \<or> (\<exists>r \<in> set (xform_keys db). xk_xform r = ki_xform i))"

definition decrypted_attachment :: "kms_env \<Rightarrow> string \<times> string \<Rightarrow> kattachment" where
  "decrypted_attachment env = (\<lambda>(name, content).
     \<lparr>ka_name = name, ka_content = content,
      ka_mimetype = (case env_guess_type env name of
                       None \<Rightarrow> ''application/octet-stream'' | Some m \<Rightarrow> m),
      ka_extension = file_extension name, ka_file_size = length content, ka_deleted_at = None\<rparr>)"

definition is_submission_file :: "string \<Rightarrow> bool" where
  "is_submission_file name \<longleftrightarrow> lower name = ''submission.xml''"

text \<open>
  The rows after the transaction: the decrypted submission replaces the encrypted one,
  whose content goes into the history, the encrypted attachments are soft deleted and
  the decrypted ones added.
\<close>

definition replace_with_decrypted ::
    "kms_env \<Rightarrow> time \<Rightarrow> (string \<times> string) list \<Rightarrow> kinstance \<Rightarrow> kinstance" where
  "replace_with_decrypted env now files i =
     (let subs = filter (\<lambda>(n, _). is_submission_file n) files;
          media = filter (\<lambda>(n, _). \<not> is_submission_file n) files;
          i1 = (if subs = [] then i
                else (let xml = snd (last subs)
                      in i\<lparr>ki_xml := xml, ki_checksum := env_sha256 env xml,
                           ki_is_encrypted := False, ki_status := Some Success\<rparr>))
      in i1\<lparr>ki_history := ki_history i
               @ [\<lparr>kh_xml = ki_xml i, kh_checksum = ki_checksum i, kh_uuid = ki_uuid i\<rparr>],
            ki_attachments :=
              map (\<lambda>a. if ka_deleted_at a = None then a\<lparr>ka_deleted_at := Some now\<rparr> else a)
                (ki_attachments i)
              @ map (decrypted_attachment env) media\<rparr>)"

text \<open>An exception is returned with the database, since the error is recorded before raising.\<close>

definition decrypt_instance ::
    "kms_env \<Rightarrow> time \<Rightarrow> kinstance \<Rightarrow> kdb \<Rightarrow> kerror option \<times> kdb" where
  "decrypt_instance env now i db =
     (if \<not> env_xml_encrypted env (ki_xml i)
      then (Some (DecryptionError ''Instance is not encrypted.''), db)
      else if \<not> is_was_managed db i
      then (Some (DecryptionError ''Encryption is not using managed keys.''), db)
      else
        (case filter (\<lambda>r. xk_version r = ki_version i \<and> xk_xform r = ki_xform i) (xform_keys db) of
           [] \<Rightarrow> (Some (DecryptionError ''KMSKey used for encryption not found.''),
                 save_decryption_error i ''KMS_KEY_NOT_FOUND'' db)
         | [r] \<Rightarrow>
             (case find (\<lambda>k. kk_pk k = xk_kms_key r) (kms_keys db) of
                None \<Rightarrow> (Some KeyDoesNotExist, db)
              | Some k \<Rightarrow>
                  if disabled_at k \<noteq> None
                  then (Some (DecryptionError ''KMSKey is disabled.''),
                        save_decryption_error i ''KMS_KEY_DISABLED'' db)
                  else if \<not> ki_media_all_received i
                  then (Some (NotAllMediaReceivedError ''Not all media files have been received.''),
                        save_decryption_error i ''NOT_ALL_MEDIA_RECEIVED'' db)
                  else
                    (let enc = dict_update [] (map (\<lambda>a. (ka_name a, ka_content a))
                                 (filter (\<lambda>a. ka_deleted_at a = None) (ki_attachments i)));
                         (files, outcome) = env_decrypt env (key_id k) (ki_xml i) enc
                     in case outcome of
                          RaisedInvalidSubmission \<Rightarrow>
                            (Some (DecryptionError ''InvalidSubmissionException''),
                             save_decryption_error i ''INVALID_SUBMISSION'' db)
                        | RaisedOther \<Rightarrow> (Some InvalidSubmission, db)
                        | Decrypted \<Rightarrow>
                            (None,
                             (save_instance (ki_pk i) (replace_with_decrypted env now files) db)
                               \<lparr>decrypted_incr := decrypted_incr db
                                  @ (if ki_history i \<noteq> [] then [] else [ki_xform i])\<rparr>)))
         | _ \<Rightarrow> (Some MultipleObjectsReturned, db)))"

section \<open>Periodic tasks\<close>

definition at_or_before :: "time option \<Rightarrow> time \<Rightarrow> bool" where
  "at_or_before c t = (case c of None \<Rightarrow> False | Some x \<Rightarrow> x \<le> t)"

text \<open>
  The first exception that is not an \<open>EncryptionError\<close> leaves the loop; the keys rotated
  before it stay rotated (each rotation is its own transaction), so the database reached
  is returned with the exception.
\<close>

fun rotate_each ::
    "kms_env \<Rightarrow> kms_settings \<Rightarrow> time \<Rightarrow> kms_key list \<Rightarrow> provider_event list \<Rightarrow> kdb
     \<Rightarrow> provider_event list \<times> kerror option \<times> kdb" where
  "rotate_each env cfg now [] log db = (log, None, db)"
| "rotate_each env cfg now (k # ks) log db =
     (case rotate_key env cfg now k None None log db of
        (log1, Inr (db1, _)) \<Rightarrow> rotate_each env cfg now ks log1 db1
      | (log1, Inl (EncryptionError _)) \<Rightarrow> rotate_each env cfg now ks log1 db
      | (log1, Inl e) \<Rightarrow> (log1, Some e, db))"

definition rotate_expired_keys ::
    "kms_env \<Rightarrow> kms_settings \<Rightarrow> time \<Rightarrow> provider_event list \<Rightarrow> kdb
     \<Rightarrow> provider_event list \<times> kerror option \<times> kdb" where
  "rotate_expired_keys env cfg now log db =
     rotate_each env cfg now
       (filter (\<lambda>k. at_or_before (expiry_date k) now \<and> disabled_at k = None \<and> rotated_at k = None)
         (kms_keys db)) log db"

text \<open>A key that cannot be disabled is logged and skipped; the mails are sent at the end.\<close>

fun disable_each ::
    "kms_env \<Rightarrow> time \<Rightarrow> kms_key list \<Rightarrow> (string list \<times> string) list \<Rightarrow> provider_event list \<Rightarrow> kdb
     \<Rightarrow> provider_event list \<times> (string list \<times> string) list \<times> kdb" where
  "disable_each env now [] out log db = (log, out, db)"
| "disable_each env now (k # ks) out log db =
     (case disable_key env now k None log db of
        (log1, Inl _) \<Rightarrow> disable_each env now ks out log1 db
      | (log1, Inr db1) \<Rightarrow>
          (let to = env_owner_emails env (kk_org k)
           in disable_each env now ks
                (if rotated_at k = None \<or> to = [] then out
                 else out @ [(to, ''Key Rotation Completed for Organization: ''
                                    @ env_org_name env (kk_org k))])
                log1 db1))"

definition disable_expired_keys ::
    "kms_env \<Rightarrow> time \<Rightarrow> provider_event list \<Rightarrow> kdb \<Rightarrow> provider_event list \<times> kdb" where
  "disable_expired_keys env now log db =
     (let (log1, out, db1) =
            disable_each env now
              (filter (\<lambda>k. at_or_before (expiry_date k) now \<and> at_or_before (grace_end_date k) now
                 \<and> disabled_at k = None) (kms_keys db)) [] log db
      in (log1, db1\<lparr>mails := mails db1 @ out\<rparr>))"

definition reminder_mails ::
    "kms_env \<Rightarrow> string \<Rightarrow> kms_key list \<Rightarrow> (string list \<times> string) list" where
  "reminder_mails env subject ks =
     map (\<lambda>k. (env_owner_emails env (kk_org k), subject @ env_org_name env (kk_org k)))
       (filter (\<lambda>k. env_owner_emails env (kk_org k) \<noteq> []) ks)"

definition send_key_rotation_reminder :: "kms_env \<Rightarrow> kms_settings \<Rightarrow> time \<Rightarrow> kdb \<Rightarrow> kdb" where
  "send_key_rotation_reminder env cfg now db =
     (let target = date_of (now + get_kms_rotation_reminder_duration cfg);
          ks = filter (\<lambda>k. map_option date_of (expiry_date k) = Some target
                 \<and> disabled_at k = None \<and> rotated_at k = None) (kms_keys db)
      in db\<lparr>mails := mails db @ reminder_mails env ''Key Rotation for Organization: '' ks\<rparr>)"

definition send_key_grace_expiry_reminder :: "kms_env \<Rightarrow> kms_settings \<Rightarrow> time \<Rightarrow> kdb \<Rightarrow> kdb" where
  "send_key_grace_expiry_reminder env cfg now db =
     (let targets = map (\<lambda>d. date_of (now + d)) (get_kms_grace_expiry_reminder_duration cfg);
          ks = filter (\<lambda>k. (case grace_end_date k of None \<Rightarrow> False | Some g \<Rightarrow> date_of g \<in> set targets)
                 \<and> disabled_at k = None) (kms_keys db)
      in db\<lparr>mails := mails db @ reminder_mails env ''Key Grace Period Expiry for Organization: '' ks\<rparr>)"

section \<open>Creating keys\<close>

lemma next_key_pk_fresh: "next_key_pk ks \<notin> kk_pk ` set ks"
proof -
  have grow: "m \<le> fold (\<lambda>k m. max m (kk_pk k)) xs m" for xs m
  proof (induction xs arbitrary: m)
    case (Cons b xs)
    show ?case using Cons [of "max m (kk_pk b)"] by simp
  qed simp
  have "\<forall>k \<in> set ks. kk_pk k \<le> fold (\<lambda>k m. max m (kk_pk k)) ks m" for m
  proof (induction ks arbitrary: m)
    case (Cons a ks)
    show ?case using Cons [of "max m (kk_pk a)"] grow [of "max m (kk_pk a)" ks] by auto
  qed simp
  from this [of 0] show ?thesis by (force simp: next_key_pk_def)
qed

definition fresh_key :: "kms_key \<Rightarrow> kdb \<Rightarrow> int \<Rightarrow> time \<Rightarrow> bool" where
  "fresh_key k db org now \<longleftrightarrow>
     kk_pk k \<notin> kk_pk ` set (kms_keys db) \<and> kk_org k = org \<and> is_active k
     \<and> disabled_at k = None \<and> rotated_at k = None \<and> grace_end_date k = None
     \<and> kk_description k = key_description (kms_keys db) org now"

lemma create_key_Inr:
  assumes "create_key env cfg now org by log db = (log', Inr (db', k))"
  shows "db' = db\<lparr>kms_keys := kms_keys db @ [k]\<rparr>" "fresh_key k db org now"
    "CreatedKey (key_id k) (key_description (kms_keys db) org now
       @ (case by of None \<Rightarrow> '' via automatic rotation'' | Some _ \<Rightarrow> '' via manual rotation'')) \<in> set log'"
  using assms next_key_pk_fresh [of "kms_keys db"]
  by (auto simp: create_key_def Let_def fresh_key_def split: option.splits alias_reply.splits)

lemma create_key_log:
  "create_key env cfg now org by log db = (log', r) \<Longrightarrow> prefix log log'"
  by (auto simp: create_key_def Let_def prefix_def split: option.splits alias_reply.splits if_splits)

section \<open>Names\<close>

text \<open>The names of the keys of one day, by creation order.\<close>

definition day_name :: "string \<Rightarrow> nat \<Rightarrow> string" where
  "day_name d n = (if n = 0 then d else d @ ''-v'' @ show_nat (n + 1))"

text \<open>Python's datetimes have four-digit years, so that a date has ten characters.\<close>

definition valid_datetime :: "time \<Rightarrow> bool" where
  "valid_datetime t \<longleftrightarrow> length (strftime_date t) = 10"

definition of_day :: "kms_key list \<Rightarrow> int \<Rightarrow> string \<Rightarrow> kms_key list" where
  "of_day ks org d = filter (\<lambda>k. kk_org k = org \<and> prefix d (kk_description k)) ks"

definition names_ok :: "kms_key list \<Rightarrow> bool" where
  "names_ok ks \<longleftrightarrow>
     (\<forall>org d. length d = 14 \<longrightarrow>
        map kk_description (of_day ks org d) = map (day_name d) [0..<length (of_day ks org d)])
     \<and> (\<forall>org. distinct (map kk_description (filter (\<lambda>k. kk_org k = org) ks)))"

lemma day_name_inj: "day_name d m = day_name d n \<longleftrightarrow> m = n"
  by (auto simp: day_name_def)

lemma prefix_day_name: "prefix d (day_name d n)"
  by (simp add: day_name_def)

lemma key_description_day_name:
  "key_description ks org now
     = day_name (''Key-'' @ strftime_date now) (length (of_day ks org (''Key-'' @ strftime_date now)))"
  by (simp add: key_description_def day_name_def of_day_def Let_def)

lemma names_ok_new:
  assumes "names_ok ks" "valid_datetime now"
    and "kk_org k = org" "kk_description k = key_description ks org now"
  shows "names_ok (ks @ [k])"
proof -
  define d0 where "d0 = ''Key-'' @ strftime_date now"
  have len: "length d0 = 14" using assms(2) by (simp add: d0_def valid_datetime_def)
  have desc: "kk_description k = day_name d0 (length (of_day ks org d0))"
    unfolding assms(4) key_description_day_name d0_def by simp
  have other: "\<not> prefix d (kk_description k)" if "length d = 14" "d \<noteq> d0" for d
  proof
    assume "prefix d (kk_description k)"
    moreover have "prefix d0 (kk_description k)" unfolding desc by (rule prefix_day_name)
    ultimately have "prefix d d0 \<or> prefix d0 d" by (metis prefix_same_cases)
    with that len show False by (auto simp: prefix_def)
  qed
  have 1: "map kk_description (of_day (ks @ [k]) o' d)
      = map (day_name d) [0..<length (of_day (ks @ [k]) o' d)]" if d: "length d = 14" for o' d
  proof (cases "o' = org \<and> d = d0")
    case True
    then have "of_day (ks @ [k]) o' d = of_day ks org d0 @ [k]"
      using assms(3) desc prefix_day_name by (simp add: of_day_def)
    moreover have "map kk_description (of_day ks org d0)
        = map (day_name d0) [0..<length (of_day ks org d0)]"
      using assms(1) len by (simp add: names_ok_def)
    ultimately show ?thesis using True desc by simp
  next
    case False
    then have "of_day (ks @ [k]) o' d = of_day ks o' d"
      using assms(3) other [OF d] by (auto simp: of_day_def)
    with assms(1) d show ?thesis by (simp add: names_ok_def)
  qed
  have new: "kk_description k \<notin> kk_description ` set (filter (\<lambda>k. kk_org k = org) ks)"
  proof
    assume "kk_description k \<in> kk_description ` set (filter (\<lambda>k. kk_org k = org) ks)"
    then obtain k' where k': "k' \<in> set ks" "kk_org k' = org"
        "kk_description k' = day_name d0 (length (of_day ks org d0))"
      unfolding desc by auto
    then have "k' \<in> set (of_day ks org d0)"
      using prefix_day_name [of d0] by (simp add: of_day_def)
    then have "kk_description k \<in> set (map kk_description (of_day ks org d0))"
      unfolding desc k'(3) [symmetric] by simp
    also have "map kk_description (of_day ks org d0)
        = map (day_name d0) [0..<length (of_day ks org d0)]"
      using assms(1) len by (simp add: names_ok_def)
    finally show False unfolding desc by (auto simp: day_name_inj)
  qed
  have 2: "distinct (map kk_description (filter (\<lambda>k. kk_org k = o') (ks @ [k])))" for o'
    using assms(1,3) new by (auto simp: names_ok_def)
  from 1 2 show ?thesis by (simp add: names_ok_def)
qed

lemma names_ok_map:
  assumes "names_ok ks" "\<And>k. kk_org (f k) = kk_org k \<and> kk_description (f k) = kk_description k"
  shows "names_ok (map f ks)"
proof -
  have 1: "of_day (map f ks) org d = map f (of_day ks org d)" for org d
    by (simp add: of_day_def filter_map o_def assms(2))
  have 2: "filter (\<lambda>k. kk_org k = org) (map f ks) = map f (filter (\<lambda>k. kk_org k = org) ks)" for org
    by (simp add: filter_map o_def assms(2))
  have 3: "map kk_description (map f xs) = map kk_description xs" for xs
    by (simp add: o_def assms(2))
  from assms(1) show ?thesis
    unfolding names_ok_def 1 2 3 length_map .
qed

section \<open>Encrypting forms\<close>

lemma encrypt_form_Inr:
  assumes "encrypt_form env now k by x db = Inr db'"
  shows "kms_keys db' = kms_keys db" "mails db' = mails db" "kinstances db' = kinstances db"
    "decrypted_incr db' = decrypted_incr db"
    "kforms db' = map (\<lambda>y. if kf_pk y = kf_pk x then encrypted_form env now k x else y) (kforms db)"
    "xform_keys db' = xform_keys db @ [\<lparr>xk_xform = kf_pk x, xk_kms_key = kk_pk k,
       xk_version = strftime_minute now, xk_encrypted_by = by\<rparr>]"
  using assms
  by (auto simp: encrypt_form_def Let_def create_xform_version_def save_form_def encrypted_form_def
      split: if_splits)

definition encrypted_with :: "kms_key \<Rightarrow> time \<Rightarrow> kform \<Rightarrow> bool" where
  "encrypted_with k now y \<longleftrightarrow>
     kf_encrypted y \<and> kf_managed y \<and> kf_public_key y = Some (kk_public_key k)
     \<and> kf_version y = strftime_minute now"

lemma encrypt_forms_Inr:
  assumes "encrypt_forms env now k by xs db = Inr db'"
  shows "kms_keys db' = kms_keys db \<and> mails db' = mails db \<and> kinstances db' = kinstances db
    \<and> map kf_pk (kforms db') = map kf_pk (kforms db)
    \<and> (\<forall>y \<in> set (kforms db'). kf_pk y \<in> kf_pk ` set xs \<longrightarrow> encrypted_with k now y)
    \<and> (\<forall>y \<in> set (kforms db). kf_pk y \<notin> kf_pk ` set xs \<longrightarrow> y \<in> set (kforms db'))
    \<and> xform_keys db' = xform_keys db @ map (\<lambda>x. \<lparr>xk_xform = kf_pk x, xk_kms_key = kk_pk k,
         xk_version = strftime_minute now, xk_encrypted_by = by\<rparr>) xs"
  using assms
proof (induction xs arbitrary: db' rule: rev_induct)
  case Nil
  then show ?case by simp
next
  case (snoc x xs)
  have app: "encrypt_forms env now k by (xs @ [x]) db
      = (case encrypt_forms env now k by xs db of Inl e \<Rightarrow> Inl e
         | Inr db1 \<Rightarrow> encrypt_form env now k by x db1)"
    by (induction xs arbitrary: db) (auto split: sum.splits)
  from snoc.prems obtain db1 where 1: "encrypt_forms env now k by xs db = Inr db1"
      "encrypt_form env now k by x db1 = Inr db'"
    unfolding app by (auto split: sum.splits)
  note f = encrypt_form_Inr [OF 1(2)]
  have enc: "encrypted_with k now (encrypted_form env now k x)"
      "kf_pk (encrypted_form env now k x) = kf_pk x"
    by (simp_all add: encrypted_with_def encrypted_form_def Let_def)
  have pks: "map kf_pk (kforms db') = map kf_pk (kforms db1)"
    unfolding f(5) using enc(2) by simp
  show ?case
    using snoc.IH [OF 1(1)] f(1-4,6) pks enc unfolding f(5) by auto
qed

lemma forms_of_key_iff:
  "x \<in> set (forms_of_key k db) \<longleftrightarrow> x \<in> set (kforms db)
     \<and> (\<exists>r \<in> set (xform_keys db). xk_kms_key r = kk_pk k \<and> xk_xform r = kf_pk x)"
  by (auto simp: forms_of_key_def)

lemma mark_rotated_sel [simp]:
  "kk_pk (mark_rotated e g now by reason k) = kk_pk k"
  "kk_org (mark_rotated e g now by reason k) = kk_org k"
  "kk_description (mark_rotated e g now by reason k) = kk_description k"
  "key_id (mark_rotated e g now by reason k) = key_id k"
  "disabled_at (mark_rotated e g now by reason k) = disabled_at k"
  by (simp_all add: mark_rotated_def)

lemma mark_disabled_sel [simp]:
  "kk_pk (mark_disabled now by k) = kk_pk k" "kk_org (mark_disabled now by k) = kk_org k"
  "kk_description (mark_disabled now by k) = kk_description k"
  "disabled_at (mark_disabled now by k) = Some now" "rotated_at (mark_disabled now by k) = rotated_at k"
  "expiry_date (mark_disabled now by k) = expiry_date k"
  "grace_end_date (mark_disabled now by k) = grace_end_date k"
  "is_active (mark_disabled now by k) = False"
  by (simp_all add: mark_disabled_def)

text \<open>A successful rotation, step by step.\<close>

lemma rotate_key_Inr:
  assumes "rotate_key env cfg now k by reason log db = (log', Inr (db', new))"
  obtains e db1 db2 where "disabled_at k = None" "rotated_at k = None" "expiry_date k = Some e"
    "create_key env cfg now (kk_org k) by log db = (log', Inr (db1, new))"
    "encrypt_forms env now new by (forms_of_key k db1) db1 = Inr db2"
    "kms_keys db' = map (\<lambda>y. if kk_pk y = kk_pk k
       then mark_rotated (min e now) (min e now + get_kms_grace_period_duration cfg) now by reason y
       else y) (kms_keys db2)"
    "kforms db' = kforms db2" "xform_keys db' = xform_keys db2" "kinstances db' = kinstances db2"
  using assms
  by (auto simp: rotate_key_def save_key_def Let_def split: if_splits sum.splits prod.splits option.splits)

section \<open>The life of a key\<close>

inductive key_system :: "kms_env \<Rightarrow> kms_settings \<Rightarrow> kdb \<Rightarrow> bool" for env cfg where
  start: "kms_keys db = [] \<Longrightarrow> key_system env cfg db"
| other: "\<lbrakk>key_system env cfg db; kms_keys db' = kms_keys db\<rbrakk> \<Longrightarrow> key_system env cfg db'"
| create: "\<lbrakk>key_system env cfg db; valid_datetime now;
            create_key env cfg now org by log db = (log', Inr (db', k))\<rbrakk> \<Longrightarrow> key_system env cfg db'"
| disable: "\<lbrakk>key_system env cfg db; k \<in> set (kms_keys db);
             disable_key env now k by log db = (log', Inr db')\<rbrakk> \<Longrightarrow> key_system env cfg db'"
| rotate: "\<lbrakk>key_system env cfg db; valid_datetime now; k \<in> set (kms_keys db);
            rotate_key env cfg now k by reason log db = (log', Inr (db', new))\<rbrakk>
           \<Longrightarrow> key_system env cfg db'"
| encrypt: "\<lbrakk>key_system env cfg db; encrypt_xform env now x by ov db = Inr db'\<rbrakk>
           \<Longrightarrow> key_system env cfg db'"
| disable_encryption: "\<lbrakk>key_system env cfg db; disable_xform_encryption env now x by db = Inr db'\<rbrakk>
           \<Longrightarrow> key_system env cfg db'"

definition key_ok :: "kms_settings \<Rightarrow> kms_key \<Rightarrow> bool" where
  "key_ok cfg k \<longleftrightarrow>
     (is_active k \<longleftrightarrow> disabled_at k = None \<and> rotated_at k = None)
     \<and> (rotated_at k = None \<longrightarrow> grace_end_date k = None)
     \<and> (\<forall>t. rotated_at k = Some t \<longrightarrow>
          (\<exists>e. expiry_date k = Some e \<and> e \<le> t
             \<and> grace_end_date k = Some (e + get_kms_grace_period_duration cfg)))"

definition keys_ok :: "kms_settings \<Rightarrow> kms_key list \<Rightarrow> bool" where
  "keys_ok cfg ks \<longleftrightarrow> distinct (map kk_pk ks) \<and> names_ok ks \<and> (\<forall>k \<in> set ks. key_ok cfg k)"

lemma keys_ok_new:
  assumes "keys_ok cfg (kms_keys db)" "valid_datetime now" "fresh_key k db org now"
  shows "keys_ok cfg (kms_keys db @ [k])"
  using assms names_ok_new [of "kms_keys db" now k org]
  by (auto simp: keys_ok_def fresh_key_def key_ok_def)

lemma keys_ok_map:
  assumes "keys_ok cfg ks" "\<And>k. kk_pk (f k) = kk_pk k \<and> kk_org (f k) = kk_org k
      \<and> kk_description (f k) = kk_description k"
    and "\<And>k. k \<in> set ks \<Longrightarrow> kk_pk k = pk \<Longrightarrow> key_ok cfg k \<Longrightarrow> key_ok cfg (f k)"
  shows "keys_ok cfg (map (\<lambda>k. if kk_pk k = pk then f k else k) ks)"
proof -
  let ?g = "\<lambda>k. if kk_pk k = pk then f k else k"
  have "kk_pk \<circ> ?g = kk_pk" by (rule ext) (simp add: assms(2))
  moreover have "names_ok (map ?g ks)"
    by (rule names_ok_map) (use assms(1,2) in \<open>auto simp: keys_ok_def\<close>)
  ultimately show ?thesis
    using assms(1,3) by (auto simp: keys_ok_def)
qed

lemma key_unique:
  "keys_ok cfg ks \<Longrightarrow> k \<in> set ks \<Longrightarrow> k' \<in> set ks \<Longrightarrow> kk_pk k = kk_pk k' \<Longrightarrow> k = k'"
  by (auto simp: keys_ok_def distinct_map inj_on_def)

lemma disable_key_ok:
  assumes "disable_key env now k by log db = (log', Inr db')" "keys_ok cfg (kms_keys db)"
  shows "keys_ok cfg (kms_keys db')"
proof (cases "disabled_at k = None")
  case True
  with assms(1) have "db' = save_key (kk_pk k) (mark_disabled now by) db"
    by (auto simp: disable_key_def split: if_splits)
  moreover have "keys_ok cfg (map (\<lambda>y. if kk_pk y = kk_pk k then mark_disabled now by y else y) (kms_keys db))"
    by (rule keys_ok_map [OF assms(2)]) (auto simp: key_ok_def)
  ultimately show ?thesis by (simp add: save_key_def)
next
  case False
  with assms show ?thesis by (auto simp: disable_key_def)
qed

lemma rotate_key_ok:
  assumes "rotate_key env cfg now k by reason log db = (log', Inr (db', new))"
    and "keys_ok cfg (kms_keys db)" "valid_datetime now"
  shows "keys_ok cfg (kms_keys db')"
  using assms(1)
proof (rule rotate_key_Inr)
  fix e db1 db2
  assume c: "create_key env cfg now (kk_org k) by log db = (log', Inr (db1, new))"
    and en: "encrypt_forms env now new by (forms_of_key k db1) db1 = Inr db2"
    and ks: "kms_keys db' = map (\<lambda>y. if kk_pk y = kk_pk k
       then mark_rotated (min e now) (min e now + get_kms_grace_period_duration cfg) now by reason y
       else y) (kms_keys db2)"
  have "keys_ok cfg (kms_keys db1)"
    using keys_ok_new [OF assms(2,3) create_key_Inr(2) [OF c]] create_key_Inr(1) [OF c] by simp
  then have "keys_ok cfg (kms_keys db2)" using encrypt_forms_Inr [OF en] by simp
  then show ?thesis
    unfolding ks by (rule keys_ok_map) (auto simp: key_ok_def mark_rotated_def)
qed

lemma encrypt_xform_keys:
  "encrypt_xform env now x by ov db = Inr db' \<Longrightarrow> kms_keys db' = kms_keys db"
  by (auto simp: encrypt_xform_def encrypt_form_Inr(1) split: if_splits option.splits list.splits)

lemma disable_encryption_keys:
  "disable_xform_encryption env now x by db = Inr db' \<Longrightarrow> kms_keys db' = kms_keys db"
  by (auto simp: disable_xform_encryption_def Let_def create_xform_version_def save_form_def
      split: if_splits)

lemma key_system_ok: "key_system env cfg db \<Longrightarrow> keys_ok cfg (kms_keys db)"
proof (induction rule: key_system.induct)
  case (start db)
  then show ?case by (simp add: keys_ok_def names_ok_def of_day_def)
next
  case (other db db')
  then show ?case by simp
next
  case (create db now org b log log' db' k)
  then show ?case
    using keys_ok_new create_key_Inr(1,2) [OF create(3)] by fastforce
next
  case (disable db k now b log log' db')
  then show ?case using disable_key_ok by blast
next
  case (rotate db now k b reason log log' db' new)
  then show ?case using rotate_key_ok by blast
next
  case (encrypt db now x b ov db')
  then show ?case using encrypt_xform_keys by fastforce
next
  case (disable_encryption db now x b db')
  then show ?case using disable_encryption_keys by fastforce
qed

lemma rotate_each_system:
  assumes "rotate_each env cfg now ks log db = (log', err, db')" "key_system env cfg db"
    and "valid_datetime now" "distinct (map kk_pk ks)" "set ks \<subseteq> set (kms_keys db)"
  shows "key_system env cfg db'"
  using assms
proof (induction ks arbitrary: log db)
  case Nil
  then show ?case by simp
next
  case (Cons k ks)
  obtain log1 r where r: "rotate_key env cfg now k None None log db = (log1, r)" by fastforce
  show ?case
  proof (cases r)
    case (Inr p)
    obtain db1 new where p: "p = (db1, new)" by (cases p)
    have sys: "key_system env cfg db1"
      by (rule key_system.rotate [OF Cons.prems(2,3) _ r [unfolded Inr p]])
        (use Cons.prems(5) in simp)
    have "set ks \<subseteq> set (kms_keys db1)"
    proof
      fix k' assume k': "k' \<in> set ks"
      with Cons.prems(4) have ne: "kk_pk k' \<noteq> kk_pk k" by (auto simp: image_iff)
      from r [unfolded Inr p] show "k' \<in> set (kms_keys db1)"
      proof (rule rotate_key_Inr)
        fix e db2 db3
        assume c: "create_key env cfg now (kk_org k) None log db = (log1, Inr (db2, new))"
          and en: "encrypt_forms env now new None (forms_of_key k db2) db2 = Inr db3"
          and ks: "kms_keys db1 = map (\<lambda>y. if kk_pk y = kk_pk k
       then mark_rotated (min e now) (min e now + get_kms_grace_period_duration cfg) now None None y
       else y) (kms_keys db3)"
        have "k' \<in> set (kms_keys db3)"
          using k' Cons.prems(5) encrypt_forms_Inr [OF en] create_key_Inr(1) [OF c] by auto
        with ne show ?thesis unfolding ks by force
      qed
    qed
    with Cons.IH [of log1 db1] Cons.prems r Inr p sys show ?thesis by simp
  next
    case (Inl e)
    then show ?thesis
      using Cons.IH [of log1 db] Cons.prems r by (cases e) auto
  qed
qed

text \<open>Disabling a batch marks exactly the keys the service accepted.\<close>

lemma disable_each_keys:
  assumes "disable_each env now ks out log db = (log', out', db')"
    and "\<forall>k \<in> set ks. disabled_at k = None"
  shows "kms_keys db' = map (\<lambda>k. if \<exists>k' \<in> set ks. kk_pk k' = kk_pk k \<and> env_disable_ok env (key_id k')
       then mark_disabled now None k else k) (kms_keys db)"
  using assms
proof (induction ks arbitrary: out log db)
  case Nil
  then show ?case by simp
next
  case (Cons k ks)
  have twice: "mark_disabled now None (mark_disabled now None r) = mark_disabled now None r" for r
    by (simp add: mark_disabled_def)
  show ?case
  proof (cases "env_disable_ok env (key_id k)")
    case True
    let ?db = "save_key (kk_pk k) (mark_disabled now None) db"
    have "disable_each env now (k # ks) out log db
        = disable_each env now ks (if rotated_at k = None \<or> env_owner_emails env (kk_org k) = [] then out
                 else out @ [(env_owner_emails env (kk_org k), ''Key Rotation Completed for Organization: ''
                                    @ env_org_name env (kk_org k))])
            (log @ [DisabledKey (key_id k)]) ?db"
      using True Cons.prems(2) by (simp add: disable_key_def Let_def)
    from Cons.IH [OF trans [OF this [symmetric] Cons.prems(1)]] Cons.prems(2)
    have "kms_keys db' = map (\<lambda>k. if \<exists>k' \<in> set ks. kk_pk k' = kk_pk k \<and> env_disable_ok env (key_id k')
       then mark_disabled now None k else k) (kms_keys ?db)" by simp
    then show ?thesis
      using True twice by (auto simp: save_key_def)
  next
    case False
    then have "disable_each env now (k # ks) out log db = disable_each env now ks out log db"
      using Cons.prems(2) by (simp add: disable_key_def)
    with Cons.IH [of out log db] Cons.prems have
      "kms_keys db' = map (\<lambda>k. if \<exists>k' \<in> set ks. kk_pk k' = kk_pk k \<and> env_disable_ok env (key_id k')
       then mark_disabled now None k else k) (kms_keys db)" by simp
    with False show ?thesis by simp
  qed
qed

section \<open>A concrete instance\<close>

definition demo_env :: kms_env where
  "demo_env = \<lparr>env_provider = Some AWS,
     env_new_key_id = (\<lambda>log. Some (if log = [] then ''key0'' else ''key1'')),
     env_public_key = (\<lambda>k. Some (''pub-'' @ k)), env_alias = (\<lambda>a k. AliasCreated),
     env_disable_ok = (\<lambda>k. True),
     env_decrypt = (\<lambda>k x fs. ([(''submission.xml'', ''plain'')], Decrypted)),
     env_render = (\<lambda>pk key v. v), env_hash = (\<lambda>s. s), env_sha256 = (\<lambda>s. s),
     env_guess_type = (\<lambda>n. None), env_xml_encrypted = (\<lambda>x. x = ''encrypted''),
     env_owner_emails = (\<lambda>o'. [''a@x.org'']), env_org_name = (\<lambda>o'. ''Org''),
     env_org_username = (\<lambda>o'. ''org'')\<rparr>"

definition demo_kms_settings :: kms_settings where
  "demo_kms_settings = \<lparr>KMS_ROTATION_DURATION = Duration (days 365), KMS_GRACE_PERIOD_DURATION = NotSet,
     KMS_ROTATION_REMINDER_DURATION = NotSet, KMS_GRACE_EXPIRY_REMINDER_DURATION = NotSet,
     DEPLOYMENT_NAME = None\<rparr>"

definition no_rotation_settings :: kms_settings where
  "no_rotation_settings = demo_kms_settings\<lparr>KMS_ROTATION_DURATION := NotSet\<rparr>"

definition demo_form :: kform where
  "demo_form = \<lparr>kf_pk = 3, kf_org = Some 1, kf_version = ''v1'', kf_public_key = None,
     kf_encrypted = False, kf_managed = False, kf_xml = [], kf_hash = [], kf_num_of_submissions = 0\<rparr>"

definition demo_instance :: kinstance where
  "demo_instance = \<lparr>ki_pk = 9, ki_xform = 3, ki_version = strftime_minute (days 20001),
     ki_xml = ''encrypted'', ki_uuid = ''u'', ki_checksum = ''c'', ki_is_encrypted = True,
     ki_status = Some Pending, ki_decryption_error = None, ki_media_all_received = True,
     ki_attachments = [], ki_history = []\<rparr>"

definition demo_kdb0 :: kdb where
  "demo_kdb0 = \<lparr>kms_keys = [], xform_keys = [], kforms = [demo_form], xform_versions = [],
     kinstances = [demo_instance], mails = [], decrypted_incr = []\<rparr>"

definition demo_created :: "provider_event list \<times> (kerror + kdb \<times> kms_key)" where
  "demo_created = create_key demo_env demo_kms_settings (days 20000) 1 None [] demo_kdb0"

definition demo_kdb1 :: kdb where "demo_kdb1 = fst (projr (snd demo_created))"
definition demo_key :: kms_key where "demo_key = snd (projr (snd demo_created))"

definition demo_kdb2 :: kdb where
  "demo_kdb2 = projr (encrypt_xform demo_env (days 20001) demo_form None False demo_kdb1)"

definition demo_rotated :: "provider_event list \<times> (kerror + kdb \<times> kms_key)" where
  "demo_rotated = rotate_key demo_env demo_kms_settings (days 20002) demo_key None None
     (fst demo_created) demo_kdb2"

lemma demo_dates:
  "length (strftime_date (days 20000)) = 10" "length (strftime_date (days 20002)) = 10"
  "length (strftime_date (days 20100)) = 10"
  by code_simp+

lemmas demo_kms_defs = demo_env_def demo_kms_settings_def demo_kdb0_def demo_form_def

lemma demo_kdb1_parts:
  "kms_keys demo_kdb1 = [demo_key]" "xform_keys demo_kdb1 = []" "kforms demo_kdb1 = [demo_form]"
  "kinstances demo_kdb1 = [demo_instance]" "xform_versions demo_kdb1 = []"
  "kk_pk demo_key = 1" "kk_org demo_key = 1" "disabled_at demo_key = None" "rotated_at demo_key = None"
  "is_active demo_key" "expiry_date demo_key = Some (days 20000 + days 365)"
  "\<not> isl (snd demo_created)"
  by (simp_all add: demo_kdb1_def demo_key_def demo_created_def create_key_def Let_def
      demo_kms_defs next_key_pk_def days_def day_def)

lemma demo_kdb2_parts:
  "\<not> isl (encrypt_xform demo_env (days 20001) demo_form None False demo_kdb1)"
  "kms_keys demo_kdb2 = [demo_key]"
  "xform_keys demo_kdb2 = [\<lparr>xk_xform = 3, xk_kms_key = 1,
     xk_version = strftime_minute (days 20001), xk_encrypted_by = None\<rparr>]"
  "map kf_pk (kforms demo_kdb2) = [3]" "kinstances demo_kdb2 = [demo_instance]"
  by (simp_all add: demo_kdb2_def encrypt_xform_def encrypt_form_def Let_def demo_kdb1_parts
      encrypted_form_def save_form_def create_xform_version_def demo_form_def)

lemma demo_rotates: "\<not> isl (snd demo_rotated)"
proof -
  have form: "\<exists>x. kforms demo_kdb2 = [x] \<and> kf_pk x = 3"
    using demo_kdb2_parts(4) by auto
  show ?thesis
    by (rule exE [OF form])
      (simp add: demo_rotated_def rotate_key_def create_key_def demo_kdb2_parts demo_kdb1_parts Let_def
        demo_env_def demo_kms_settings_def next_key_pk_def forms_of_key_def encrypt_form_def
        encrypted_form_def)
qed

lemma logged_result:
  "\<not> isl (snd p) \<Longrightarrow> p = (fst p, Inr (fst (projr (snd p)), snd (projr (snd p))))"
  by (cases p; cases "snd p") auto

lemma demo_created_eq:
  "create_key demo_env demo_kms_settings (days 20000) 1 None [] demo_kdb0
     = (fst demo_created, Inr (demo_kdb1, demo_key))"
  using logged_result [OF demo_kdb1_parts(12)] unfolding demo_kdb1_def demo_key_def demo_created_def .

lemma demo_encrypted_eq:
  "encrypt_xform demo_env (days 20001) demo_form None False demo_kdb1 = Inr demo_kdb2"
  using demo_kdb2_parts(1) unfolding demo_kdb2_def
  by (rule sum.collapse(2) [symmetric])

lemma demo_rotated_eq:
  "rotate_key demo_env demo_kms_settings (days 20002) demo_key None None (fst demo_created) demo_kdb2
     = (fst demo_rotated, Inr (fst (projr (snd demo_rotated)), snd (projr (snd demo_rotated))))"
  using logged_result [OF demo_rotates] unfolding demo_rotated_def .

lemma demo_key_in: "demo_key \<in> set (kms_keys demo_kdb2)"
  unfolding encrypt_xform_keys [OF demo_encrypted_eq]
  by (subst create_key_Inr(1) [OF demo_created_eq]) simp

lemma demo_key_system: "key_system demo_env demo_kms_settings demo_kdb2"
proof -
  have "key_system demo_env demo_kms_settings demo_kdb0"
    by (rule key_system.start) (simp add: demo_kdb0_def)
  from key_system.create [OF this _ demo_created_eq] demo_dates(1)
  have "key_system demo_env demo_kms_settings demo_kdb1" by (simp add: valid_datetime_def)
  from key_system.encrypt [OF this demo_encrypted_eq] show ?thesis .
qed

lemma demo_key_system_rotated: "key_system demo_env demo_kms_settings (fst (projr (snd demo_rotated)))"
  by (rule key_system.rotate [OF demo_key_system _ demo_key_in demo_rotated_eq])
    (use demo_dates(2) in \<open>simp add: valid_datetime_def\<close>)

section \<open>Properties\<close>

text \<open>C10: The life of a key: in every reachable state a key is active exactly while it is
  neither rotated nor disabled; a rotated key has expired by its rotation and its grace
  period ends the configured time after the expiry; and two keys of an organization never
  have the same description (the name its alias at the key service is made of).\<close>

theorem key_lifecycle:
  assumes "key_system env cfg db" "k \<in> set (kms_keys db)"
  shows "(is_active k \<longleftrightarrow> disabled_at k = None \<and> rotated_at k = None)
     \<and> (\<forall>t. rotated_at k = Some t \<longrightarrow>
          (\<exists>e. expiry_date k = Some e \<and> e \<le> t
             \<and> grace_end_date k = Some (e + get_kms_grace_period_duration cfg)))
     \<and> (\<forall>k' \<in> set (kms_keys db). kk_org k' = kk_org k \<and> kk_description k' = kk_description k
          \<longrightarrow> k' = k)"
proof -
  have ok: "keys_ok cfg (kms_keys db)" by (rule key_system_ok [OF assms(1)])
  then have "distinct (map kk_description (filter (\<lambda>y. kk_org y = kk_org k) (kms_keys db)))"
    by (simp add: keys_ok_def names_ok_def)
  then have "inj_on kk_description (set (filter (\<lambda>y. kk_org y = kk_org k) (kms_keys db)))"
    by (simp add: distinct_map)
  with assms(2) have "\<forall>k' \<in> set (kms_keys db). kk_org k' = kk_org k
      \<and> kk_description k' = kk_description k \<longrightarrow> k' = k"
    by (auto simp: inj_on_def)
  moreover have "key_ok cfg k" using ok assms(2) by (simp add: keys_ok_def)
  ultimately show ?thesis by (simp add: key_ok_def)
qed

theorem key_lifecycle_witness: "is_active demo_key \<longleftrightarrow> disabled_at demo_key = None \<and> rotated_at demo_key = None"
  using key_lifecycle [OF demo_key_system demo_key_in] by blast

text \<open>C11: A rotation moves every form the old key encrypts to the new key: each form with a
  row for the old key is afterwards encrypted, under the new version, with the public key
  of a fresh active key, and has a row for it; rows of earlier versions and forms of other
  keys stay.\<close>

theorem rotate_key_reencrypts:
  assumes "rotate_key env cfg now k by reason log db = (log', Inr (db', new))"
    and "distinct (map kf_pk (kforms db))"
  shows "is_active new \<and> kk_pk new \<notin> kk_pk ` set (kms_keys db)
     \<and> (\<exists>k' \<in> set (kms_keys db'). kk_pk k' = kk_pk new)
     \<and> set (xform_keys db) \<subseteq> set (xform_keys db')
     \<and> (\<forall>x \<in> set (kforms db).
          if \<exists>r \<in> set (xform_keys db). xk_kms_key r = kk_pk k \<and> xk_xform r = kf_pk x
          then \<exists>x' \<in> set (kforms db'). kf_pk x' = kf_pk x \<and> encrypted_with new now x'
                \<and> (\<exists>r \<in> set (xform_keys db'). xk_xform r = kf_pk x \<and> xk_kms_key r = kk_pk new
                     \<and> xk_version r = kf_version x')
          else x \<in> set (kforms db'))"
  using assms(1)
proof (rule rotate_key_Inr)
  fix e db1 db2
  assume c: "create_key env cfg now (kk_org k) by log db = (log', Inr (db1, new))"
    and en: "encrypt_forms env now new by (forms_of_key k db1) db1 = Inr db2"
    and ks: "kms_keys db' = map (\<lambda>y. if kk_pk y = kk_pk k
       then mark_rotated (min e now) (min e now + get_kms_grace_period_duration cfg) now by reason y
       else y) (kms_keys db2)"
    and f: "kforms db' = kforms db2" "xform_keys db' = xform_keys db2"
  note c1 = create_key_Inr [OF c]
  note en1 = encrypt_forms_Inr [OF en]
  have "map kf_pk (kforms db2) = map kf_pk (kforms db1)" using en1 by blast
  from arg_cong [OF this, of set] have pks: "kf_pk ` set (kforms db') = kf_pk ` set (kforms db)"
    using c1(1) f(1) by simp
  have new: "is_active new" "kk_pk new \<notin> kk_pk ` set (kms_keys db)"
    using c1(2) by (auto simp: fresh_key_def)
  have in': "\<exists>k' \<in> set (kms_keys db'). kk_pk k' = kk_pk new"
    unfolding ks using en1 c1(1) by (auto intro: bexI [of _ "mark_rotated _ _ _ _ _ new"])
  have rows: "set (xform_keys db) \<subseteq> set (xform_keys db')"
    using en1 c1(1) f(2) by auto
  have forms: "if \<exists>r \<in> set (xform_keys db). xk_kms_key r = kk_pk k \<and> xk_xform r = kf_pk x
          then \<exists>x' \<in> set (kforms db'). kf_pk x' = kf_pk x \<and> encrypted_with new now x'
                \<and> (\<exists>r \<in> set (xform_keys db'). xk_xform r = kf_pk x \<and> xk_kms_key r = kk_pk new
                     \<and> xk_version r = kf_version x')
          else x \<in> set (kforms db')" if x: "x \<in> set (kforms db)" for x
  proof (cases "x \<in> set (forms_of_key k db1)")
    case True
    have "kf_pk x \<in> kf_pk ` set (kforms db')"
      unfolding pks using x by simp
    then obtain x' where x': "x' \<in> set (kforms db')" "kf_pk x' = kf_pk x" by force
    have "kf_pk x' \<in> kf_pk ` set (forms_of_key k db1)" using True x'(2) by simp
    with en1 x'(1) f(1) have enc: "encrypted_with new now x'" by simp
    have "\<exists>r \<in> set (xform_keys db'). xk_xform r = kf_pk x \<and> xk_kms_key r = kk_pk new
                     \<and> xk_version r = kf_version x'"
      using en1 True f(2) enc by (auto simp: encrypted_with_def intro!: bexI [of _ "\<lparr>xk_xform = kf_pk x,
        xk_kms_key = kk_pk new, xk_version = strftime_minute now, xk_encrypted_by = by\<rparr>"])
    with x' enc True c1(1) show ?thesis by (auto simp: forms_of_key_iff)
  next
    case False
    then have no: "\<not> (\<exists>r \<in> set (xform_keys db). xk_kms_key r = kk_pk k \<and> xk_xform r = kf_pk x)"
      using x c1(1) by (auto simp: forms_of_key_iff)
    then have "kf_pk x \<notin> kf_pk ` set (forms_of_key k db1)"
      using c1(1) by (auto simp: forms_of_key_def)
    with en1 x c1(1) f(1) have "x \<in> set (kforms db')" by simp
    then show ?thesis unfolding if_not_P [OF no] .
  qed
  from new in' rows forms show ?thesis by blast
qed

lemma demo_form_pks: "distinct (map kf_pk (kforms demo_kdb2))"
  by (simp add: demo_kdb2_parts)

theorem rotate_key_reencrypts_witness:
  "set (xform_keys demo_kdb2) \<subseteq> set (xform_keys (fst (projr (snd demo_rotated))))
   \<and> is_active (snd (projr (snd demo_rotated)))"
  using rotate_key_reencrypts [OF demo_rotated_eq demo_form_pks] by blast

text \<open>A rotation adds rows for the new version only, and keeps the old key's identity.\<close>

lemma rotate_key_rows:
  assumes "rotate_key env cfg now k by reason log db = (log', Inr (db', new))"
  shows "(\<exists>rows. xform_keys db' = xform_keys db @ rows
      \<and> (\<forall>r \<in> set rows. xk_version r = strftime_minute now \<and> xk_kms_key r = kk_pk new)
      \<and> (\<forall>x \<in> set (forms_of_key k db). \<exists>r \<in> set rows. xk_xform r = kf_pk x))
    \<and> (k \<in> set (kms_keys db) \<longrightarrow>
       (\<exists>k' \<in> set (kms_keys db'). kk_pk k' = kk_pk k \<and> key_id k' = key_id k \<and> disabled_at k' = None))
    \<and> kinstances db' = kinstances db \<and> kk_pk new \<notin> kk_pk ` set (kms_keys db)"
  using assms
proof (rule rotate_key_Inr)
  fix e db1 db2
  assume a: "disabled_at k = None"
    and c: "create_key env cfg now (kk_org k) by log db = (log', Inr (db1, new))"
    and en: "encrypt_forms env now new by (forms_of_key k db1) db1 = Inr db2"
    and ks: "kms_keys db' = map (\<lambda>y. if kk_pk y = kk_pk k
       then mark_rotated (min e now) (min e now + get_kms_grace_period_duration cfg) now by reason y
       else y) (kms_keys db2)"
    and f: "xform_keys db' = xform_keys db2" "kinstances db' = kinstances db2"
  note c1 = create_key_Inr [OF c]
  note en1 = encrypt_forms_Inr [OF en]
  have same: "forms_of_key k db1 = forms_of_key k db" using c1(1) by (simp add: forms_of_key_def)
  have "xform_keys db' = xform_keys db @ map (\<lambda>x. \<lparr>xk_xform = kf_pk x, xk_kms_key = kk_pk new,
         xk_version = strftime_minute now, xk_encrypted_by = by\<rparr>) (forms_of_key k db)"
    using en1 c1(1) f(1) same by simp
  then have 1: "\<exists>rows. xform_keys db' = xform_keys db @ rows
      \<and> (\<forall>r \<in> set rows. xk_version r = strftime_minute now \<and> xk_kms_key r = kk_pk new)
      \<and> (\<forall>x \<in> set (forms_of_key k db). \<exists>r \<in> set rows. xk_xform r = kf_pk x)"
    by (intro exI conjI) auto
  have 2: "\<exists>k' \<in> set (kms_keys db'). kk_pk k' = kk_pk k \<and> key_id k' = key_id k \<and> disabled_at k' = None"
    if "k \<in> set (kms_keys db)"
    unfolding ks using that a en1 c1(1)
    by (auto intro!: bexI [of _ "mark_rotated (min e now)
      (min e now + get_kms_grace_period_duration cfg) now by reason k"])
  from 1 2 en1 c1(1,2) f(2) show ?thesis by (simp add: fresh_key_def)
qed

lemma find_key:
  "distinct (map kk_pk ks) \<Longrightarrow> k \<in> set ks \<Longrightarrow> find (\<lambda>y. kk_pk y = kk_pk k) ks = Some k"
  by (induction ks) (auto simp: image_iff)


lemma demo_minutes: "strftime_minute (days 20001) \<noteq> strftime_minute (days 20002)"
  by code_simp


text \<open>A rotation in the same minute as the encryption it replaces makes the submissions of
  that version undecryptable: the form version is the minute, so that two rows answer for
  it and the lookup of the key raises.\<close>

theorem same_minute_rotation_blocks_decryption:
  assumes "key_system env cfg db" "k \<in> set (kms_keys db)"
    and "rotate_key env cfg now k by reason log db = (log', Inr (db', new))"
    and "r \<in> set (xform_keys db)" "xk_kms_key r = kk_pk k" "xk_version r = strftime_minute now"
    and "x \<in> set (kforms db)" "kf_pk x = xk_xform r"
    and "ki_xform i = xk_xform r" "ki_version i = strftime_minute now"
    and "env_xml_encrypted env (ki_xml i)"
  shows "decrypt_instance env now' i db' = (Some MultipleObjectsReturned, db')"
proof -
  from rotate_key_rows [OF assms(3)] obtain rows where
    rows: "xform_keys db' = xform_keys db @ rows"
      "\<forall>r \<in> set rows. xk_version r = strftime_minute now \<and> xk_kms_key r = kk_pk new"
      "\<forall>x \<in> set (forms_of_key k db). \<exists>r \<in> set rows. xk_xform r = kf_pk x" by blast
  have "x \<in> set (forms_of_key k db)" using assms(4,5,7,8) by (auto simp: forms_of_key_iff)
  with rows(3) assms(8) obtain r' where r': "r' \<in> set rows" "xk_xform r' = xk_xform r" by auto
  let ?P = "\<lambda>r. xk_version r = ki_version i \<and> xk_xform r = ki_xform i"
  have "r \<in> set (filter ?P (xform_keys db))" "r' \<in> set (filter ?P rows)"
    using assms(4,6,9,10) r' rows(2) by auto
  then have "filter ?P (xform_keys db) \<noteq> []" "filter ?P rows \<noteq> []"
    by (metis empty_iff empty_set)+
  then obtain a as b bs where "filter ?P (xform_keys db) = a # as" "filter ?P rows = b # bs"
    by (meson neq_Nil_conv)
  then have two: "\<exists>a b cs. filter ?P (xform_keys db') = a # b # cs"
    unfolding rows(1) by (cases as) auto
  have "is_was_managed db' i"
    unfolding is_was_managed_def using assms(4,9) rows(1) by auto
  with two assms(11) show ?thesis by (auto simp: decrypt_instance_def)
qed

definition demo_rotated_same_minute :: "provider_event list \<times> (kerror + kdb \<times> kms_key)" where
  "demo_rotated_same_minute = rotate_key demo_env demo_kms_settings (days 20001) demo_key None None
     (fst demo_created) demo_kdb2"

theorem same_minute_rotation_blocks_decryption_witness:
  "\<not> isl (snd demo_rotated_same_minute)
   \<and> fst (decrypt_instance demo_env (days 20003) demo_instance
       (fst (projr (snd demo_rotated_same_minute)))) = Some MultipleObjectsReturned"
proof -
  obtain x where x: "kforms demo_kdb2 = [x]" "kf_pk x = 3" using demo_kdb2_parts(4) by auto
  have ok: "\<not> isl (snd demo_rotated_same_minute)"
    by (simp add: demo_rotated_same_minute_def rotate_key_def create_key_def demo_kdb2_parts
        demo_kdb1_parts Let_def demo_env_def demo_kms_settings_def next_key_pk_def forms_of_key_def
        encrypt_form_def encrypted_form_def x)
  from logged_result [OF this]
  have "rotate_key demo_env demo_kms_settings (days 20001) demo_key None None (fst demo_created) demo_kdb2
     = (fst demo_rotated_same_minute, Inr (fst (projr (snd demo_rotated_same_minute)),
          snd (projr (snd demo_rotated_same_minute))))"
    unfolding demo_rotated_same_minute_def .
  from same_minute_rotation_blocks_decryption [OF demo_key_system demo_key_in this,
      of "hd (xform_keys demo_kdb2)" x demo_instance "days 20003"] x
  have "fst (decrypt_instance demo_env (days 20003) demo_instance
       (fst (projr (snd demo_rotated_same_minute)))) = Some MultipleObjectsReturned"
    by (simp add: demo_kdb2_parts demo_kdb1_parts demo_instance_def demo_env_def)
  with ok show ?thesis by blast
qed

text \<open>A key the service created is never left behind by a failing creation: when
  \<open>create_key\<close> fails after the service made the key, the key is disabled at the service
  and the error is the service's.\<close>

theorem create_key_leaves_no_orphan:
  assumes "create_key env cfg now org by log db = (log', Inl e)"
  shows "log' = log \<or> (\<exists>kid d. log' = log @ [CreatedKey kid d, DisabledKey kid])"
  using assms
  by (auto simp: create_key_def Let_def split: option.splits alias_reply.splits)

definition failing_env :: kms_env where
  "failing_env = demo_env\<lparr>env_public_key := \<lambda>k. None\<rparr>"

theorem create_key_leaves_no_orphan_witness:
  "\<exists>kid d. fst (create_key failing_env demo_kms_settings 0 1 None [] demo_kdb0)
     = [] @ [CreatedKey kid d, DisabledKey kid]"
proof -
  have "create_key failing_env demo_kms_settings 0 1 None [] demo_kdb0
      = (fst (create_key failing_env demo_kms_settings 0 1 None [] demo_kdb0), Inl GetPublicKeyException)"
    by (simp add: create_key_def failing_env_def demo_env_def Let_def)
  from create_key_leaves_no_orphan [OF this] show ?thesis
    by (simp add: create_key_def failing_env_def demo_env_def Let_def)
qed

text \<open>Rotating a key that has no expiry date fails after the new key was made: with no
  rotation duration configured keys get no expiry, the comparison with the present raises
  a \<open>TypeError\<close>, the transaction is rolled back, and the key created at the service is
  left enabled with no row that names it.\<close>

theorem rotate_without_expiry_orphans_key:
  assumes "expiry_date k = None" "disabled_at k = None" "rotated_at k = None"
    and "create_key env cfg now (kk_org k) by log db = (log1, Inr (db1, new))"
    and "encrypt_forms env now new by (forms_of_key k db1) db1 = Inr db2"
  shows "rotate_key env cfg now k by reason log db = (log1, Inl TypeError)
     \<and> (\<exists>d. CreatedKey (key_id new) d \<in> set log1)
     \<and> (DisabledKey (key_id new) \<in> set log1 \<longrightarrow> DisabledKey (key_id new) \<in> set log)"
proof -
  have "rotate_key env cfg now k by reason log db = (log1, Inl TypeError)"
    using assms by (simp add: rotate_key_def)
  moreover have "DisabledKey (key_id new) \<in> set log1 \<longrightarrow> DisabledKey (key_id new) \<in> set log"
    using assms(4) by (auto simp: create_key_def Let_def split: option.splits alias_reply.splits if_splits)
  ultimately show ?thesis using create_key_Inr(3) [OF assms(4)] by blast
qed

theorem rotate_without_expiry_orphans_key_witness:
  "\<exists>log1. rotate_key demo_env no_rotation_settings (days 20002)
     (demo_key\<lparr>expiry_date := None\<rparr>) None None [] demo_kdb1 = (log1, Inl TypeError)"
proof -
  let ?c = "create_key demo_env no_rotation_settings (days 20002) (kk_org (demo_key\<lparr>expiry_date := None\<rparr>))
    None [] demo_kdb1"
  have "\<not> isl (snd ?c)"
    by (simp add: create_key_def demo_env_def Let_def)
  note c = logged_result [OF this]
  have forms: "forms_of_key (demo_key\<lparr>expiry_date := None\<rparr>) (fst (projr (snd ?c))) = []"
    unfolding create_key_Inr(1) [OF c] by (simp add: forms_of_key_def demo_kdb1_parts)
  have en: "encrypt_forms demo_env (days 20002) (snd (projr (snd ?c))) None
      (forms_of_key (demo_key\<lparr>expiry_date := None\<rparr>) (fst (projr (snd ?c)))) (fst (projr (snd ?c)))
      = Inr (fst (projr (snd ?c)))"
    unfolding forms by simp
  from rotate_without_expiry_orphans_key [OF _ _ _ c en] show ?thesis
    by (simp add: demo_kdb1_parts)
qed

text \<open>C13: The disabling task respects the grace period and is complete: in a reachable state,
  with a service that accepts every request, it disables exactly the keys that were
  already disabled or were rotated with expiry and grace period behind them, and changes
  nothing else of any key.\<close>

theorem disable_expired_respects_grace:
  assumes "key_system env cfg db" "\<forall>kid. env_disable_ok env kid"
    and "disable_expired_keys env now log db = (log', db')" "0 \<le> get_kms_grace_period_duration cfg"
  shows "kms_keys db' = map (\<lambda>k.
     if disabled_at k = None \<and> rotated_at k \<noteq> None
        \<and> at_or_before (map_option (\<lambda>e. e + get_kms_grace_period_duration cfg) (expiry_date k)) now
     then mark_disabled now None k else k) (kms_keys db)"
proof -
  let ?due = "\<lambda>k. at_or_before (expiry_date k) now \<and> at_or_before (grace_end_date k) now
     \<and> disabled_at k = None"
  have ok: "keys_ok cfg (kms_keys db)" by (rule key_system_ok [OF assms(1)])
  obtain log1 out db1 where d: "disable_each env now (filter ?due (kms_keys db)) [] log db = (log1, out, db1)"
    using prod_cases3 by blast
  from assms(3) d have "kms_keys db' = kms_keys db1"
    by (auto simp: disable_expired_keys_def)
  also have "\<dots> = map (\<lambda>k. if \<exists>k' \<in> set (filter ?due (kms_keys db)). kk_pk k' = kk_pk k
       \<and> env_disable_ok env (key_id k') then mark_disabled now None k else k) (kms_keys db)"
    by (rule disable_each_keys [OF d]) simp
  also have "\<dots> = map (\<lambda>k.
     if disabled_at k = None \<and> rotated_at k \<noteq> None
        \<and> at_or_before (map_option (\<lambda>e. e + get_kms_grace_period_duration cfg) (expiry_date k)) now
     then mark_disabled now None k else k) (kms_keys db)"
  proof (rule map_cong [OF refl])
    fix k assume k: "k \<in> set (kms_keys db)"
    have "(\<exists>k' \<in> set (filter ?due (kms_keys db)). kk_pk k' = kk_pk k \<and> env_disable_ok env (key_id k'))
        \<longleftrightarrow> ?due k"
      using k key_unique [OF ok] assms(2) by auto
    moreover have "?due k \<longleftrightarrow> disabled_at k = None \<and> rotated_at k \<noteq> None
        \<and> at_or_before (map_option (\<lambda>e. e + get_kms_grace_period_duration cfg) (expiry_date k)) now"
    proof -
      have "key_ok cfg k" using ok k by (simp add: keys_ok_def)
      with assms(4) show ?thesis
        by (cases "rotated_at k"; cases "expiry_date k")
          (auto simp: key_ok_def at_or_before_def)
    qed
    ultimately show "(if \<exists>k' \<in> set (filter ?due (kms_keys db)). kk_pk k' = kk_pk k
       \<and> env_disable_ok env (key_id k') then mark_disabled now None k else k)
      = (if disabled_at k = None \<and> rotated_at k \<noteq> None
        \<and> at_or_before (map_option (\<lambda>e. e + get_kms_grace_period_duration cfg) (expiry_date k)) now
     then mark_disabled now None k else k)" by simp
  qed
  finally show ?thesis .
qed

theorem disable_expired_respects_grace_witness:
  "\<exists>k \<in> set (kms_keys (snd (disable_expired_keys demo_env (days 20400) []
      (fst (projr (snd demo_rotated)))))). disabled_at k = Some (days 20400)"
proof -
  let ?db = "fst (projr (snd demo_rotated))"
  have ok: "\<forall>kid. env_disable_ok demo_env kid" by (simp add: demo_env_def)
  have grace: "get_kms_grace_period_duration demo_kms_settings = days 30"
    by (simp add: demo_kms_settings_def)
  have "disable_expired_keys demo_env (days 20400) [] ?db
      = (fst (disable_expired_keys demo_env (days 20400) [] ?db),
         snd (disable_expired_keys demo_env (days 20400) [] ?db))" by simp
  from disable_expired_respects_grace [OF demo_key_system_rotated ok this] grace
  have eq: "kms_keys (snd (disable_expired_keys demo_env (days 20400) [] ?db)) = map (\<lambda>k.
     if disabled_at k = None \<and> rotated_at k \<noteq> None
        \<and> at_or_before (map_option (\<lambda>e. e + days 30) (expiry_date k)) (days 20400)
     then mark_disabled (days 20400) None k else k) (kms_keys ?db)"
    by (simp add: days_def day_def)
  show ?thesis
  proof (rule rotate_key_Inr [OF demo_rotated_eq])
    fix e db1 db2
    let ?old = "mark_rotated (min e (days 20002)) (min e (days 20002) + get_kms_grace_period_duration
       demo_kms_settings) (days 20002) None None demo_key"
    assume e: "expiry_date demo_key = Some e"
      and c: "create_key demo_env demo_kms_settings (days 20002) (kk_org demo_key) None
        (fst demo_created) demo_kdb2 = (fst demo_rotated, Inr (db1, snd (projr (snd demo_rotated))))"
      and en: "encrypt_forms demo_env (days 20002) (snd (projr (snd demo_rotated))) None
        (forms_of_key demo_key db1) db1 = Inr db2"
      and ks: "kms_keys ?db = map (\<lambda>y. if kk_pk y = kk_pk demo_key
       then mark_rotated (min e (days 20002)) (min e (days 20002) + get_kms_grace_period_duration
         demo_kms_settings) (days 20002) None None y
       else y) (kms_keys db2)"
    have "demo_key \<in> set (kms_keys db2)"
      using demo_key_in encrypt_forms_Inr [OF en] create_key_Inr(1) [OF c] by simp
    then have "?old \<in> set (kms_keys ?db)" unfolding ks by force
    moreover have "disabled_at ?old = None" "rotated_at ?old \<noteq> None"
      "at_or_before (map_option (\<lambda>e. e + days 30) (expiry_date ?old)) (days 20400)"
      using e demo_kdb1_parts by (auto simp: mark_rotated_def at_or_before_def days_def day_def)
    ultimately show ?thesis
      unfolding eq by (auto intro!: bexI [of _ "mark_disabled (days 20400) None ?old"])
  qed
qed

end
