(* ===== verification/Instance_Parser.thy ===== *)
theory Instance_Parser
  imports Onadata_Prelude "HOL-Library.Multiset"
begin

text \<open>
  The submission parser, \<open>onadata/apps/logger/xform_instance_parser.py\<close>: an XML
  submission becomes a nested dictionary (\<open>_xml_node_to_dict\<close>), which is flattened to
  paths (\<open>_flatten_dict_nest_repeats\<close>); metadata, attributes and entities are read
  off the tree.

  A document is the list of its children.  The XML parser itself
  (\<open>minidom.parseString\<close>) is an argument \<open>parse\<close>; \<open>None\<close> stands for an
  \<open>ExpatError\<close>.  A node knows no parent here, so that the functions which use
  \<open>parentNode\<close> get the path of a node, the names below the root, as an argument.
\<close>

section \<open>Documents\<close>

datatype xml =
    Elem (tag_name: string) (attributes: "(string \<times> string) list") (child_nodes: "xml list")
  | Text string
  | CData string
  | Comment string

datatype parser_error =
    ValueError string
  | AttributeError
  | ExpatError
  | InstanceEmptyError
  | KeyError string
  | IndexError

fun is_elem :: "xml \<Rightarrow> bool" where
  "is_elem (Elem _ _ _) = True"
| "is_elem _ = False"

fun node_children :: "xml \<Rightarrow> xml list" where
  "node_children (Elem _ _ cs) = cs"
| "node_children _ = []"

fun node_name :: "xml \<Rightarrow> string" where
  "node_name (Elem n _ _) = n"
| "node_name (Text _) = ''#text''"
| "node_name (CData _) = ''#cdata-section''"
| "node_name (Comment _) = ''#comment''"

fun node_value :: "xml \<Rightarrow> string option" where
  "node_value (Elem _ _ _) = None"
| "node_value (Text t) = Some t"
| "node_value (CData t) = Some t"
| "node_value (Comment t) = Some t"

text \<open>\<open>node.getAttribute(name)\<close>; only elements have it.\<close>

fun get_attribute :: "xml \<Rightarrow> string \<Rightarrow> parser_error + string" where
  "get_attribute (Elem _ as _) name = Inr (case map_of as name of None \<Rightarrow> [] | Some v \<Rightarrow> v)"
| "get_attribute _ name = Inl AttributeError"

text \<open>\<open>re.sub(r">\s+<", "><", s)\<close>.\<close>

function clean_tags :: "string \<Rightarrow> string" where
  "clean_tags [] = []"
| "clean_tags (c # cs) =
     (let r = dropWhile is_space cs
      in if c = CHR ''>'' \<and> r \<noteq> cs \<and> r \<noteq> [] \<and> hd r = CHR ''<''
         then c # CHR ''<'' # clean_tags (tl r) else c # clean_tags cs)"
  by pat_completeness auto
termination
  by (relation "measure length")
    (auto simp: less_Suc_eq_le intro: order_trans [OF diff_le_self length_dropWhile_le])

definition clean_and_parse_xml ::
    "(string \<Rightarrow> xml list option) \<Rightarrow> string \<Rightarrow> parser_error + xml list" where
  "clean_and_parse_xml parse s =
     (case parse (clean_tags (strip s)) of None \<Rightarrow> Inl ExpatError | Some doc \<Rightarrow> Inr doc)"

section \<open>Metadata\<close>

definition named :: "string \<Rightarrow> xml \<Rightarrow> bool" where
  "named name n \<longleftrightarrow> is_elem n \<and> (lower (node_name n) = name \<or> lower (node_name n) = ''orx:'' @ name)"

text \<open>The tag \<open>meta_name\<close> of the first \<open>meta\<close> section of the first child of the document.\<close>

definition get_meta_tag ::
    "(string \<Rightarrow> xml list option) \<Rightarrow> string \<Rightarrow> string \<Rightarrow> parser_error + xml option" where
  "get_meta_tag parse xml_str meta_name =
     (case clean_and_parse_xml parse xml_str of
        Inl e \<Rightarrow> Inl e
      | Inr [] \<Rightarrow> Inl (ValueError ''XML string must have a survey element.'')
      | Inr (survey # _) \<Rightarrow>
          (case filter (named ''meta'') (node_children survey) of
             [] \<Rightarrow> Inr None
           | meta # _ \<Rightarrow>
               (case filter (named (lower meta_name)) (node_children meta) of
                  [] \<Rightarrow> Inr None | tag # _ \<Rightarrow> Inr (Some tag))))"

text \<open>\<open>get_meta_from_xml\<close> for a name other than \<open>entity\<close>.\<close>

definition get_meta_from_xml ::
    "(string \<Rightarrow> xml list option) \<Rightarrow> string \<Rightarrow> string \<Rightarrow> parser_error + string option" where
  "get_meta_from_xml parse xml_str meta_name =
     (case get_meta_tag parse xml_str meta_name of
        Inl e \<Rightarrow> Inl e
      | Inr None \<Rightarrow> Inr None
      | Inr (Some tag) \<Rightarrow>
          (case node_children tag of
             [] \<Rightarrow> Inr None
           | c # _ \<Rightarrow> (case node_value c of None \<Rightarrow> Inl AttributeError | Some v \<Rightarrow> Inr (Some (strip v)))))"

text \<open>The group of \<open>re.match(r"uuid:(.*)", s)\<close>; a dot does not match a line break.\<close>

definition uuid_only :: "string \<Rightarrow> string option" where
  "uuid_only s =
     (if prefix ''uuid:'' s then Some (takeWhile (\<lambda>c. c \<noteq> CHR 0x0A) (drop 5 s)) else None)"

definition survey_attribute ::
    "(string \<Rightarrow> xml list option) \<Rightarrow> string \<Rightarrow> string \<Rightarrow> parser_error + string" where
  "survey_attribute parse xml_str name =
     (case clean_and_parse_xml parse xml_str of
        Inl e \<Rightarrow> Inl e
      | Inr [] \<Rightarrow> Inl (ValueError ''XML string must have a survey element.'')
      | Inr (survey # _) \<Rightarrow> get_attribute survey name)"

definition get_uuid_from_xml ::
    "(string \<Rightarrow> xml list option) \<Rightarrow> string \<Rightarrow> parser_error + string option" where
  "get_uuid_from_xml parse s =
     (case get_meta_from_xml parse s ''instanceID'' of
        Inl e \<Rightarrow> Inl e
      | Inr u \<Rightarrow>
          if u \<noteq> None \<and> u \<noteq> Some [] then Inr (uuid_only (the u))
          else (case survey_attribute parse s ''instanceID'' of
                  Inl e \<Rightarrow> Inl e | Inr v \<Rightarrow> if v \<noteq> [] then Inr (uuid_only v) else Inr None))"

text \<open>\<open>dateutil.parser.parse\<close> is an argument.\<close>

definition get_submission_date_from_xml ::
    "(string \<Rightarrow> xml list option) \<Rightarrow> (string \<Rightarrow> 'd) \<Rightarrow> string \<Rightarrow> parser_error + 'd option" where
  "get_submission_date_from_xml parse parse_date s =
     (case survey_attribute parse s ''submissionDate'' of
        Inl e \<Rightarrow> Inl e | Inr v \<Rightarrow> if v \<noteq> [] then Inr (Some (parse_date v)) else Inr None)"

definition get_deprecated_uuid_from_xml ::
    "(string \<Rightarrow> xml list option) \<Rightarrow> string \<Rightarrow> parser_error + string option" where
  "get_deprecated_uuid_from_xml parse s =
     (case get_meta_from_xml parse s ''deprecatedID'' of
        Inl e \<Rightarrow> Inl e
      | Inr u \<Rightarrow> if u \<noteq> None \<and> u \<noteq> Some [] then Inr (uuid_only (the u)) else Inr None)"

section \<open>The nested dictionary\<close>

text \<open>
  Adding the value of a child.  A name is a repeat at a path or it is not, so that in the
  list case an earlier value is a list already.
\<close>

definition add_child :: "bool \<Rightarrow> string \<Rightarrow> pyval \<Rightarrow> (string, pyval) dict \<Rightarrow> (string, pyval) dict" where
  "add_child as_list name v acc =
     AList.update name
       (case map_of acc name of
          None \<Rightarrow> if as_list then PList [v] else v
        | Some (PList xs) \<Rightarrow> PList (xs @ [v])
        | Some w \<Rightarrow> PList [w, v]) acc"

fun only_text :: "xml list \<Rightarrow> string option" where
  "only_text [Text t] = Some t"
| "only_text _ = None"

fun cdata_of :: "xml \<Rightarrow> string option" where
  "cdata_of (CData t) = Some t"
| "cdata_of _ = None"

text \<open>
  \<open>_xml_node_to_dict\<close>: \<open>path\<close> are the names from below the root to the node.  The flag
  \<open>encrypted\<close> is not passed on by the recursive call.
\<close>

fun node_to_dict :: "string list \<Rightarrow> string list \<Rightarrow> bool \<Rightarrow> xml \<Rightarrow> pyval option"
  and children_to_dict ::
    "string list \<Rightarrow> string list \<Rightarrow> bool \<Rightarrow> xml list \<Rightarrow> (string, pyval) dict \<Rightarrow> pyval option" where
  "node_to_dict path repeats encrypted (Elem n as cs) =
     (if cs = [] then None
      else (case only_text cs of
              Some t \<Rightarrow> Some (PStr t)
            | None \<Rightarrow> children_to_dict path repeats encrypted cs []))"
| "node_to_dict path repeats encrypted (Text _) = None"
| "node_to_dict path repeats encrypted (CData _) = None"
| "node_to_dict path repeats encrypted (Comment _) = None"
| "children_to_dict path repeats encrypted [] acc = (if acc = [] then None else Some (PDict acc))"
| "children_to_dict path repeats encrypted (c # cs) acc =
     (case cdata_of c of
        Some t \<Rightarrow> Some (PStr t)
      | None \<Rightarrow>
          (let child_path = path @ [node_name c]
           in case node_to_dict child_path repeats False c of
                None \<Rightarrow> children_to_dict path repeats encrypted cs acc
              | Some v \<Rightarrow>
                  children_to_dict path repeats encrypted cs
                    (add_child (join ''/'' child_path \<in> set repeats
                                \<or> encrypted \<and> node_name c = ''media'') (node_name c) v acc)))"

definition xml_node_to_dict :: "string list \<Rightarrow> bool \<Rightarrow> xml \<Rightarrow> (string, pyval) dict option" where
  "xml_node_to_dict repeats encrypted root =
     (case node_to_dict [] repeats encrypted root of
        None \<Rightarrow> None | Some v \<Rightarrow> Some [(node_name root, v)])"

section \<open>Flattening\<close>

fun flatten_dict :: "(string \<times> pyval) list \<Rightarrow> string list \<Rightarrow> (string list \<times> pyval) list"
  and flatten_items :: "pyval list \<Rightarrow> nat \<Rightarrow> string list \<Rightarrow> string \<Rightarrow> (string list \<times> pyval) list" where
  "flatten_dict [] pre = []"
| "flatten_dict ((k, v) # d) pre =
     (case v of
        PDict e \<Rightarrow> flatten_dict e (pre @ [k])
      | PList xs \<Rightarrow> flatten_items xs 0 pre k
      | _ \<Rightarrow> [(pre @ [k], v)]) @ flatten_dict d pre"
| "flatten_items [] i pre k = []"
| "flatten_items (x # xs) i pre k =
     (let item_prefix = pre @ [if 0 < i then k @ ''['' @ show_nat (i + 1) @ '']'' else k]
      in (case x of PDict e \<Rightarrow> flatten_dict e item_prefix | _ \<Rightarrow> [(item_prefix, x)]))
         @ flatten_items xs (i + 1) pre k"

fun flatten_nest :: "(string \<times> pyval) list \<Rightarrow> string list \<Rightarrow> (string list \<times> pyval) list"
  and nest_items :: "pyval list \<Rightarrow> string list \<Rightarrow> pyval list" where
  "flatten_nest [] pre = []"
| "flatten_nest ((k, v) # d) pre =
     (case v of
        PDict e \<Rightarrow> flatten_nest e (pre @ [k])
      | PList xs \<Rightarrow> [(pre @ [k], PList (nest_items xs (pre @ [k])))]
      | _ \<Rightarrow> [(pre @ [k], v)]) @ flatten_nest d pre"
| "nest_items [] pre = []"
| "nest_items (x # xs) pre =
     (case x of
        PDict e \<Rightarrow> PDict (dict_update [] (map (\<lambda>(path, r). (join ''/'' (tl path), r)) (flatten_nest e pre)))
      | _ \<Rightarrow> PDict [(join ''/'' (tl pre), x)])
     # nest_items xs pre"

section \<open>The parser object\<close>

record parsed =
  p_dict :: "(string, pyval) dict"
  p_flat :: "(string, pyval) dict"
  p_attributes :: "(string, string) dict"

fun all_attributes :: "xml \<Rightarrow> (string \<times> string \<times> string) list" where
  "all_attributes (Elem n as cs) =
     map (\<lambda>(k, v). (k, v, n)) as @ concat (map all_attributes cs)"
| "all_attributes _ = []"

definition set_attributes :: "xml \<Rightarrow> (string, string) dict" where
  "set_attributes root =
     fold (\<lambda>(k, v, n) d.
             if n = ''entity'' then d
             else if k \<in> fst ` set d then d else AList.update k v d) (all_attributes root) []"

definition document_element :: "xml list \<Rightarrow> xml option" where
  "document_element doc = find is_elem doc"

text \<open>
  \<open>XFormInstanceParser.parse\<close>: \<open>repeats\<close> are the abbreviated paths of the form's
  repeats, \<open>encrypted\<close> says that the form is or was encrypted.
\<close>

definition flat_dict :: "(string, pyval) dict \<Rightarrow> (string, pyval) dict" where
  "flat_dict d = dict_update [] (map (\<lambda>(path, v). (join ''/'' (tl path), v)) (flatten_nest d []))"

definition parse_instance ::
    "(string \<Rightarrow> xml list option) \<Rightarrow> string list \<Rightarrow> bool \<Rightarrow> string \<Rightarrow> parser_error + parsed" where
  "parse_instance parse repeats encrypted xml_str =
     (case clean_and_parse_xml parse xml_str of
        Inl e \<Rightarrow> Inl e
      | Inr doc \<Rightarrow>
          (case document_element doc of
             None \<Rightarrow> Inl AttributeError
           | Some root \<Rightarrow>
               (case xml_node_to_dict repeats encrypted root of
                  None \<Rightarrow> Inl InstanceEmptyError
                | Some d \<Rightarrow>
                    Inr \<lparr>p_dict = d, p_flat = flat_dict d, p_attributes = set_attributes root\<rparr>)))"

definition get_xform_id_string :: "parsed \<Rightarrow> parser_error + string" where
  "get_xform_id_string p =
     (case map_of (p_attributes p) ''id'' of None \<Rightarrow> Inl (KeyError ''id'') | Some v \<Rightarrow> Inr v)"

definition get_version :: "parsed \<Rightarrow> string option" where
  "get_version p = map_of (p_attributes p) ''version''"

definition get_flat_dict_with_attributes :: "parsed \<Rightarrow> parser_error + (string, pyval) dict" where
  "get_flat_dict_with_attributes p =
     (case get_xform_id_string p of
        Inl e \<Rightarrow> Inl e
      | Inr i \<Rightarrow>
          (let d = AList.update ''_xform_id_string'' (PStr i) (p_flat p)
           in Inr (case get_version p of
                     None \<Rightarrow> d
                   | Some v \<Rightarrow> if v = [] then d else AList.update ''_version'' (PStr v) d)))"

definition xform_instance_to_dict where
  "xform_instance_to_dict parse repeats encrypted s =
     map_sum id p_dict (parse_instance parse repeats encrypted s)"

definition xform_instance_to_flat_dict where
  "xform_instance_to_flat_dict parse repeats encrypted s =
     map_sum id p_flat (parse_instance parse repeats encrypted s)"

definition parse_xform_instance ::
    "(string \<Rightarrow> xml list option) \<Rightarrow> string list \<Rightarrow> bool \<Rightarrow> string \<Rightarrow> parser_error + (string, pyval) dict" where
  "parse_xform_instance parse repeats encrypted s =
     (case parse_instance parse repeats encrypted s of
        Inl e \<Rightarrow> Inl e | Inr p \<Rightarrow> get_flat_dict_with_attributes p)"

section \<open>Entities\<close>

definition get_entity_uuid_from_xml ::
    "(string \<Rightarrow> xml list option) \<Rightarrow> string \<Rightarrow> parser_error + string" where
  "get_entity_uuid_from_xml parse s =
     (case get_meta_tag parse s ''entity'' of
        Inl e \<Rightarrow> Inl e
      | Inr None \<Rightarrow> Inl AttributeError
      | Inr (Some tag) \<Rightarrow> get_attribute tag ''id'')"

text \<open>An entity node with the path and the children of the group around its \<open>meta\<close>.\<close>

fun collect_entities :: "string list \<Rightarrow> xml list \<Rightarrow> xml list \<Rightarrow> (string list \<times> xml list \<times> xml) list" where
  "collect_entities path siblings [] = []"
| "collect_entities path siblings (c # cs) =
     (case c of
        Elem n as ds \<Rightarrow>
          if lower n = ''meta'' \<or> lower n = ''orx:meta''
          then map (\<lambda>e. (path, siblings, e)) (filter (named ''entity'') ds)
          else collect_entities (path @ [n]) ds ds
      | _ \<Rightarrow> [])
     @ collect_entities path siblings cs"

definition get_entity_nodes_from_xml ::
    "(string \<Rightarrow> xml list option) \<Rightarrow> string \<Rightarrow> parser_error + (string list \<times> xml list \<times> xml) list" where
  "get_entity_nodes_from_xml parse s =
     (case clean_and_parse_xml parse s of
        Inl e \<Rightarrow> Inl e | Inr doc \<Rightarrow> Inr (collect_entities [] doc doc))"

definition get_entity_label_from_node :: "xml \<Rightarrow> string option" where
  "get_entity_label_from_node entity =
     (case filter (named ''label'') (node_children entity) of
        [] \<Rightarrow> None
      | l # _ \<Rightarrow> (case node_children l of [] \<Rightarrow> None | c # _ \<Rightarrow> node_value c))"

text \<open>The field values of a group; \<open>path\<close> has the root's name first.\<close>

fun collect_group :: "string list \<Rightarrow> xml list \<Rightarrow> (string, string) dict \<Rightarrow> (string, string) dict" where
  "collect_group path [] acc = acc"
| "collect_group path (c # cs) acc =
     collect_group path cs
       (case c of
          Elem n as ds \<Rightarrow>
            if lower n = ''meta'' \<or> lower n = ''orx:meta'' then acc
            else (case ds of
                    [Text t] \<Rightarrow> AList.update (join ''/'' (tl (path @ [n]))) t acc
                  | [CData t] \<Rightarrow> AList.update (join ''/'' (tl (path @ [n]))) t acc
                  | _ \<Rightarrow> collect_group (path @ [n]) ds acc)
        | _ \<Rightarrow> acc)"

definition get_entity_group_data :: "string list \<times> xml list \<times> xml \<Rightarrow> (string, string) dict" where
  "get_entity_group_data = (\<lambda>(path, siblings, entity). collect_group path siblings [])"

section \<open>Answers\<close>

text \<open>The texts of a submission: the text of each element that holds only text.\<close>

fun answers :: "xml \<Rightarrow> string list" where
  "answers (Elem n as cs) = (case only_text cs of Some t \<Rightarrow> [t] | None \<Rightarrow> concat (map answers cs))"
| "answers _ = []"

fun no_cdata :: "xml \<Rightarrow> bool" where
  "no_cdata (Elem n as cs) = (\<forall>c \<in> set cs. no_cdata c)"
| "no_cdata (CData _) = False"
| "no_cdata _ = True"

text \<open>XML names hold no slash.\<close>

fun plain_names :: "xml \<Rightarrow> bool" where
  "plain_names (Elem n as cs) = (CHR ''/'' \<notin> set n \<and> (\<forall>c \<in> set cs. plain_names c))"
| "plain_names _ = True"

lemma size_snd_list: "(k, v) \<in> set d \<Longrightarrow> size v < Suc (size_list (size_prod (\<lambda>_. 0) size) d)"
  by (induction d) auto

fun leaves :: "pyval \<Rightarrow> string list" where
  "leaves (PStr s) = [s]"
| "leaves (PList xs) = concat (map leaves xs)"
| "leaves (PDict d) = concat (map (\<lambda>(k, v). leaves v) d)"
| "leaves _ = []"

text \<open>A dictionary tree: distinct keys without slash at every level.\<close>

fun tree_ok :: "pyval \<Rightarrow> bool" where
  "tree_ok (PDict d) = (distinct (map fst d) \<and> (\<forall>(k, v) \<in> set d. CHR ''/'' \<notin> set k \<and> tree_ok v))"
| "tree_ok (PList xs) = (\<forall>x \<in> set xs. tree_ok x)"
| "tree_ok _ = True"

abbreviation dict_leaves :: "(string, pyval) dict \<Rightarrow> string list" where
  "dict_leaves d \<equiv> concat (map (\<lambda>(k, v). leaves v) d)"

lemma leaves_update_old:
  "map_of d k = Some w \<Longrightarrow>
     mset (dict_leaves (AList.update k v d)) + mset (leaves w) = mset (dict_leaves d) + mset (leaves v)"
proof (induction d)
  case Nil
  then show ?case by simp
next
  case (Cons e d)
  obtain k' v' where e: "e = (k', v')" by (cases e)
  show ?case
  proof (cases "k' = k")
    case True
    with Cons.prems e show ?thesis by simp
  next
    case False
    with Cons e show ?thesis by (simp add: ac_simps)
  qed
qed

lemma leaves_update_new:
  "map_of d k = None \<Longrightarrow> mset (dict_leaves (AList.update k v d)) = mset (dict_leaves d) + mset (leaves v)"
  by (induction d) (auto split: if_splits)

lemma add_child_leaves:
  "mset (dict_leaves (add_child l n v acc)) = mset (dict_leaves acc) + mset (leaves v)"
proof (cases "map_of acc n")
  case None
  then show ?thesis
    using leaves_update_new [OF None, of "if l then PList [v] else v"] by (simp add: add_child_def)
next
  case (Some w)
  show ?thesis
    using leaves_update_old [OF Some, of "case w of PList xs \<Rightarrow> PList (xs @ [v]) | _ \<Rightarrow> PList [w, v]"]
    by (cases w) (auto simp: add_child_def Some)
qed

lemma add_child_ok:
  assumes "tree_ok (PDict acc)" "tree_ok v" "CHR ''/'' \<notin> set n"
  shows "tree_ok (PDict (add_child l n v acc))"
proof -
  have "set (AList.update n w d) \<subseteq> insert (n, w) (set d)" for w and d :: "(string, pyval) dict"
    by (induction d) auto
  then have upd: "tree_ok (PDict (AList.update n w acc))" if "tree_ok w" for w
    using assms(1,3) that distinct_update [of acc n w] by fastforce
  have old: "tree_ok w" if "map_of acc n = Some w" for w
    using assms(1) map_of_SomeD [OF that] by auto
  show ?thesis
  proof (cases "map_of acc n")
    case None
    then show ?thesis using upd [of "if l then PList [v] else v"] assms(2) by (simp add: add_child_def)
  next
    case (Some w)
    then show ?thesis
      using upd [of "case w of PList xs \<Rightarrow> PList (xs @ [v]) | _ \<Rightarrow> PList [w, v]"] old [OF Some] assms(2)
      by (cases w) (auto simp: add_child_def)
  qed
qed

lemma add_child_neq_Nil: "add_child l n v acc \<noteq> []"
  by (cases acc) (auto simp: add_child_def)

lemma node_to_dict_leaves:
  "no_cdata x \<Longrightarrow> plain_names x \<Longrightarrow>
     (case node_to_dict path reps enc x of None \<Rightarrow> answers x = []
      | Some v \<Rightarrow> mset (leaves v) = mset (answers x) \<and> tree_ok v)"
  "(\<forall>c \<in> set cs. no_cdata c \<and> plain_names c) \<Longrightarrow> tree_ok (PDict acc) \<Longrightarrow>
     (case children_to_dict path reps enc cs acc of
        None \<Rightarrow> acc = [] \<and> concat (map answers cs) = []
      | Some v \<Rightarrow> mset (leaves v) = mset (dict_leaves acc) + mset (concat (map answers cs)) \<and> tree_ok v)"
proof (induction path reps enc x and path reps enc cs acc rule: node_to_dict_children_to_dict.induct)
  case (1 path reps enc n as cs)
  show ?case
  proof (cases "only_text cs")
    case (Some t)
    then have "cs = [Text t]" by (cases cs rule: only_text.cases) auto
    then show ?thesis by simp
  next
    case None
    show ?thesis
    proof (cases "cs = []")
      case False
      with 1 None show ?thesis by (auto split: option.splits)
    qed simp
  qed
next
  case (6 path reps enc c cs acc)
  have nc: "cdata_of c = None" using 6 by (cases c) auto
  let ?path = "path @ [node_name c]"
  show ?case
  proof (cases "node_to_dict ?path reps False c")
    case None
    then have "children_to_dict path reps enc (c # cs) acc = children_to_dict path reps enc cs acc"
      using nc by simp
    moreover have "answers c = []" using "6.IH"(1) "6.prems"(1) None nc by simp
    moreover have "case children_to_dict path reps enc cs acc of
        None \<Rightarrow> acc = [] \<and> concat (map answers cs) = []
      | Some v \<Rightarrow> mset (leaves v) = mset (dict_leaves acc) + mset (concat (map answers cs)) \<and> tree_ok v"
      using "6.IH"(2) "6.prems" None nc by simp
    ultimately show ?thesis by (simp split: option.splits)
  next
    case (Some v)
    then obtain n as ds where c: "c = Elem n as ds" by (cases c) auto
    let ?l = "join ''/'' ?path \<in> set reps \<or> enc \<and> node_name c = ''media''"
    let ?acc = "add_child ?l (node_name c) v acc"
    have eq: "children_to_dict path reps enc (c # cs) acc = children_to_dict path reps enc cs ?acc"
      using Some nc by (simp add: Let_def)
    have v: "mset (leaves v) = mset (answers c)" "tree_ok v"
      using "6.IH"(1) "6.prems"(1) Some nc by simp_all
    have "tree_ok (PDict ?acc)"
      by (rule add_child_ok) (use "6.prems" v c in auto)
    then have "case children_to_dict path reps enc cs ?acc of
        None \<Rightarrow> ?acc = [] \<and> concat (map answers cs) = []
      | Some w \<Rightarrow> mset (leaves w) = mset (dict_leaves ?acc) + mset (concat (map answers cs)) \<and> tree_ok w"
      using "6.IH"(3) Some nc "6.prems"(1) by simp
    then show ?thesis
      unfolding eq
      using v add_child_neq_Nil [of ?l "node_name c" v acc]
        add_child_leaves [of ?l "node_name c" v acc]
      by (auto simp: ac_simps split: option.splits)
  qed
qed auto

section \<open>Flattening loses nothing\<close>

definition slash_free :: "string list \<Rightarrow> bool" where
  "slash_free ns \<longleftrightarrow> (\<forall>n \<in> set ns. CHR ''/'' \<notin> set n)"

lemma slash_free_simps [simp]:
  "slash_free []" "slash_free (n # ns) \<longleftrightarrow> CHR ''/'' \<notin> set n \<and> slash_free ns"
  "slash_free (xs @ ys) \<longleftrightarrow> slash_free xs \<and> slash_free ys"
  by (auto simp: slash_free_def)

lemma split_join_slash: "xs \<noteq> [] \<Longrightarrow> slash_free xs \<Longrightarrow> split_on (CHR ''/'') (join ''/'' xs) = xs"
  unfolding slash_free_def by (rule split_join)

lemma join_slash_inj:
  assumes "xs \<noteq> []" "ys \<noteq> []" "slash_free xs" "slash_free ys" "join ''/'' xs = join ''/'' ys"
  shows "xs = ys"
proof -
  have "xs = split_on (CHR ''/'') (join ''/'' xs)" by (rule split_join_slash [OF assms(1,3), symmetric])
  also have "\<dots> = split_on (CHR ''/'') (join ''/'' ys)" by (rule arg_cong [OF assms(5)])
  also have "\<dots> = ys" by (rule split_join_slash [OF assms(2,4)])
  finally show ?thesis .
qed

text \<open>Below a prefix, the paths of a dictionary tree extend it by a key and are distinct.\<close>

lemma flatten_nest_paths:
  "tree_ok (PDict d) \<Longrightarrow> (q, v) \<in> set (flatten_nest d pre) \<Longrightarrow>
     \<exists>k s. q = pre @ k # s \<and> k \<in> fst ` set d \<and> slash_free (k # s)"
  "xs = (xs :: pyval list)"
proof (induction d pre and xs pre rule: flatten_nest_nest_items.induct)
  case (2 k w d pre)
  show ?case
  proof (cases "(q, v) \<in> set (flatten_nest d pre)")
    case True
    moreover have "tree_ok (PDict d)" using "2.prems"(1) by simp
    ultimately obtain k' s where "q = pre @ k' # s" "k' \<in> fst ` set d" "slash_free (k' # s)"
      using "2.IH" by blast
    then show ?thesis by (intro exI [of _ k'] exI [of _ s]) simp
  next
    case False
    have k: "CHR ''/'' \<notin> set k" using "2.prems" by simp
    show ?thesis
    proof (cases w)
      case (PDict e)
      then have "(q, v) \<in> set (flatten_nest e (pre @ [k]))" "tree_ok (PDict e)"
        using "2.prems" False by auto
      with "2.IH" PDict obtain k' s where "q = (pre @ [k]) @ k' # s" "slash_free (k' # s)"
        by blast
      with k show ?thesis by (intro exI [of _ k] exI [of _ "k' # s"]) simp
    qed (use "2.prems" False k in auto)
  qed
qed auto

lemma distinct_prefix_head:
  "(\<And>q v. (q, v) \<in> set A \<Longrightarrow> \<exists>s. q = pre @ k # s) \<Longrightarrow>
   (\<And>q v. (q, v) \<in> set B \<Longrightarrow> \<exists>k' s. q = pre @ k' # s \<and> k' \<in> K) \<Longrightarrow> k \<notin> K \<Longrightarrow>
   distinct (map fst A) \<Longrightarrow> distinct (map fst B) \<Longrightarrow> distinct (map fst (A @ B))"
  by (fastforce simp: disjoint_iff)

lemma flatten_nest_distinct:
  "tree_ok (PDict d) \<Longrightarrow> distinct (map fst (flatten_nest d pre))"
  "xs = (xs :: pyval list)"
proof (induction d pre and xs pre rule: flatten_nest_nest_items.induct)
  case (2 k w d pre)
  let ?A = "case w of PDict e \<Rightarrow> flatten_nest e (pre @ [k])
      | PList xs \<Rightarrow> [(pre @ [k], PList (nest_items xs (pre @ [k])))] | _ \<Rightarrow> [(pre @ [k], w)]"
  have ok: "tree_ok (PDict d)" "k \<notin> fst ` set d" "tree_ok w" using "2.prems" by auto
  have A: "\<exists>s. q = pre @ k # s" if "(q, v) \<in> set ?A" for q v
  proof (cases w)
    case (PDict e)
    with that have "(q, v) \<in> set (flatten_nest e (pre @ [k]))" by simp
    from flatten_nest_paths(1) [OF _ this] ok(3) PDict show ?thesis by auto
  qed (use that in auto)
  have B: "\<exists>k' s. q = pre @ k' # s \<and> k' \<in> fst ` set d" if "(q, v) \<in> set (flatten_nest d pre)" for q v
    using flatten_nest_paths(1) [OF ok(1) that] by blast
  have "distinct (map fst ?A)"
    using "2.IH" ok(3) by (cases w) auto
  then have "distinct (map fst (?A @ flatten_nest d pre))"
    using "2.IH" ok(1) by (intro distinct_prefix_head [where k = k and pre = pre, OF A B ok(2)]) auto
  then show ?case by (simp only: flatten_nest.simps)
qed auto

lemma dict_update_distinct: "distinct (map fst (d @ es)) \<Longrightarrow> dict_update d es = d @ es"
proof (induction es arbitrary: d)
  case Nil
  then show ?case by (simp add: dict_update_def)
next
  case (Cons e es)
  obtain k v where e: "e = (k, v)" by (cases e)
  then have "AList.update k v d = d @ [(k, v)]"
    using Cons.prems by (intro dict_put_new) auto
  moreover have "distinct (map fst ((d @ [(k, v)]) @ es))" using Cons.prems e by simp
  ultimately show ?case
    using Cons.IH [of "d @ [(k, v)]"] e by (simp add: dict_update_def)
qed

text \<open>Joining the paths of a dictionary tree below a non-empty prefix gives distinct keys.\<close>

lemma joined_keys_distinct:
  assumes "tree_ok (PDict d)" "pre \<noteq> []" "slash_free (tl pre)"
  shows "dict_update [] (map (\<lambda>(path, r). (join ''/'' (tl path), r)) (flatten_nest d pre))
    = map (\<lambda>(path, r). (join ''/'' (tl path), r)) (flatten_nest d pre)"
proof -
  have "inj_on (\<lambda>q. join ''/'' (tl q)) (set (map fst (flatten_nest d pre)))"
  proof (rule inj_onI)
    fix q q' assume q: "q \<in> set (map fst (flatten_nest d pre))" "q' \<in> set (map fst (flatten_nest d pre))"
      and eq: "join ''/'' (tl q) = join ''/'' (tl q')"
    have "\<exists>s. q = pre @ s \<and> s \<noteq> [] \<and> slash_free s" if "q \<in> set (map fst (flatten_nest d pre))" for q
      using that flatten_nest_paths(1) [OF assms(1)] by fastforce
    with q obtain s s' where s: "q = pre @ s" "s \<noteq> []" "slash_free s"
        "q' = pre @ s'" "s' \<noteq> []" "slash_free s'" by metis
    with assms(2,3) eq have "tl q = tl q'" by (intro join_slash_inj) auto
    with s assms(2) show "q = q'" by simp
  qed
  with flatten_nest_distinct(1) [OF assms(1), of pre]
  have "distinct (map (\<lambda>q. join ''/'' (tl q)) (map fst (flatten_nest d pre)))"
    by (subst distinct_map) simp
  moreover have "fst \<circ> (\<lambda>(path, r :: pyval). (join ''/'' (tl path), r)) = (\<lambda>q. join ''/'' (tl q)) \<circ> fst"
    by auto
  ultimately have "distinct (map fst ([] @ map (\<lambda>(path, r). (join ''/'' (tl path), r)) (flatten_nest d pre)))"
    by (simp only: append_Nil map_map)
  from dict_update_distinct [OF this] show ?thesis by simp
qed

lemma flatten_nest_leaves:
  "tree_ok (PDict d) \<Longrightarrow> slash_free (tl pre) \<Longrightarrow>
     mset (concat (map (\<lambda>(q, v). leaves v) (flatten_nest d pre))) = mset (dict_leaves d)"
  "(\<forall>x \<in> set xs. tree_ok x) \<Longrightarrow> pre \<noteq> [] \<Longrightarrow> slash_free (tl pre) \<Longrightarrow>
     mset (concat (map leaves (nest_items xs pre))) = mset (concat (map leaves xs))"
proof (induction d pre and xs pre rule: flatten_nest_nest_items.induct)
  case (2 k w d pre)
  have sf: "slash_free (tl (pre @ [k]))" using "2.prems" by (cases pre) auto
  have IH: "mset (concat (map (\<lambda>(q, v). leaves v) (flatten_nest d pre))) = mset (dict_leaves d)"
    using 2 by (cases w) auto
  show ?case
  proof (cases w)
    case (PDict e)
    with "2.IH" "2.prems" sf IH show ?thesis by simp
  next
    case (PList xs)
    with "2.IH" "2.prems" sf IH show ?thesis by simp
  qed (use IH in simp_all)
next
  case (4 x xs pre)
  have IH: "mset (concat (map leaves (nest_items xs pre))) = mset (concat (map leaves xs))"
    using 4 by (cases x) auto
  show ?case
  proof (cases x)
    case (PDict e)
    have "concat (map (\<lambda>(k, v). leaves v) (map (\<lambda>(path, r). (join ''/'' (tl path), r)) (flatten_nest e pre)))
        = concat (map (\<lambda>(q, v). leaves v) (flatten_nest e pre))"
      by (rule arg_cong [where f = concat]) auto
    moreover have "mset (concat (map (\<lambda>(q, v). leaves v) (flatten_nest e pre))) = mset (dict_leaves e)"
      using "4.IH" "4.prems" PDict by simp
    ultimately show ?thesis
      using "4.prems" PDict IH joined_keys_distinct [of e pre] by simp
  qed (use IH in simp_all)
qed auto

section \<open>The shape of the dictionaries\<close>

text \<open>The values of a nested dictionary (a list never holds a list) and of a flat record.\<close>

fun raw_ok :: "bool \<Rightarrow> pyval \<Rightarrow> bool" where
  "raw_ok l (PStr s) = True"
| "raw_ok l (PDict d) = (\<forall>(k, v) \<in> set d. raw_ok True v)"
| "raw_ok l (PList xs) = (l \<and> (\<forall>x \<in> set xs. raw_ok False x))"
| "raw_ok l _ = False"

fun flat_ok :: "pyval \<Rightarrow> bool" where
  "flat_ok (PStr s) = True"
| "flat_ok (PList xs) = (\<forall>x \<in> set xs. is_dict x \<and> flat_ok x)"
| "flat_ok (PDict d) = (\<forall>(k, v) \<in> set d. (is_str v \<or> is_list v) \<and> flat_ok v)"
| "flat_ok _ = False"

lemma set_update_subset: "set (AList.update k v d) \<subseteq> insert (k, v) (set d)"
  by (induction d) auto

lemma set_dict_update_subset: "set (dict_update d es) \<subseteq> set d \<union> set es"
proof (induction es arbitrary: d)
  case Nil
  then show ?case by (simp add: dict_update_def)
next
  case (Cons e es)
  obtain k v where e: "e = (k, v)" by (cases e)
  have "dict_update d (e # es) = dict_update (AList.update k v d) es"
    by (simp add: dict_update_def e)
  then show ?case
    using Cons.IH [of "AList.update k v d"] set_update_subset [of k v d] e by auto
qed

lemma raw_ok_mono: "raw_ok False v \<Longrightarrow> raw_ok True v"
  by (cases v) auto

lemma raw_ok_list: "raw_ok True (PList xs) \<longleftrightarrow> (\<forall>x \<in> set xs. raw_ok False x)"
  by simp

lemma raw_ok_single: "raw_ok True w \<Longrightarrow> \<not> is_list w \<Longrightarrow> raw_ok False w"
  by (cases w) auto

lemma add_child_raw_ok:
  assumes "raw_ok False (PDict acc)" "raw_ok False v"
  shows "raw_ok False (PDict (add_child l n v acc))"
proof -
  have upd: "raw_ok False (PDict (AList.update n w acc))" if "raw_ok True w" for w
    using assms(1) that set_update_subset [of n w acc] by auto
  show ?thesis
  proof (cases "map_of acc n")
    case None
    then show ?thesis
      using upd [of "if l then PList [v] else v"] assms(2) raw_ok_mono by (simp add: add_child_def)
  next
    case (Some w)
    then have w: "raw_ok True w" using assms(1) map_of_SomeD [OF Some] by auto
    have "raw_ok True (case w of PList xs \<Rightarrow> PList (xs @ [v]) | _ \<Rightarrow> PList [w, v])"
      using w assms(2) by (cases w) auto
    from upd [OF this] Some show ?thesis by (cases w) (simp_all add: add_child_def)
  qed
qed

lemma node_to_dict_raw_ok:
  "node_to_dict path reps enc x = Some v \<Longrightarrow> raw_ok False v"
  "raw_ok False (PDict acc) \<Longrightarrow> children_to_dict path reps enc cs acc = Some w \<Longrightarrow> raw_ok False w"
proof (induction path reps enc x and path reps enc cs acc arbitrary: v and w
    rule: node_to_dict_children_to_dict.induct)
  case (6 path reps enc c cs acc)
  show ?case
  proof (cases "cdata_of c")
    case None
    let ?path = "path @ [node_name c]"
    show ?thesis
    proof (cases "node_to_dict ?path reps False c")
      case (Some v)
      then have "raw_ok False v" using "6.IH"(1) None by simp
      from add_child_raw_ok [OF "6.prems"(1) this] "6.IH"(3) "6.prems"(2) None Some
      show ?thesis by (simp add: Let_def)
    qed (use 6 None in simp)
  qed (use 6 in auto)
qed (auto split: if_splits option.splits)

lemma node_to_dict_not_list: "node_to_dict path reps enc x = Some v \<Longrightarrow> is_str v \<or> is_dict v"
  using node_to_dict_raw_ok(1) [of path reps enc x v] by (cases v) auto

lemma flatten_nest_flat_ok:
  "raw_ok False (PDict d) \<Longrightarrow> (q, v) \<in> set (flatten_nest d pre) \<Longrightarrow> (is_str v \<or> is_list v) \<and> flat_ok v"
  "(\<forall>x \<in> set xs. raw_ok False x) \<Longrightarrow> y \<in> set (nest_items xs pre) \<Longrightarrow> is_dict y \<and> flat_ok y"
proof (induction d pre and xs pre arbitrary: q v and y rule: flatten_nest_nest_items.induct)
  case (2 k w d pre)
  have w: "raw_ok True w" using "2.prems" by simp
  show ?case
  proof (cases "(q, v) \<in> set (flatten_nest d pre)")
    case True
    with 2 show ?thesis by simp
  next
    case False
    show ?thesis
    proof (cases w)
      case (PDict e)
      with 2 False w show ?thesis by simp
    next
      case (PList xs)
      then have v: "v = PList (nest_items xs (pre @ [k]))" using "2.prems" False by simp
      have "\<forall>x \<in> set xs. raw_ok False x" using w PList by simp
      with "2.IH" PList have "\<And>y. y \<in> set (nest_items xs (pre @ [k])) \<Longrightarrow> is_dict y \<and> flat_ok y" by blast
      with v show ?thesis by simp
    qed (use "2.prems" w False in simp_all)
  qed
next
  case (4 x xs pre)
  show ?case
  proof (cases "y \<in> set (nest_items xs pre)")
    case True
    with 4 show ?thesis by simp
  next
    case False
    show ?thesis
    proof (cases x)
      case (PDict e)
      let ?es = "map (\<lambda>(path, r). (join ''/'' (tl path), r)) (flatten_nest e pre)"
      have y: "y = PDict (dict_update [] ?es)" using "4.prems" False PDict by simp
      have "(is_str v \<or> is_list v) \<and> flat_ok v" if "(q, v) \<in> set (flatten_nest e pre)" for q v
        using "4.IH" "4.prems"(1) PDict that by simp
      then show ?thesis using y set_dict_update_subset [of "[]" ?es] by fastforce
    qed (use "4.prems" False in auto)
  qed
qed auto

section \<open>Properties of the parser\<close>

lemma parse_instance_cases:
  assumes "parse_instance parse repeats encrypted s = Inr p"
  obtains doc root v where "parse (clean_tags (strip s)) = Some doc" "document_element doc = Some root"
    "node_to_dict [] repeats encrypted root = Some v" "p_dict p = [(node_name root, v)]"
    "p_flat p = flat_dict [(node_name root, v)]" "p_attributes p = set_attributes root"
  using assms
  by (auto simp: parse_instance_def clean_and_parse_xml_def xml_node_to_dict_def split: option.splits)

lemma flat_dict_leaves:
  assumes "tree_ok v" "is_str v \<or> is_dict v"
  shows "mset (dict_leaves (flat_dict [(n, v)])) = mset (leaves v)"
proof (cases v)
  case (PDict e)
  let ?es = "map (\<lambda>(path, r). (join ''/'' (tl path), r)) (flatten_nest e [n])"
  have "flat_dict [(n, v)] = ?es"
    using joined_keys_distinct [of e "[n]"] assms(1) PDict by (simp add: flat_dict_def)
  moreover have "dict_leaves ?es = concat (map (\<lambda>(q, r). leaves r) (flatten_nest e [n]))"
    by (rule arg_cong [where f = concat]) auto
  moreover have "mset (concat (map (\<lambda>(q, r). leaves r) (flatten_nest e [n]))) = mset (dict_leaves e)"
    using flatten_nest_leaves(1) [of e "[n]"] assms(1) PDict by simp
  ultimately show ?thesis using PDict by simp
qed (use assms in \<open>simp_all add: flat_dict_def dict_update_def\<close>)

lemma add_attribute_get:
  "map_of (if n = ''entity'' then d else if k' \<in> fst ` set d then d else AList.update k' v d) k =
     (case map_of d k of Some w \<Rightarrow> Some w | None \<Rightarrow> if n \<noteq> ''entity'' \<and> k' = k then Some v else None)"
  using map_of_eq_None_iff [of d k'] by (auto split: option.splits)

lemma set_attributes_get:
  "map_of (set_attributes root) k =
     map_of (map (\<lambda>(k, v, n). (k, v)) (filter (\<lambda>(k, v, n). n \<noteq> ''entity'') (all_attributes root))) k"
proof -
  have "map_of (fold (\<lambda>(k, v, n) d. if n = ''entity'' then d
             else if k \<in> fst ` set d then d else AList.update k v d) as d) k
      = (case map_of d k of Some v \<Rightarrow> Some v
         | None \<Rightarrow> map_of (map (\<lambda>(k, v, n). (k, v)) (filter (\<lambda>(k, v, n). n \<noteq> ''entity'') as)) k)"
    for as :: "(string \<times> string \<times> string) list" and d
  proof (induction as arbitrary: d)
    case (Cons e as)
    obtain k' v n where "e = (k', v, n)" by (cases e)
    then show ?case
      by (simp add: Cons.IH add_attribute_get split: option.splits if_splits del: if_image_distrib)
  qed (simp split: option.splits)
  then show ?thesis by (simp add: set_attributes_def)
qed

definition sample_doc :: xml where
  "sample_doc = Elem ''data'' [(''id'', ''f1'')]
     [Elem ''name'' [(''id'', ''other'')] [Text ''ann''],
      Elem ''kids'' [] [Elem ''age'' [] [Text ''4''], Comment ''c''],
      Elem ''kids'' [] [Elem ''age'' [] [Text ''7'']],
      Elem ''empty'' [] []]"



text \<open>C15: The flat record of a parsed submission is well typed: its keys are distinct, and each
  value is a text or a list of records of the same kind (the instances of a repeat), never a
  bare dictionary or a list of lists.\<close>

theorem flat_record_type:
  assumes "parse_instance parse repeats encrypted s = Inr p"
  shows "dict_ok (p_flat p) \<and> flat_ok (PDict (p_flat p))"
  using assms
proof (rule parse_instance_cases)
  fix doc root v
  assume v: "node_to_dict [] repeats encrypted root = Some v" "p_flat p = flat_dict [(node_name root, v)]"
  let ?es = "map (\<lambda>(path, v). (join ''/'' (tl path), v)) (flatten_nest [(node_name root, v)] [])"
  have "raw_ok False (PDict [(node_name root, v)])"
    using node_to_dict_raw_ok(1) [OF v(1)] raw_ok_mono by simp
  from flatten_nest_flat_ok(1) [OF this]
  have "flat_ok (PDict ?es)" by auto
  with set_dict_update_subset [of "[]" ?es] have "flat_ok (PDict (dict_update [] ?es))" by auto
  then show ?thesis using v(2) by (simp add: flat_dict_def dict_ok_update [OF ad.ok_empty])
qed

theorem flat_record_type_witness:
  "dict_ok (p_flat (projr (parse_instance (\<lambda>_. Some [sample_doc]) [] True ''<data/>''))) \<and>
   flat_ok (PDict (p_flat (projr (parse_instance (\<lambda>_. Some [sample_doc]) [] True ''<data/>''))))"
proof -
  have "isl (parse_instance (\<lambda>_. Some [sample_doc]) [] True ''<data/>'') = False"
    by code_simp
  then have "parse_instance (\<lambda>_. Some [sample_doc]) [] True ''<data/>'' =
      Inr (projr (parse_instance (\<lambda>_. Some [sample_doc]) [] True ''<data/>''))"
    by (cases "parse_instance (\<lambda>_. Some [sample_doc]) [] True ''<data/>''") simp_all
  from flat_record_type [OF this] show ?thesis .
qed

text \<open>C16: The attributes of a submission are read from its root first: a value the root gives for
  an attribute, such as the form's id and version, is not overridden by an attribute of the
  same name deeper in the document.\<close>

theorem root_attributes_win:
  assumes "parse_instance parse repeats encrypted s = Inr p"
    and "parse (clean_tags (strip s)) = Some [Elem n as cs]" "n \<noteq> ''entity''"
    and "map_of as k = Some v"
  shows "map_of (p_attributes p) k = Some v \<and> (k = ''id'' \<longrightarrow> get_xform_id_string p = Inr v)"
proof -
  have p: "p_attributes p = set_attributes (Elem n as cs)"
    using assms(1)
  proof (rule parse_instance_cases)
    fix doc root
    assume "parse (clean_tags (strip s)) = Some doc" "document_element doc = Some root"
      "p_attributes p = set_attributes root"
    with assms(2) show ?thesis by (simp add: document_element_def)
  qed
  have "map_of (map (\<lambda>(k, v, n). (k, v)) (filter (\<lambda>(k, v, n). n \<noteq> ''entity'') (map (\<lambda>(k, v). (k, v, n)) as))) = map_of as"
    using assms(3) by (simp add: filter_map comp_def case_prod_beta)
  then have "map_of (p_attributes p) k = Some v"
    using assms(4) unfolding p set_attributes_get by (simp add: map_add_Some_iff)
  then show ?thesis by (auto simp: get_xform_id_string_def)
qed

theorem root_attributes_win_witness:
  "get_xform_id_string (projr (parse_instance (\<lambda>_. Some [sample_doc]) [] False ''<data/>'')) = Inr ''f1''"
proof -
  let ?p = "parse_instance (\<lambda>_. Some [sample_doc]) [] False ''<data/>''"
  have "isl ?p = False" by code_simp
  then have "?p = Inr (projr ?p)" by (cases ?p) simp_all
  from root_attributes_win [OF this, of "''data''" "[(''id'', ''f1'')]" "child_nodes sample_doc" "''id''" "''f1''"]
  show ?thesis by (simp add: sample_doc_def)
qed

end
