(* ===== verification/Dict_Tools.thy ===== *)
theory Dict_Tools
  imports Onadata_Prelude
begin

text \<open>
  Helpers on nested dictionaries, \<open>onadata/libs/utils/dict_tools.py\<close>.  A result of
  type \<open>tools_error + 'a\<close> is \<open>Inl\<close> where the Python code raises.  A generator
  is the list of what it yields; all callers consume it.
\<close>

datatype tools_error = No_Attribute | Wrong_Type | No_Index | No_Key string | Bad_Value

definition append_result :: "'e + 'a list \<Rightarrow> 'e + 'a list \<Rightarrow> 'e + 'a list" where
  "append_result r s = (case r of Inl e \<Rightarrow> Inl e | Inr xs \<Rightarrow> (case s of Inl e \<Rightarrow> Inl e | Inr ys \<Rightarrow> Inr (xs @ ys)))"

lemma append_result_Inr [simp]:
  "append_result r s = Inr zs \<longleftrightarrow> (\<exists>xs ys. r = Inr xs \<and> s = Inr ys \<and> zs = xs @ ys)"
  by (auto simp: append_result_def split: sum.splits)

section \<open>Values matching a key\<close>

definition own_value :: "string \<Rightarrow> (string, pyval) dict \<Rightarrow> pyval list" where
  "own_value key d = (case map_of d key of Some v \<Rightarrow> [v] | None \<Rightarrow> [])"

text \<open>A list inside a list has no \<open>items\<close>; a key found in it is used as its index.\<close>

fun items_values :: "string \<Rightarrow> (string \<times> pyval) list \<Rightarrow> tools_error + pyval list"
  and list_values :: "string \<Rightarrow> pyval list \<Rightarrow> tools_error + pyval list" where
  "items_values key [] = Inr []"
| "items_values key ((k, v) # d) =
     append_result
       (case v of
          PDict e \<Rightarrow> append_result (Inr (own_value key e)) (items_values key e)
        | PList xs \<Rightarrow> list_values key xs
        | _ \<Rightarrow> Inr [])
       (items_values key d)"
| "list_values key [] = Inr []"
| "list_values key (x # xs) =
     append_result
       (case x of
          PDict e \<Rightarrow> append_result (Inr (own_value key e)) (items_values key e)
        | PList ys \<Rightarrow> Inl (if PStr key \<in> set ys then Wrong_Type else No_Attribute)
        | _ \<Rightarrow> Inr (if x = PStr key then [x] else []))
       (list_values key xs)"

definition get_values_matching_key :: "(string, pyval) dict \<Rightarrow> string \<Rightarrow> tools_error + pyval list" where
  "get_values_matching_key doc key = append_result (Inr (own_value key doc)) (items_values key doc)"

section \<open>Nested dictionaries from paths\<close>

text \<open>\<open>list_to_dict\<close>: \<open>items.pop()\<close> takes the last name.\<close>

function list_to_dict :: "string list \<Rightarrow> pyval \<Rightarrow> tools_error + (string, pyval) dict" where
  "list_to_dict names v =
     (if names = [] then Inl No_Index
      else let key = last names; rest = butlast names;
               d = [(key, if 0 < find_char CHR ''['' key then PList [v] else v)]
           in if rest = [] then Inr d else list_to_dict rest (PDict d))"
  by pat_completeness auto
termination by (relation "measure (\<lambda>(names, v). length names)") auto

declare list_to_dict.simps [simp del]

fun wrap_parts :: "string list \<Rightarrow> pyval \<Rightarrow> pyval" where
  "wrap_parts [] v = v"
| "wrap_parts (p # ps) v = wrap_parts ps (PDict [(p, v)])"

definition dict_paths2dict :: "(string, pyval) dict \<Rightarrow> (string, pyval) dict" where
  "dict_paths2dict d =
     fold (\<lambda>(key, v) result.
             if 0 < find_char CHR ''/'' key
             then let parts = split_on CHR ''/'' key
                  in if 1 < length parts then AList.update (hd parts) (wrap_parts (tl parts) v) result
                     else AList.update key v result
             else AList.update key v result) d []"

fun str_of :: "pyval \<Rightarrow> string" where
  "str_of (PStr s) = s"
| "str_of _ = []"

fun dict_lists2strings :: "(string \<times> pyval) list \<Rightarrow> (string \<times> pyval) list" where
  "dict_lists2strings [] = []"
| "dict_lists2strings ((k, v) # d) =
     (k, case v of
           PList xs \<Rightarrow> if list_all is_str xs then PStr (join '' '' (map str_of xs)) else v
         | PDict e \<Rightarrow> PDict (dict_lists2strings e)
         | _ \<Rightarrow> v) # dict_lists2strings d"

text \<open>
  \<open>remove_indices_from_dict\<close>.  Keys that meet once their indices are removed are merged
  with \<open>extend\<close>: a list takes a list, the keys of a dictionary or the characters of a
  string; any other value raises.
\<close>

definition strip_index :: "string \<Rightarrow> string" where
  "strip_index key = (if - 1 < find_char CHR ''['' key then takeWhile (\<lambda>c. c \<noteq> CHR ''['') key else key)"

definition iter_values :: "pyval \<Rightarrow> tools_error + pyval list" where
  "iter_values v =
     (case v of
        PList xs \<Rightarrow> Inr xs
      | PStr s \<Rightarrow> Inr (map (\<lambda>c. PStr [c]) s)
      | PDict d \<Rightarrow> Inr (map (\<lambda>(k, v). PStr k) d)
      | _ \<Rightarrow> Inl Wrong_Type)"

definition extend_key ::
    "string \<Rightarrow> pyval \<Rightarrow> (string, pyval) dict \<Rightarrow> tools_error + (string, pyval) dict" where
  "extend_key key v result =
     (case map_of result key of
        None \<Rightarrow> Inr (AList.update key v result)
      | Some (PList xs) \<Rightarrow>
          (case iter_values v of Inl e \<Rightarrow> Inl e | Inr ys \<Rightarrow> Inr (AList.update key (PList (xs @ ys)) result))
      | Some w \<Rightarrow> Inl No_Attribute)"

fun remove_indices :: "(string \<times> pyval) list \<Rightarrow> (string, pyval) dict \<Rightarrow> tools_error + (string, pyval) dict"
  and remove_rows :: "pyval list \<Rightarrow> tools_error + pyval list" where
  "remove_indices [] result = Inr result"
| "remove_indices ((k, v) # d) result =
     (case (case v of
              PDict e \<Rightarrow> map_sum id PDict (remove_indices e [])
            | PList xs \<Rightarrow> map_sum id PList (remove_rows xs)
            | _ \<Rightarrow> Inr v) of
        Inl e \<Rightarrow> Inl e
      | Inr w \<Rightarrow>
          (case extend_key (strip_index k) w result of
             Inl e \<Rightarrow> Inl e | Inr r \<Rightarrow> remove_indices d r))"
| "remove_rows [] = Inr []"
| "remove_rows (x # xs) =
     append_result
       (case x of PDict e \<Rightarrow> map_sum id (\<lambda>d. [PDict d]) (remove_indices e []) | _ \<Rightarrow> Inr [x])
       (remove_rows xs)"

definition remove_indices_from_dict :: "pyval \<Rightarrow> tools_error + (string, pyval) dict" where
  "remove_indices_from_dict obj = (case obj of PDict d \<Rightarrow> remove_indices d [] | _ \<Rightarrow> Inl Bad_Value)"

section \<open>Other services' payloads\<close>

text \<open>\<open>query_list_to_dict\<close> after \<open>json.loads\<close>.\<close>

fun query_list_to_dict :: "(string, pyval) dict list \<Rightarrow> (pyval, pyval) dict \<Rightarrow> tools_error + (pyval, pyval) dict" where
  "query_list_to_dict [] acc = Inr acc"
| "query_list_to_dict (v # vs) acc =
     (case (map_of v ''label'', map_of v ''text'') of
        (_, None) \<Rightarrow> Inl (No_Key ''text'')
      | (None, Some t) \<Rightarrow> Inl (No_Key ''label'')
      | (Some l, Some t) \<Rightarrow>
          if is_list l \<or> is_dict l then Inl Wrong_Type else query_list_to_dict vs (AList.update l t acc))"

fun fifth_values :: "'a list list \<Rightarrow> tools_error + 'a list" where
  "fifth_values [] = Inr []"
| "fifth_values (r # rs) =
     (if length r \<le> 4 then Inl No_Index else append_result (Inr [r ! 4]) (fifth_values rs))"

definition floip_response_headers_dict ::
    "'a list list \<Rightarrow> string list \<Rightarrow> tools_error + (string, 'a) dict" where
  "floip_response_headers_dict data headers =
     (case fifth_values data of
        Inl e \<Rightarrow> Inl e
      | Inr vs \<Rightarrow> Inr (dict_update [] (zip (map (\<lambda>h. last (split_on CHR ''/'' h)) headers) vs)))"

section \<open>Specifications\<close>

text \<open>\<open>occurs key v w\<close>: the value \<open>v\<close> stands at \<open>key\<close> somewhere in \<open>w\<close>.\<close>

inductive occurs :: "string \<Rightarrow> pyval \<Rightarrow> pyval \<Rightarrow> bool" where
  at_key: "map_of d key = Some v \<Longrightarrow> occurs key v (PDict d)"
| below_key: "(k, w) \<in> set d \<Longrightarrow> occurs key v w \<Longrightarrow> occurs key v (PDict d)"
| in_list: "x \<in> set xs \<Longrightarrow> occurs key v x \<Longrightarrow> occurs key v (PList xs)"
| as_item: "PStr key \<in> set xs \<Longrightarrow> occurs key (PStr key) (PList xs)"

inductive_simps occurs_dict: "occurs key v (PDict d)"
inductive_simps occurs_list: "occurs key v (PList xs)"
inductive_simps occurs_leaf [simp]:
  "occurs key v PNone" "occurs key v (PBool b)" "occurs key v (PInt i)" "occurs key v (PStr s)"

text \<open>No list is an item of a list.\<close>

fun lists_plain :: "pyval \<Rightarrow> bool" where
  "lists_plain (PDict d) = (\<forall>(k, v) \<in> set d. lists_plain v)"
| "lists_plain (PList xs) = (\<forall>x \<in> set xs. \<not> is_list x \<and> lists_plain x)"
| "lists_plain _ = True"

lemma occurs_list_simps [simp]:
  "\<not> occurs key v (PList [])"
  "occurs key v (PList (x # xs)) \<longleftrightarrow> occurs key v x \<or> x = PStr key \<and> v = x \<or> occurs key v (PList xs)"
  unfolding occurs_list by auto

lemma set_own_value: "set (own_value key d) = {v. map_of d key = Some v}"
  by (auto simp: own_value_def split: option.splits)

lemma occurs_dict_set:
  "{v. occurs key v (PDict d)} = set (own_value key d) \<union> {v. \<exists>(k, w) \<in> set d. occurs key v w}"
  by (auto simp: occurs_dict set_own_value)

lemma values_spec:
  "case items_values key d of
     Inl e \<Rightarrow> \<not> lists_plain (PDict d)
   | Inr vs \<Rightarrow> lists_plain (PDict d) \<and> set vs = {v. \<exists>(k, w) \<in> set d. occurs key v w}"
  "case list_values key xs of
     Inl e \<Rightarrow> \<not> lists_plain (PList xs)
   | Inr vs \<Rightarrow> lists_plain (PList xs) \<and> set vs = {v. occurs key v (PList xs)}"
proof (induction key d and key xs rule: items_values_list_values.induct)
  case (2 key k v d)
  show ?case
  proof (cases v)
    case (PDict e)
    with 2 show ?thesis
      by (auto simp: append_result_def occurs_dict set_own_value split: sum.splits)
  next
    case (PList xs)
    with 2 show ?thesis by (auto simp: append_result_def split: sum.splits)
  qed (use 2 in \<open>auto simp: append_result_def split: sum.splits\<close>)
next
  case (4 key x xs)
  show ?case
  proof (cases x)
    case (PDict e)
    with 4 show ?thesis
      by (auto simp: append_result_def occurs_dict set_own_value split: sum.splits)
  qed (use 4 in \<open>auto simp: append_result_def split: sum.splits\<close>)
qed auto

text \<open>C17: \<open>get_values_matching_key\<close> raises exactly on documents in which a list is an item of
  a list; on every other document it yields exactly the values that stand at the key at some
  depth, inside repeats too.\<close>

theorem get_values_spec:
  "case get_values_matching_key doc key of
     Inl e \<Rightarrow> \<not> lists_plain (PDict doc)
   | Inr vs \<Rightarrow> lists_plain (PDict doc) \<and> set vs = {v. occurs key v (PDict doc)}"
  using values_spec(1) [where key = key and d = doc]
  by (auto simp: get_values_matching_key_def append_result_def occurs_dict set_own_value split: sum.splits)

fun nest :: "string list \<Rightarrow> pyval \<Rightarrow> pyval" where
  "nest [] v = v"
| "nest (p # ps) v = PDict [(p, nest ps v)]"

lemma wrap_parts_nest: "wrap_parts ps v = nest (rev ps) v"
proof -
  have "nest (xs @ ys) v = nest xs (nest ys v)" for xs ys v by (induction xs) auto
  then show ?thesis by (induction ps arbitrary: v) auto
qed

lemma list_to_dict_nest:
  "names \<noteq> [] \<Longrightarrow> \<forall>n \<in> set names. \<not> 0 < find_char CHR ''['' n \<Longrightarrow>
     map_sum id PDict (list_to_dict names v) = Inr (nest names v)"
proof (induction names arbitrary: v rule: rev_induct)
  case (snoc n ns)
  have app: "nest (xs @ ys) v = nest xs (nest ys v)" for xs ys v by (induction xs) auto
  show ?case
  proof (cases "ns = []")
    case True
    with snoc.prems show ?thesis by (simp add: list_to_dict.simps [of "[n]"])
  next
    case False
    with snoc show ?thesis by (simp add: list_to_dict.simps [of "ns @ [n]"] Let_def app)
  qed
qed simp

text \<open>The two routines that turn a path into nested dictionaries disagree:
  \<open>list_to_dict\<close> nests the names of a path in their order, \<open>dict_paths2dict\<close> nests the
  names after the first in reverse order, so that a path of three or more names is turned into
  another path.\<close>

theorem paths2dict_reverses:
  assumes "p \<noteq> []" "ps \<noteq> []" "\<forall>q \<in> set (p # ps). CHR ''/'' \<notin> set q \<and> CHR ''['' \<notin> set q"
  shows "PDict (dict_paths2dict [(join ''/'' (p # ps), v)]) = nest (p # rev ps) v
    \<and> map_sum id PDict (list_to_dict (p # ps) v) = Inr (nest (p # ps) v)"
proof
  have sp: "split_on CHR ''/'' (join ''/'' (p # ps)) = p # ps"
    using assms(3) by (intro split_join) auto
  have j: "join ''/'' (p # ps) = p @ ''/'' @ join ''/'' ps" using assms(2) by (rule join_Cons)
  then have "0 < find_char CHR ''/'' (join ''/'' (p # ps))"
    using assms(1,3) unfolding find_char_pos_iff by (cases p) auto
  then show "PDict (dict_paths2dict [(join ''/'' (p # ps), v)]) = nest (p # rev ps) v"
    using sp assms(2) by (simp add: dict_paths2dict_def wrap_parts_nest)
  have "\<forall>n \<in> set (p # ps). \<not> 0 < find_char CHR ''['' n"
    using assms(3) by (simp add: find_char_pos_iff)
  then show "map_sum id PDict (list_to_dict (p # ps) v) = Inr (nest (p # ps) v)"
    by (rule list_to_dict_nest [rotated]) simp
qed

theorem paths2dict_reverses_witness:
  "PDict (dict_paths2dict [(join ''/'' [''a'', ''b'', ''c''], PInt 1)])
     = PDict [(''a'', PDict [(''c'', PDict [(''b'', PInt 1)])])]
   \<and> list_to_dict [''a'', ''b'', ''c''] (PInt 1)
     = Inr [(''a'', PDict [(''b'', PDict [(''c'', PInt 1)])])]"
proof -
  have "map_sum id PDict r = Inr (PDict d) \<longleftrightarrow> r = Inr d" for r :: "tools_error + (string, pyval) dict" and d
    by (cases r) auto
  then show ?thesis
    using paths2dict_reverses [of "''a''" "[''b'', ''c'']" "PInt 1"] by simp
qed

end
