(* ===== verification/Submission_Store.thy ===== *)
theory Submission_Store
  imports Instance_Parser Dict_Tools Py_Time
begin

text \<open>
  The submissions of a form, \<open>onadata/apps/logger/models/instance.py\<close> and
  \<open>attachment.py\<close>: saving a submission with the checks and signals around it, the media
  it expects, its attachments, soft deletion, and the form's submission counter.

  The database is a record of tables; a table is the list of its rows in the order of their
  ids.  An operation returns the error or the value together with the database, which keeps
  the changes made before an error; \<open>atomic\<close> undoes them.  What the code takes from
  outside is the record \<open>env\<close>.  The clock is read once in an operation.  The derived
  columns \<open>json\<close> and \<open>geom\<close> are left out, and the counting is the synchronous
  one (\<open>ASYNC_POST_SUBMISSION_PROCESSING_ENABLED\<close> unset).
\<close>

section \<open>Rows\<close>

text \<open>\<open>fm_keys\<close> are the \<open>XFormKey\<close> rows: a version, and whether its key is disabled.\<close>

record form =
  fm_id :: nat
  fm_uuid :: string
  fm_id_string :: string
  fm_owner :: string
  fm_deleted :: bool
  fm_encrypted :: bool
  fm_managed :: bool
  fm_keys :: "(string \<times> bool) list"
  fm_require_auth :: bool
  fm_profile_require_auth :: bool
  fm_downloadable :: bool
  fm_merged :: bool
  fm_version :: "string option"
  fm_osm :: bool
  fm_repeats :: "string list"
  fm_media_xpaths :: "string list"
  fm_num_of_submissions :: int
  fm_last_submission_time :: "time option"

datatype dec_status = Unmanaged | PendingDecryption | DecryptionSuccess | DecryptionFailed

record submission =
  in_id :: nat
  in_form :: nat
  in_xml :: string
  in_user :: "string option"
  in_created :: time
  in_modified :: time
  in_deleted :: "time option"
  in_deleted_by :: "string option"
  in_last_edited :: "time option"
  in_last_edited_by :: "string option"
  in_status :: string
  in_uuid :: string
  in_version :: "string option"
  in_survey_type :: string
  in_media_all_received :: bool
  in_total_media :: nat
  in_media_count :: nat
  in_checksum :: string
  in_encrypted :: bool
  in_decryption :: dec_status

record history =
  hi_instance :: nat
  hi_uuid :: string
  hi_xml :: string
  hi_checksum :: string
  hi_user :: "string option"
  hi_submission_date :: time

record attachment =
  at_instance :: nat
  at_form :: nat
  at_name :: string
  at_mimetype :: string
  at_extension :: string
  at_user :: "string option"
  at_content :: string
  at_deleted :: "time option"

text \<open>\<open>profiles\<close> are the submission counts of the users; \<open>messages\<close>,
  \<open>webhooks\<close> and \<open>decrypt_tasks\<close> what the operations send out.\<close>

record db =
  forms :: "form list"
  profiles :: "(string, int) dict"
  instances :: "submission list"
  histories :: "history list"
  attachments :: "attachment list"
  parsed_rows :: "nat list"
  messages :: "(nat \<times> string \<times> string option) list"
  webhooks :: "nat list"
  decrypt_tasks :: "nat list"

datatype sub_error =
    Parser parser_error
  | Tools tools_error
  | InstanceInvalidUserError
  | InstanceEncryptionError string
  | InstanceFormatError
  | FormInactiveError
  | FormIsMergedDatasetError
  | XFormDoesNotExist
  | Http404
  | ParseError
  | AttachmentNameError string
  | DuplicateInstance
  | PermissionDenied
  | UnreadablePostError
  | InstanceMultipleNodeError
  | DjangoUnicodeDecodeError
  | NonUniqueFormIdError
  | MultipleObjectsReturned
  | DataError
  | IntegrityError
  | InstanceEditConflictError
  | UnsupportedStrategy string

text \<open>
  The environment: the two XML parsers (the root's attributes and its children's tags for
  \<open>ElementTree\<close>), date parsing to UTC, SHA-256, a new uuid, the clock, the permission
  check of a user (\<open>None\<close> is anonymous), and three settings.
\<close>

record env =
  minidom :: "string \<Rightarrow> xml list option"
  etree :: "string \<Rightarrow> ((string, string) dict \<times> string list) option"
  parse_date :: "string \<Rightarrow> time"
  sha256 :: "string \<Rightarrow> string"
  fresh_uuid :: string
  now :: time
  has_perm :: "string option \<Rightarrow> string \<Rightarrow> nat \<Rightarrow> bool"
  conflict_resolution :: string
  key_not_found_accept :: bool
  auto_decrypt :: bool

section \<open>Results\<close>

definition and_then :: "('e + 'a) \<times> 's \<Rightarrow> ('a \<Rightarrow> 's \<Rightarrow> ('e + 'b) \<times> 's) \<Rightarrow> ('e + 'b) \<times> 's" where
  "and_then m k = (case m of (Inl e, s) \<Rightarrow> (Inl e, s) | (Inr a, s) \<Rightarrow> k a s)"

text \<open>\<open>transaction.atomic\<close>.\<close>

definition atomic :: "('s \<Rightarrow> ('e + 'a) \<times> 's) \<Rightarrow> 's \<Rightarrow> ('e + 'a) \<times> 's" where
  "atomic m s = (case m s of (Inl e, s') \<Rightarrow> (Inl e, s) | r \<Rightarrow> r)"

lemma and_then_simps [simp]:
  "and_then (Inl e, s) k = (Inl e, s)"
  "and_then (Inr a, s) k = k a s"
  by (simp_all add: and_then_def)

lemma and_then_Inr:
  "and_then m k = (Inr b, s') \<longleftrightarrow> (\<exists>a s. m = (Inr a, s) \<and> k a s = (Inr b, s'))"
  by (auto simp: and_then_def split: prod.splits sum.splits)

lemma atomic_Inr: "atomic m s = (Inr b, s') \<longleftrightarrow> m s = (Inr b, s')"
  by (auto simp: atomic_def split: prod.splits sum.splits)

lemma atomic_Inl: "atomic m s = (Inl e, s') \<Longrightarrow> s' = s"
  by (auto simp: atomic_def split: prod.splits sum.splits)

section \<open>Tables\<close>

definition find_form :: "db \<Rightarrow> nat \<Rightarrow> form option" where
  "find_form db i = find (\<lambda>f. fm_id f = i) (forms db)"

definition find_instance :: "db \<Rightarrow> nat \<Rightarrow> submission option" where
  "find_instance db i = find (\<lambda>r. in_id r = i) (instances db)"

definition put_form :: "form \<Rightarrow> db \<Rightarrow> db" where
  "put_form f db = db\<lparr>forms := map (\<lambda>g. if fm_id g = fm_id f then f else g) (forms db)\<rparr>"

definition change_form :: "nat \<Rightarrow> (form \<Rightarrow> form) \<Rightarrow> db \<Rightarrow> db" where
  "change_form i h db = db\<lparr>forms := map (\<lambda>g. if fm_id g = i then h g else g) (forms db)\<rparr>"

definition change_instance :: "nat \<Rightarrow> (submission \<Rightarrow> submission) \<Rightarrow> db \<Rightarrow> db" where
  "change_instance i h db = db\<lparr>instances := map (\<lambda>r. if in_id r = i then h r else r) (instances db)\<rparr>"

definition change_profile :: "string \<Rightarrow> (int \<Rightarrow> int) \<Rightarrow> db \<Rightarrow> db" where
  "change_profile u h db = db\<lparr>profiles := map (\<lambda>(v, n). if v = u then (v, h n) else (v, n)) (profiles db)\<rparr>"

definition next_id :: "db \<Rightarrow> nat" where
  "next_id db = Suc (Max (insert 0 (set (map in_id (instances db)))))"

definition was_managed :: "form \<Rightarrow> bool" where
  "was_managed f \<longleftrightarrow> fm_managed f \<or> fm_keys f \<noteq> []"

section \<open>Data and expected media\<close>

definition lift_parser :: "parser_error + 'a \<Rightarrow> sub_error + 'a" where
  "lift_parser = map_sum Parser id"

definition lift_tools :: "tools_error + 'a \<Rightarrow> sub_error + 'a" where
  "lift_tools = map_sum Tools id"

text \<open>\<open>get_dict\<close>, without the conversion of numeric answers.\<close>

definition get_dict :: "env \<Rightarrow> form \<Rightarrow> string \<Rightarrow> sub_error + (string, pyval) dict" where
  "get_dict e f s =
     lift_parser (parse_xform_instance (minidom e) (fm_repeats f) (fm_encrypted f \<or> was_managed f) s)"

text \<open>\<open>[i["media/file"] for i in data["media"]]\<close>.\<close>

fun media_files :: "pyval list \<Rightarrow> tools_error + pyval list" where
  "media_files [] = Inr []"
| "media_files (x # xs) =
     append_result
       (case x of
          PDict d \<Rightarrow> (case map_of d ''media/file'' of
                        None \<Rightarrow> Inl (No_Key ''media/file'') | Some v \<Rightarrow> Inr [v])
        | _ \<Rightarrow> Inl Wrong_Type)
       (media_files xs)"

definition media_of :: "pyval \<Rightarrow> tools_error + pyval list" where
  "media_of m = (case iter_values m of Inl err \<Rightarrow> Inl err | Inr xs \<Rightarrow> media_files xs)"

fun collect_media :: "(string, pyval) dict \<Rightarrow> string list \<Rightarrow> tools_error + pyval list" where
  "collect_media data [] = Inr []"
| "collect_media data (x # xs) = append_result (get_values_matching_key data x) (collect_media data xs)"

definition hashable :: "pyval \<Rightarrow> bool" where
  "hashable v \<longleftrightarrow> \<not> is_list v \<and> \<not> is_dict v"

definition expected_media :: "form \<Rightarrow> (string, pyval) dict \<Rightarrow> tools_error + pyval list" where
  "expected_media f data =
     (case (case map_of data ''encryptedXmlFile'' of
              Some v \<Rightarrow>
                if fm_encrypted f \<or> was_managed f
                then append_result (Inr [v])
                       (case map_of data ''media'' of None \<Rightarrow> Inr [] | Some m \<Rightarrow> media_of m)
                else collect_media data (fm_media_xpaths f)
            | None \<Rightarrow> collect_media data (fm_media_xpaths f)) of
        Inl err \<Rightarrow> Inl err
      | Inr vs \<Rightarrow> if list_all hashable vs then Inr (remdups vs) else Inl Wrong_Type)"

definition get_expected_media :: "env \<Rightarrow> form \<Rightarrow> string \<Rightarrow> sub_error + pyval list" where
  "get_expected_media e f s =
     (case get_dict e f s of Inl err \<Rightarrow> Inl err | Inr data \<Rightarrow> lift_tools (expected_media f data))"

text \<open>The query counts deleted attachments as well.\<close>

definition attachments_count :: "db \<Rightarrow> nat \<Rightarrow> pyval list \<Rightarrow> nat" where
  "attachments_count db i media =
     length (remdups (map at_name
       (filter (\<lambda>a. at_instance a = i \<and> PStr (at_name a) \<in> set media) (attachments db))))"

section \<open>Saving a submission\<close>

definition check_encrypted :: "env \<Rightarrow> string \<Rightarrow> bool" where
  "check_encrypted e s =
     (case etree e s of None \<Rightarrow> False | Some (attrs, tags) \<Rightarrow> map_of attrs ''encrypted'' = Some ''yes'')"

text \<open>\<open>_set_uuid\<close>; an unset uuid is the empty string.\<close>

definition set_uuid :: "env \<Rightarrow> submission \<Rightarrow> sub_error + string" where
  "set_uuid e r =
     (if in_xml r \<noteq> [] \<and> in_uuid r = []
      then (case get_uuid_from_xml (minidom e) (in_xml r) of
              Inl err \<Rightarrow> Inl (Parser err)
            | Inr None \<Rightarrow> Inr (fresh_uuid e)
            | Inr (Some u) \<Rightarrow> Inr (if u = [] then fresh_uuid e else u))
      else Inr (if in_uuid r = [] then fresh_uuid e else in_uuid r))"

definition version_of :: "form \<Rightarrow> (string, pyval) dict \<Rightarrow> string option" where
  "version_of f data =
     (case map_of data ''_version'' of Some (PStr v) \<Rightarrow> Some v | _ \<Rightarrow> fm_version f)"

definition root_name :: "env \<Rightarrow> string \<Rightarrow> string" where
  "root_name e s =
     (case clean_and_parse_xml (minidom e) s of
        Inl err \<Rightarrow> [] | Inr doc \<Rightarrow> (case document_element doc of None \<Rightarrow> [] | Some r \<Rightarrow> node_name r))"

definition set_encryption_status :: "env \<Rightarrow> form \<Rightarrow> submission \<Rightarrow> submission" where
  "set_encryption_status e f r =
     (if check_encrypted e (in_xml r)
      then r\<lparr>in_encrypted := True,
             in_decryption := if was_managed f then PendingDecryption else in_decryption r\<rparr>
      else r\<lparr>in_encrypted := False\<rparr>)"

text \<open>What \<open>Instance.save\<close> does before it writes the row.\<close>

definition prepare :: "env \<Rightarrow> db \<Rightarrow> submission \<Rightarrow> sub_error + submission" where
  "prepare e db r =
     (case find_form db (in_form r) of
        None \<Rightarrow> Inl XFormDoesNotExist
      | Some f \<Rightarrow>
          (case get_dict e f (in_xml r) of
             Inl err \<Rightarrow> Inl err
           | Inr data \<Rightarrow>
               if fm_merged f then Inl FormIsMergedDatasetError
               else if \<not> fm_downloadable f then Inl FormInactiveError
               else (case set_uuid e r of
                       Inl err \<Rightarrow> Inl err
                     | Inr u \<Rightarrow>
                         Inr (set_encryption_status e f
                                (r\<lparr>in_modified := now e, in_version := version_of f data,
                                   in_survey_type := root_name e (in_xml r), in_uuid := u\<rparr>)))))"

text \<open>The lengths of the columns, and the unique pair of form and uuid.\<close>

definition row_error :: "db \<Rightarrow> submission \<Rightarrow> sub_error option" where
  "row_error db r =
     (if 249 < length (in_uuid r) \<or> 20 < length (in_status r)
         \<or> (case in_version r of None \<Rightarrow> False | Some v \<Rightarrow> 255 < length v) then Some DataError
      else if \<exists>s \<in> set (instances db). in_id s \<noteq> in_id r \<and> in_form s = in_form r \<and> in_uuid s = in_uuid r
      then Some IntegrityError else None)"

definition update_count_delete :: "submission \<Rightarrow> db \<Rightarrow> db" where
  "update_count_delete r db =
     (case find_form db (in_form r) of
        None \<Rightarrow> db
      | Some f \<Rightarrow>
          change_profile (fm_owner f) (\<lambda>n. max (n - 1) 0)
            (change_form (in_form r)
               (\<lambda>g. g\<lparr>fm_num_of_submissions := max (fm_num_of_submissions g - 1) 0\<rparr>) db))"

definition update_count_create :: "submission \<Rightarrow> db \<Rightarrow> db" where
  "update_count_create r db =
     (case find_form db (in_form r) of
        None \<Rightarrow> db
      | Some f \<Rightarrow>
          change_profile (fm_owner f) (\<lambda>n. n + 1)
            (change_form (in_form r)
               (\<lambda>g. g\<lparr>fm_num_of_submissions := fm_num_of_submissions g + 1,
                      fm_last_submission_time := Some (in_created r)\<rparr>) db))"

definition is_soft_deleted :: "db \<Rightarrow> submission \<Rightarrow> bool" where
  "is_soft_deleted db r =
     (in_deleted r \<noteq> None
      \<and> (case find_instance db (in_id r) of None \<Rightarrow> False | Some old \<Rightarrow> in_deleted old = None))"

definition delete_attachments :: "nat \<Rightarrow> (attachment \<Rightarrow> bool) \<Rightarrow> time \<Rightarrow> db \<Rightarrow> db" where
  "delete_attachments i P t db =
     db\<lparr>attachments := map (\<lambda>a. if at_instance a = i \<and> P a then a\<lparr>at_deleted := Some t\<rparr> else a)
          (attachments db)\<rparr>"

text \<open>The \<open>pre_save\<close> receivers, and the one of \<open>post_save\<close> that starts a decryption.\<close>

definition pre_save :: "submission \<Rightarrow> db \<Rightarrow> db" where
  "pre_save r db =
     (if is_soft_deleted db r
      then delete_attachments (in_id r) (\<lambda>a. at_deleted a = None) (the (in_deleted r))
             (update_count_delete r db)
      else db)"

definition start_decryption :: "env \<Rightarrow> submission \<Rightarrow> db \<Rightarrow> db" where
  "start_decryption e r db =
     (case find_form db (in_form r) of
        None \<Rightarrow> db
      | Some f \<Rightarrow>
          if auto_decrypt e \<and> was_managed f \<and> in_encrypted r \<and> in_media_all_received r
          then db\<lparr>decrypt_tasks := decrypt_tasks db @ [in_id r]\<rparr> else db)"

text \<open>
  \<open>Instance.save\<close> on an existing row: \<open>columns r\<close> says what is written of the object
  (all of it, or the columns of \<open>update_fields\<close>).
\<close>

definition save_instance ::
    "env \<Rightarrow> (submission \<Rightarrow> submission \<Rightarrow> submission) \<Rightarrow> submission \<Rightarrow> db \<Rightarrow> (sub_error + submission) \<times> db" where
  "save_instance e columns r db =
     (case prepare e db r of
        Inl err \<Rightarrow> (Inl err, db)
      | Inr r' \<Rightarrow>
          (let db1 = pre_save r' db
           in case row_error db1 r' of
                Some err \<Rightarrow> (Inl err, db1)
              | None \<Rightarrow>
                  (Inr r', start_decryption e r' (change_instance (in_id r') (columns r') db1))))"

definition all_columns :: "submission \<Rightarrow> submission \<Rightarrow> submission" where
  "all_columns r row = r"

definition media_columns :: "submission \<Rightarrow> submission \<Rightarrow> submission" where
  "media_columns r row =
     row\<lparr>in_total_media := in_total_media r, in_media_count := in_media_count r,
         in_media_all_received := in_media_all_received r\<rparr>"

definition modified_column :: "submission \<Rightarrow> submission \<Rightarrow> submission" where
  "modified_column r row = row\<lparr>in_modified := in_modified r\<rparr>"

text \<open>\<open>Instance.objects.create\<close>.\<close>

definition create_row ::
    "env \<Rightarrow> string \<Rightarrow> string option \<Rightarrow> string \<Rightarrow> form \<Rightarrow> string \<Rightarrow> db \<Rightarrow> (sub_error + submission) \<times> db" where
  "create_row e s user status f checksum db =
     (case prepare e db
             \<lparr>in_id = next_id db, in_form = fm_id f, in_xml = s, in_user = user, in_created = now e,
              in_modified = now e, in_deleted = None, in_deleted_by = None, in_last_edited = None,
              in_last_edited_by = None, in_status = status, in_uuid = [], in_version = None,
              in_survey_type = [], in_media_all_received = False, in_total_media = 0,
              in_media_count = 0, in_checksum = checksum, in_encrypted = False,
              in_decryption = Unmanaged\<rparr> of
        Inl err \<Rightarrow> (Inl err, db)
      | Inr r \<Rightarrow>
          (case row_error db r of
             Some err \<Rightarrow> (Inl err, db)
           | None \<Rightarrow>
               (Inr r, start_decryption e r
                  (update_count_create r (db\<lparr>instances := instances db @ [r]\<rparr>)))))"

text \<open>\<open>submission_count(force_update=True)\<close> on a form object that holds \<open>old\<close> as its count.\<close>

definition live_count :: "db \<Rightarrow> nat \<Rightarrow> int" where
  "live_count db i = int (length (filter (\<lambda>r. in_form r = i \<and> in_deleted r = None) (instances db)))"

definition force_count :: "nat \<Rightarrow> int \<Rightarrow> db \<Rightarrow> db" where
  "force_count i old db =
     (if live_count db i \<noteq> old
      then change_form i (\<lambda>g. g\<lparr>fm_num_of_submissions := live_count db i\<rparr>) db else db)"

definition set_deleted ::
    "env \<Rightarrow> time \<Rightarrow> string option \<Rightarrow> submission \<Rightarrow> db \<Rightarrow> (sub_error + unit) \<times> db" where
  "set_deleted e t user r db =
     (case find_form db (in_form r) of
        None \<Rightarrow> (Inl XFormDoesNotExist, db)
      | Some f \<Rightarrow>
          and_then
            (save_instance e all_columns
               (r\<lparr>in_deleted_by := if user \<noteq> None then user else in_deleted_by r, in_deleted := Some t\<rparr>) db)
            (\<lambda>r' db1. (Inr (), force_count (in_form r) (fm_num_of_submissions f) db1)))"

section \<open>Attachments\<close>

definition basename :: "string \<Rightarrow> string" where
  "basename p = last (split_on CHR ''/'' p)"

text \<open>
  The extension of a name without its dot, \<open>os.path.splitext\<close>: the part after the last
  dot, unless only dots stand before it.
\<close>

definition extension_of :: "string \<Rightarrow> string" where
  "extension_of p =
     (let parts = split_on CHR ''.'' (basename p)
      in if 1 < length parts \<and> \<not> list_all (\<lambda>q. q = []) (butlast parts) then last parts else [])"

record upload =
  up_name :: string
  up_content_type :: string
  up_content :: string

definition same_attachment :: "form \<Rightarrow> submission \<Rightarrow> string \<Rightarrow> string \<Rightarrow> string \<Rightarrow> attachment \<Rightarrow> bool" where
  "same_attachment f r name mimetype ext a \<longleftrightarrow>
     at_form a = fm_id f \<and> at_instance a = in_id r \<and> at_mimetype a = mimetype \<and> at_name a = name
     \<and> at_extension a = ext \<and> at_user a = in_user r \<and> at_deleted a = None"

text \<open>
  One file of \<open>save_attachments\<close>; \<open>media\<close> is what \<open>get_expected_media\<close>
  returns or raises.  The test \<open>media_in_submission\<close> is a disjunction with
  a list of one element, which is always true.  A form object that meets its first \<open>osm\<close>
  file is saved, with every column of it.
\<close>

definition save_attachment ::
    "sub_error + pyval list \<Rightarrow> submission \<Rightarrow> upload \<Rightarrow> form \<Rightarrow> db \<Rightarrow> (sub_error + form) \<times> db" where
  "save_attachment media r up f db =
     (let ext = extension_of (up_name up);
          mimetype = (if ext = ''osm'' then ''text/xml'' else up_content_type up);
          f' = (if ext = ''osm'' \<and> \<not> fm_osm f then f\<lparr>fm_osm := True\<rparr> else f);
          db1 = (if ext = ''osm'' \<and> \<not> fm_osm f then put_form f' db else db);
          name = basename (up_name up)
      in if 100 < length name then (Inl (AttachmentNameError name), db1)
         else if isl media then (Inl (projl media), db1)
         else if \<exists>a \<in> set (attachments db1). same_attachment f' r name mimetype ext a
         then (Inr f', db1)
         else if 10 < length ext \<or> 100 < length mimetype then (Inl DataError, db1)
         else (Inr f', db1\<lparr>attachments := attachments db1 @
                 [\<lparr>at_instance = in_id r, at_form = fm_id f', at_name = name, at_mimetype = mimetype,
                   at_extension = ext, at_user = in_user r, at_content = up_content up,
                   at_deleted = None\<rparr>]\<rparr>))"

fun save_files ::
    "sub_error + pyval list \<Rightarrow> submission \<Rightarrow> upload list \<Rightarrow> form \<Rightarrow> db \<Rightarrow> (sub_error + form) \<times> db" where
  "save_files media r [] f db = (Inr f, db)"
| "save_files media r (up # ups) f db =
     and_then (save_attachment media r up f db) (save_files media r ups)"

text \<open>
  \<open>save_attachments\<close>: the files, then (\<open>remove_deleted_media\<close>) the soft deletion of the
  attachments the submission does not name, then \<open>update_attachment_tracking\<close>.
\<close>

definition update_attachment_tracking ::
    "env \<Rightarrow> pyval list \<Rightarrow> submission \<Rightarrow> db \<Rightarrow> (sub_error + submission) \<times> db" where
  "update_attachment_tracking e media r db =
     (let count = attachments_count db (in_id r) media
      in save_instance e media_columns
           (r\<lparr>in_total_media := length media, in_media_count := count,
              in_media_all_received := count = length media\<rparr>) db)"

definition soft_delete_attachments :: "env \<Rightarrow> pyval list \<Rightarrow> submission \<Rightarrow> db \<Rightarrow> db" where
  "soft_delete_attachments e media r db =
     delete_attachments (in_id r) (\<lambda>a. PStr (at_name a) \<notin> set media) (now e) db"

definition save_attachments ::
    "env \<Rightarrow> form \<Rightarrow> submission \<Rightarrow> upload list \<Rightarrow> db \<Rightarrow> (sub_error + submission) \<times> db" where
  "save_attachments e f r ups db =
     (let media = get_expected_media e f (in_xml r)
      in and_then (save_files media r ups f db)
           (\<lambda>f' db1.
              case media of
                Inl err \<Rightarrow> (Inl err, db1)
              | Inr names \<Rightarrow>
                  update_attachment_tracking e names r (soft_delete_attachments e names r db1)))"

section \<open>What the operations keep\<close>

text \<open>The columns of a submission that only an edit or a deletion changes.\<close>

definition content :: "submission \<Rightarrow> nat \<times> nat \<times> string \<times> string \<times> string option \<times> string \<times> time option" where
  "content r = (in_id r, in_form r, in_xml r, in_uuid r, in_user r, in_checksum r, in_deleted r)"

lemmas content_simps = content_def media_columns_def modified_column_def all_columns_def

lemma prepare_Inr:
  assumes "prepare e db r = Inr r'"
  shows "in_id r' = in_id r" "in_form r' = in_form r" "in_xml r' = in_xml r" "in_user r' = in_user r"
    "in_created r' = in_created r" "in_deleted r' = in_deleted r" "in_checksum r' = in_checksum r"
    "in_last_edited r' = in_last_edited r" "in_status r' = in_status r"
    "in_media_all_received r' = in_media_all_received r" "in_media_count r' = in_media_count r"
    "in_total_media r' = in_total_media r"
    "set_uuid e r = Inr (in_uuid r')"
  using assms
  by (auto simp: prepare_def set_encryption_status_def split: option.splits sum.splits if_splits)

lemma set_uuid_known: "in_uuid r \<noteq> [] \<Longrightarrow> set_uuid e r = Inr (in_uuid r)"
  by (simp add: set_uuid_def)

lemma set_uuid_neq_Nil: "set_uuid e r = Inr u \<Longrightarrow> fresh_uuid e \<noteq> [] \<Longrightarrow> u \<noteq> []"
  by (auto simp: set_uuid_def split: if_splits sum.splits option.splits)

lemma prepare_form: "prepare e db r = Inr r' \<Longrightarrow> \<exists>f. find_form db (in_form r) = Some f \<and> \<not> fm_merged f \<and> fm_downloadable f"
  by (auto simp: prepare_def split: option.splits sum.splits if_splits)

lemma table_simps [simp]:
  "instances (put_form f db) = instances db" "histories (put_form f db) = histories db"
  "attachments (put_form f db) = attachments db" "parsed_rows (put_form f db) = parsed_rows db"
  "instances (change_form i h db) = instances db" "histories (change_form i h db) = histories db"
  "attachments (change_form i h db) = attachments db" "parsed_rows (change_form i h db) = parsed_rows db"
  "instances (change_profile u k db) = instances db" "histories (change_profile u k db) = histories db"
  "attachments (change_profile u k db) = attachments db" "parsed_rows (change_profile u k db) = parsed_rows db"
  "forms (change_profile u k db) = forms db" "forms (change_instance j g db) = forms db"
  "histories (change_instance j g db) = histories db" "attachments (change_instance j g db) = attachments db"
  "parsed_rows (change_instance j g db) = parsed_rows db"
  "instances (delete_attachments i P t db) = instances db" "forms (delete_attachments i P t db) = forms db"
  "histories (delete_attachments i P t db) = histories db"
  "parsed_rows (delete_attachments i P t db) = parsed_rows db"
  by (simp_all add: put_form_def change_form_def change_profile_def change_instance_def delete_attachments_def)

lemma update_count_simps [simp]:
  "instances (update_count_delete r db) = instances db" "histories (update_count_delete r db) = histories db"
  "attachments (update_count_delete r db) = attachments db" "parsed_rows (update_count_delete r db) = parsed_rows db"
  "instances (update_count_create r db) = instances db" "histories (update_count_create r db) = histories db"
  "attachments (update_count_create r db) = attachments db" "parsed_rows (update_count_create r db) = parsed_rows db"
  by (simp_all add: update_count_delete_def update_count_create_def split: option.splits)

lemma start_decryption_simps [simp]:
  "instances (start_decryption e r db) = instances db" "histories (start_decryption e r db) = histories db"
  "attachments (start_decryption e r db) = attachments db" "parsed_rows (start_decryption e r db) = parsed_rows db"
  "forms (start_decryption e r db) = forms db"
  by (simp_all add: start_decryption_def split: option.splits)

lemma pre_save_simps [simp]:
  "instances (pre_save r db) = instances db" "histories (pre_save r db) = histories db"
  "parsed_rows (pre_save r db) = parsed_rows db"
  "map at_instance (attachments (pre_save r db)) = map at_instance (attachments db)"
  by (simp_all add: pre_save_def delete_attachments_def)

lemma soft_delete_attachments_simps [simp]:
  "instances (soft_delete_attachments e m r db) = instances db"
  "histories (soft_delete_attachments e m r db) = histories db"
  "forms (soft_delete_attachments e m r db) = forms db"
  "parsed_rows (soft_delete_attachments e m r db) = parsed_rows db"
  by (simp_all add: soft_delete_attachments_def)

lemma map_at_instance_delete [simp]:
  "map at_instance (attachments (delete_attachments i P t db)) = map at_instance (attachments db)"
  by (simp add: delete_attachments_def)

lemma pre_save_live: "in_deleted r = None \<Longrightarrow> pre_save r db = db"
  by (simp add: pre_save_def is_soft_deleted_def)

text \<open>A save that does not delete: the row of the object and nothing else is written.\<close>

lemma save_instance_Inr:
  assumes "save_instance e columns r db = (Inr r', db')"
  shows "prepare e db r = Inr r'" "row_error (pre_save r' db) r' = None"
    "instances db' = map (\<lambda>x. if in_id x = in_id r then columns r' x else x) (instances db)"
    "histories db' = histories db" "parsed_rows db' = parsed_rows db"
    "map at_instance (attachments db') = map at_instance (attachments db)"
    "forms db' = forms (pre_save r' db)" "attachments db' = attachments (pre_save r' db)"
proof -
  have p: "prepare e db r = Inr r'"
    and "row_error (pre_save r' db) r' = None"
    and db': "db' = start_decryption e r' (change_instance (in_id r') (columns r') (pre_save r' db))"
    using assms by (auto simp: save_instance_def Let_def split: sum.splits option.splits)
  then show "prepare e db r = Inr r'" "row_error (pre_save r' db) r' = None" by simp_all
  show "instances db' = map (\<lambda>x. if in_id x = in_id r then columns r' x else x) (instances db)"
    unfolding db' by (simp add: change_instance_def prepare_Inr(1) [OF p])
  show "histories db' = histories db" "parsed_rows db' = parsed_rows db"
    "map at_instance (attachments db') = map at_instance (attachments db)"
    "forms db' = forms (pre_save r' db)" "attachments db' = attachments (pre_save r' db)"
    unfolding db' by simp_all
qed

lemma save_instance_Inl:
  assumes "save_instance e columns r db = (Inl err, db')"
  shows "db' = db \<or> (\<exists>r'. prepare e db r = Inr r' \<and> db' = pre_save r' db)"
  using assms by (auto simp: save_instance_def Let_def split: sum.splits option.splits)

lemma save_attachment_tables:
  assumes "save_attachment media r up f db = (res, db')"
  shows "instances db' = instances db" "histories db' = histories db" "parsed_rows db' = parsed_rows db"
    "set (map at_instance (attachments db')) \<subseteq> insert (in_id r) (set (map at_instance (attachments db)))"
    "res = Inr g \<Longrightarrow> g = f \<or> g = f\<lparr>fm_osm := True\<rparr>"
    "forms db' = forms db \<or> forms db' = forms (put_form (f\<lparr>fm_osm := True\<rparr>) db)"
  using assms by (auto simp: save_attachment_def Let_def split: if_splits)

definition same_content :: "db \<Rightarrow> db \<Rightarrow> bool" where
  "same_content db db' \<longleftrightarrow>
     map content (instances db') = map content (instances db) \<and> histories db' = histories db"

lemma same_content_refl [simp]: "same_content db db"
  by (simp add: same_content_def)

lemma same_content_trans [trans]: "same_content db db1 \<Longrightarrow> same_content db1 db2 \<Longrightarrow> same_content db db2"
  by (simp add: same_content_def)

text \<open>The references between the tables.\<close>

definition refs :: "db \<Rightarrow> nat set" where
  "refs db = set (map at_instance (attachments db)) \<union> set (map hi_instance (histories db)) \<union> set (parsed_rows db)"

lemma save_files_tables:
  "save_files media r ups f db = (res, db') \<Longrightarrow>
     instances db' = instances db \<and> histories db' = histories db \<and> parsed_rows db' = parsed_rows db
     \<and> set (map at_instance (attachments db')) \<subseteq> insert (in_id r) (set (map at_instance (attachments db)))"
proof (induction ups arbitrary: f db)
  case (Cons up ups)
  obtain m db1 where one: "save_attachment media r up f db = (m, db1)" by force
  note t = save_attachment_tables(1-4) [OF one]
  show ?case
  proof (cases m)
    case (Inl err)
    with Cons.prems one have "db' = db1" by simp
    with t show ?thesis by (simp del: set_map)
  next
    case (Inr g)
    with Cons.prems one have "save_files media r ups g db1 = (res, db')" by simp
    note IH = Cons.IH [OF this]
    have "set (map at_instance (attachments db')) \<subseteq> insert (in_id r) (set (map at_instance (attachments db1)))"
      using IH by (elim conjE)
    also have "\<dots> \<subseteq> insert (in_id r) (set (map at_instance (attachments db)))"
      using t(4) by blast
    finally show ?thesis using IH t(1-3) by (simp del: set_map)
  qed
qed auto

lemma update_rows_content:
  assumes "\<And>x. x \<in> set xs \<Longrightarrow> in_id x = i \<Longrightarrow> content (c x) = content x"
  shows "map content (map (\<lambda>x. if in_id x = i then c x else x) xs) = map content xs"
  using assms by (induction xs) auto

lemma columns_content:
  "content (media_columns r x) = content x" "content (modified_column r x) = content x"
  by (simp_all add: content_simps)

lemma save_instance_keeps:
  assumes "save_instance e columns r db = (res, db')"
    and "\<And>r' x. prepare e db r = Inr r' \<Longrightarrow> x \<in> set (instances db) \<Longrightarrow> in_id x = in_id r
           \<Longrightarrow> content (columns r' x) = content x"
  shows "same_content db db'" "refs db' = refs db"
proof -
  have "same_content db db' \<and> refs db' = refs db"
  proof (cases res)
    case (Inl err)
    with assms(1) save_instance_Inl [of e columns r db err db'] show ?thesis
      by (auto simp: same_content_def refs_def simp del: set_map)
  next
    case (Inr r')
    note s = save_instance_Inr [OF assms(1) [unfolded Inr]]
    have "map content (instances db') = map content (instances db)"
      unfolding s(3) by (rule update_rows_content) (rule assms(2) [OF s(1)])
    with s(4-6) show ?thesis by (simp add: same_content_def refs_def del: set_map)
  qed
  then show "same_content db db'" "refs db' = refs db" by simp_all
qed

lemma save_columns_keep:
  assumes "save_instance e columns r db = (res, db')" "columns = media_columns \<or> columns = modified_column"
  shows "same_content db db'" "refs db' = refs db"
  using assms(2) columns_content by (auto intro!: save_instance_keeps [OF assms(1)])

lemma save_attachments_keeps:
  assumes "save_attachments e f r ups db = (res, db')"
  shows "same_content db db'" "refs db' \<subseteq> insert (in_id r) (refs db)"
proof -
  obtain m db1 where one: "save_files (get_expected_media e f (in_xml r)) r ups f db = (m, db1)" by force
  note t = save_files_tables [OF one]
  have t1: "same_content db db1" "refs db1 \<subseteq> insert (in_id r) (refs db)"
    using t by (auto simp: same_content_def refs_def)
  have "same_content db db' \<and> refs db' \<subseteq> insert (in_id r) (refs db)"
  proof (cases m)
    case (Inl err)
    with assms one t1 show ?thesis by (simp add: save_attachments_def Let_def)
  next
    case (Inr g)
    show ?thesis
    proof (cases "get_expected_media e f (in_xml r)")
      case (Inl err)
      with assms one t1 Inr show ?thesis by (simp add: save_attachments_def Let_def)
    next
      case (Inr names)
      let ?db2 = "soft_delete_attachments e names r db1"
      have "update_attachment_tracking e names r ?db2 = (res, db')"
        using assms one Inr \<open>m = Inr g\<close> by (simp add: save_attachments_def Let_def)
      then have "same_content ?db2 db'" "refs db' = refs ?db2"
        unfolding update_attachment_tracking_def Let_def by (auto dest: save_columns_keep)
      moreover have "same_content db1 ?db2" "refs ?db2 = refs db1"
        by (simp_all add: same_content_def refs_def soft_delete_attachments_def del: set_map)
      ultimately show ?thesis using t1 same_content_trans by metis
    qed
  qed
  then show "same_content db db'" "refs db' \<subseteq> insert (in_id r) (refs db)" by simp_all
qed

lemma save_attachments_object:
  assumes "save_attachments e f r ups db = (Inr r', db')"
  shows "content r' = content r \<or> in_uuid r = []" "in_id r' = in_id r" "in_form r' = in_form r"
    "in_xml r' = in_xml r" "in_deleted r' = in_deleted r"
    "fresh_uuid e \<noteq> [] \<Longrightarrow> in_uuid r' \<noteq> []" "in_uuid r \<noteq> [] \<Longrightarrow> in_uuid r' = in_uuid r"
    "\<exists>names. get_expected_media e f (in_xml r) = Inr names"
proof -
  obtain names g db1 where n: "get_expected_media e f (in_xml r) = Inr names"
    and "update_attachment_tracking e names r (soft_delete_attachments e names r db1) = (Inr r', db')"
    using assms
    by (cases "get_expected_media e f (in_xml r)") (auto simp: save_attachments_def Let_def and_then_Inr)
  then obtain db2 where p: "prepare e db2 (r\<lparr>in_total_media := length names,
        in_media_count := attachments_count db2 (in_id r) names,
        in_media_all_received := attachments_count db2 (in_id r) names = length names\<rparr>) = Inr r'"
    by (auto simp: update_attachment_tracking_def Let_def dest!: save_instance_Inr(1))
  note q = prepare_Inr [OF p]
  show "content r' = content r \<or> in_uuid r = []"
    using q by (auto simp: content_def set_uuid_def)
  show "in_id r' = in_id r" "in_form r' = in_form r" "in_xml r' = in_xml r" "in_deleted r' = in_deleted r"
    using q by simp_all
  show "fresh_uuid e \<noteq> [] \<Longrightarrow> in_uuid r' \<noteq> []" using set_uuid_neq_Nil [OF q(13)] by simp
  show "in_uuid r \<noteq> [] \<Longrightarrow> in_uuid r' = in_uuid r" using q(13) by (simp add: set_uuid_def)
  show "\<exists>names. get_expected_media e f (in_xml r) = Inr names" using n by blast
qed

section \<open>Relations every operation keeps\<close>

text \<open>A relation between the database before and after that steps can be chained for.\<close>

locale kept =
  fixes R :: "'s \<Rightarrow> 's \<Rightarrow> bool"
  assumes R_refl: "R s s"
    and R_trans: "R s1 s2 \<Longrightarrow> R s2 s3 \<Longrightarrow> R s1 s3"
begin

lemma and_then_R:
  assumes "and_then m k = (res, s')" "R s (snd m)" "\<And>a s1. m = (Inr a, s1) \<Longrightarrow> R s1 (snd (k a s1))"
  shows "R s s'"
proof (cases "fst m")
  case (Inl err)
  with assms(1,2) show ?thesis by (cases m) simp
next
  case (Inr a)
  then have m: "m = (Inr a, snd m)" by (cases m) simp
  with assms(1) have "k a (snd m) = (res, s')" by (metis and_then_simps(2))
  with assms(3) [OF m] have "R (snd m) s'" by simp
  with assms(2) show ?thesis by (rule R_trans)
qed

lemma atomic_R:
  assumes "atomic m s = (res, s')" "\<And>a s1. m s = (Inr a, s1) \<Longrightarrow> R s s1"
  shows "R s s'"
proof (cases res)
  case (Inl err)
  with assms(1) have "s' = s" by (auto dest: atomic_Inl)
  then show ?thesis by (simp add: R_refl)
next
  case (Inr a)
  with assms show ?thesis by (simp add: atomic_Inr)
qed

end

interpretation same: kept same_content
  by unfold_locales (auto intro: same_content_trans)

definition ids :: "db \<Rightarrow> nat set" where
  "ids db = set (map in_id (instances db))"

text \<open>
  A sound store: ids are unique, the uuids of a form's submissions are set and unique, and
  attachments, history and parsed rows belong to submissions.
\<close>

definition store_ok :: "db \<Rightarrow> bool" where
  "store_ok db \<longleftrightarrow>
     distinct (map in_id (instances db))
     \<and> distinct (map (\<lambda>r. (in_form r, in_uuid r)) (instances db))
     \<and> (\<forall>r \<in> set (instances db). in_uuid r \<noteq> [])
     \<and> refs db \<subseteq> ids db"

text \<open>Every version of every submission that the store still knows.\<close>

definition versions :: "db \<Rightarrow> (nat \<times> string) set" where
  "versions db =
     (\<lambda>r. (in_id r, in_xml r)) ` set (instances db) \<union> (\<lambda>h. (hi_instance h, hi_xml h)) ` set (histories db)"

definition grows :: "db \<Rightarrow> db \<Rightarrow> bool" where
  "grows db db' \<longleftrightarrow> (store_ok db \<longrightarrow> store_ok db' \<and> versions db \<subseteq> versions db' \<and> ids db \<subseteq> ids db')"

interpretation grow: kept grows
  by unfold_locales (auto simp: grows_def)

lemma content_maps:
  assumes "map content (instances db') = map content (instances db)"
  shows "map in_id (instances db') = map in_id (instances db)"
    "map (\<lambda>r. (in_form r, in_uuid r)) (instances db') = map (\<lambda>r. (in_form r, in_uuid r)) (instances db)"
    "(\<lambda>r. (in_id r, in_xml r)) ` set (instances db') = (\<lambda>r. (in_id r, in_xml r)) ` set (instances db)"
proof -
  have "map (\<lambda>(i, f, x, u, _). i) (map content (instances db')) = map (\<lambda>(i, f, x, u, _). i) (map content (instances db))"
    by (simp only: assms)
  then show "map in_id (instances db') = map in_id (instances db)" by (simp add: content_def comp_def)
  have "map (\<lambda>(i, f, x, u, _). (f, u)) (map content (instances db')) = map (\<lambda>(i, f, x, u, _). (f, u)) (map content (instances db))"
    by (simp only: assms)
  then show "map (\<lambda>r. (in_form r, in_uuid r)) (instances db') = map (\<lambda>r. (in_form r, in_uuid r)) (instances db)"
    by (simp add: content_def comp_def)
  have "map (\<lambda>(i, f, x, u, _). (i, x)) (map content (instances db')) = map (\<lambda>(i, f, x, u, _). (i, x)) (map content (instances db))"
    by (simp only: assms)
  then have "map (\<lambda>r. (in_id r, in_xml r)) (instances db') = map (\<lambda>r. (in_id r, in_xml r)) (instances db)"
    by (simp add: content_def comp_def)
  then show "(\<lambda>r. (in_id r, in_xml r)) ` set (instances db') = (\<lambda>r. (in_id r, in_xml r)) ` set (instances db)"
    by (metis list.set_map)
qed

lemma uuids_set: "(\<forall>r \<in> set (instances db). in_uuid r \<noteq> []) \<longleftrightarrow>
    (\<forall>u \<in> set (map (\<lambda>r. (in_form r, in_uuid r)) (instances db)). snd u \<noteq> [])"
  by simp

lemma same_content_grows:
  assumes "same_content db db'" "refs db' \<subseteq> ids db \<union> refs db"
  shows "grows db db'"
proof -
  from assms(1) have m: "map content (instances db') = map content (instances db)"
    and h: "histories db' = histories db" by (simp_all add: same_content_def)
  note c = content_maps [OF m]
  have i: "ids db' = ids db" unfolding ids_def c(1) ..
  have "store_ok db \<Longrightarrow> store_ok db'"
    using assms(2) unfolding store_ok_def uuids_set c(1,2) i by blast
  moreover have "versions db' = versions db" unfolding versions_def c(3) h ..
  ultimately show ?thesis by (simp add: grows_def i)
qed

lemma find_instance_Some:
  assumes "find_instance db i = Some r"
  shows "r \<in> set (instances db)" "in_id r = i" "i \<in> ids db"
  using assms by (auto simp: find_instance_def ids_def find_Some_iff)

lemma unique_row:
  assumes "store_ok db" "r \<in> set (instances db)" "x \<in> set (instances db)" "in_id x = in_id r"
  shows "x = r"
  using assms by (simp add: store_ok_def distinct_map inj_on_def)

lemma find_instance_id:
  assumes "store_ok db" "r \<in> set (instances db)"
  shows "find_instance db (in_id r) = Some r"
proof (cases "find_instance db (in_id r)")
  case None
  then have "\<forall>x \<in> set (instances db). in_id x \<noteq> in_id r" by (simp add: find_instance_def find_None_iff)
  with assms(2) have False by blast
  then show ?thesis ..
next
  case (Some x)
  from find_instance_Some [OF this] unique_row [OF assms(1,2)] Some show ?thesis by blast
qed

lemma distinct_update_rows:
  "distinct (map in_id xs) \<Longrightarrow> distinct (map k xs) \<Longrightarrow>
   (\<forall>s \<in> set xs. in_id s \<noteq> in_id r \<longrightarrow> k s \<noteq> k r) \<Longrightarrow>
   distinct (map k (map (\<lambda>x. if in_id x = in_id r then r else x) xs))"
proof (induction xs)
  case (Cons x xs)
  have no: "map (\<lambda>x. if in_id x = in_id r then r else x) xs = xs" if "in_id x = in_id r"
  proof (rule map_idI)
    fix y assume "y \<in> set xs"
    then have "in_id y \<noteq> in_id r" using Cons.prems(1) that by (auto simp: image_iff)
    then show "(if in_id y = in_id r then r else y) = y" by simp
  qed
  show ?case
  proof (cases "in_id x = in_id r")
    case True
    then have eq: "map k (map (\<lambda>x. if in_id x = in_id r then r else x) (x # xs)) = k r # map k xs"
      using no by simp
    have "k r \<notin> set (map k xs)"
    proof
      assume "k r \<in> set (map k xs)"
      then obtain s where s: "s \<in> set xs" "k s = k r" by auto
      have "in_id s \<in> set (map in_id xs)" using s(1) by simp
      moreover have "in_id x \<notin> set (map in_id xs)" using Cons.prems(1) by simp
      ultimately have "in_id s \<noteq> in_id r" using True by metis
      with Cons.prems(3) s show False by auto
    qed
    then have "distinct (k r # map k xs)" using Cons.prems(2) by simp
    then show ?thesis unfolding eq .
  next
    case False
    then have "k x \<noteq> k r" using Cons.prems(3) by simp
    then have "k x \<notin> set (map k (map (\<lambda>x. if in_id x = in_id r then r else x) xs))"
      using Cons.prems(2) by (auto split: if_splits)
    moreover have "distinct (map k (map (\<lambda>x. if in_id x = in_id r then r else x) xs))"
      using Cons.prems by (intro Cons.IH) auto
    moreover have "map k (map (\<lambda>x. if in_id x = in_id r then r else x) (x # xs))
        = k x # map k (map (\<lambda>x. if in_id x = in_id r then r else x) xs)"
      using False by simp
    ultimately show ?thesis by (simp only: distinct.simps simp_thms)
  qed
qed simp

end
