(* ===== verification/Submission.thy ===== *)
theory Submission
  imports Submission_Store
begin

text \<open>
  Receiving submissions, \<open>onadata/libs/utils/logger_tools.py\<close>: finding the form, the
  permission and encryption checks, new submissions, edits with their history and conflicts,
  duplicates, and the answer to the client (\<open>safe_instance_op\<close>).  The store is that of
  \<open>Submission_Store\<close>.
\<close>

section \<open>Finding the form\<close>

text \<open>A request: the user (\<open>None\<close> is anonymous) and the path.\<close>

record request =
  rq_user :: "string option"
  rq_path :: string

definition strip_prefix :: "string \<Rightarrow> string \<Rightarrow> string option" where
  "strip_prefix p s = (if prefix p s then Some (drop (length p) s) else None)"

text \<open>
  A match of \<open>uuid_regex\<close> at the start of a text.  The group takes everything up to the
  next tag; a group of white space only takes the last character of it.
\<close>

definition formhub_at :: "string \<Rightarrow> string option" where
  "formhub_at s =
     (case strip_prefix ''<formhub>'' s of
        None \<Rightarrow> None
      | Some s1 \<Rightarrow>
          (case strip_prefix ''<uuid>'' (dropWhile is_space s1) of
             None \<Rightarrow> None
           | Some s2 \<Rightarrow>
               (let g = takeWhile (\<lambda>c. c \<noteq> CHR ''<'') (dropWhile is_space s2);
                    sp = takeWhile is_space s2;
                    g' = (if g = [] \<and> sp \<noteq> [] then [last sp] else g);
                    rest = dropWhile (\<lambda>c. c \<noteq> CHR ''<'') s2
                in if g' = [] then None
                   else (case strip_prefix ''</uuid>'' rest of
                           None \<Rightarrow> None
                         | Some s3 \<Rightarrow>
                             if prefix ''</formhub>'' (dropWhile is_space s3) then Some g' else None))))"

fun get_uuid_from_submission :: "string \<Rightarrow> string option" where
  "get_uuid_from_submission [] = None"
| "get_uuid_from_submission (c # cs) =
     (case formhub_at (c # cs) of Some u \<Rightarrow> Some u | None \<Rightarrow> get_uuid_from_submission cs)"

text \<open>\<open>getElementsByTagName\<close>, the descendants in document order.\<close>

fun descendants :: "xml \<Rightarrow> xml list" where
  "descendants (Elem n as cs) = concat (map (\<lambda>c. c # descendants c) cs)"
| "descendants _ = []"

fun data_ids :: "xml list \<Rightarrow> string \<Rightarrow> parser_error + string" where
  "data_ids [] i = Inr i"
| "data_ids (d # ds) i =
     (case node_children d of
        [] \<Rightarrow> Inl IndexError
      | c # _ \<Rightarrow> (case get_attribute c ''id'' of
                   Inl err \<Rightarrow> Inl err | Inr j \<Rightarrow> if j \<noteq> [] then Inr j else data_ids ds j))"

definition get_id_string_from_xml_str :: "env \<Rightarrow> string \<Rightarrow> parser_error + string" where
  "get_id_string_from_xml_str e s =
     (case clean_and_parse_xml (minidom e) s of
        Inl err \<Rightarrow> Inl err
      | Inr doc \<Rightarrow>
          (case document_element doc of
             None \<Rightarrow> Inl AttributeError
           | Some root \<Rightarrow>
               (case get_attribute root ''id'' of
                  Inl err \<Rightarrow> Inl err
                | Inr i \<Rightarrow>
                    if i \<noteq> [] then Inr i
                    else data_ids (filter (\<lambda>d. is_elem d \<and> node_name d = ''data'') (descendants root)) i)))"

text \<open>\<open>check_submission_permissions\<close>: whether the check passes.\<close>

definition may_submit :: "env \<Rightarrow> request option \<Rightarrow> form \<Rightarrow> bool" where
  "may_submit e req f =
     (case req of
        None \<Rightarrow> True
      | Some q \<Rightarrow>
          \<not> ((fm_profile_require_auth f \<or> fm_require_auth f \<or> rq_path q = ''/submission'')
             \<and> rq_user q \<noteq> Some (fm_owner f)
             \<and> \<not> has_perm e (rq_user q) ''report_xform'' (fm_id f)))"

text \<open>\<open>check_edit_submission_permissions\<close>: whether the check passes.\<close>

definition may_edit :: "env \<Rightarrow> string option \<Rightarrow> form \<Rightarrow> bool" where
  "may_edit e user f =
     (case user of
        None \<Rightarrow> True
      | Some u \<Rightarrow> \<not> (fm_profile_require_auth f \<and> \<not> has_perm e (Some u) ''logger.change_xform'' (fm_id f)))"

definition form_by_id_string :: "env \<Rightarrow> string \<Rightarrow> string \<Rightarrow> db \<Rightarrow> sub_error + form" where
  "form_by_id_string e s username db =
     (case get_id_string_from_xml_str e s of
        Inl err \<Rightarrow> Inl (Parser err)
      | Inr i \<Rightarrow>
          (case filter (\<lambda>f. lower (fm_id_string f) = lower i \<and> lower (fm_owner f) = lower username
                             \<and> \<not> fm_deleted f) (forms db) of
             [] \<Rightarrow> Inl Http404
           | [f] \<Rightarrow> Inr f
           | _ \<Rightarrow> Inl NonUniqueFormIdError))"

text \<open>No user name and no uuid are the empty string.\<close>

definition get_xform_from_submission ::
    "env \<Rightarrow> string \<Rightarrow> string \<Rightarrow> string \<Rightarrow> request option \<Rightarrow> db \<Rightarrow> sub_error + form" where
  "get_xform_from_submission e s username uuid req db =
     (let u = (if uuid \<noteq> [] then uuid else (case get_uuid_from_submission s of None \<Rightarrow> [] | Some v \<Rightarrow> v))
      in if username = [] \<and> u = [] then Inl InstanceInvalidUserError
         else if u = [] then form_by_id_string e s username db
         else (case filter (\<lambda>f. fm_uuid f = u \<and> \<not> fm_deleted f) (forms db) of
                 [] \<Rightarrow> form_by_id_string e s username db
               | [f] \<Rightarrow>
                   if may_submit e req f then Inr f
                   else if username \<noteq> [] \<and> fm_owner f = username then Inl PermissionDenied
                   else form_by_id_string e s username db
               | _ \<Rightarrow> Inl MultipleObjectsReturned))"

section \<open>Encryption\<close>

definition required_encrypted_file_elements :: "string list" where
  "required_encrypted_file_elements =
     [''{http://www.opendatakit.org/xforms/encrypted}base64EncryptedKey'',
      ''{http://www.opendatakit.org/xforms/encrypted}encryptedXmlFile'',
      ''{http://opendatakit.org/submissions}base64EncryptedKey'',
      ''{http://opendatakit.org/submissions}encryptedXmlFile'']"

definition is_valid_encrypted_submission :: "env \<Rightarrow> bool \<Rightarrow> string \<Rightarrow> sub_error + bool" where
  "is_valid_encrypted_submission e xform_is_encrypted s =
     (case etree e s of
        None \<Rightarrow> Inl ParseError
      | Some (attrs, tags) \<Rightarrow>
          (let n = length (filter (\<lambda>t. t \<in> set required_encrypted_file_elements) tags);
               yes = (map_of attrs ''encrypted'' = Some ''yes'')
           in if yes \<or> 1 < n
              then if (n \<noteq> 2 \<or> \<not> yes) \<and> xform_is_encrypted then Inl InstanceFormatError else Inr True
              else Inr False))"

definition check_encrypted_submission :: "env \<Rightarrow> string \<Rightarrow> form \<Rightarrow> sub_error + unit" where
  "check_encrypted_submission e s f =
     (case is_valid_encrypted_submission e (fm_encrypted f) s of
        Inl err \<Rightarrow> Inl err
      | Inr submission_encrypted \<Rightarrow>
          if fm_encrypted f \<and> \<not> submission_encrypted
          then Inl (InstanceEncryptionError ''Unencrypted submissions are not allowed for encrypted forms.'')
          else if fm_encrypted f \<and> fm_managed f \<and> \<not> key_not_found_accept e
          then (case etree e s of
                  None \<Rightarrow> Inl ParseError
                | Some (attrs, tags) \<Rightarrow>
                    if \<exists>(v, disabled) \<in> set (fm_keys f). map_of attrs ''version'' = Some v \<and> \<not> disabled
                    then Inr ()
                    else Inl (InstanceEncryptionError ''Encryption key does not exist or is disabled.''))
          else Inr ())"

section \<open>Edits\<close>

definition edit_row ::
    "env \<Rightarrow> submission \<Rightarrow> string \<Rightarrow> string option \<Rightarrow> string option \<Rightarrow> string \<Rightarrow> string
     \<Rightarrow> db \<Rightarrow> (sub_error + submission) \<times> db" where
  "edit_row e r old_uuid new_uuid submitted_by checksum s db =
     (case find_form db (in_form r) of
        None \<Rightarrow> (Inl XFormDoesNotExist, db)
      | Some f \<Rightarrow>
          if \<not> may_edit e submitted_by f then (Inl PermissionDenied, db)
          else
            (let h = \<lparr>hi_instance = in_id r, hi_uuid = old_uuid, hi_xml = in_xml r,
                      hi_checksum = in_checksum r, hi_user = submitted_by,
                      hi_submission_date = (case in_last_edited r of Some t \<Rightarrow> t | None \<Rightarrow> in_created r)\<rparr>;
                 db1 = db\<lparr>histories := histories db @ [h]\<rparr>
             in and_then
                  (save_instance e all_columns
                     (r\<lparr>in_xml := s, in_last_edited := Some (now e), in_last_edited_by := submitted_by,
                        in_uuid := (case new_uuid of None \<Rightarrow> [] | Some u \<Rightarrow> u), in_checksum := checksum\<rparr>) db1)
                  (\<lambda>r' db2. (Inr r', db2\<lparr>webhooks := webhooks db2 @ [in_id r']\<rparr>))))"

definition history_of :: "db \<Rightarrow> nat \<Rightarrow> string option \<Rightarrow> history option" where
  "history_of db form_id uuid =
     find (\<lambda>h. Some (hi_uuid h) = uuid
               \<and> (case find_instance db (hi_instance h) of None \<Rightarrow> False | Some r \<Rightarrow> in_form r = form_id))
       (histories db)"

definition instance_of :: "db \<Rightarrow> nat \<Rightarrow> string option \<Rightarrow> submission option" where
  "instance_of db form_id uuid = find (\<lambda>r. in_form r = form_id \<and> Some (in_uuid r) = uuid) (instances db)"

definition handle_edit_conflict ::
    "env \<Rightarrow> submission \<Rightarrow> string \<Rightarrow> string option \<Rightarrow> string option \<Rightarrow> string \<Rightarrow> string
     \<Rightarrow> db \<Rightarrow> (sub_error + submission) \<times> db" where
  "handle_edit_conflict e r old_uuid new_uuid submitted_by checksum s db =
     (if conflict_resolution e = ''last_write_wins''
      then edit_row e r old_uuid new_uuid submitted_by checksum s db
      else if conflict_resolution e = ''reject'' then (Inl InstanceEditConflictError, db)
      else (Inl (UnsupportedStrategy (conflict_resolution e)), db))"

definition send_message :: "submission \<Rightarrow> string \<Rightarrow> string option \<Rightarrow> db \<Rightarrow> db" where
  "send_message r verb user db = db\<lparr>messages := messages db @ [(in_id r, verb, user)]\<rparr>"

definition new_submission ::
    "env \<Rightarrow> string \<Rightarrow> string option \<Rightarrow> string \<Rightarrow> form \<Rightarrow> string \<Rightarrow> db \<Rightarrow> (sub_error + submission) \<times> db" where
  "new_submission e s submitted_by status f checksum db =
     and_then (create_row e s submitted_by status f checksum db)
       (\<lambda>r db1. (Inr r, send_message r ''submission_created'' submitted_by db1))"

definition get_instance ::
    "env \<Rightarrow> string \<Rightarrow> string option \<Rightarrow> string option \<Rightarrow> string \<Rightarrow> form \<Rightarrow> string
     \<Rightarrow> db \<Rightarrow> (sub_error + submission) \<times> db" where
  "get_instance e s new_uuid submitted_by status f checksum db =
     (let edited = (\<lambda>r db1. (Inr r, send_message r ''submission_edited'' submitted_by db1))
      in case get_deprecated_uuid_from_xml (minidom e) s of
           Inl err \<Rightarrow> (Inl (Parser err), db)
         | Inr None \<Rightarrow> new_submission e s submitted_by status f checksum db
         | Inr (Some old_uuid) \<Rightarrow>
             if old_uuid = [] then new_submission e s submitted_by status f checksum db
             else
               (case instance_of db (fm_id f) (Some old_uuid) of
                  Some r \<Rightarrow>
                    and_then (edit_row e r old_uuid new_uuid submitted_by checksum s db) edited
                | None \<Rightarrow>
                    (case history_of db (fm_id f) new_uuid of
                       Some h \<Rightarrow>
                         (case find_instance db (hi_instance h) of
                            None \<Rightarrow> (Inl XFormDoesNotExist, db) | Some r \<Rightarrow> edited r db)
                     | None \<Rightarrow>
                         (case history_of db (fm_id f) (Some old_uuid) of
                            Some h \<Rightarrow>
                              (case find_instance db (hi_instance h) of
                                 None \<Rightarrow> (Inl XFormDoesNotExist, db)
                               | Some r \<Rightarrow>
                                   and_then
                                     (handle_edit_conflict e r old_uuid new_uuid submitted_by checksum s db)
                                     edited)
                          | None \<Rightarrow> new_submission e s submitted_by status f checksum db))))"

section \<open>Saving and creating\<close>

definition add_parsed_row :: "submission \<Rightarrow> db \<Rightarrow> db" where
  "add_parsed_row r db =
     (if in_id r \<in> set (parsed_rows db) then db else db\<lparr>parsed_rows := parsed_rows db @ [in_id r]\<rparr>)"

definition save_submission ::
    "env \<Rightarrow> form \<Rightarrow> string \<Rightarrow> upload list \<Rightarrow> string option \<Rightarrow> string option \<Rightarrow> string \<Rightarrow> time option
     \<Rightarrow> string \<Rightarrow> db \<Rightarrow> (sub_error + submission) \<times> db" where
  "save_submission e f s ups new_uuid submitted_by status override checksum db =
     (case (case override of
              Some t \<Rightarrow> Inr (Some t)
            | None \<Rightarrow> get_submission_date_from_xml (minidom e) (parse_date e) s) of
        Inl err \<Rightarrow> (Inl (Parser err), db)
      | Inr date \<Rightarrow>
          and_then (get_instance e s new_uuid submitted_by status f checksum db) (\<lambda>r db1.
          and_then (save_attachments e f r ups db1) (\<lambda>r db2.
          and_then (case date of
                      None \<Rightarrow> (Inr r, db2)
                    | Some t \<Rightarrow> save_instance e all_columns (r\<lparr>in_created := t\<rparr>) db2) (\<lambda>r db3.
          and_then (save_instance e all_columns r db3) (\<lambda>r db4.
            (Inr r, add_parsed_row r db4))))))"

datatype outcome = Saved submission | Duplicate

definition create_instance ::
    "env \<Rightarrow> request option \<Rightarrow> string \<Rightarrow> string \<Rightarrow> upload list \<Rightarrow> string \<Rightarrow> string \<Rightarrow> time option
     \<Rightarrow> db \<Rightarrow> (sub_error + outcome) \<times> db" where
  "create_instance e req username s ups status uuid override db =
     (let submitted_by = (case req of None \<Rightarrow> None | Some q \<Rightarrow> rq_user q)
      in case get_xform_from_submission e s (lower username) uuid req db of
           Inl err \<Rightarrow> (Inl err, db)
         | Inr f \<Rightarrow>
             if \<not> may_submit e req f then (Inl PermissionDenied, db)
             else
               (case check_encrypted_submission e s f of
                  Inl err \<Rightarrow> (Inl err, db)
                | Inr _ \<Rightarrow>
                    (case get_uuid_from_xml (minidom e) s of
                       Inl err \<Rightarrow> (Inl (Parser err), db)
                     | Inr new_uuid \<Rightarrow>
                         (case instance_of db (fm_id f) new_uuid of
                            Some r \<Rightarrow>
                              atomic (\<lambda>db.
                                and_then (save_attachments e f r ups db) (\<lambda>r db1.
                                and_then (save_instance e modified_column r db1) (\<lambda>r db2.
                                  (Inr Duplicate, db2)))) db
                          | None \<Rightarrow>
                              (case find (\<lambda>h. Some (hi_uuid h) = new_uuid
                                            \<and> (case find_instance db (hi_instance h) of None \<Rightarrow> False
                                               | Some r \<Rightarrow> in_form r = fm_id f \<and> in_deleted r = None))
                                      (histories db) of
                                 Some h \<Rightarrow>
                                   (case find_instance db (hi_instance h) of
                                      None \<Rightarrow> (Inl XFormDoesNotExist, db)
                                    | Some r \<Rightarrow>
                                        atomic (\<lambda>db.
                                          and_then (save_attachments e f r ups db) (\<lambda>r db1.
                                          and_then (save_instance e all_columns r db1) (\<lambda>r db2.
                                            (Inr Duplicate, db2)))) db)
                               | None \<Rightarrow>
                                   atomic (\<lambda>db.
                                     and_then
                                       (save_submission e f s ups new_uuid submitted_by status override
                                          (sha256 e s) db)
                                       (\<lambda>r db1. (Inr (Saved r), db1))) db)))))"

text \<open>
  \<open>edit_instance\<close>: an encrypted edit of a form with managed keys edits the given row (not
  in one transaction); every other edit is a submission.
\<close>

definition edit_instance ::
    "env \<Rightarrow> request \<Rightarrow> submission \<Rightarrow> string \<Rightarrow> string \<Rightarrow> upload list \<Rightarrow> string
     \<Rightarrow> db \<Rightarrow> (sub_error + outcome) \<times> db" where
  "edit_instance e q r username s ups status db =
     (case find_form db (in_form r) of
        None \<Rightarrow> (Inl XFormDoesNotExist, db)
      | Some f \<Rightarrow>
          if \<not> may_submit e (Some q) f then (Inl PermissionDenied, db)
          else
            (case check_encrypted_submission e s f of
               Inl err \<Rightarrow> (Inl err, db)
             | Inr _ \<Rightarrow>
                 if check_encrypted e s \<and> was_managed f
                 then
                   (case get_uuid_from_xml (minidom e) s of
                      Inl err \<Rightarrow> (Inl (Parser err), db)
                    | Inr new_uuid \<Rightarrow>
                        if Some (in_uuid r) = new_uuid
                        then and_then
                               (atomic (\<lambda>db.
                                  and_then (save_attachments e f r ups db) (\<lambda>r db1.
                                    save_instance e modified_column r db1)) db)
                               (\<lambda>r db1. (Inl DuplicateInstance, db1))
                        else
                          and_then
                            (edit_row e (r\<lparr>in_media_all_received := False\<rparr>) (in_uuid r) new_uuid
                               (rq_user q) (sha256 e s) s db) (\<lambda>r db1.
                          and_then
                            (save_attachments e f r ups
                               (delete_attachments (in_id r) (\<lambda>a. at_deleted a = None) (now e) db1))
                            (\<lambda>r db2. (Inr (Saved r), send_message r ''submission_edited'' (rq_user q) db2))))
                 else create_instance e (Some q) username s ups status [] None db))"

section \<open>The answer\<close>

datatype response = BadRequest | Forbidden | NotFound | NotAllowed | Conflict | DuplicateResponse

fun status_code :: "response \<Rightarrow> nat" where
  "status_code BadRequest = 400"
| "status_code Forbidden = 403"
| "status_code NotFound = 404"
| "status_code NotAllowed = 405"
| "status_code Conflict = 409"
| "status_code DuplicateResponse = 202"

text \<open>The \<open>except\<close> clauses; an error without one is raised again.\<close>

fun error_response :: "sub_error \<Rightarrow> response option" where
  "error_response InstanceInvalidUserError = Some BadRequest"
| "error_response (Parser InstanceEmptyError) = Some BadRequest"
| "error_response (InstanceEncryptionError m) = Some BadRequest"
| "error_response InstanceFormatError = Some BadRequest"
| "error_response FormInactiveError = Some NotAllowed"
| "error_response FormIsMergedDatasetError = Some NotAllowed"
| "error_response XFormDoesNotExist = Some NotFound"
| "error_response (Parser ExpatError) = Some BadRequest"
| "error_response ParseError = Some BadRequest"
| "error_response (AttachmentNameError n) = Some BadRequest"
| "error_response DuplicateInstance = Some DuplicateResponse"
| "error_response PermissionDenied = Some Forbidden"
| "error_response UnreadablePostError = Some BadRequest"
| "error_response InstanceMultipleNodeError = Some BadRequest"
| "error_response DjangoUnicodeDecodeError = Some BadRequest"
| "error_response NonUniqueFormIdError = Some BadRequest"
| "error_response DataError = Some BadRequest"
| "error_response InstanceEditConflictError = Some Conflict"
| "error_response _ = None"

definition safe_instance_op ::
    "(sub_error + outcome) \<times> db \<Rightarrow> (sub_error + (response option \<times> submission option)) \<times> db" where
  "safe_instance_op res =
     (case res of
        (Inl err, db) \<Rightarrow>
          (case error_response err of
             None \<Rightarrow> (Inl err, db) | Some a \<Rightarrow> (Inr (Some a, None), db))
      | (Inr (Saved r), db) \<Rightarrow> (Inr (None, Some r), db)
      | (Inr Duplicate, db) \<Rightarrow> (Inr (Some DuplicateResponse, None), db))"

definition safe_create_instance where
  "safe_create_instance e req username s ups status uuid db =
     safe_instance_op (create_instance e req username s ups status uuid None db)"

definition safe_edit_instance where
  "safe_edit_instance e q r username s ups status db =
     safe_instance_op (edit_instance e q r username s ups status db)"

section \<open>Edits and creations keep the store sound\<close>

lemma row_error_None:
  assumes "row_error db r = None"
  shows "\<forall>s \<in> set (instances db). in_id s \<noteq> in_id r \<longrightarrow> (in_form s, in_uuid s) \<noteq> (in_form r, in_uuid r)"
    "length (in_uuid r) \<le> 249"
  using assms by (auto simp: row_error_def split: if_splits)

lemma save_all_Inr:
  assumes "save_instance e all_columns r db = (Inr r', db')" "store_ok db" "in_id r \<in> ids db" "fresh_uuid e \<noteq> []"
  shows "store_ok db'" "ids db' = ids db" "r' \<in> set (instances db')" "in_id r' = in_id r"
    "in_form r' = in_form r" "in_xml r' = in_xml r" "in_deleted r' = in_deleted r" "in_uuid r' \<noteq> []"
    "histories db' = histories db"
    "instances db' = map (\<lambda>x. if in_id x = in_id r' then r' else x) (instances db)"
proof -
  note s = save_instance_Inr [OF assms(1)] and p = prepare_Inr [OF save_instance_Inr(1) [OF assms(1)]]
  show i: "instances db' = map (\<lambda>x. if in_id x = in_id r' then r' else x) (instances db)"
    using s(3) p(1) by (simp add: all_columns_def)
  show "in_id r' = in_id r" "in_form r' = in_form r" "in_xml r' = in_xml r" "in_deleted r' = in_deleted r"
    "histories db' = histories db"
    using p s by simp_all
  show u: "in_uuid r' \<noteq> []" using set_uuid_neq_Nil [OF p(13) assms(4)] .
  have mid: "map in_id (instances db') = map in_id (instances db)" unfolding i by simp
  then show ids: "ids db' = ids db" by (simp add: ids_def)
  show "r' \<in> set (instances db')" using assms(3) p(1) unfolding i ids_def by force
  have "distinct (map (\<lambda>r. (in_form r, in_uuid r)) (instances db'))"
    unfolding i using assms(2) row_error_None(1) [OF s(2)]
    by (intro distinct_update_rows) (simp_all add: store_ok_def)
  moreover have "refs db' = refs db" using s(4-6) by (simp add: refs_def del: set_map)
  moreover have "\<forall>x \<in> set (instances db'). in_uuid x \<noteq> []"
    using assms(2) u unfolding i store_ok_def by auto
  ultimately show "store_ok db'" using assms(2) mid ids by (simp add: store_ok_def)
qed

text \<open>A failing save leaves the rows as they are.\<close>

lemma save_Inl:
  assumes "save_instance e columns r db = (Inl err, db')"
  shows "same_content db db'" "refs db' = refs db"
  using save_instance_Inl [OF assms] by (auto simp: same_content_def refs_def simp del: set_map)

lemma pre_save_live_row:
  assumes "store_ok db" "find_instance db (in_id r) = Some x" "in_deleted x = in_deleted r"
  shows "pre_save r db = db"
  using assms by (auto simp: pre_save_def is_soft_deleted_def)

lemma save_all_grows:
  assumes "save_instance e all_columns r db = (res, db')" "in_id r \<in> ids db" "fresh_uuid e \<noteq> []"
    and "\<And>x. x \<in> set (instances db) \<Longrightarrow> in_id x = in_id r \<Longrightarrow> (in_id x, in_xml x) \<in> {(in_id r, in_xml r)} \<union> (\<lambda>h. (hi_instance h, hi_xml h)) ` set (histories db)"
  shows "grows db db'"
proof (cases res)
  case (Inl err)
  from save_Inl [OF assms(1) [unfolded Inl]] show ?thesis by (intro same_content_grows) auto
next
  case (Inr r')
  show ?thesis
    unfolding grows_def
  proof
    assume ok: "store_ok db"
    note s = save_all_Inr [OF assms(1) [unfolded Inr] ok assms(2,3)]
    have "versions db \<subseteq> versions db'"
    proof
      fix v assume "v \<in> versions db"
      then consider (row) x where "x \<in> set (instances db)" "v = (in_id x, in_xml x)"
        | (old) "v \<in> (\<lambda>h. (hi_instance h, hi_xml h)) ` set (histories db)"
        by (auto simp: versions_def)
      then show "v \<in> versions db'"
      proof cases
        case row
        show ?thesis
        proof (cases "in_id x = in_id r")
          case True
          have new: "(in_id r, in_xml r) \<in> versions db'"
            unfolding versions_def s(4) [symmetric] s(6) [symmetric] using s(3) by blast
          have "v = (in_id r, in_xml r) \<or> v \<in> (\<lambda>h. (hi_instance h, hi_xml h)) ` set (histories db)"
            using assms(4) [OF row(1) True] row(2) by blast
          then show ?thesis
          proof
            assume "v = (in_id r, in_xml r)"
            with new show ?thesis by (simp only:)
          qed (simp add: versions_def s(9))
        next
          case False
          then have "x \<in> set (instances db')" using row(1) s(4) unfolding s(10) by force
          with row(2) show ?thesis by (simp add: versions_def)
        qed
      qed (simp add: versions_def s(9))
    qed
    with s(1,2) show "store_ok db' \<and> versions db \<subseteq> versions db' \<and> ids db \<subseteq> ids db'" by simp
  qed
qed

text \<open>The object of a row: its identity and its submission text are those of the row.\<close>

definition of_row :: "db \<Rightarrow> submission \<Rightarrow> bool" where
  "of_row db r \<longleftrightarrow> (\<exists>x \<in> set (instances db). in_id x = in_id r \<and> in_form x = in_form r
     \<and> in_xml x = in_xml r \<and> in_uuid x = in_uuid r \<and> in_deleted x = in_deleted r)"

lemma of_row_find: "find_instance db i = Some r \<Longrightarrow> of_row db r"
  using find_instance_Some by (fastforce simp: of_row_def)

lemma of_row_id: "of_row db r \<Longrightarrow> in_id r \<in> ids db"
  unfolding of_row_def ids_def by (metis image_eqI list.set_map)

lemma of_row_unique:
  assumes "store_ok db" "of_row db r" "x \<in> set (instances db)" "in_id x = in_id r"
  shows "in_xml x = in_xml r" "in_form x = in_form r" "in_uuid x = in_uuid r" "in_deleted x = in_deleted r"
proof -
  obtain y where y: "y \<in> set (instances db)" "in_id y = in_id r" "in_form y = in_form r"
      "in_xml y = in_xml r" "in_uuid y = in_uuid r" "in_deleted y = in_deleted r"
    using assms(2) unfolding of_row_def by blast
  have "x = y" by (rule unique_row [OF assms(1) y(1) assms(3)]) (simp only: assms(4) y(2))
  then show "in_xml x = in_xml r" "in_form x = in_form r" "in_uuid x = in_uuid r" "in_deleted x = in_deleted r"
    by (simp_all only: y)
qed

lemma save_object_grows:
  assumes "save_instance e all_columns r db = (res, db')" "of_row db r" "fresh_uuid e \<noteq> []"
  shows "grows db db'"
proof (cases "store_ok db")
  case True
  show ?thesis
    using of_row_unique(1) [OF True assms(2)] by (intro save_all_grows [OF assms(1) of_row_id [OF assms(2)] assms(3)]) auto
qed (simp add: grows_def)

lemma edit_row_grows:
  assumes "edit_row e r old nu user cs s db = (res, db')" "of_row db r" "fresh_uuid e \<noteq> []"
  shows "grows db db'"
proof (cases "store_ok db")
  case True
  let ?h = "\<lparr>hi_instance = in_id r, hi_uuid = old, hi_xml = in_xml r, hi_checksum = in_checksum r, hi_user = user,
      hi_submission_date = (case in_last_edited r of Some t \<Rightarrow> t | None \<Rightarrow> in_created r)\<rparr>"
  let ?db1 = "db\<lparr>histories := histories db @ [?h]\<rparr>"
  have 1: "grows db ?db1"
    using of_row_id [OF assms(2)] by (auto simp: grows_def store_ok_def refs_def ids_def versions_def)
  show ?thesis
  proof (cases "\<exists>f. find_form db (in_form r) = Some f \<and> may_edit e user f")
    case False
    then have "db' = db" using assms(1) by (auto simp: edit_row_def split: option.splits if_splits)
    then show ?thesis by (simp add: grow.R_refl)
  next
    case True
    then obtain f where f: "find_form db (in_form r) = Some f" "may_edit e user f" by blast
    let ?r = "r\<lparr>in_xml := s, in_last_edited := Some (now e), in_last_edited_by := user,
        in_uuid := (case nu of None \<Rightarrow> [] | Some u \<Rightarrow> u), in_checksum := cs\<rparr>"
    obtain m db2 where m: "save_instance e all_columns ?r ?db1 = (m, db2)" by force
    have hist: "\<And>x. x \<in> set (instances ?db1) \<Longrightarrow> in_id x = in_id ?r \<Longrightarrow>
        (in_id x, in_xml x) \<in> {(in_id ?r, in_xml ?r)} \<union> (\<lambda>h. (hi_instance h, hi_xml h)) ` set (histories ?db1)"
      using of_row_unique(1) [OF \<open>store_ok db\<close> assms(2)] by simp
    have "in_id ?r \<in> ids ?db1" using of_row_id [OF assms(2)] by (simp add: ids_def)
    from save_all_grows [OF m this assms(3) hist] have 2: "grows ?db1 db2" .
    have "db' = db2 \<or> (\<exists>w. db' = db2\<lparr>webhooks := w\<rparr>)"
      using assms(1) f m by (cases m) (auto simp: edit_row_def Let_def)
    then have "grows db2 db'"
      by (elim disjE exE) (auto simp: same_content_def refs_def intro!: same_content_grows)
    with 1 2 show ?thesis by (blast intro: grow.R_trans)
  qed
qed (simp add: grows_def)

lemma of_row_cong: "instances db' = instances db \<Longrightarrow> of_row db' r = of_row db r"
  by (simp add: of_row_def)

lemma of_row_member: "r \<in> set (instances db) \<Longrightarrow> of_row db r"
  by (auto simp: of_row_def)

lemma of_row_same_content:
  assumes "same_content db db'" "of_row db r"
  shows "of_row db' r"
proof -
  obtain x where x: "x \<in> set (instances db)" "in_id x = in_id r" "in_form x = in_form r"
      "in_xml x = in_xml r" "in_uuid x = in_uuid r" "in_deleted x = in_deleted r"
    using assms(2) unfolding of_row_def by blast
  have "content x \<in> set (map content (instances db'))"
    using assms(1) x(1) unfolding same_content_def by (metis image_eqI list.set_map)
  then obtain y where "y \<in> set (instances db')" "content y = content x" by auto
  with x show ?thesis by (auto simp: of_row_def content_def)
qed

lemma row_uuid: "store_ok db \<Longrightarrow> of_row db r \<Longrightarrow> in_uuid r \<noteq> []"
  by (metis of_row_def store_ok_def)

lemma save_attachments_row:
  assumes "save_attachments e f r ups db = (Inr r', db')" "store_ok db" "of_row db r"
  shows "of_row db' r'" "in_uuid r' = in_uuid r" "in_form r' = in_form r" "in_xml r' = in_xml r" "in_id r' = in_id r"
proof -
  note o = save_attachments_object [OF assms(1)]
  show u: "in_uuid r' = in_uuid r" using o(7) row_uuid [OF assms(2,3)] by simp
  show "in_form r' = in_form r" "in_xml r' = in_xml r" "in_id r' = in_id r" using o by simp_all
  have "of_row db' r" by (rule of_row_same_content [OF save_attachments_keeps(1) [OF assms(1)] assms(3)])
  then show "of_row db' r'" unfolding of_row_def o(2-5) u .
qed

lemma save_attachments_grows:
  assumes "save_attachments e f r ups db = (res, db')" "of_row db r"
  shows "grows db db'"
  using save_attachments_keeps [OF assms(1)] of_row_id [OF assms(2)] by (auto intro: same_content_grows)

lemma save_object_row:
  assumes "save_instance e all_columns r db = (Inr r', db')" "store_ok db" "of_row db r" "fresh_uuid e \<noteq> []"
  shows "store_ok db'" "of_row db' r'" "in_uuid r' = in_uuid r" "in_form r' = in_form r" "in_xml r' = in_xml r"
    "in_id r' = in_id r"
proof -
  note s = save_all_Inr [OF assms(1,2) of_row_id [OF assms(3)] assms(4)]
  show "store_ok db'" "in_form r' = in_form r" "in_xml r' = in_xml r" "in_id r' = in_id r" using s by simp_all
  show "of_row db' r'" using s(3) by (rule of_row_member)
  have "set_uuid e r = Inr (in_uuid r')"
    by (rule prepare_Inr(13) [OF save_instance_Inr(1) [OF assms(1)]])
  then show "in_uuid r' = in_uuid r" using row_uuid [OF assms(2,3)] by (simp add: set_uuid_known)
qed

lemma edit_row_row:
  assumes "edit_row e r old nu user cs s db = (Inr r', db')" "store_ok db" "of_row db r" "fresh_uuid e \<noteq> []"
  shows "of_row db' r'" "in_form r' = in_form r" "in_xml r' = s" "in_id r' = in_id r"
    "nu = Some u \<Longrightarrow> u \<noteq> [] \<Longrightarrow> in_uuid r' = u"
proof -
  let ?r = "r\<lparr>in_xml := s, in_last_edited := Some (now e), in_last_edited_by := user,
        in_uuid := (case nu of None \<Rightarrow> [] | Some u \<Rightarrow> u), in_checksum := cs\<rparr>"
  obtain h db2 where m: "save_instance e all_columns ?r (db\<lparr>histories := histories db @ [h]\<rparr>) = (Inr r', db2)"
    and h: "hi_instance h = in_id r" and db': "instances db' = instances db2"
    using assms(1) by (auto simp: edit_row_def Let_def and_then_Inr split: option.splits if_splits)
  have "store_ok (db\<lparr>histories := histories db @ [h]\<rparr>)"
    using assms(2) of_row_id [OF assms(3)] h by (auto simp: store_ok_def refs_def ids_def)
  from save_all_Inr [OF m this _ assms(4)] of_row_id [OF assms(3)]
  have s: "r' \<in> set (instances db2)" "in_id r' = in_id r" "in_form r' = in_form r" "in_xml r' = s"
    by (simp_all add: ids_def)
  then show "of_row db' r'" "in_form r' = in_form r" "in_xml r' = s" "in_id r' = in_id r"
    by (simp_all add: of_row_member db')
  show "nu = Some u \<Longrightarrow> u \<noteq> [] \<Longrightarrow> in_uuid r' = u"
    using prepare_Inr(13) [OF save_instance_Inr(1) [OF m]] by (simp add: set_uuid_def)
qed

lemma next_id_fresh: "next_id db \<notin> ids db"
proof
  assume "next_id db \<in> ids db"
  then have "next_id db \<le> Max (insert 0 (ids db))" by (intro Max_ge) (simp_all add: ids_def)
  then show False by (simp add: next_id_def ids_def)
qed

lemma create_row_row:
  assumes "create_row e s user status f cs db = (Inr r, db')"
  shows "r \<in> set (instances db')" "in_form r = fm_id f" "in_xml r = s" "in_deleted r = None"
    "in_id r = next_id db" "row_error db r = None" "instances db' = instances db @ [r]"
    "histories db' = histories db" "refs db' = refs db" "fresh_uuid e \<noteq> [] \<Longrightarrow> in_uuid r \<noteq> []"
    "get_uuid_from_xml (minidom e) s = Inr (Some u) \<Longrightarrow> s \<noteq> [] \<Longrightarrow> u \<noteq> [] \<Longrightarrow> in_uuid r = u"
proof -
  obtain r0 where p: "prepare e db r0 = Inr r" and r0: "in_id r0 = next_id db" "in_form r0 = fm_id f"
      "in_xml r0 = s" "in_deleted r0 = None" "in_uuid r0 = []"
    and e: "row_error db r = None"
    and db': "db' = start_decryption e r (update_count_create r (db\<lparr>instances := instances db @ [r]\<rparr>))"
    using assms by (auto simp: create_row_def split: sum.splits option.splits)
  note q = prepare_Inr [OF p]
  show i: "instances db' = instances db @ [r]" unfolding db' by simp
  then show "r \<in> set (instances db')" by simp
  show "in_form r = fm_id f" "in_xml r = s" "in_deleted r = None" "in_id r = next_id db" "row_error db r = None"
    using q r0 e by simp_all
  show "histories db' = histories db" "refs db' = refs db" unfolding db' by (simp_all add: refs_def)
  show "fresh_uuid e \<noteq> [] \<Longrightarrow> in_uuid r \<noteq> []" using set_uuid_neq_Nil [OF q(13)] .
  show "get_uuid_from_xml (minidom e) s = Inr (Some u) \<Longrightarrow> s \<noteq> [] \<Longrightarrow> u \<noteq> [] \<Longrightarrow> in_uuid r = u"
    using q(13) r0 by (simp add: set_uuid_def)
qed

lemma create_row_grows:
  assumes "create_row e s user status f cs db = (res, db')" "fresh_uuid e \<noteq> []"
  shows "grows db db'"
proof (cases res)
  case (Inl err)
  then have "db' = db" using assms(1) by (auto simp: create_row_def split: sum.splits option.splits)
  then show ?thesis by (simp add: grow.R_refl)
next
  case (Inr r)
  note c = create_row_row [OF assms(1) [unfolded Inr]]
  have "in_id x \<noteq> in_id r" if "x \<in> set (instances db)" for x
    using next_id_fresh [of db] that unfolding c(5) ids_def by (metis image_eqI list.set_map)
  with row_error_None(1) [OF c(6)]
  have "(in_form r, in_uuid r) \<notin> (\<lambda>r. (in_form r, in_uuid r)) ` set (instances db)" by fastforce
  moreover have "in_id r \<notin> in_id ` set (instances db)" using next_id_fresh [of db] c(5) by (simp add: ids_def)
  ultimately show ?thesis
    using c(9) c(10) [OF assms(2)] unfolding grows_def store_ok_def ids_def versions_def c(7,8) by auto
qed

lemma grows_trans: "grows db db1 \<Longrightarrow> grows db1 db2 \<Longrightarrow> grows db db2"
  by (rule grow.R_trans)

lemma grows_ok: "grows db db' \<Longrightarrow> store_ok db \<Longrightarrow> store_ok db'"
  by (simp add: grows_def)

lemma same_rows_grows:
  "instances db' = instances db \<Longrightarrow> histories db' = histories db \<Longrightarrow> refs db' \<subseteq> ids db \<union> refs db \<Longrightarrow> grows db db'"
  by (rule same_content_grows) (simp_all add: same_content_def)

lemma send_message_grows: "grows db (send_message r v u db)"
  by (rule same_rows_grows) (simp_all add: send_message_def refs_def)

lemma send_message_rows [simp]:
  "instances (send_message r v u db) = instances db" "histories (send_message r v u db) = histories db"
  "refs (send_message r v u db) = refs db" "forms (send_message r v u db) = forms db"
  "attachments (send_message r v u db) = attachments db"
  by (simp_all add: send_message_def refs_def)

text \<open>The result of a step: the store grew, and the object returned is that of a row of the form.\<close>

definition good_step :: "nat \<Rightarrow> db \<Rightarrow> (sub_error + submission) \<times> db \<Rightarrow> bool" where
  "good_step i db m \<longleftrightarrow>
     grows db (snd m) \<and> (\<forall>r. fst m = Inr r \<longrightarrow> of_row (snd m) r \<and> in_form r = i)"

lemma good_step_message:
  assumes "good_step i db m"
  shows "good_step i db (and_then m (\<lambda>r db1. (Inr r, send_message r v u db1)))"
proof (cases m)
  case (Pair res db1)
  show ?thesis
  proof (cases res)
    case (Inr r)
    with assms Pair show ?thesis
      by (auto simp: good_step_def of_row_cong [of "send_message r v u db1" db1]
          intro: grows_trans send_message_grows)
  qed (use assms Pair in \<open>simp add: good_step_def\<close>)
qed

lemma edit_row_good:
  assumes "store_ok db" "of_row db r" "fresh_uuid e \<noteq> []"
  shows "good_step (in_form r) db (edit_row e r old nu user cs s db)"
  using edit_row_grows [OF surjective_pairing assms(2,3)] edit_row_row [OF _ assms]
  by (simp add: good_step_def prod_eq_iff)

lemma new_submission_good:
  assumes "fresh_uuid e \<noteq> []"
  shows "good_step (fm_id f) db (new_submission e s user status f cs db)"
  unfolding new_submission_def
  using create_row_grows [OF surjective_pairing assms] create_row_row(1,2) of_row_member
  by (intro good_step_message) (fastforce simp: good_step_def prod_eq_iff)

lemma instance_of_row:
  assumes "instance_of db i u = Some r"
  shows "r \<in> set (instances db)" "in_form r = i" "u = Some (in_uuid r)"
  using assms by (auto simp: instance_of_def find_Some_iff)

lemma history_of_row:
  assumes "history_of db i u = Some h"
  shows "\<exists>r. find_instance db (hi_instance h) = Some r \<and> in_form r = i" "h \<in> set (histories db)" "u = Some (hi_uuid h)"
  using assms by (auto simp: history_of_def find_Some_iff split: option.splits)

lemma good_step_error: "good_step i db (Inl err, db)"
  by (simp add: good_step_def grow.R_refl)

lemma good_step_same: "of_row db r \<Longrightarrow> in_form r = i \<Longrightarrow> good_step i db (Inr r, send_message r v u db)"
  by (simp add: good_step_def send_message_grows of_row_cong [of "send_message r v u db" db])

lemma handle_edit_conflict_good:
  assumes "store_ok db" "of_row db r" "fresh_uuid e \<noteq> []"
  shows "good_step (in_form r) db (handle_edit_conflict e r old nu user cs s db)"
  using edit_row_good [OF assms] by (simp add: handle_edit_conflict_def good_step_error)

lemma get_instance_good:
  assumes "store_ok db" "fresh_uuid e \<noteq> []"
  shows "good_step (fm_id f) db (get_instance e s nu user status f cs db)"
proof (cases "get_deprecated_uuid_from_xml (minidom e) s")
  case (Inl err)
  then show ?thesis by (simp add: get_instance_def good_step_error)
next
  case (Inr u)
  show ?thesis
  proof (cases "u = None \<or> u = Some []")
    case True
    with Inr new_submission_good [OF assms(2)] show ?thesis by (auto simp: get_instance_def)
  next
    case False
    then obtain old where old: "u = Some old" "old \<noteq> []" by auto
    note d = get_instance_def Inr old Let_def
    show ?thesis
    proof (cases "instance_of db (fm_id f) (Some old)")
      case (Some r)
      note r = instance_of_row [OF Some]
      have "good_step (fm_id f) db (edit_row e r old nu user cs s db)"
        using edit_row_good [OF assms(1) of_row_member [OF r(1)] assms(2)] r(2) by simp
      with Some show ?thesis by (simp add: d good_step_message)
    next
      case None
      note no_row = this
      show ?thesis
      proof (cases "history_of db (fm_id f) nu")
        case (Some h)
        then obtain r where r: "find_instance db (hi_instance h) = Some r" "in_form r = fm_id f"
          using history_of_row(1) by blast
        with Some no_row of_row_find [OF r(1)] show ?thesis by (simp add: d good_step_same)
      next
        case None
        note no_new = this
        show ?thesis
        proof (cases "history_of db (fm_id f) (Some old)")
          case (Some h)
          then obtain r where r: "find_instance db (hi_instance h) = Some r" "in_form r = fm_id f"
            using history_of_row(1) by blast
          have "good_step (fm_id f) db (handle_edit_conflict e r old nu user cs s db)"
            using handle_edit_conflict_good [OF assms(1) of_row_find [OF r(1)] assms(2)] r(2) by simp
          with Some no_row no_new r(1) show ?thesis by (simp add: d good_step_message)
        next
          case None
          with no_row no_new new_submission_good [OF assms(2)] show ?thesis by (simp add: d)
        qed
      qed
    qed
  qed
qed

lemma good_step_then:
  assumes "store_ok db" "good_step i db m"
    and "\<And>r s. m = (Inr r, s) \<Longrightarrow> store_ok s \<Longrightarrow> of_row s r \<Longrightarrow> in_form r = i \<Longrightarrow> good_step i s (k r s)"
  shows "good_step i db (and_then m k)"
proof (cases m)
  case (Pair res s)
  show ?thesis
  proof (cases res)
    case (Inr r)
    have "store_ok s" "of_row s r" "in_form r = i" "grows db s"
      using assms(1,2) Pair Inr grows_ok by (auto simp: good_step_def)
    with assms(3) Pair Inr show ?thesis by (auto simp: good_step_def intro: grows_trans)
  qed (use assms(2) Pair in \<open>simp add: good_step_def\<close>)
qed

lemma save_attachments_good:
  assumes "store_ok db" "of_row db r"
  shows "good_step (in_form r) db (save_attachments e f r ups db)"
  using save_attachments_grows [OF surjective_pairing assms(2)] save_attachments_row(1,3) [OF _ assms]
  by (simp add: good_step_def prod_eq_iff)

lemma save_all_good:
  assumes "store_ok db" "of_row db r" "fresh_uuid e \<noteq> []"
  shows "good_step (in_form r) db (save_instance e all_columns r db)"
  using save_object_grows [OF surjective_pairing assms(2,3)] save_object_row(2,4) [OF _ assms]
  by (simp add: good_step_def prod_eq_iff)

lemma save_date_good:
  assumes "store_ok db" "of_row db r" "fresh_uuid e \<noteq> []"
  shows "good_step (in_form r) db
    (case date of None \<Rightarrow> (Inr r, db) | Some t \<Rightarrow> save_instance e all_columns (r\<lparr>in_created := t\<rparr>) db)"
proof (cases date)
  case None
  with assms(2) show ?thesis by (simp add: good_step_def grow.R_refl)
next
  case (Some t)
  have "of_row db (r\<lparr>in_created := t\<rparr>)" using assms(2) by (simp add: of_row_def)
  from save_all_good [OF assms(1) this assms(3)] Some show ?thesis by simp
qed

lemma add_parsed_row_good: "of_row db r \<Longrightarrow> good_step (in_form r) db (Inr r, add_parsed_row r db)"
proof -
  assume r: "of_row db r"
  have i: "instances (add_parsed_row r db) = instances db" "histories (add_parsed_row r db) = histories db"
    by (simp_all add: add_parsed_row_def)
  have "refs (add_parsed_row r db) \<subseteq> ids db \<union> refs db"
    using of_row_id [OF r] by (auto simp: add_parsed_row_def refs_def)
  from same_rows_grows [OF i this] r show ?thesis by (simp add: good_step_def of_row_cong [OF i(1)])
qed

lemma good_step_at: "good_step (in_form r) db m \<Longrightarrow> in_form r = i \<Longrightarrow> good_step i db m"
  by simp

lemmas good_steps = good_step_at [OF save_attachments_good] good_step_at [OF save_date_good]
  good_step_at [OF save_all_good] good_step_at [OF add_parsed_row_good] good_step_at [OF edit_row_good]

lemma save_submission_good:
  assumes "store_ok db" "fresh_uuid e \<noteq> []"
  shows "good_step (fm_id f) db (save_submission e f s ups nu user status override cs db)"
proof (cases "case override of Some t \<Rightarrow> Inr (Some t)
    | None \<Rightarrow> get_submission_date_from_xml (minidom e) (parse_date e) s")
  case (Inl err)
  then show ?thesis by (simp add: save_submission_def good_step_error)
next
  case (Inr date)
  then have eq: "save_submission e f s ups nu user status override cs db =
      and_then (get_instance e s nu user status f cs db) (\<lambda>r db1.
      and_then (save_attachments e f r ups db1) (\<lambda>r db2.
      and_then (case date of None \<Rightarrow> (Inr r, db2)
                | Some t \<Rightarrow> save_instance e all_columns (r\<lparr>in_created := t\<rparr>) db2) (\<lambda>r db3.
      and_then (save_instance e all_columns r db3) (\<lambda>r db4. (Inr r, add_parsed_row r db4)))))"
    by (simp only: save_submission_def sum.case)
  show ?thesis
    unfolding eq by (intro good_step_then good_steps get_instance_good assms)
qed

lemma create_instance_error:
  assumes "create_instance e req username s ups status uuid override db = (Inl err, db')"
  shows "db' = db"
  using assms unfolding create_instance_def Let_def
  by (auto split: sum.splits option.splits if_splits dest!: atomic_Inl)

lemma create_instance_Saved:
  assumes "create_instance e req username s ups status uuid override db = (Inr (Saved r), db')"
  obtains f nu where "get_xform_from_submission e s (lower username) uuid req db = Inr f"
    "may_submit e req f" "check_encrypted_submission e s f = Inr ()"
    "get_uuid_from_xml (minidom e) s = Inr nu" "instance_of db (fm_id f) nu = None"
    "save_submission e f s ups nu (case req of None \<Rightarrow> None | Some q \<Rightarrow> rq_user q) status override (sha256 e s) db
       = (Inr r, db')"
  using assms unfolding create_instance_def Let_def
  by (auto simp: atomic_Inr and_then_Inr split: sum.splits option.splits if_splits)

text \<open>The two branches for duplicates.\<close>

lemma create_instance_Duplicate:
  assumes "create_instance e req username s ups status uuid override db = (Inr Duplicate, db')"
  obtains f nu r r1 r2 db1 columns where "get_xform_from_submission e s (lower username) uuid req db = Inr f"
    "get_uuid_from_xml (minidom e) s = Inr nu" "r \<in> set (instances db)" "in_form r = fm_id f"
    "save_attachments e f r ups db = (Inr r1, db1)" "save_instance e columns r1 db1 = (Inr r2, db')"
    "columns = modified_column \<or> columns = all_columns"
proof -
  let ?thesis' = "\<exists>f nu r r1 r2 db1 columns. get_xform_from_submission e s (lower username) uuid req db = Inr f
    \<and> get_uuid_from_xml (minidom e) s = Inr nu \<and> r \<in> set (instances db) \<and> in_form r = fm_id f
    \<and> save_attachments e f r ups db = (Inr r1, db1) \<and> save_instance e columns r1 db1 = (Inr r2, db')
    \<and> (columns = modified_column \<or> columns = all_columns)"
  obtain f where f: "get_xform_from_submission e s (lower username) uuid req db = Inr f"
    using assms by (auto simp: create_instance_def Let_def split: sum.splits)
  obtain nu where nu: "get_uuid_from_xml (minidom e) s = Inr nu"
    using assms f by (auto simp: create_instance_def Let_def split: sum.splits if_splits)
  have "?thesis'"
  proof (cases "instance_of db (fm_id f) nu")
    case (Some r)
    with assms f nu obtain r1 r2 db1 where "save_attachments e f r ups db = (Inr r1, db1)"
        "save_instance e modified_column r1 db1 = (Inr r2, db')"
      by (auto simp: create_instance_def Let_def atomic_Inr and_then_Inr split: sum.splits if_splits)
    with f nu instance_of_row [OF Some] show ?thesis by blast
  next
    case None
    let ?h = "find (\<lambda>h. Some (hi_uuid h) = nu \<and> (case find_instance db (hi_instance h) of None \<Rightarrow> False
        | Some r \<Rightarrow> in_form r = fm_id f \<and> in_deleted r = None)) (histories db)"
    show ?thesis
    proof (cases ?h)
      case None
      with assms f nu \<open>instance_of db (fm_id f) nu = None\<close> show ?thesis
        by (auto simp: create_instance_def Let_def atomic_Inr and_then_Inr split: sum.splits if_splits)
    next
      case (Some h)
      then obtain r where r: "find_instance db (hi_instance h) = Some r" "in_form r = fm_id f"
        by (auto simp: find_Some_iff split: option.splits)
      with assms f nu Some \<open>instance_of db (fm_id f) nu = None\<close>
      obtain r1 r2 db1 where "save_attachments e f r ups db = (Inr r1, db1)"
          "save_instance e all_columns r1 db1 = (Inr r2, db')"
        by (auto simp: create_instance_def Let_def atomic_Inr and_then_Inr split: sum.splits if_splits)
      with f nu r find_instance_Some(1) [OF r(1)] show ?thesis by blast
    qed
  qed
  with that show ?thesis by blast
qed

text \<open>Saving an object that has the content of its row.\<close>

lemma save_same_content:
  assumes "save_instance e columns r1 db1 = (res, db2)" "columns = modified_column \<or> columns = all_columns"
    and "store_ok db1" "r \<in> set (instances db)" "same_content db db1" "content r1 = content r"
  shows "same_content db1 db2" "refs db2 = refs db1"
proof -
  have row: "content (columns r' x) = content x"
    if p: "prepare e db1 r1 = Inr r'" and x: "x \<in> set (instances db1)" "in_id x = in_id r1" for r' x
  proof -
    have "content r \<in> set (map content (instances db1))"
      using assms(4,5) unfolding same_content_def by (metis image_eqI list.set_map)
    then obtain y where y: "y \<in> set (instances db1)" "content y = content r" by auto
    with x assms(6) have "in_id x = in_id y" by (simp add: content_def)
    with unique_row [OF assms(3) y(1) x(1)] have "x = y" .
    with y assms(6) have c: "content x = content r1" by simp
    have "in_uuid r1 \<noteq> []" using assms(3) x(1) c by (auto simp: store_ok_def content_def)
    then have "content r' = content r1" using prepare_Inr [OF p] by (simp add: content_def set_uuid_known)
    with c assms(2) columns_content(2) show ?thesis by (auto simp: all_columns_def)
  qed
  from save_instance_keeps [OF assms(1) row] show "same_content db1 db2" "refs db2 = refs db1" by blast+
qed

lemma duplicate_same_content:
  assumes "create_instance e req username s ups status uuid override db = (Inr Duplicate, db')" "store_ok db"
  shows "same_content db db'" "refs db' \<subseteq> ids db \<union> refs db"
proof -
  from assms(1) obtain f r r1 r2 db1 columns where r: "r \<in> set (instances db)"
    and a: "save_attachments e f r ups db = (Inr r1, db1)"
    and b: "save_instance e columns r1 db1 = (Inr r2, db')" "columns = modified_column \<or> columns = all_columns"
    by (rule create_instance_Duplicate) blast
  note k = save_attachments_keeps [OF a]
  have ok: "store_ok db1"
    using save_attachments_grows [OF a of_row_member [OF r]] assms(2) by (rule grows_ok)
  have "in_uuid r \<noteq> []" using assms(2) r by (simp add: store_ok_def)
  then have "content r1 = content r" using save_attachments_object(1) [OF a] by simp
  note c = save_same_content [OF b ok r k(1) this]
  show "same_content db db'" using k(1) c(1) by (rule same_content_trans)
  have "in_id r \<in> ids db" using r by (simp add: ids_def)
  with k(2) c(2) show "refs db' \<subseteq> ids db \<union> refs db" by auto
qed

lemma create_instance_grows:
  assumes "create_instance e req username s ups status uuid override db = (res, db')" "fresh_uuid e \<noteq> []"
  shows "grows db db'"
proof (cases "store_ok db")
  case True
  show ?thesis
  proof (cases res)
    case (Inl err)
    with assms(1) create_instance_error have "db' = db" by blast
    then show ?thesis by (simp add: grow.R_refl)
  next
    case (Inr out)
    show ?thesis
    proof (cases out)
      case (Saved r)
      with assms(1) Inr obtain f nu u where
        "save_submission e f s ups nu u status override (sha256 e s) db = (Inr r, db')"
        using create_instance_Saved by (metis (no_types))
      with save_submission_good [OF True assms(2)] show ?thesis by (metis good_step_def snd_conv)
    next
      case Duplicate
      with assms(1) Inr duplicate_same_content [OF _ True] show ?thesis by (blast intro: same_content_grows)
    qed
  qed
qed (simp add: grows_def)

lemma delete_attachments_grows: "grows db (delete_attachments i P t db)"
  by (rule same_rows_grows) (simp_all add: refs_def del: set_map)

lemma good_step_grows: "good_step i db m \<Longrightarrow> m = (res, db') \<Longrightarrow> grows db db'"
  by (simp add: good_step_def)

lemma set_deleted_grows:
  assumes "set_deleted e t user r db = (res, db')" "of_row db r" "fresh_uuid e \<noteq> []"
  shows "grows db db'"
proof (cases "find_form db (in_form r)")
  case None
  with assms(1) show ?thesis by (simp add: set_deleted_def grow.R_refl)
next
  case (Some f)
  let ?r = "r\<lparr>in_deleted_by := if user \<noteq> None then user else in_deleted_by r, in_deleted := Some t\<rparr>"
  obtain m db1 where m: "save_instance e all_columns ?r db = (m, db1)" by force
  have 1: "grows db db1"
  proof (cases "store_ok db")
    case True
    have id: "in_id ?r \<in> ids db" using of_row_id [OF assms(2)] by simp
    show ?thesis
      using of_row_unique(1) [OF True assms(2)] by (intro save_all_grows [OF m id assms(3)]) simp
  qed (simp add: grows_def)
  have "grows db1 (force_count i n db1)" for i n
    by (rule same_rows_grows) (auto simp: force_count_def refs_def simp del: set_map)
  moreover have "db' = db1 \<or> (\<exists>i n. db' = force_count i n db1)"
    using assms(1) Some m by (cases m) (auto simp: set_deleted_def)
  ultimately show ?thesis using 1 by (auto intro: grows_trans)
qed

lemma edit_instance_cases:
  assumes "edit_instance e q r username s ups status db = (res, db')"
  obtains (refused) err where "res = Inl err" "db' = db"
  | (plain) "create_instance e (Some q) username s ups status [] None db = (res, db')"
  | (again) f m where "find_form db (in_form r) = Some f" "res = Inl DuplicateInstance \<or> db' = db"
      "atomic (\<lambda>db. and_then (save_attachments e f r ups db) (\<lambda>r db1. save_instance e modified_column r db1)) db
         = (m, db')"
  | (edit) f nu m where "find_form db (in_form r) = Some f" "check_encrypted e s" "was_managed f"
      "get_uuid_from_xml (minidom e) s = Inr nu" "nu \<noteq> Some (in_uuid r)"
      "and_then (edit_row e (r\<lparr>in_media_all_received := False\<rparr>) (in_uuid r) nu (rq_user q) (sha256 e s) s db) (\<lambda>r db1.
         and_then (save_attachments e f r ups (delete_attachments (in_id r) (\<lambda>a. at_deleted a = None) (now e) db1))
           (\<lambda>r db2. (Inr r, send_message r ''submission_edited'' (rq_user q) db2))) = (m, db')"
      "res = map_sum id Saved m"
proof (cases "find_form db (in_form r)")
  case None
  with assms have "res = Inl XFormDoesNotExist" "db' = db" by (simp_all add: edit_instance_def)
  then show ?thesis by (rule refused)
next
  case (Some f)
  show ?thesis
  proof (cases "may_submit e (Some q) f \<and> check_encrypted_submission e s f = Inr () \<and> check_encrypted e s \<and> was_managed f")
    case False
    with assms Some refused plain show ?thesis
      by (auto simp: edit_instance_def split: if_splits sum.splits)
  next
    case True
    show ?thesis
    proof (cases "get_uuid_from_xml (minidom e) s")
      case (Inl err)
      with assms Some True have "res = Inl (Parser err)" "db' = db" by (simp_all add: edit_instance_def)
      then show ?thesis by (rule refused)
    next
      case (Inr nu)
      show ?thesis
      proof (cases "nu = Some (in_uuid r)")
        case dup: True
        let ?m = "atomic (\<lambda>db. and_then (save_attachments e f r ups db) (\<lambda>r db1. save_instance e modified_column r db1)) db"
        have eq: "and_then ?m (\<lambda>r db1. (Inl DuplicateInstance, db1)) = (res, db')"
          using assms Some True Inr dup by (simp add: edit_instance_def)
        have "?m = (fst ?m, db') \<and> (res = Inl DuplicateInstance \<or> db' = db)"
          using eq atomic_Inl [of "\<lambda>db. and_then (save_attachments e f r ups db) (\<lambda>r db1. save_instance e modified_column r db1)" db]
          by (auto simp: and_then_def split: prod.splits sum.splits)
        with again [OF Some] show ?thesis by blast
      next
        case fresh: False
        let ?e = "edit_row e (r\<lparr>in_media_all_received := False\<rparr>) (in_uuid r) nu (rq_user q) (sha256 e s) s db"
        let ?s = "\<lambda>r db1. save_attachments e f r ups (delete_attachments (in_id r) (\<lambda>a. at_deleted a = None) (now e) db1)"
        let ?m = "and_then ?e (\<lambda>r db1. and_then (?s r db1) (\<lambda>r db2. (Inr r, send_message r ''submission_edited'' (rq_user q) db2)))"
        have "and_then ?e (\<lambda>r db1. and_then (?s r db1) (\<lambda>r db2. (Inr (Saved r), send_message r ''submission_edited'' (rq_user q) db2))) = (res, db')"
          using assms Some True Inr fresh by (simp add: edit_instance_def)
        then have "?m = (fst ?m, db') \<and> res = map_sum id Saved (fst ?m)"
          by (auto simp: and_then_def split: prod.splits sum.splits)
        with edit [OF Some _ _ Inr] fresh True show ?thesis by blast
      qed
    qed
  qed
qed

lemma save_modified_grows:
  assumes "save_instance e modified_column r db = (res, db')"
  shows "grows db db'"
  using save_columns_keep [OF assms] by (intro same_content_grows) auto

lemma of_row_grown:
  assumes "grows db db1" "store_ok db" "of_row db r" "same_content db db1"
  shows "of_row db1 r"
  using assms(3,4) by (rule of_row_same_content [rotated])

lemma edit_instance_grows:
  assumes "edit_instance e q r username s ups status db = (res, db')" "of_row db r" "fresh_uuid e \<noteq> []"
  shows "grows db db'"
proof (cases "store_ok db")
  case True
  from assms(1) show ?thesis
  proof (cases rule: edit_instance_cases)
    case refused
    then show ?thesis by (simp add: grow.R_refl)
  next
    case plain
    then show ?thesis using assms(3) by (rule create_instance_grows)
  next
    case (again f m)
    show ?thesis
    proof (rule grow.atomic_R [OF again(3)])
      fix a db1
      assume "and_then (save_attachments e f r ups db) (\<lambda>r. save_instance e modified_column r) = (Inr a, db1)"
      then show "grows db db1"
        using save_attachments_grows [OF surjective_pairing assms(2)] save_modified_grows [OF surjective_pairing]
        by (rule grow.and_then_R)
    qed
  next
    case (edit f nu m)
    let ?e = "edit_row e (r\<lparr>in_media_all_received := False\<rparr>) (in_uuid r) nu (rq_user q) (sha256 e s) s db"
    have row: "of_row db (r\<lparr>in_media_all_received := False\<rparr>)" using assms(2) by (simp add: of_row_def)
    have "good_step (in_form r) db (and_then ?e (\<lambda>r db1.
         and_then (save_attachments e f r ups (delete_attachments (in_id r) (\<lambda>a. at_deleted a = None) (now e) db1))
           (\<lambda>r db2. (Inr r, send_message r ''submission_edited'' (rq_user q) db2))))"
    proof (rule good_step_then [OF True])
      show "good_step (in_form r) db ?e"
        using edit_row_good [OF True row assms(3)] by simp
    next
      fix r1 s1
      assume 1: "store_ok s1" "of_row s1 r1" "in_form r1 = in_form r"
      let ?s2 = "delete_attachments (in_id r1) (\<lambda>a. at_deleted a = None) (now e) s1"
      have g: "grows s1 ?s2" by (rule delete_attachments_grows)
      have "store_ok ?s2" using g 1(1) by (rule grows_ok)
      moreover have "of_row ?s2 r1" using 1(2) by (simp add: of_row_def)
      ultimately have "good_step (in_form r) ?s2 (save_attachments e f r1 ups ?s2)"
        using 1(3) by (intro good_steps)
      then have "good_step (in_form r) ?s2 (and_then (save_attachments e f r1 ups ?s2)
          (\<lambda>r db2. (Inr r, send_message r ''submission_edited'' (rq_user q) db2)))"
        by (rule good_step_message)
      with g show "good_step (in_form r) s1 (and_then (save_attachments e f r1 ups ?s2)
          (\<lambda>r db2. (Inr r, send_message r ''submission_edited'' (rq_user q) db2)))"
        by (auto simp: good_step_def intro: grows_trans)
    qed
    from good_step_grows [OF this edit(6)] show ?thesis .
  qed
qed (simp add: grows_def)

section \<open>The life of a store\<close>

text \<open>
  The requests that change the store: a submission, an edit of a row, a deletion.  The
  \<open>uuid4\<close> strings are not empty.
\<close>

inductive store_step :: "db \<Rightarrow> db \<Rightarrow> bool" where
  submit: "fresh_uuid e \<noteq> [] \<Longrightarrow>
     create_instance e req username s ups status uuid override db = (res, db') \<Longrightarrow> store_step db db'"
| edit: "fresh_uuid e \<noteq> [] \<Longrightarrow> find_instance db i = Some r \<Longrightarrow>
     edit_instance e q r username s ups status db = (res, db') \<Longrightarrow> store_step db db'"
| delete: "fresh_uuid e \<noteq> [] \<Longrightarrow> find_instance db i = Some r \<Longrightarrow>
     set_deleted e t user r db = (done, db') \<Longrightarrow> store_step db db'"

inductive store_reach :: "db \<Rightarrow> db \<Rightarrow> bool" where
  start: "store_reach db db"
| later: "store_reach db db1 \<Longrightarrow> store_step db1 db2 \<Longrightarrow> store_reach db db2"

lemma store_step_grows: "store_step db db' \<Longrightarrow> grows db db'"
  by (induction rule: store_step.induct)
    (auto intro: create_instance_grows edit_instance_grows set_deleted_grows of_row_find)

lemma store_reach_grows: "store_reach db db' \<Longrightarrow> grows db db'"
proof (induction rule: store_reach.induct)
  case (later db db1 db2)
  from later.IH store_step_grows [OF later.hyps(2)] show ?case by (rule grows_trans)
qed (simp add: grow.R_refl)

section \<open>Concrete submissions\<close>

definition sample_env :: "string \<Rightarrow> env" where
  "sample_env strategy = \<lparr>
     minidom = (\<lambda>s. if s = ''new'' then Some [Elem ''data'' [(''id'', ''f'')]
                        [Elem ''meta'' [] [Elem ''instanceID'' [] [Text ''uuid:u1'']], Elem ''q'' [] [Text ''1'']]]
                    else if s = ''edit'' then Some [Elem ''data'' [(''id'', ''f'')]
                        [Elem ''meta'' [] [Elem ''instanceID'' [] [Text ''uuid:u2''], Elem ''deprecatedID'' [] [Text ''uuid:u1'']],
                         Elem ''q'' [] [Text ''2'']]]
                    else if s = ''late'' then Some [Elem ''data'' [(''id'', ''f'')]
                        [Elem ''meta'' [] [Elem ''instanceID'' [] [Text ''uuid:u3''], Elem ''deprecatedID'' [] [Text ''uuid:u1'']],
                         Elem ''q'' [] [Text ''3'']]]
                    else None),
     etree = (\<lambda>s. Some ([(''id'', ''f'')], [''meta'', ''q''])),
     parse_date = (\<lambda>_. 0), sha256 = (\<lambda>s. s), fresh_uuid = ''x'', now = 100,
     has_perm = (\<lambda>_ _ _. True), conflict_resolution = strategy, key_not_found_accept = True,
     auto_decrypt = False\<rparr>"

definition sample_form :: form where
  "sample_form = \<lparr>fm_id = 1, fm_uuid = ''fu'', fm_id_string = ''f'', fm_owner = ''ann'', fm_deleted = False,
     fm_encrypted = False, fm_managed = False, fm_keys = [], fm_require_auth = False,
     fm_profile_require_auth = False, fm_downloadable = True, fm_merged = False, fm_version = None,
     fm_osm = False, fm_repeats = [], fm_media_xpaths = [''photo''], fm_num_of_submissions = 0,
     fm_last_submission_time = None\<rparr>"

definition sample_db :: db where
  "sample_db = \<lparr>forms = [sample_form], profiles = [(''ann'', 0)], instances = [], histories = [],
     attachments = [], parsed_rows = [], messages = [], webhooks = [], decrypt_tasks = []\<rparr>"

definition submit_sample :: "string \<Rightarrow> string \<Rightarrow> db \<Rightarrow> (sub_error + outcome) \<times> db" where
  "submit_sample strategy s db =
     create_instance (sample_env strategy) None ''ann'' s [] ''submitted_via_web'' [] None db"

lemma sample_ok: "store_ok sample_db"
  by (simp add: store_ok_def sample_db_def refs_def)

lemma sample_step: "store_step db (snd (submit_sample strategy s db))"
  by (rule store_step.submit [of "sample_env strategy" None "''ann''" s "[]" "''submitted_via_web''" "[]" None db])
    (simp_all add: sample_env_def submit_sample_def prod_eq_iff)

definition saved :: "(sub_error + outcome) \<times> db \<Rightarrow> bool" where
  "saved m = (case fst m of Inr (Saved r) \<Rightarrow> True | _ \<Rightarrow> False)"

lemma saved_result: "saved m \<Longrightarrow> \<exists>r. m = (Inr (Saved r), snd m)"
  by (cases m) (auto simp: saved_def split: sum.splits outcome.splits)

definition sample_db1 :: db where "sample_db1 = snd (submit_sample ''reject'' ''new'' sample_db)"
definition sample_db2 :: db where "sample_db2 = snd (submit_sample ''reject'' ''edit'' sample_db1)"

lemma sample_reach: "store_reach sample_db sample_db2"
  unfolding sample_db2_def sample_db1_def
  by (rule store_reach.later [OF store_reach.later [OF store_reach.start sample_step] sample_step])

section \<open>Properties of the submission store\<close>

text \<open>C18: Whatever submissions, edits and deletions arrive, in any order and however they end, a
  sound store stays sound (unique ids, one submission per form and uuid, no dangling attachment,
  history or parsed row), no submission row disappears, and no version of a submission's text is
  ever lost: it is the current text of its row or stands in the row's history.\<close>

theorem store_stays_sound:
  assumes "store_reach db db'" "store_ok db"
  shows "store_ok db' \<and> versions db \<subseteq> versions db' \<and> ids db \<subseteq> ids db'"
  using store_reach_grows [OF assms(1)] assms(2) by (simp add: grows_def)

theorem store_stays_sound_witness:
  "store_ok sample_db2 \<and> versions sample_db1 \<subseteq> versions sample_db2 \<and> (1, ''new'') \<in> versions sample_db2"
proof -
  have ok: "store_ok sample_db1"
    using store_stays_sound [OF store_reach.later [OF store_reach.start sample_step] sample_ok]
    by (simp add: sample_db1_def)
  have "store_reach sample_db1 sample_db2"
    unfolding sample_db2_def by (rule store_reach.later [OF store_reach.start sample_step])
  from store_stays_sound [OF this ok]
  have "store_ok sample_db2" "versions sample_db1 \<subseteq> versions sample_db2" by simp_all
  moreover have "list_ex (\<lambda>r. in_id r = 1 \<and> in_xml r = ''new'') (instances sample_db1)"
    by code_simp
  then have "(1, ''new'') \<in> versions sample_db1" unfolding list_ex_iff versions_def by force
  ultimately show ?thesis by blast
qed

text \<open>C19: Submitting again is harmless: if the form already has a submission with the uuid of
  the text sent, no request with it is saved as a new submission; the answer is a duplicate or an
  error, no row is added, and the texts, uuids, deletions and history of all submissions stay.\<close>

theorem resubmission_changes_nothing:
  assumes "store_ok db" "r \<in> set (instances db)" "in_form r = fm_id f"
    and "get_xform_from_submission e s (lower username) uuid req db = Inr f"
    and "get_uuid_from_xml (minidom e) s = Inr (Some (in_uuid r))"
    and "create_instance e req username s ups status uuid override db = (res, db')"
  shows "(\<forall>r'. res \<noteq> Inr (Saved r')) \<and> map content (instances db') = map content (instances db)
    \<and> histories db' = histories db"
proof -
  have known: "instance_of db (fm_id f) (Some (in_uuid r)) \<noteq> None"
    using assms(2,3) by (auto simp: instance_of_def find_None_iff)
  have new: "res \<noteq> Inr (Saved r')" for r'
  proof
    assume "res = Inr (Saved r')"
    with assms(6) have "create_instance e req username s ups status uuid override db = (Inr (Saved r'), db')"
      by simp
    then show False
      by (rule create_instance_Saved) (use assms(4,5) known in auto)
  qed
  have "same_content db db'"
  proof (cases res)
    case (Inl err)
    with assms(6) have "db' = db" by (auto dest: create_instance_error)
    then show ?thesis by simp
  next
    case (Inr out)
    with new have "out = Duplicate" by (cases out) auto
    with Inr assms(6) duplicate_same_content(1) [OF _ assms(1)] show ?thesis by blast
  qed
  with new show ?thesis by (simp add: same_content_def)
qed

theorem resubmission_changes_nothing_witness:
  "histories (snd (submit_sample ''reject'' ''new'' sample_db1)) = histories sample_db1 \<and>
   map content (instances (snd (submit_sample ''reject'' ''new'' sample_db1))) = map content (instances sample_db1)"
proof -
  have ok: "store_ok sample_db1"
    using store_reach_grows [OF store_reach.later [OF store_reach.start sample_step]] sample_ok
    by (simp add: grows_def sample_db1_def)
  have "list_ex (\<lambda>r. in_form r = 1 \<and> in_uuid r = ''u1'') (instances sample_db1)" by code_simp
  then obtain r where r: "r \<in> set (instances sample_db1)" "in_form r = 1" "in_uuid r = ''u1''"
    by (auto simp: list_ex_iff)
  have form: "case get_xform_from_submission (sample_env ''reject'') ''new'' (lower ''ann'') [] None sample_db1 of
      Inl _ \<Rightarrow> False | Inr f \<Rightarrow> fm_id f = 1" by code_simp
  then obtain f where f: "get_xform_from_submission (sample_env ''reject'') ''new'' (lower ''ann'') [] None sample_db1 = Inr f"
      "fm_id f = 1" by (auto split: sum.splits)
  have "get_uuid_from_xml (minidom (sample_env ''reject'')) ''new'' = Inr (Some ''u1'')" by code_simp
  then have "get_uuid_from_xml (minidom (sample_env ''reject'')) ''new'' = Inr (Some (in_uuid r))"
    using r(3) by simp
  from resubmission_changes_nothing [OF ok r(1) _ f(1) this] r(2) f(2)
  show ?thesis by (simp add: submit_sample_def prod_eq_iff)
qed

text \<open>C20: A submission that is refused, for whatever reason, leaves no trace: the store is as
  before whenever the client gets a status of 400 or more or the request fails, also where the
  refusal comes after rows were written (a bad attachment, a conflicting edit, a form that takes no
  data); and a row is returned exactly when there is no error.\<close>

theorem refused_submission_leaves_no_trace:
  "case safe_create_instance e req username s ups status uuid db of
     (Inl err, db') \<Rightarrow> db' = db
   | (Inr (answer, row), db') \<Rightarrow>
       (answer = None \<longleftrightarrow> row \<noteq> None) \<and> ((\<exists>a. answer = Some a \<and> 400 \<le> status_code a) \<longrightarrow> db' = db)"
proof -
  obtain res db' where m: "create_instance e req username s ups status uuid None db = (res, db')" by force
  show ?thesis
  proof (cases res)
    case (Inl err)
    with m have "db' = db" by (auto dest: create_instance_error)
    with m Inl show ?thesis
      by (simp add: safe_create_instance_def safe_instance_op_def split: option.splits)
  next
    case (Inr out)
    with m show ?thesis
      by (cases out) (simp_all add: safe_create_instance_def safe_instance_op_def)
  qed
qed

theorem refused_submission_leaves_no_trace_witness:
  "snd (safe_create_instance (sample_env ''reject'') None ''ann'' ''late'' [] ''submitted_via_web'' [] sample_db2)
     = sample_db2"
proof -
  let ?m = "safe_create_instance (sample_env ''reject'') None ''ann'' ''late'' [] ''submitted_via_web'' [] sample_db2"
  have "case fst ?m of Inl _ \<Rightarrow> False | Inr (answer, row) \<Rightarrow> answer = Some Conflict"
    by code_simp
  then show ?thesis
    using refused_submission_leaves_no_trace [where e = "sample_env ''reject''" and req = None
        and username = "''ann''" and s = "''late''" and ups = "[]" and status = "''submitted_via_web''"
        and uuid = "[]" and db = sample_db2]
    by (auto split: sum.splits prod.splits)
qed

end
