(* ===== verification/Submission_Limits.thy ===== *)
theory Submission_Limits
  imports Submission
begin

text \<open>
  More on receiving submissions: which submissions are accepted, and three places where the
  bookkeeping of \<open>logger_tools.py\<close> goes wrong (the uuid of an overwritten edit, the
  submission counter of a form that meets its first OSM file, the media count after an edit of an
  encrypted submission).
\<close>

section \<open>Overwritten edits\<close>

lemma find_map_none:
  "(\<forall>x \<in> set xs. \<not> P (h x)) \<Longrightarrow> find P (map h xs) = None"
  by (auto simp: find_None_iff)

lemma other_uuid:
  assumes "store_ok db" "x \<in> set (instances db)" "r \<in> set (instances db)" "in_form x = in_form r" "in_id x \<noteq> in_id r"
  shows "in_uuid x \<noteq> in_uuid r"
proof
  assume "in_uuid x = in_uuid r"
  with assms(4) have "(in_form x, in_uuid x) = (in_form r, in_uuid r)" by simp
  with assms(1-3) have "x = r" by (auto simp: store_ok_def distinct_map inj_on_def)
  with assms(5) show False by simp
qed

lemma edit_row_tables:
  assumes "edit_row e r old nu user cs s db = (Inr r', db')" "store_ok db" "of_row db r" "fresh_uuid e \<noteq> []"
  obtains h where "instances db' = map (\<lambda>x. if in_id x = in_id r' then r' else x) (instances db)"
    "histories db' = histories db @ [h]" "hi_uuid h = old" "hi_instance h = in_id r"
proof -
  obtain r0 h db2 where m: "save_instance e all_columns r0 (db\<lparr>histories := histories db @ [h]\<rparr>) = (Inr r', db2)"
    and h: "hi_instance h = in_id r" "hi_uuid h = old" and r0: "in_id r0 = in_id r"
    and db': "instances db' = instances db2" "histories db' = histories db2"
    using assms(1) by (auto simp: edit_row_def Let_def and_then_Inr split: option.splits if_splits)
  have "store_ok (db\<lparr>histories := histories db @ [h]\<rparr>)"
    using assms(2) of_row_id [OF assms(3)] h by (auto simp: store_ok_def refs_def ids_def)
  from save_all_Inr(9,10) [OF m this _ assms(4)] of_row_id [OF assms(3)] r0
  show ?thesis by (intro that [of h]) (simp_all add: ids_def db' h)
qed

text \<open>An edit of a row adds to the history of its form only the entry of the edit.\<close>

lemma history_of_edited:
  assumes "store_ok db" "instances db' = map (\<lambda>x. if in_id x = in_id r' then r' else x) (instances db)"
    and "histories db' = histories db @ [h]" "r \<in> set (instances db)" "in_id r' = in_id r" "in_form r' = in_form r"
    and "hi_uuid h \<noteq> u" "history_of db i (Some u) = None"
  shows "history_of db' i (Some u) = None"
proof -
  have same: "\<exists>y. find_instance db j = Some y \<and> in_form y = i"
    if "find_instance db' j = Some x" "in_form x = i" for j x
  proof -
    have "\<exists>y \<in> set (instances db). in_id y = j \<and> in_form y = i"
      using find_instance_Some(1,2) [OF that(1)] that(2) assms(4-6) unfolding assms(2) by (auto split: if_splits)
    then obtain y where "y \<in> set (instances db)" "in_id y = j" "in_form y = i" by blast
    with find_instance_id [OF assms(1) this(1)] show ?thesis by simp
  qed
  have "\<not> (\<exists>y. find_instance db (hi_instance k) = Some y \<and> in_form y = i)"
    if "k \<in> set (histories db)" "hi_uuid k = u" for k
    using assms(8) that unfolding history_of_def find_None_iff by (auto split: option.splits)
  with same assms(7) show ?thesis
    unfolding history_of_def assms(3) find_None_iff by (auto split: option.splits)
qed

text \<open>Under \<open>last_write_wins\<close> a conflicting edit is filed in the history under the uuid it
  names as deprecated, not under the uuid it replaces: the replaced uuid is then known neither as a
  submission nor in the history of the form, so that a repetition of the overwritten edit is not
  recognised as a duplicate, and an edit based on it becomes a new submission.\<close>

theorem last_write_wins_forgets_uuid:
  assumes "store_ok db" "fresh_uuid e \<noteq> []" "conflict_resolution e = ''last_write_wins''"
    and "get_deprecated_uuid_from_xml (minidom e) s = Inr (Some old)" "old \<noteq> []" "new \<noteq> []"
    and "instance_of db (fm_id f) (Some old) = None" "history_of db (fm_id f) (Some new) = None"
    and "history_of db (fm_id f) (Some old) = Some h" "find_instance db (hi_instance h) = Some r"
    and "history_of db (fm_id f) (Some (in_uuid r)) = None" "new \<noteq> in_uuid r"
    and "get_instance e s (Some new) user status f cs db = (Inr r', db')"
  shows "instance_of db' (fm_id f) (Some (in_uuid r)) = None
    \<and> history_of db' (fm_id f) (Some (in_uuid r)) = None"
proof -
  have row: "of_row db r" using assms(10) by (rule of_row_find)
  have rf: "r \<in> set (instances db)" "in_form r = fm_id f"
    using find_instance_Some(1) [OF assms(10)] history_of_row(1) [OF assms(9)] assms(10) by auto
  from assms(3-5,7-10,13) obtain db1 where edit: "edit_row e r old (Some new) user cs s db = (Inr r', db1)"
    and db': "instances db' = instances db1" "histories db' = histories db1"
    by (auto simp: get_instance_def handle_edit_conflict_def and_then_Inr Let_def)
  obtain k where t: "instances db1 = map (\<lambda>x. if in_id x = in_id r' then r' else x) (instances db)"
      "histories db1 = histories db @ [k]" "hi_uuid k = old"
    using edit_row_tables [OF edit assms(1) row assms(2)] by blast
  have r': "in_id r' = in_id r" "in_form r' = in_form r" "in_uuid r' = new"
    using edit_row_row [OF edit assms(1) row assms(2)] assms(6) by simp_all
  have "old \<noteq> in_uuid r" using assms(7) rf by (auto simp: instance_of_def find_None_iff)
  with history_of_edited [OF assms(1) t(1,2) rf(1) r'(1,2) _ assms(11)] t(3)
  have "history_of db1 (fm_id f) (Some (in_uuid r)) = None" by simp
  moreover have "instance_of db1 (fm_id f) (Some (in_uuid r)) = None"
    unfolding instance_of_def t(1) using assms(12) other_uuid [OF assms(1) _ rf(1)] r' rf(2)
    by (intro find_map_none) auto
  moreover have "history_of db' = history_of db1" "instance_of db' = instance_of db1"
    by (simp_all add: fun_eq_iff history_of_def instance_of_def find_instance_def db')
  ultimately show ?thesis by simp
qed

text \<open>A submission that was edited once, from \<open>u1\<close> to \<open>u2\<close>.\<close>

definition sample_row :: submission where
  "sample_row = \<lparr>in_id = 1, in_form = 1, in_xml = ''edit'', in_user = None, in_created = 100, in_modified = 100,
     in_deleted = None, in_deleted_by = None, in_last_edited = Some 100, in_last_edited_by = None,
     in_status = ''submitted_via_web'', in_uuid = ''u2'', in_version = None, in_survey_type = ''data'',
     in_media_all_received = True, in_total_media = 0, in_media_count = 0, in_checksum = ''edit'',
     in_encrypted = False, in_decryption = Unmanaged\<rparr>"

definition sample_history :: history where
  "sample_history = \<lparr>hi_instance = 1, hi_uuid = ''u1'', hi_xml = ''new'', hi_checksum = ''new'', hi_user = None,
     hi_submission_date = 100\<rparr>"

definition edited_db :: db where
  "edited_db = sample_db\<lparr>instances := [sample_row], histories := [sample_history]\<rparr>"

lemmas edited_simps = edited_db_def sample_db_def sample_row_def sample_history_def sample_form_def
  instance_of_def history_of_def find_instance_def

theorem last_write_wins_forgets_uuid_witness:
  "let (res, db') = get_instance (sample_env ''last_write_wins'') ''late'' (Some ''u3'') None ''s'' sample_form ''c'' edited_db
   in instance_of db' 1 (Some ''u2'') = None \<and> history_of db' 1 (Some ''u2'') = None"
proof -
  let ?e = "sample_env ''last_write_wins''"
  let ?m = "get_instance ?e ''late'' (Some ''u3'') None ''s'' sample_form ''c'' edited_db"
  have "isl (fst ?m) = False" by code_simp
  then obtain r' where m: "?m = (Inr r', snd ?m)" by (cases "fst ?m") (simp_all add: prod_eq_iff)
  have dep: "get_deprecated_uuid_from_xml (minidom ?e) ''late'' = Inr (Some ''u1'')" by code_simp
  have ok: "store_ok edited_db" by (simp add: store_ok_def refs_def ids_def edited_simps)
  have env: "fresh_uuid ?e \<noteq> []" "conflict_resolution ?e = ''last_write_wins''" by (simp_all add: sample_env_def)
  have r: "find_instance edited_db (hi_instance sample_history) = Some sample_row" "in_uuid sample_row = ''u2''"
    by (simp_all add: edited_simps)
  have "instance_of edited_db (fm_id sample_form) (Some ''u1'') = None"
    "history_of edited_db (fm_id sample_form) (Some ''u3'') = None"
    "history_of edited_db (fm_id sample_form) (Some ''u1'') = Some sample_history"
    "history_of edited_db (fm_id sample_form) (Some (in_uuid sample_row)) = None"
    by (simp_all add: edited_simps)
  from last_write_wins_forgets_uuid [OF ok env dep _ _ this(1-3) r(1) this(4) _ m] r(2)
  show ?thesis by (simp add: case_prod_beta sample_form_def)
qed

section \<open>The submission counter\<close>

lemma save_live_forms:
  assumes "save_instance e columns r db = (Inr r', db')" "in_deleted r = None"
  shows "forms db' = forms db" "attachments db' = attachments db"
proof -
  note s = save_instance_Inr [OF assms(1)]
  have "in_deleted r' = None" using prepare_Inr(6) [OF s(1)] assms(2) by simp
  then show "forms db' = forms db" "attachments db' = attachments db" using s(7,8) by (simp_all add: pre_save_live)
qed

lemma content_deleted: "content x = content y \<Longrightarrow> in_deleted x = in_deleted y"
  by (simp add: content_def)

text \<open>Saving an object again that still has the content of its row.\<close>

lemma save_again:
  assumes "save_instance e all_columns r1 db1 = (Inr r2, db2)" "store_ok db1" "r \<in> set (instances db)"
    and "same_content db db1" "content r1 = content r"
  shows "same_content db db2" "content r2 = content r" "store_ok db2" "in_deleted r = None \<Longrightarrow> forms db2 = forms db1"
proof -
  note k = save_same_content [OF assms(1) disjI2 [OF refl] assms(2-5)]
  show "same_content db db2" using assms(4) k(1) by (rule same_content_trans)
  have ids: "refs db2 \<subseteq> ids db1 \<union> refs db1" using k(2) by auto
  show "store_ok db2" using same_content_grows [OF k(1) ids] assms(2) by (rule grows_ok)
  have "content r \<in> set (map content (instances db1))"
    using assms(3,4) unfolding same_content_def by (metis image_eqI list.set_map)
  then have "in_uuid r1 \<noteq> []" using assms(2,5) by (auto simp: store_ok_def content_def)
  then show "content r2 = content r"
    using prepare_Inr [OF save_instance_Inr(1) [OF assms(1)]] assms(5) by (simp add: content_def set_uuid_known)
  show "in_deleted r = None \<Longrightarrow> forms db2 = forms db1"
    using save_live_forms(1) [OF assms(1)] content_deleted [OF assms(5)] by simp
qed

lemma save_attachments_again:
  assumes "save_attachments e f r ups db = (Inr r1, db1)" "store_ok db" "r \<in> set (instances db)"
  shows "same_content db db1" "content r1 = content r" "store_ok db1"
proof -
  show "same_content db db1" by (rule save_attachments_keeps(1) [OF assms(1)])
  show "store_ok db1"
    using save_attachments_grows [OF assms(1) of_row_member [OF assms(3)]] assms(2) by (rule grows_ok)
  have "in_uuid r \<noteq> []" using assms(2,3) by (simp add: store_ok_def)
  then show "content r1 = content r" using save_attachments_object(1) [OF assms(1)] by simp
qed

text \<open>What follows the creation of a row in \<open>save_submission\<close>.\<close>

lemma after_creation:
  assumes "save_attachments e f r ups db = (Inr r1, db1)" "store_ok db" "r \<in> set (instances db)" "in_deleted r = None"
    and "(case date of None \<Rightarrow> (Inr r1, db1) | Some t \<Rightarrow> save_instance e all_columns (r1\<lparr>in_created := t\<rparr>) db1) = (Inr r2, db2)"
    and "save_instance e all_columns r2 db2 = (Inr r3, db3)"
  shows "same_content db db3" "content r3 = content r" "forms db3 = forms db1" "store_ok db3"
proof -
  note a = save_attachments_again [OF assms(1-3)]
  have b: "same_content db db2 \<and> content r2 = content r \<and> store_ok db2 \<and> forms db2 = forms db1"
  proof (cases date)
    case None
    with assms(5) a show ?thesis by simp
  next
    case (Some t)
    have "content (r1\<lparr>in_created := t\<rparr>) = content r" using a(2) by (simp add: content_def)
    from save_again [OF _ a(3) assms(3) a(1) this] assms(4,5) Some show ?thesis by simp
  qed
  then show "same_content db db3" "content r3 = content r" "forms db3 = forms db1" "store_ok db3"
    using save_again [OF assms(6) _ assms(3)] assms(4) by simp_all
qed

lemma live_count_content:
  assumes "map content (instances db') = map content (instances db)"
  shows "live_count db' i = live_count db i"
proof -
  have "length (filter (\<lambda>r. in_form r = i \<and> in_deleted r = None) xs)
      = length (filter (\<lambda>(j, k, x, u, w, c, d). k = i \<and> d = None) (map content xs))" for xs
    by (induction xs) (simp_all add: content_def)
  then show ?thesis unfolding live_count_def by (simp only: assms)
qed

lemma create_row_forms:
  assumes "create_row e s user status f cs db = (Inr r, db')" "find_form db (fm_id f) = Some f"
  shows "\<exists>t. forms db' = forms (change_form (fm_id f)
    (\<lambda>g. g\<lparr>fm_num_of_submissions := fm_num_of_submissions g + 1, fm_last_submission_time := t\<rparr>) db)"
proof -
  have "in_form r = fm_id f" by (rule create_row_row(2) [OF assms(1)])
  moreover have "find_form (db\<lparr>instances := xs\<rparr>) i = find_form db i" for xs i by (simp add: find_form_def)
  ultimately show ?thesis
    using assms by (auto simp: create_row_def update_count_create_def change_form_def
        split: sum.splits option.splits)
qed

lemma first_osm_file:
  assumes "save_attachments e f r [up] db = (Inr r', db')" "extension_of (up_name up) = ''osm''" "\<not> fm_osm f"
    and "in_deleted r = None"
  shows "forms db' = forms (put_form (f\<lparr>fm_osm := True\<rparr>) db)"
proof -
  obtain names g db1 where n: "get_expected_media e f (in_xml r) = Inr names"
    and one: "save_attachment (Inr names) r up f db = (Inr g, db1)"
    and u: "update_attachment_tracking e names r (soft_delete_attachments e names r db1) = (Inr r', db')"
    using assms(1)
    by (cases "get_expected_media e f (in_xml r)") (auto simp: save_attachments_def Let_def and_then_Inr)
  have "forms db1 = forms (put_form (f\<lparr>fm_osm := True\<rparr>) db)"
    using one assms(2,3) by (auto simp: save_attachment_def Let_def split: if_splits)
  moreover have "forms db' = forms db1"
    using save_live_forms(1) [OF u [unfolded update_attachment_tracking_def Let_def]] assms(4) by simp
  ultimately show ?thesis by simp
qed

text \<open>The first submission with an OSM file makes \<open>save_attachments\<close> save the form object that
  was read before the submission was counted, so that the new submission is not counted: the form
  keeps its old \<open>num_of_submissions\<close> though it has one live submission more.\<close>

theorem first_osm_submission_not_counted:
  assumes "create_instance e req username s [up] status uuid override db = (Inr (Saved r), db')"
    and "get_xform_from_submission e s (lower username) uuid req db = Inr f"
    and "find_form db (fm_id f) = Some f" "\<not> fm_osm f" "extension_of (up_name up) = ''osm''"
    and "get_deprecated_uuid_from_xml (minidom e) s = Inr None" "store_ok db" "fresh_uuid e \<noteq> []"
  shows "map_option fm_num_of_submissions (find_form db' (fm_id f)) = Some (fm_num_of_submissions f)
    \<and> live_count db' (fm_id f) = live_count db (fm_id f) + 1"
proof -
  from assms(1) obtain f' nu u where "get_xform_from_submission e s (lower username) uuid req db = Inr f'"
    and "save_submission e f' s [up] nu u status override (sha256 e s) db = (Inr r, db')"
    by (rule create_instance_Saved)
  with assms(2) have "save_submission e f s [up] nu u status override (sha256 e s) db = (Inr r, db')" by simp
  then obtain date r0 db0 r1 db1 r2 db2 db3 where c: "create_row e s u status f (sha256 e s) db = (Inr r0, db0)"
    and a: "save_attachments e f r0 [up] (send_message r0 ''submission_created'' u db0) = (Inr r1, db1)"
    and d: "(case date of None \<Rightarrow> (Inr r1, db1) | Some t \<Rightarrow> save_instance e all_columns (r1\<lparr>in_created := t\<rparr>) db1) = (Inr r2, db2)"
    and l: "save_instance e all_columns r2 db2 = (Inr r, db3)" and db': "db' = add_parsed_row r db3"
    using assms(6)
    by (auto simp: save_submission_def get_instance_def new_submission_def and_then_Inr Let_def split: sum.splits)
  let ?db0 = "send_message r0 ''submission_created'' u db0"
  note row = create_row_row [OF c]
  have ok: "store_ok ?db0"
    using grows_trans [OF create_row_grows [OF c assms(8)] send_message_grows] assms(7) by (rule grows_ok)
  have mem: "r0 \<in> set (instances ?db0)" using row(1) by simp
  note k = after_creation [OF a ok mem row(4) d l]
  obtain t where t: "forms db0 = forms (change_form (fm_id f)
      (\<lambda>g. g\<lparr>fm_num_of_submissions := fm_num_of_submissions g + 1, fm_last_submission_time := t\<rparr>) db)"
    using create_row_forms [OF c assms(3)] by blast
  have "forms db' = map (\<lambda>g. if fm_id g = fm_id f then f\<lparr>fm_osm := True\<rparr> else g) (forms db)"
    using k(3) first_osm_file [OF a assms(5,4) row(4)] t
    by (auto simp: db' add_parsed_row_def put_form_def change_form_def)
  moreover have "find (\<lambda>g. fm_id g = fm_id f) (map (\<lambda>g. if fm_id g = fm_id f then f\<lparr>fm_osm := True\<rparr> else g) fs)
      = (if find (\<lambda>g. fm_id g = fm_id f) fs = None then None else Some (f\<lparr>fm_osm := True\<rparr>))" for fs
    by (induction fs) auto
  ultimately have "map_option fm_num_of_submissions (find_form db' (fm_id f)) = Some (fm_num_of_submissions f)"
    using assms(3) by (simp add: find_form_def)
  moreover have "map content (instances db') = map content (instances ?db0)"
    using k(1) by (simp add: same_content_def db' add_parsed_row_def)
  then have "live_count db' (fm_id f) = live_count ?db0 (fm_id f)" by (rule live_count_content)
  moreover have "live_count ?db0 (fm_id f) = live_count db (fm_id f) + 1"
    using row(2,4,7) by (simp add: live_count_def)
  ultimately show ?thesis by simp
qed

definition osm_file :: upload where
  "osm_file = \<lparr>up_name = ''way.osm'', up_content_type = ''text/xml'', up_content = ''<osm/>''\<rparr>"

theorem first_osm_submission_not_counted_witness:
  "let db' = snd (create_instance (sample_env ''reject'') None ''ann'' ''new'' [osm_file] ''submitted_via_web'' [] None sample_db)
   in map_option fm_num_of_submissions (find_form db' 1) = Some 0 \<and> live_count db' 1 = 1"
proof -
  let ?e = "sample_env ''reject''"
  let ?m = "create_instance ?e None ''ann'' ''new'' [osm_file] ''submitted_via_web'' [] None sample_db"
  have "saved ?m" by code_simp
  then obtain r where m: "?m = (Inr (Saved r), snd ?m)" using saved_result by blast
  have f: "get_xform_from_submission ?e ''new'' (lower ''ann'') [] None sample_db = Inr sample_form" by code_simp
  have osm: "extension_of (up_name osm_file) = ''osm''" by code_simp
  have d: "get_deprecated_uuid_from_xml (minidom ?e) ''new'' = Inr None" by code_simp
  have s: "find_form sample_db (fm_id sample_form) = Some sample_form" "\<not> fm_osm sample_form"
    "fm_id sample_form = 1" "fm_num_of_submissions sample_form = 0" "live_count sample_db 1 = 0"
    by (simp_all add: sample_db_def sample_form_def find_form_def live_count_def)
  have "fresh_uuid ?e \<noteq> []" by (simp add: sample_env_def)
  from first_osm_submission_not_counted [OF m f s(1,2) osm d sample_ok this] s(3-5)
  show ?thesis by simp
qed

section \<open>Edits of encrypted submissions\<close>

definition gone :: "nat \<Rightarrow> db \<Rightarrow> bool" where
  "gone i db \<longleftrightarrow> (\<forall>a \<in> set (attachments db). at_instance a = i \<longrightarrow> at_deleted a \<noteq> None)"

text \<open>The names of the attachments of a submission, deleted ones too.\<close>

definition names_of :: "nat \<Rightarrow> db \<Rightarrow> string set" where
  "names_of i db = at_name ` {a \<in> set (attachments db). at_instance a = i}"

lemma deleted_attachment:
  assumes "b \<in> set (attachments (delete_attachments j P t db))"
  obtains a where "a \<in> set (attachments db)" "at_name b = at_name a" "at_instance b = at_instance a"
    "b = a \<and> \<not> (at_instance a = j \<and> P a) \<or> at_deleted b = Some t"
proof -
  obtain a where a: "a \<in> set (attachments db)"
    and b: "b = (if at_instance a = j \<and> P a then a\<lparr>at_deleted := Some t\<rparr> else a)"
    using assms unfolding delete_attachments_def by auto
  show ?thesis by (rule that [OF a]) (simp_all add: b)
qed

lemma kept_attachment:
  assumes "a \<in> set (attachments db)"
  obtains b where "b \<in> set (attachments (delete_attachments j P t db))" "at_name b = at_name a"
    "at_instance b = at_instance a"
proof -
  let ?b = "if at_instance a = j \<and> P a then a\<lparr>at_deleted := Some t\<rparr> else a"
  have "?b \<in> set (attachments (delete_attachments j P t db))"
    using assms unfolding delete_attachments_def by simp
  then show ?thesis by (rule that) simp_all
qed

lemma names_ofI: "a \<in> set (attachments db) \<Longrightarrow> at_instance a = i \<Longrightarrow> at_name a \<in> names_of i db"
  by (simp add: names_of_def)

lemma delete_attachments_names [simp]: "names_of i (delete_attachments j P t db) = names_of i db"
proof (rule set_eqI)
  fix n
  show "n \<in> names_of i (delete_attachments j P t db) \<longleftrightarrow> n \<in> names_of i db"
  proof
    assume "n \<in> names_of i (delete_attachments j P t db)"
    then obtain b where b: "b \<in> set (attachments (delete_attachments j P t db))" "at_instance b = i" "n = at_name b"
      unfolding names_of_def by blast
    show "n \<in> names_of i db" using b(1) by (rule deleted_attachment) (use b in \<open>auto simp: names_of_def\<close>)
  next
    assume "n \<in> names_of i db"
    then obtain a where a: "a \<in> set (attachments db)" "at_instance a = i" "n = at_name a"
      unfolding names_of_def by blast
    show "n \<in> names_of i (delete_attachments j P t db)"
      using a(1)
    proof (rule kept_attachment [where j = j and P = P and t = t])
      fix b assume b: "b \<in> set (attachments (delete_attachments j P t db))" "at_name b = at_name a" "at_instance b = at_instance a"
      from names_ofI [OF b(1), of i] b(2,3) a(2,3) show ?thesis by simp
    qed
  qed
qed

lemma delete_attachments_gone:
  "gone i db \<Longrightarrow> gone i (delete_attachments j P t db)"
  "gone i (delete_attachments i (\<lambda>a. at_deleted a = None) t db)"
proof -
  show "gone i db \<Longrightarrow> gone i (delete_attachments j P t db)"
    unfolding gone_def
  proof
    fix b assume "\<forall>a \<in> set (attachments db). at_instance a = i \<longrightarrow> at_deleted a \<noteq> None"
      and "b \<in> set (attachments (delete_attachments j P t db))"
    from this(2) show "at_instance b = i \<longrightarrow> at_deleted b \<noteq> None"
      by (rule deleted_attachment) (use \<open>\<forall>a \<in> _. _\<close> in auto)
  qed
  show "gone i (delete_attachments i (\<lambda>a. at_deleted a = None) t db)"
    unfolding gone_def
  proof
    fix b assume "b \<in> set (attachments (delete_attachments i (\<lambda>a. at_deleted a = None) t db))"
    then show "at_instance b = i \<longrightarrow> at_deleted b \<noteq> None" by (rule deleted_attachment) auto
  qed
qed

lemma pre_save_attachments:
  "names_of i (pre_save r db) = names_of i db" "gone i db \<Longrightarrow> gone i (pre_save r db)"
proof -
  have eq: "attachments (delete_attachments j P t (update_count_delete r db)) = attachments (delete_attachments j P t db)" for j P t
    by (simp add: delete_attachments_def)
  have "attachments (pre_save r db) = attachments db \<or>
      (\<exists>j P t. attachments (pre_save r db) = attachments (delete_attachments j P t db))"
    unfolding pre_save_def by (metis eq)
  moreover have "names_of i db1 = names_of i db2" "gone i db1 = gone i db2"
    if "attachments db1 = attachments db2" for db1 db2
    using that by (simp_all add: names_of_def gone_def)
  ultimately show "names_of i (pre_save r db) = names_of i db" "gone i db \<Longrightarrow> gone i (pre_save r db)"
    using delete_attachments_names delete_attachments_gone(1) by metis+
qed

lemma save_instance_attachments:
  assumes "save_instance e columns r db = (Inr r', db')"
  shows "names_of i db' = names_of i db" "gone i db \<Longrightarrow> gone i db'"
  using pre_save_attachments save_instance_Inr(8) [OF assms] by (simp_all add: names_of_def gone_def)

lemma attachments_count_names:
  "attachments_count db i media = card {n \<in> names_of i db. PStr n \<in> set media}"
proof -
  have "attachments_count db i media
      = card (set (map at_name (filter (\<lambda>a. at_instance a = i \<and> PStr (at_name a) \<in> set media) (attachments db))))"
    unfolding attachments_count_def by (simp add: length_remdups_card_conv)
  moreover have "set (map at_name (filter (\<lambda>a. at_instance a = i \<and> PStr (at_name a) \<in> set media) (attachments db)))
      = {n \<in> names_of i db. PStr n \<in> set media}"
    by (auto simp: names_of_def)
  ultimately show ?thesis by simp
qed

lemma all_names_counted:
  assumes "distinct media" "\<forall>m \<in> set media. \<exists>n \<in> names_of i db. m = PStr n"
  shows "attachments_count db i media = length media"
proof -
  have "PStr ` {n \<in> names_of i db. PStr n \<in> set media} = set media" using assms(2) by auto
  moreover have "card (PStr ` {n \<in> names_of i db. PStr n \<in> set media}) = card {n \<in> names_of i db. PStr n \<in> set media}"
    by (intro card_image) (simp add: inj_on_def)
  ultimately show ?thesis
    using assms(1) by (simp add: attachments_count_names distinct_card)
qed

lemma expected_distinct: "get_expected_media e f s = Inr media \<Longrightarrow> distinct media"
  by (auto simp: get_expected_media_def expected_media_def lift_tools_def split: sum.splits if_splits)

lemma no_files:
  assumes "save_attachments e f r [] db = (Inr r', db')" "get_expected_media e f (in_xml r) = Inr media"
    and "\<forall>m \<in> set media. \<exists>n \<in> names_of (in_id r) db. m = PStr n" "gone (in_id r) db"
  shows "in_media_all_received r'" "gone (in_id r) db'" "in_media_count r' = length media"
proof -
  let ?db1 = "soft_delete_attachments e media r db"
  have u: "update_attachment_tracking e media r ?db1 = (Inr r', db')"
    using assms(1,2) by (simp add: save_attachments_def Let_def)
  have n: "names_of (in_id r) ?db1 = names_of (in_id r) db" "gone (in_id r) ?db1"
    using assms(4) by (simp_all add: soft_delete_attachments_def delete_attachments_gone)
  have "attachments_count ?db1 (in_id r) media = length media"
    by (rule all_names_counted) (use expected_distinct [OF assms(2)] assms(3) n(1) in auto)
  with u obtain r0 where s: "save_instance e media_columns r0 ?db1 = (Inr r', db')"
    and r0: "in_media_all_received r0" "in_media_count r0 = length media"
    by (auto simp: update_attachment_tracking_def Let_def)
  note p = prepare_Inr [OF save_instance_Inr(1) [OF s]]
  show "in_media_all_received r'" "in_media_count r' = length media" using p(10,11) r0 by simp_all
  show "gone (in_id r) db'" using save_instance_attachments(2) [OF s] n(2) .
qed

text \<open>An edit of an encrypted submission of a form with managed keys deletes the old files, but
  the files that have arrived are counted with the deleted ones: when the edit names only files the
  submission had before, it is marked as having received all its media at once, though not one of
  its files is left.\<close>

theorem encrypted_edit_counts_deleted_media:
  assumes "edit_instance e q r username s [] status db = (Inr (Saved r'), db')"
    and "store_ok db" "of_row db r" "fresh_uuid e \<noteq> []" "find_form db (in_form r) = Some f"
    and "may_submit e (Some q) f" "check_encrypted_submission e s f = Inr ()"
    and "check_encrypted e s" "was_managed f" "get_uuid_from_xml (minidom e) s = Inr nu" "nu \<noteq> Some (in_uuid r)"
    and "get_expected_media e f s = Inr media"
    and "\<forall>m \<in> set media. \<exists>n \<in> names_of (in_id r) db. m = PStr n"
  shows "in_media_all_received r' \<and> in_media_count r' = length media \<and> gone (in_id r) db'"
proof -
  let ?r = "r\<lparr>in_media_all_received := False\<rparr>"
  from assms(1,5-11) obtain r1 db1 db2 where
    edit: "edit_row e ?r (in_uuid r) nu (rq_user q) (sha256 e s) s db = (Inr r1, db1)"
    and a: "save_attachments e f r1 [] (delete_attachments (in_id r1) (\<lambda>a. at_deleted a = None) (now e) db1) = (Inr r', db2)"
    and db': "db' = send_message r' ''submission_edited'' (rq_user q) db2"
    by (auto simp: edit_instance_def and_then_Inr)
  have row: "of_row db ?r" using assms(3) by (simp add: of_row_def)
  note r1 = edit_row_row [OF edit assms(2) row assms(4)]
  obtain r0 h dba where s: "save_instance e all_columns r0 (db\<lparr>histories := h\<rparr>) = (Inr r1, dba)"
    and dba: "attachments db1 = attachments dba"
    using edit by (auto simp: edit_row_def Let_def and_then_Inr split: option.splits if_splits)
  have names: "names_of i db1 = names_of i db" for i
    using save_instance_attachments(1) [OF s, of i] dba by (simp add: names_of_def)
  have "in_media_all_received r' \<and> gone (in_id r1) db2 \<and> in_media_count r' = length media"
    using no_files [OF a, of media] assms(12,13) r1(3,4) names delete_attachments_gone(2) by simp
  with r1(4) show ?thesis by (simp add: db' gone_def)
qed

definition encrypted_env :: env where
  "encrypted_env = (sample_env ''reject'')\<lparr>
     minidom := (\<lambda>s. Some [Elem ''data'' [(''id'', ''f''), (''encrypted'', ''yes'')]
       [Elem ''base64EncryptedKey'' [] [Text ''k''], Elem ''meta'' [] [Elem ''instanceID'' [] [Text ''uuid:u9'']],
        Elem ''encryptedXmlFile'' [] [Text ''submission.xml.enc'']]]),
     etree := (\<lambda>s. Some ([(''id'', ''f''), (''encrypted'', ''yes'')],
       [''{http://opendatakit.org/submissions}base64EncryptedKey'',
        ''{http://opendatakit.org/submissions}encryptedXmlFile'']))\<rparr>"

definition encrypted_form :: form where
  "encrypted_form = sample_form\<lparr>fm_encrypted := True, fm_managed := True, fm_keys := [(''v'', False)]\<rparr>"

definition enc_attachment :: attachment where
  "enc_attachment = \<lparr>at_instance = 1, at_form = 1, at_name = ''submission.xml.enc'', at_mimetype = ''text/xml'',
     at_extension = ''enc'', at_user = None, at_content = ''old'', at_deleted = None\<rparr>"

definition encrypted_db :: db where
  "encrypted_db = edited_db\<lparr>forms := [encrypted_form], histories := [], attachments := [enc_attachment]\<rparr>"

definition editor :: request where
  "editor = \<lparr>rq_user = Some ''ann'', rq_path = ''/edit''\<rparr>"

theorem encrypted_edit_counts_deleted_media_witness:
  "let m = edit_instance encrypted_env editor sample_row ''ann'' ''enc'' [] ''submitted_via_web'' encrypted_db
   in saved m \<and> gone 1 (snd m)"
proof -
  let ?m = "edit_instance encrypted_env editor sample_row ''ann'' ''enc'' [] ''submitted_via_web'' encrypted_db"
  have ok: "saved ?m" by code_simp
  then obtain r' where m: "?m = (Inr (Saved r'), snd ?m)" using saved_result by blast
  note defs = encrypted_db_def edited_simps
  have s: "store_ok encrypted_db"
    by (simp add: store_ok_def refs_def ids_def defs enc_attachment_def)
  have r: "of_row encrypted_db sample_row" by (simp add: of_row_def defs)
  have id: "in_id sample_row = 1" by (simp add: sample_row_def)
  have f: "find_form encrypted_db (in_form sample_row) = Some encrypted_form"
    by (simp add: find_form_def encrypted_form_def defs)
  have e: "fresh_uuid encrypted_env \<noteq> []" by (simp add: encrypted_env_def sample_env_def)
  have c: "may_submit encrypted_env (Some editor) encrypted_form"
    "check_encrypted_submission encrypted_env ''enc'' encrypted_form = Inr ()"
    "check_encrypted encrypted_env ''enc''" "was_managed encrypted_form"
    "get_uuid_from_xml (minidom encrypted_env) ''enc'' = Inr (Some ''u9'')"
    "get_expected_media encrypted_env encrypted_form ''enc'' = Inr [PStr ''submission.xml.enc'']"
    by (code_simp, code_simp, code_simp, code_simp, code_simp, code_simp)
  have u: "Some ''u9'' \<noteq> Some (in_uuid sample_row)" by (simp add: sample_row_def)
  have "at_name enc_attachment \<in> names_of 1 encrypted_db"
    by (rule names_ofI) (simp_all add: defs enc_attachment_def)
  then have n: "\<forall>m \<in> set [PStr ''submission.xml.enc'']. \<exists>n \<in> names_of (in_id sample_row) encrypted_db. m = PStr n"
    by (simp add: id enc_attachment_def)
  from encrypted_edit_counts_deleted_media [OF m s r e f c(1-5) u c(6) n] ok id show ?thesis by simp
qed

section \<open>Acceptable submissions\<close>

definition core :: "form \<Rightarrow> string list \<times> bool \<times> bool \<times> (string \<times> bool) list \<times> bool \<times> bool \<times> string option \<times> string list" where
  "core f = (fm_repeats f, fm_encrypted f, fm_managed f, fm_keys f, fm_merged f, fm_downloadable f,
     fm_version f, fm_media_xpaths f)"

lemma core_same:
  assumes "core g = core f"
  shows "get_dict e g s = get_dict e f s" "version_of g data = version_of f data"
    "fm_merged g = fm_merged f" "fm_downloadable g = fm_downloadable f"
proof -
  show "get_dict e g s = get_dict e f s" "fm_merged g = fm_merged f" "fm_downloadable g = fm_downloadable f"
    using assms by (simp_all add: core_def get_dict_def was_managed_def)
  have "fm_version g = fm_version f" using assms by (simp add: core_def)
  then show "version_of g data = version_of f data" unfolding version_of_def by (simp only:)
qed

text \<open>The row of a submission that a save accepts.\<close>

definition savable :: "env \<Rightarrow> form \<Rightarrow> string \<Rightarrow> string \<Rightarrow> db \<Rightarrow> submission \<Rightarrow> bool" where
  "savable e f s u db r \<longleftrightarrow>
     in_xml r = s \<and> in_form r = fm_id f \<and> in_deleted r = None \<and> length (in_status r) \<le> 20
     \<and> (in_uuid r = u \<or> in_uuid r = [] \<and> s \<noteq> [] \<and> get_uuid_from_xml (minidom e) s = Inr (Some u))
     \<and> (\<forall>x \<in> set (instances db). in_id x \<noteq> in_id r \<longrightarrow> in_form x = fm_id f \<longrightarrow> in_uuid x \<noteq> u)
     \<and> (\<exists>g. find_form db (fm_id f) = Some g \<and> core g = core f)"

definition accepts :: "env \<Rightarrow> form \<Rightarrow> string \<Rightarrow> string \<Rightarrow> bool" where
  "accepts e f s u \<longleftrightarrow>
     \<not> fm_merged f \<and> fm_downloadable f \<and> u \<noteq> [] \<and> length u \<le> 249
     \<and> (case get_dict e f s of Inl _ \<Rightarrow> False
        | Inr data \<Rightarrow> (case version_of f data of None \<Rightarrow> True | Some v \<Rightarrow> length v \<le> 255))"

lemma prepare_accepts:
  assumes "accepts e f s u" "savable e f s u db r"
  shows "\<exists>r'. prepare e db r = Inr r' \<and> in_uuid r' = u \<and> row_error db r' = None"
proof -
  obtain g where g: "find_form db (in_form r) = Some g" "core g = core f"
    using assms(2) unfolding savable_def by auto
  obtain data where d: "get_dict e f s = Inr data"
    and v: "case version_of f data of None \<Rightarrow> True | Some v \<Rightarrow> length v \<le> 255"
    using assms(1) unfolding accepts_def by (auto split: sum.splits)
  have u: "set_uuid e r = Inr u"
    using assms unfolding savable_def accepts_def by (auto simp: set_uuid_def)
  obtain r' where p: "prepare e db r = Inr r'" and ver: "in_version r' = version_of f data"
    using g d u assms core_same [OF g(2)] unfolding savable_def accepts_def
    by (auto simp: prepare_def set_encryption_status_def)
  note q = prepare_Inr [OF p]
  have r': "in_uuid r' = u" using q(13) u by simp
  have "row_error db r' = None"
    using assms v unfolding row_error_def savable_def accepts_def
    by (auto simp: r' ver q split: option.splits)
  with p r' show ?thesis by blast
qed

lemma savable_same:
  assumes "savable e f s u db r" "map content (instances db') = map content (instances db)"
    and "\<exists>g. find_form db' (fm_id f) = Some g \<and> core g = core f"
    and "in_xml r' = in_xml r" "in_form r' = in_form r" "in_deleted r' = in_deleted r"
    and "in_status r' = in_status r" "in_id r' = in_id r" "in_uuid r' = u"
  shows "savable e f s u db' r'"
proof -
  have "\<forall>x \<in> set (instances db'). in_id x \<noteq> in_id r \<longrightarrow> in_form x = fm_id f \<longrightarrow> in_uuid x \<noteq> u"
  proof (intro ballI impI)
    fix x assume x: "x \<in> set (instances db')" "in_id x \<noteq> in_id r" "in_form x = fm_id f"
    then have "content x \<in> set (map content (instances db))" unfolding assms(2) [symmetric] by simp
    then obtain y where "y \<in> set (instances db)" "content y = content x" by auto
    with x assms(1) show "in_uuid x \<noteq> u" by (auto simp: savable_def content_def)
  qed
  with assms show ?thesis by (simp add: savable_def)
qed

lemma save_accepts:
  assumes "accepts e f s u" "savable e f s u db r" "in_uuid r = u" "columns = all_columns \<or> columns = media_columns"
    and "\<forall>x \<in> set (instances db). in_id x = in_id r \<longrightarrow> content x = content r"
  shows "\<exists>r' db'. save_instance e columns r db = (Inr r', db') \<and> savable e f s u db' r' \<and> in_uuid r' = u
    \<and> content r' = content r \<and> same_content db db'"
proof -
  obtain r' where p: "prepare e db r = Inr r'" "in_uuid r' = u" "row_error db r' = None"
    using prepare_accepts [OF assms(1,2)] by blast
  note q = prepare_Inr [OF p(1)]
  have "in_deleted r' = None" using q(6) assms(2) by (simp add: savable_def)
  then have pre: "pre_save r' db = db" by (rule pre_save_live)
  obtain db' where s: "save_instance e columns r db = (Inr r', db')"
    using p pre by (simp add: save_instance_def)
  have c: "content r' = content r" using q p(2) assms(3) by (simp add: content_def)
  have "content (columns r'' x) = content x"
    if "prepare e db r = Inr r''" "x \<in> set (instances db)" "in_id x = in_id r" for r'' x
    using that p(1) c assms(4,5) columns_content(1) by (auto simp: all_columns_def)
  with s have same: "same_content db db'" by (rule save_instance_keeps(1))
  have "forms db' = forms db" using save_instance_Inr(7) [OF s] pre by simp
  then have "find_form db' = find_form db" by (simp add: find_form_def fun_eq_iff)
  then have fm: "\<exists>g. find_form db' (fm_id f) = Some g \<and> core g = core f"
    using assms(2) by (simp add: savable_def)
  have "map content (instances db') = map content (instances db)"
    using same by (simp add: same_content_def)
  from savable_same [OF assms(2) this fm q(3,2,6,9,1) p(2)] have "savable e f s u db' r'" .
  with s p(2) c same show ?thesis by blast
qed

definition upload_ok :: "upload \<Rightarrow> bool" where
  "upload_ok up \<longleftrightarrow> length (basename (up_name up)) \<le> 100 \<and> length (extension_of (up_name up)) \<le> 10
     \<and> length (up_content_type up) \<le> 100"

definition has_core :: "form \<Rightarrow> db \<Rightarrow> bool" where
  "has_core f db \<longleftrightarrow> (\<exists>g. find_form db (fm_id f) = Some g \<and> core g = core f)"

lemma has_core_forms: "forms db' = forms db \<Longrightarrow> has_core f db' = has_core f db"
  by (simp add: has_core_def find_form_def)

lemma has_core_put_form:
  assumes "has_core f db" "fm_id g = fm_id f" "core g = core f"
  shows "has_core f (put_form g db)"
proof -
  have "find (\<lambda>h. fm_id h = fm_id f) (map (\<lambda>h. if fm_id h = fm_id f then g else h) fs)
      = (if find (\<lambda>h. fm_id h = fm_id f) fs = None then None else Some g)" for fs
    using assms(2) by (induction fs) auto
  with assms show ?thesis by (auto simp: has_core_def find_form_def put_form_def)
qed

lemma save_attachment_ok:
  assumes "upload_ok up" "has_core f db" "fm_id g = fm_id f" "core g = core f"
  shows "\<exists>g' db'. save_attachment (Inr names) r up g db = (Inr g', db') \<and> has_core f db'
    \<and> fm_id g' = fm_id f \<and> core g' = core f"
proof -
  obtain res db' where eq: "save_attachment (Inr names) r up g db = (res, db')" by force
  have "\<exists>g'. res = Inr g'"
    using eq assms(1) by (auto simp: save_attachment_def upload_ok_def Let_def split: if_splits)
  then obtain g' where res: "res = Inr g'" by blast
  note t = save_attachment_tables(5,6) [OF eq]
  have osm: "fm_id (g\<lparr>fm_osm := True\<rparr>) = fm_id f" "core (g\<lparr>fm_osm := True\<rparr>) = core f"
    using assms(3,4) by (simp_all add: core_def)
  have "fm_id g' = fm_id f \<and> core g' = core f"
    using t(1) [OF res] assms(3,4) osm by blast
  moreover have "has_core f db'"
    using t(2)
  proof
    assume "forms db' = forms db"
    from has_core_forms [OF this] assms(2) show ?thesis by simp
  next
    assume "forms db' = forms (put_form (g\<lparr>fm_osm := True\<rparr>) db)"
    from has_core_forms [OF this] has_core_put_form [OF assms(2) osm] show ?thesis by simp
  qed
  ultimately show ?thesis using eq res by blast
qed

lemma save_files_ok:
  assumes "\<forall>up \<in> set ups. upload_ok up" "has_core f db" "fm_id g = fm_id f" "core g = core f"
  shows "\<exists>g' db'. save_files (Inr names) r ups g db = (Inr g', db') \<and> has_core f db'"
  using assms
proof (induction ups arbitrary: g db)
  case (Cons up ups)
  then obtain g1 db1 where one: "save_attachment (Inr names) r up g db = (Inr g1, db1)"
    and s: "has_core f db1" "fm_id g1 = fm_id f" "core g1 = core f"
    using save_attachment_ok [of up f db g names r] by auto
  from Cons.IH [OF _ s] Cons.prems(1) one show ?case by simp
qed auto

lemma save_attachments_accepts:
  assumes "accepts e f s u" "savable e f s u db r" "in_uuid r = u" "r \<in> set (instances db)"
    and "distinct (map in_id (instances db))" "\<forall>up \<in> set ups. upload_ok up" "get_expected_media e f s = Inr names"
  shows "\<exists>r' db'. save_attachments e f r ups db = (Inr r', db') \<and> savable e f s u db' r' \<and> in_uuid r' = u
    \<and> content r' = content r \<and> same_content db db'"
proof -
  have xml: "in_xml r = s" using assms(2) by (simp add: savable_def)
  have "has_core f db" using assms(2) by (simp add: savable_def has_core_def)
  then obtain g db1 where files: "save_files (Inr names) r ups f db = (Inr g, db1)" and core: "has_core f db1"
    using save_files_ok [OF assms(6) _ refl refl] by blast
  let ?db2 = "soft_delete_attachments e names r db1"
  let ?n = "attachments_count ?db2 (in_id r) names"
  let ?r = "r\<lparr>in_total_media := length names, in_media_count := ?n, in_media_all_received := ?n = length names\<rparr>"
  have rows: "instances ?db2 = instances db" "histories ?db2 = histories db"
    using save_files_tables [OF files] by simp_all
  have "has_core f ?db2" using core has_core_forms [of ?db2 db1] by simp
  then have sav: "savable e f s u ?db2 ?r"
    using assms(2,3) rows(1) by (simp add: savable_def has_core_def)
  have eq: "x = r" if "x \<in> set (instances db)" "in_id x = in_id r" for x
    using that assms(4,5) by (simp add: distinct_map inj_on_def)
  have "\<forall>x \<in> set (instances ?db2). in_id x = in_id ?r \<longrightarrow> content x = content ?r"
  proof (intro ballI impI)
    fix x assume "x \<in> set (instances ?db2)" "in_id x = in_id ?r"
    then have "x = r" unfolding rows(1) by (intro eq) simp_all
    then show "content x = content ?r" by (simp add: content_def)
  qed
  from save_accepts [OF assms(1) sav _ disjI2 [OF refl] this] assms(3)
  obtain r' db' where s: "save_instance e media_columns ?r ?db2 = (Inr r', db')" "savable e f s u db' r'"
      "in_uuid r' = u" "content r' = content ?r" "same_content ?db2 db'"
    by auto
  have "save_attachments e f r ups db = (Inr r', db')"
    using files s(1) assms(7) xml by (simp add: save_attachments_def update_attachment_tracking_def Let_def)
  moreover have "content r' = content r" using s(4) by (simp add: content_def)
  moreover have "same_content db db'" using s(5) rows by (simp add: same_content_def)
  ultimately show ?thesis using s(2,3) by blast
qed

lemma has_core_count: "has_core f (update_count_create r db) = has_core f db"
proof -
  have "find (\<lambda>g. fm_id g = i) (map (\<lambda>g. if fm_id g = j then h g else g) fs)
      = map_option (\<lambda>g. if fm_id g = j then h g else g) (find (\<lambda>g. fm_id g = i) fs)"
    if "\<And>g. fm_id (h g) = fm_id g" for i j fs and h :: "form \<Rightarrow> form"
    using that by (induction fs) auto
  note find = this
  show ?thesis
  proof (cases "find_form db (in_form r)")
    case (Some g0)
    let ?h = "\<lambda>g. g\<lparr>fm_num_of_submissions := fm_num_of_submissions g + 1, fm_last_submission_time := Some (in_created r)\<rparr>"
    have "find_form (update_count_create r db) (fm_id f)
        = map_option (\<lambda>g. if fm_id g = in_form r then ?h g else g) (find_form db (fm_id f))"
      using Some find [of ?h "fm_id f" "in_form r" "forms db"]
      by (simp add: update_count_create_def find_form_def change_form_def)
    moreover have "core (if fm_id g = in_form r then ?h g else g) = core g" for g by (simp add: core_def)
    ultimately show ?thesis unfolding has_core_def by (cases "find_form db (fm_id f)") (simp_all only: option.map option.inject option.distinct simp_thms ex_simps)
  qed (simp add: update_count_create_def)
qed

lemma create_row_accepts:
  assumes "accepts e f s u" "has_core f db" "s \<noteq> []" "get_uuid_from_xml (minidom e) s = Inr (Some u)"
    and "\<forall>x \<in> set (instances db). in_form x = fm_id f \<longrightarrow> in_uuid x \<noteq> u" "length status \<le> 20"
  shows "\<exists>r db'. create_row e s user status f cs db = (Inr r, db') \<and> savable e f s u db' r \<and> in_uuid r = u"
proof -
  let ?r = "\<lparr>in_id = next_id db, in_form = fm_id f, in_xml = s, in_user = user, in_created = now e,
      in_modified = now e, in_deleted = None, in_deleted_by = None, in_last_edited = None,
      in_last_edited_by = None, in_status = status, in_uuid = [], in_version = None,
      in_survey_type = [], in_media_all_received = False, in_total_media = 0,
      in_media_count = 0, in_checksum = cs, in_encrypted = False, in_decryption = Unmanaged\<rparr>"
  have "savable e f s u db ?r" using assms(2-6) by (simp add: savable_def has_core_def)
  from prepare_accepts [OF assms(1) this] obtain r where p: "prepare e db ?r = Inr r" "in_uuid r = u"
    "row_error db r = None" by blast
  let ?db = "start_decryption e r (update_count_create r (db\<lparr>instances := instances db @ [r]\<rparr>))"
  have c: "create_row e s user status f cs db = (Inr r, ?db)" using p by (simp add: create_row_def)
  have "has_core f ?db"
    using assms(2) has_core_count has_core_forms [of ?db "update_count_create r (db\<lparr>instances := instances db @ [r]\<rparr>)"]
      has_core_forms [of "db\<lparr>instances := instances db @ [r]\<rparr>" db] by simp
  with prepare_Inr [OF p(1)] p(2) assms(5,6) have "savable e f s u ?db r"
    by (auto simp: savable_def has_core_def)
  with c p(2) show ?thesis by blast
qed

lemma send_message_savable: "savable e f s u (send_message r v w db) r' = savable e f s u db r'"
  by (simp add: savable_def find_form_def)

text \<open>The object of the new row between the steps of \<open>save_submission\<close>.\<close>

definition ready :: "env \<Rightarrow> form \<Rightarrow> string \<Rightarrow> string \<Rightarrow> db \<Rightarrow> submission \<Rightarrow> db \<Rightarrow> submission \<Rightarrow> bool" where
  "ready e f s u db0 r0 db r \<longleftrightarrow>
     savable e f s u db r \<and> in_uuid r = u \<and> content r = content r0 \<and> same_content db0 db"

lemma ready_rows:
  assumes "ready e f s u db0 r0 db r" "r0 \<in> set (instances db0)" "distinct (map in_id (instances db0))"
  shows "\<forall>x \<in> set (instances db). in_id x = in_id r \<longrightarrow> content x = content r"
proof (intro ballI impI)
  fix x assume x: "x \<in> set (instances db)" "in_id x = in_id r"
  have c: "content r = content r0" and same: "same_content db0 db" using assms(1) by (simp_all add: ready_def)
  have "content x \<in> set (map content (instances db0))"
    using same x(1) unfolding same_content_def by (metis image_eqI list.set_map)
  then obtain y where y: "y \<in> set (instances db0)" "content y = content x" by auto
  have "in_id y = in_id r0" using x(2) y(2) c by (simp add: content_def)
  moreover have "inj_on in_id (set (instances db0))" using assms(3) by (simp add: distinct_map)
  ultimately have "y = r0" using y(1) assms(2) by (simp only: inj_onD)
  with y(2) c show "content x = content r" by simp
qed

lemma ready_save:
  assumes "accepts e f s u" "ready e f s u db0 r0 db r" "r0 \<in> set (instances db0)"
    and "distinct (map in_id (instances db0))"
  shows "\<exists>r' db'. save_instance e all_columns r db = (Inr r', db') \<and> ready e f s u db0 r0 db' r'"
proof -
  have "savable e f s u db r" "in_uuid r = u" and c: "content r = content r0" "same_content db0 db"
    using assms(2) by (simp_all add: ready_def)
  from save_accepts [OF assms(1) this(1,2) disjI1 [OF refl] ready_rows [OF assms(2-4)]]
  obtain r' db' where "save_instance e all_columns r db = (Inr r', db')" "savable e f s u db' r'"
    "in_uuid r' = u" "content r' = content r" "same_content db db'" by blast
  with c show ?thesis unfolding ready_def by (metis same_content_trans)
qed

lemma ready_date:
  assumes "accepts e f s u" "ready e f s u db0 r0 db r" "r0 \<in> set (instances db0)"
    and "distinct (map in_id (instances db0))"
  shows "\<exists>r' db'. (case date of None \<Rightarrow> (Inr r, db) | Some t \<Rightarrow> save_instance e all_columns (r\<lparr>in_created := t\<rparr>) db)
    = (Inr r', db') \<and> ready e f s u db0 r0 db' r'"
proof (cases date)
  case (Some t)
  have "ready e f s u db0 r0 db (r\<lparr>in_created := t\<rparr>)"
    using assms(2) by (auto simp: ready_def savable_def content_def)
  from ready_save [OF assms(1) this assms(3,4)] Some show ?thesis by simp
qed (use assms(2) in simp)

lemma ready_stored:
  assumes "ready e f s u db0 r0 db r" "r0 \<in> set (instances db0)"
  shows "content r \<in> content ` set (instances db)"
proof -
  have "content r0 \<in> set (map content (instances db))"
    using assms unfolding same_content_def ready_def by (metis image_eqI list.set_map)
  then show ?thesis using assms(1) by (simp add: ready_def)
qed

lemma save_submission_accepts:
  assumes "accepts e f s u" "has_core f db" "s \<noteq> []" "get_uuid_from_xml (minidom e) s = Inr (Some u)"
    and "\<forall>x \<in> set (instances db). in_form x = fm_id f \<longrightarrow> in_uuid x \<noteq> u" "length status \<le> 20"
    and "get_deprecated_uuid_from_xml (minidom e) s = Inr None" "\<forall>up \<in> set ups. upload_ok up"
    and "get_expected_media e f s = Inr names" "distinct (map in_id (instances db))"
    and "(case override of Some t \<Rightarrow> Inr (Some t) | None \<Rightarrow> get_submission_date_from_xml (minidom e) (parse_date e) s) = Inr date"
  shows "\<exists>r db'. save_submission e f s ups nu user status override cs db = (Inr r, db') \<and> in_xml r = s
    \<and> in_uuid r = u \<and> in_form r = fm_id f \<and> content r \<in> content ` set (instances db')"
proof -
  obtain r0 db0 where c: "create_row e s user status f cs db = (Inr r0, db0)" "savable e f s u db0 r0" "in_uuid r0 = u"
    using create_row_accepts [OF assms(1-6)] by blast
  let ?db0 = "send_message r0 ''submission_created'' user db0"
  note row = create_row_row [OF c(1)]
  have "next_id db \<notin> set (map in_id (instances db))" using next_id_fresh [of db] by (simp add: ids_def)
  then have d0: "distinct (map in_id (instances ?db0))" using assms(10) row(5,7) by simp
  have s0: "savable e f s u ?db0 r0" using c(2) by (simp add: send_message_savable)
  have m0: "r0 \<in> set (instances ?db0)" using row(1) by simp
  obtain r1 db1 where a: "save_attachments e f r0 ups ?db0 = (Inr r1, db1)" and r1: "ready e f s u ?db0 r0 db1 r1"
    using save_attachments_accepts [OF assms(1) s0 c(3) m0 d0 assms(8,9)] unfolding ready_def by blast
  obtain r2 db2 where b: "(case date of None \<Rightarrow> (Inr r1, db1) | Some t \<Rightarrow> save_instance e all_columns (r1\<lparr>in_created := t\<rparr>) db1)
      = (Inr r2, db2)" and r2: "ready e f s u ?db0 r0 db2 r2"
    using ready_date [OF assms(1) r1 m0 d0] by blast
  obtain r3 db3 where l: "save_instance e all_columns r2 db2 = (Inr r3, db3)" and r3: "ready e f s u ?db0 r0 db3 r3"
    using ready_save [OF assms(1) r2 m0 d0] by blast
  have "save_submission e f s ups nu user status override cs db = (Inr r3, add_parsed_row r3 db3)"
    using assms(7,11) c(1) a b l
    by (simp add: save_submission_def get_instance_def new_submission_def Let_def)
  moreover have "content r3 \<in> content ` set (instances (add_parsed_row r3 db3))"
    using ready_stored [OF r3 m0] by (simp add: add_parsed_row_def)
  moreover have "in_xml r3 = s" "in_uuid r3 = u" "in_form r3 = fm_id f"
    using r3 by (simp_all add: ready_def savable_def)
  ultimately show ?thesis by blast
qed



end
