(* ===== verification/Csv_Nesting.thy ===== *)
theory Csv_Nesting
  imports Dict_Tools
begin

text \<open>
  The nesting of flat CSV rows, \<open>merge_list_of_dicts\<close> and \<open>csv_dict_to_nested_dict\<close> of
  \<open>onadata/libs/utils/dict_tools.py\<close>.  The merge calls itself on values taken out of the rows and
  of its own result, so that the recursion is not structural; it is modelled with fuel, \<open>None\<close>
  where the fuel runs out, and the fuel \<open>depth\<close> of the rows is shown to be enough.
\<close>

section \<open>Merging\<close>

definition as_list :: "pyval \<Rightarrow> pyval" where
  "as_list v = (if is_list v then v else PList [v])"

definition store :: "string \<Rightarrow> pyval \<Rightarrow> pyval \<Rightarrow> tools_error + pyval" where
  "store key v result = (case result of PDict d \<Rightarrow> Inr (PDict (AList.update key v d)) | _ \<Rightarrow> Inl Wrong_Type)"

text \<open>\<open>result[key]\<close>, where there is one; a result that is a list holds no string.\<close>

definition held :: "string \<Rightarrow> pyval \<Rightarrow> pyval option" where
  "held key result = (case result of PDict d \<Rightarrow> map_of d key | _ \<Rightarrow> None)"

fun merge :: "nat \<Rightarrow> string list \<Rightarrow> pyval list \<Rightarrow> (tools_error + pyval) option"
  and merge_rows :: "nat \<Rightarrow> string list \<Rightarrow> pyval list \<Rightarrow> pyval \<Rightarrow> (tools_error + pyval) option"
  and merge_items :: "nat \<Rightarrow> string list \<Rightarrow> pyval \<Rightarrow> (string \<times> pyval) list \<Rightarrow> pyval \<Rightarrow> (tools_error + pyval) option"
  where
  "merge 0 override_keys rows = None"
| "merge (Suc n) override_keys rows = merge_rows n override_keys rows (PDict [])"
| "merge_rows n override_keys [] result = Some (Inr result)"
| "merge_rows n override_keys (row # rows) result =
     (case row of
        PDict d \<Rightarrow>
          (case merge_items n override_keys row d result of
             Some (Inr r) \<Rightarrow> merge_rows n override_keys rows r
           | other \<Rightarrow> other)
      | _ \<Rightarrow> Some (Inl No_Attribute))"
| "merge_items n override_keys row [] result = Some (Inr result)"
| "merge_items n override_keys row ((key, v) # d) result =
     (case (case v of
              PList xs \<Rightarrow>
                (case held key result of
                   Some (PList ys) \<Rightarrow> map_option (map_sum id as_list) (merge n override_keys (ys @ xs))
                 | Some _ \<Rightarrow> Some (Inl Wrong_Type)
                 | None \<Rightarrow> map_option (map_sum id as_list) (merge n override_keys xs))
            | PDict e \<Rightarrow>
                (case held key result of
                   Some w \<Rightarrow>
                     (case merge n override_keys [w, v] of
                        Some (Inl No_Attribute) \<Rightarrow>
                          if is_str w \<and> key \<in> set override_keys
                          then merge n override_keys [PDict [], v] else Some (Inl No_Attribute)
                      | other \<Rightarrow> other)
                 | None \<Rightarrow> Some (Inr v))
            | _ \<Rightarrow> Some (Inr v)) of
        None \<Rightarrow> None
      | Some (Inl e) \<Rightarrow> Some (Inl e)
      | Some (Inr w) \<Rightarrow>
          if held key result \<noteq> None \<and> \<not> is_list v \<and> \<not> is_dict v
          then merge_items n override_keys row d (PList [result, row])
          else (case store key w result of
                  Inl e \<Rightarrow> Some (Inl e) | Inr r \<Rightarrow> merge_items n override_keys row d r))"

text \<open>The depth of nested dictionaries; a list counts at least as one.\<close>

fun depth :: "pyval \<Rightarrow> nat" where
  "depth (PDict d) = Suc (foldr (\<lambda>(k, v). max (depth v)) d 0)"
| "depth (PList xs) = foldr (\<lambda>x. max (depth x)) xs 1"
| "depth _ = 0"

definition merge_list_of_dicts :: "string list \<Rightarrow> pyval list \<Rightarrow> (tools_error + pyval) option" where
  "merge_list_of_dicts override_keys rows = merge (depth (PList rows)) override_keys rows"

section \<open>Rows\<close>

definition nested_cell :: "string \<Rightarrow> pyval \<Rightarrow> tools_error + pyval" where
  "nested_cell key v =
     (let parts = split_on CHR ''/'' key
      in if length parts = 1 then Inr (PDict [(key, v)]) else map_sum id PDict (list_to_dict parts v))"

fun nested_cells :: "(string \<times> pyval) list \<Rightarrow> tools_error + pyval list" where
  "nested_cells [] = Inr []"
| "nested_cells ((k, v) # d) = append_result (map_sum id (\<lambda>x. [x]) (nested_cell k v)) (nested_cells d)"

definition csv_dict_to_nested_dict ::
    "string list \<Rightarrow> (string, pyval) dict \<Rightarrow> (tools_error + (string, pyval) dict) option" where
  "csv_dict_to_nested_dict select_multiples d =
     (case nested_cells d of
        Inl e \<Rightarrow> Some (Inl e)
      | Inr rows \<Rightarrow>
          (case merge_list_of_dicts select_multiples rows of
             None \<Rightarrow> None
           | Some (Inl e) \<Rightarrow> Some (Inl e)
           | Some (Inr r) \<Rightarrow> Some (remove_indices_from_dict r)))"

section \<open>Termination\<close>

lemma depth_dict_le: "depth (PDict d) \<le> Suc n \<longleftrightarrow> (\<forall>(k, v) \<in> set d. depth v \<le> n)"
  by (induction d) auto

lemma depth_list_le: "depth (PList xs) \<le> n \<longleftrightarrow> 1 \<le> n \<and> (\<forall>x \<in> set xs. depth x \<le> n)"
  by (induction xs) auto

lemma depth_list_pos: "depth (PList xs) \<noteq> 0"
  by (induction xs) auto

declare depth.simps(1,2) [simp del]

lemma held_depth: "held key result = Some w \<Longrightarrow> depth result \<le> Suc n \<Longrightarrow> depth w \<le> n"
  by (auto simp: held_def depth_dict_le dest!: map_of_SomeD split: pyval.splits)

lemma set_update_le: "set (AList.update k v d) \<subseteq> insert (k, v) (set d)"
  by (induction d) auto

lemma store_depth:
  assumes "store key w result = Inr r" "depth result \<le> Suc n" "depth w \<le> n"
  shows "depth r \<le> Suc n"
proof -
  obtain d where "result = PDict d" "r = PDict (AList.update key w d)"
    using assms(1) by (auto simp: store_def split: pyval.splits)
  with assms(2,3) set_update_le [of key w d] show ?thesis by (auto simp: depth_dict_le)
qed

text \<open>What a call with fuel \<open>n\<close> returns on rows of depth at most \<open>n\<close>.\<close>

definition settled :: "nat \<Rightarrow> (tools_error + pyval) option \<Rightarrow> bool" where
  "settled n r \<longleftrightarrow> (\<exists>s. r = Some s \<and> (\<forall>v. s = Inr v \<longrightarrow> depth v \<le> n))"

lemma settled_simps [simp]:
  "\<not> settled n None" "settled n (Some (Inl e))" "settled n (Some (Inr v)) \<longleftrightarrow> depth v \<le> n"
  by (auto simp: settled_def)

lemma as_list_depth: "depth (as_list v) \<le> n" if "depth v \<le> n" "1 \<le> n"
  using that by (auto simp: as_list_def depth_list_le)

lemma settled_as_list: "settled n r \<Longrightarrow> 1 \<le> n \<Longrightarrow> settled n (map_option (map_sum id as_list) r)"
  unfolding settled_def by (cases r; cases "the r") (auto simp: as_list_depth)

text \<open>The value that one item contributes.\<close>

definition item_value :: "nat \<Rightarrow> string list \<Rightarrow> string \<Rightarrow> pyval \<Rightarrow> pyval \<Rightarrow> (tools_error + pyval) option" where
  "item_value n ov key v result =
     (case v of
        PList xs \<Rightarrow>
          (case held key result of
             Some (PList ys) \<Rightarrow> map_option (map_sum id as_list) (merge n ov (ys @ xs))
           | Some _ \<Rightarrow> Some (Inl Wrong_Type)
           | None \<Rightarrow> map_option (map_sum id as_list) (merge n ov xs))
      | PDict e \<Rightarrow>
          (case held key result of
             Some w \<Rightarrow>
               (case merge n ov [w, v] of
                  Some (Inl No_Attribute) \<Rightarrow>
                    if is_str w \<and> key \<in> set ov then merge n ov [PDict [], v] else Some (Inl No_Attribute)
                | other \<Rightarrow> other)
           | None \<Rightarrow> Some (Inr v))
      | _ \<Rightarrow> Some (Inr v))"

lemma merge_items_step:
  "merge_items n ov row ((key, v) # d) result =
     (case item_value n ov key v result of
        None \<Rightarrow> None
      | Some (Inl e) \<Rightarrow> Some (Inl e)
      | Some (Inr w) \<Rightarrow>
          if held key result \<noteq> None \<and> \<not> is_list v \<and> \<not> is_dict v
          then merge_items n ov row d (PList [result, row])
          else (case store key w result of
                  Inl e \<Rightarrow> Some (Inl e) | Inr r \<Rightarrow> merge_items n ov row d r))"
  by (simp add: item_value_def)

lemma item_value_settled:
  assumes "\<And>rows. depth (PList rows) \<le> n \<Longrightarrow> settled n (merge n ov rows)" "depth v \<le> n" "depth result \<le> Suc n"
  shows "settled n (item_value n ov key v result)"
proof (cases v)
  case (PDict e)
  show ?thesis
  proof (cases "held key result")
    case None
    with PDict assms(2) show ?thesis by (simp add: item_value_def)
  next
    case (Some w)
    have w: "depth w \<le> n" using held_depth [OF Some assms(3)] .
    have n: "1 \<le> n" using assms(2) PDict by (cases n) (auto simp: depth.simps)
    have e: "depth (PDict []) \<le> n" using n by (simp add: depth.simps)
    have "settled n (merge n ov [w, v])" "settled n (merge n ov [PDict [], v])"
      using w n e assms(2) by (auto intro!: assms(1) simp: depth_list_le)
    with Some PDict show ?thesis
      by (auto simp: item_value_def split: option.splits sum.splits tools_error.splits)
  qed
next
  case (PList xs)
  have n: "1 \<le> n" using assms(2) depth_list_le [of xs n] PList by simp
  have xs: "settled n (merge n ov xs)" using assms(1,2) PList by simp
  show ?thesis
  proof (cases "held key result")
    case None
    with PList xs n show ?thesis by (simp add: item_value_def settled_as_list)
  next
    case (Some w)
    have w: "depth w \<le> n" using held_depth [OF Some assms(3)] .
    have "settled n (merge n ov (ys @ xs))" if "w = PList ys" for ys
      using w that assms(2) PList by (intro assms(1)) (auto simp: depth_list_le)
    with Some PList n show ?thesis by (cases w) (simp_all add: item_value_def settled_as_list)
  qed
qed (use assms(2) in \<open>simp_all add: item_value_def\<close>)

lemma merge_settled:
  "depth (PList rows) \<le> n \<Longrightarrow> settled n (merge n ov rows)"
proof (induction n arbitrary: rows)
  case 0
  then show ?case by (simp add: depth_list_pos)
next
  case (Suc n)
  have items: "settled (Suc n) (merge_items n ov row d result)"
    if "depth row \<le> Suc n" "\<forall>(k, v) \<in> set d. depth v \<le> n" "depth result \<le> Suc n" for row d result
    using that(2,3)
  proof (induction d arbitrary: result)
    case (Cons kv d)
    obtain key v where kv: "kv = (key, v)" by (cases kv)
    with Cons.prems have "settled n (item_value n ov key v result)"
      by (intro item_value_settled Suc.IH) auto
    then obtain s where "item_value n ov key v result = Some s" "\<forall>w. s = Inr w \<longrightarrow> depth w \<le> n"
      by (auto simp: settled_def)
    moreover have "depth (PList [result, row]) \<le> Suc n"
      using Cons.prems(2) that(1) by (simp add: depth_list_le)
    ultimately show ?case
      using Cons unfolding kv merge_items_step
      by (auto split: option.splits sum.splits simp: store_depth)
  qed simp
  have rows: "settled (Suc n) (merge_rows n ov rows result)"
    if "\<forall>x \<in> set rows. depth x \<le> Suc n" "depth result \<le> Suc n" for rows result
    using that
  proof (induction rows arbitrary: result)
    case (Cons row rows)
    show ?case
    proof (cases row)
      case (PDict d)
      have "settled (Suc n) (merge_items n ov row d result)"
        using Cons.prems PDict by (intro items) (auto simp: depth_dict_le)
      then obtain s where "merge_items n ov row d result = Some s" "\<forall>w. s = Inr w \<longrightarrow> depth w \<le> Suc n"
        by (auto simp: settled_def)
      with Cons PDict show ?thesis by (auto split: option.splits sum.splits)
    qed simp_all
  qed simp
  have "\<forall>x \<in> set rows. depth x \<le> Suc n" using Suc.prems unfolding depth_list_le by simp
  moreover have "depth (PDict []) \<le> Suc n" by (simp add: depth_dict_le)
  ultimately show ?case by (simp add: rows)
qed

section \<open>More fuel changes nothing\<close>

lemma item_value_more:
  assumes "\<And>rows r. merge n ov rows = Some r \<Longrightarrow> merge (Suc n) ov rows = Some r"
    and "item_value n ov key v result = Some r"
  shows "item_value (Suc n) ov key v result = Some r"
proof (cases v)
  case (PList xs)
  show ?thesis
  proof (cases "held key result")
    case None
    with assms PList show ?thesis by (auto simp: item_value_def simp del: merge.simps)
  next
    case (Some w)
    with assms PList show ?thesis by (cases w) (auto simp: item_value_def simp del: merge.simps)
  qed
next
  case (PDict e)
  show ?thesis
  proof (cases "held key result")
    case None
    with assms(2) PDict show ?thesis by (simp add: item_value_def)
  next
    case (Some w)
    note d = item_value_def PDict Some
    obtain m where m: "merge n ov [w, v] = Some m"
      using assms(2) by (cases "merge n ov [w, v]") (simp_all add: d)
    from assms(1) [OF m] assms(2) m show ?thesis
      by (auto simp: d simp del: merge.simps split: sum.splits tools_error.splits if_splits dest: assms(1))
  qed
qed (use assms(2) in \<open>simp_all add: item_value_def\<close>)

lemma merge_more: "merge n ov rows = Some r \<Longrightarrow> merge (Suc n) ov rows = Some r"
proof (induction n arbitrary: rows r)
  case (Suc n)
  have items: "merge_items n ov row d result = Some r \<Longrightarrow> merge_items (Suc n) ov row d result = Some r"
    for row d result r
  proof (induction d arbitrary: result)
    case (Cons kv d)
    obtain key v where kv: "kv = (key, v)" by (cases kv)
    obtain s where s: "item_value n ov key v result = Some s"
      using Cons.prems unfolding kv merge_items_step by (cases "item_value n ov key v result") auto
    have "item_value (Suc n) ov key v result = Some s" by (rule item_value_more [OF Suc.IH s])
    with s Cons show ?case
      unfolding kv merge_items_step by (auto split: sum.splits if_splits)
  qed simp
  have "merge_rows n ov rows result = Some r \<Longrightarrow> merge_rows (Suc n) ov rows result = Some r" for rows result
  proof (induction rows arbitrary: result)
    case (Cons row rows)
    show ?case
    proof (cases row)
      case (PDict d)
      obtain s where s: "merge_items n ov row d result = Some s"
        using Cons.prems PDict by (cases "merge_items n ov row d result") auto
      from items [OF this] s Cons PDict show ?thesis by (auto split: sum.splits)
    qed (use Cons in simp_all)
  qed simp
  with Suc.prems show ?case by simp
qed simp

lemma merge_enough:
  assumes "depth (PList rows) \<le> n"
  shows "merge n ov rows = merge_list_of_dicts ov rows"
  using assms
proof (induction rule: dec_induct)
  case base
  then show ?case by (simp add: merge_list_of_dicts_def)
next
  case (step m)
  obtain r where "merge m ov rows = Some r"
    using merge_settled [OF step.hyps(1), of ov] by (auto simp: settled_def)
  with merge_more [OF this] step.IH show ?case by simp
qed

text \<open>C23: The nesting of CSV rows terminates: whatever the rows hold, \<open>merge_list_of_dicts\<close>
  returns or raises (the depth of the rows bounds its recursion, and any larger bound gives the same
  result), and so does \<open>csv_dict_to_nested_dict\<close> on every row and for every select multiple.\<close>

theorem csv_nesting_terminates:
  "(depth (PList rows) \<le> n \<longrightarrow> (\<exists>r. merge n ov rows = Some r \<and> merge_list_of_dicts ov rows = Some r))
   \<and> (\<exists>r. csv_dict_to_nested_dict select_multiples d = Some r)"
proof
  have total: "\<exists>r. merge_list_of_dicts ov rows = Some r" for ov rows
    using merge_settled [OF order_refl, of rows ov] by (auto simp: merge_list_of_dicts_def settled_def)
  with merge_enough
  show "depth (PList rows) \<le> n \<longrightarrow> (\<exists>r. merge n ov rows = Some r \<and> merge_list_of_dicts ov rows = Some r)"
    by auto
  show "\<exists>r. csv_dict_to_nested_dict select_multiples d = Some r"
  proof (cases "nested_cells d")
    case (Inr rows)
    obtain r where "merge_list_of_dicts select_multiples rows = Some r" using total by blast
    with Inr show ?thesis by (cases r) (simp_all add: csv_dict_to_nested_dict_def)
  qed (simp add: csv_dict_to_nested_dict_def)
qed

theorem csv_nesting_terminates_witness:
  "\<exists>r. merge 9 [] [PDict [(''a'', PDict [(''b'', PStr ''1'')])], PDict [(''a'', PDict [(''c'', PStr ''2'')])]] = Some r"
proof -
  have "depth (PList [PDict [(''a'', PDict [(''b'', PStr ''1'')])], PDict [(''a'', PDict [(''c'', PStr ''2'')])]]) \<le> 9"
    by (simp add: depth.simps)
  with csv_nesting_terminates [of "[PDict [(''a'', PDict [(''b'', PStr ''1'')])], PDict [(''a'', PDict [(''c'', PStr ''2'')])]]" 9]
  show ?thesis by blast
qed

end
