(* ===== verification/Xform_Lifecycle.thy ===== *)
theory Xform_Lifecycle
  imports Py_Time
begin

text \<open>
  Deleting and restoring forms, \<open>XForm.soft_delete\<close> and \<open>XForm.restore\<close> of
  \<open>onadata/apps/logger/models/xform.py\<close>, with what \<open>XForm.save\<close> checks of the ids, and
  the same operations of filtered datasets (\<open>data_view.py\<close>) and form media
  (\<open>meta_data.py\<close>).  A merged dataset is a form.

  The operations run in a transaction: an error leaves the form as it was.  The XML is represented
  by what \<open>instance_id_regex\<close> finds in it, the other active forms of the same user and project
  by their ids.
\<close>

section \<open>Forms\<close>

record dataview =
  dv_name :: string
  dv_deleted_at :: "time option"
  dv_deleted_by :: "string option"

record xform =
  xf_id_string :: string
  xf_sms_id_string :: string
  xf_sms_keyword :: "string option"
  xf_xml_ids :: "string list"
  xf_version :: "string option"
  xf_num_of_submissions :: int
  xf_deleted_at :: "time option"
  xf_deleted_by :: "string option"
  xf_downloadable :: bool
  xf_dataviews :: "dataview list"
  xf_metadata :: "time option list"

datatype xform_error = XLSFormError string | DataError | IntegrityError

definition max_id_length :: nat where
  "max_id_length = 100"

text \<open>\<open>strftime("-deleted-at-%s")\<close>.\<close>

definition deletion_suffix :: "time \<Rightarrow> string" where
  "deletion_suffix t = ''-deleted-at-'' @ show_int (t div second)"

text \<open>\<open>[\w-]\<close>, and \<open>^[\w-]+$\<close>, which allows a line break at the end.\<close>

definition slug_char :: "char \<Rightarrow> bool" where
  "slug_char c =
     (let n = (of_char c :: nat)
      in 48 \<le> n \<and> n \<le> 57 \<or> 65 \<le> n \<and> n \<le> 90 \<or> 97 \<le> n \<and> n \<le> 122 \<or> n \<in> {45, 95, 170, 178, 179, 181, 185, 186}
         \<or> 188 \<le> n \<and> n \<le> 190 \<or> 192 \<le> n \<and> n \<noteq> 215 \<and> n \<noteq> 247)"

definition is_slug :: "string \<Rightarrow> bool" where
  "is_slug s =
     (let t = (if s \<noteq> [] \<and> last s = CHR 0x0A then butlast s else s) in t \<noteq> [] \<and> list_all slug_char t)"

definition invalid_xml_char :: "char \<Rightarrow> bool" where
  "invalid_xml_char c \<longleftrightarrow> c = CHR ''>'' \<or> c = CHR ''&'' \<or> c = CHR ''<''"

text \<open>
  \<open>save(update_fields=[.., "id_string", ..])\<close>: \<open>strict\<close> is the setting \<open>STRICT\<close>,
  \<open>taken\<close> the ids of the other active forms.
\<close>

definition set_id_string :: "xform \<Rightarrow> xform_error + xform" where
  "set_id_string x =
     (case xf_xml_ids x of
        [i] \<Rightarrow> Inr (x\<lparr>xf_id_string := i\<rparr>) | _ \<Rightarrow> Inl (XLSFormError ''There should be a single id string.''))"

definition save_ids :: "bool \<Rightarrow> (string \<times> string) list \<Rightarrow> xform \<Rightarrow> xform_error + xform" where
  "save_ids strict taken x =
     (case (if xf_deleted_at x = None then set_id_string x else Inr x) of
        Inl e \<Rightarrow> Inl e
      | Inr y \<Rightarrow>
          if xf_id_string x \<noteq> [] \<and> xf_id_string x \<noteq> xf_id_string y \<and> 0 < xf_num_of_submissions x
          then Inl (XLSFormError ''Your updated form's id_string must match the existing one.'')
          else if strict \<and> \<not> is_slug (xf_id_string y)
          then Inl (XLSFormError ''In strict mode, the XForm ID must be a valid slug and contain no spaces.'')
          else
            (let z = (if xf_sms_id_string y = []
                      then y\<lparr>xf_sms_id_string := (case xf_sms_keyword y of None \<Rightarrow> xf_id_string y | Some k \<Rightarrow> k)\<rparr>
                      else y)
             in if max_id_length < length (xf_id_string z) \<or> max_id_length < length (xf_sms_id_string z)
                then Inl (XLSFormError ''The XForm id_string provided exceeds 100 characters.'')
                else if (case xf_version z of None \<Rightarrow> False | Some v \<Rightarrow> list_ex invalid_xml_char v)
                then Inl (XLSFormError ''Version shouldn't have any invalid characters.'')
                else if xf_deleted_at z = None
                        \<and> (\<exists>(i, s) \<in> set taken. i = xf_id_string z \<or> s = xf_sms_id_string z)
                then Inl IntegrityError else Inr z))"

section \<open>Filtered datasets\<close>

definition dataview_soft_delete :: "time \<Rightarrow> string option \<Rightarrow> dataview \<Rightarrow> dataview" where
  "dataview_soft_delete t user v =
     v\<lparr>dv_deleted_at := Some t, dv_name := dv_name v @ deletion_suffix t,
       dv_deleted_by := (if user \<noteq> None then user else dv_deleted_by v)\<rparr>"

text \<open>\<open>s.split(sep)[0]\<close>.\<close>

fun before :: "string \<Rightarrow> string \<Rightarrow> string" where
  "before sep [] = []"
| "before sep (c # cs) = (if prefix sep (c # cs) then [] else c # before sep cs)"

definition dataview_restore :: "dataview \<Rightarrow> dataview" where
  "dataview_restore v =
     (if dv_deleted_at v \<noteq> None
      then v\<lparr>dv_name := before ''-deleted-at-'' (dv_name v), dv_deleted_at := None, dv_deleted_by := None\<rparr>
      else v)"

text \<open>The name column of a dataset holds 255 characters.\<close>

definition dataviews_fit :: "dataview list \<Rightarrow> bool" where
  "dataviews_fit vs \<longleftrightarrow> list_all (\<lambda>v. length (dv_name v) \<le> 255) vs"

section \<open>Deleting and restoring\<close>

definition add_suffix :: "string \<Rightarrow> string \<Rightarrow> string" where
  "add_suffix suf v = (if length v + length suf \<le> max_id_length then v @ suf else v)"

definition soft_delete_one ::
    "bool \<Rightarrow> (string \<times> string) list \<Rightarrow> time \<Rightarrow> string option \<Rightarrow> xform \<Rightarrow> xform_error + xform" where
  "soft_delete_one strict taken t user x =
     (if xf_deleted_at x \<noteq> None then Inr x
      else
        (let suf = deletion_suffix t
         in case save_ids strict taken
                   (x\<lparr>xf_deleted_at := Some t, xf_downloadable := False,
                      xf_id_string := add_suffix suf (xf_id_string x),
                      xf_sms_id_string := add_suffix suf (xf_sms_id_string x),
                      xf_deleted_by := (if user \<noteq> None then user else xf_deleted_by x)\<rparr>) of
              Inl e \<Rightarrow> Inl e
            | Inr y \<Rightarrow>
                (let vs = map (dataview_soft_delete t user) (xf_dataviews y)
                 in if dataviews_fit vs
                    then Inr (y\<lparr>xf_dataviews := vs,
                                xf_metadata := map (\<lambda>m. if m = None then Some t else m) (xf_metadata y)\<rparr>)
                    else Inl DataError)))"

definition remove_suffix :: "string \<Rightarrow> string \<Rightarrow> string" where
  "remove_suffix suf v =
     (if suffix suf v then take (length v - length suf) v
      else if length v = max_id_length
      then (case find (\<lambda>n. suffix (take n suf) v) (rev [1..<length suf]) of
              None \<Rightarrow> v | Some n \<Rightarrow> take (length v - n) v)
      else v)"

definition restore_one :: "bool \<Rightarrow> (string \<times> string) list \<Rightarrow> xform \<Rightarrow> xform_error + xform" where
  "restore_one strict taken x =
     (case xf_deleted_at x of
        None \<Rightarrow> Inr x
      | Some t \<Rightarrow>
          (let suf = deletion_suffix t
           in case save_ids strict taken
                     (x\<lparr>xf_deleted_at := None, xf_downloadable := True, xf_deleted_by := None,
                        xf_id_string := remove_suffix suf (xf_id_string x),
                        xf_sms_id_string := remove_suffix suf (xf_sms_id_string x)\<rparr>) of
                Inl e \<Rightarrow> Inl e
              | Inr y \<Rightarrow> Inr (y\<lparr>xf_dataviews := map dataview_restore (xf_dataviews y),
                               xf_metadata := map (\<lambda>m. None) (xf_metadata y)\<rparr>)))"

text \<open>The merged datasets of a form follow it; the first error undoes everything.  A restored form
  takes its ids.\<close>

fun all_right :: "('a \<Rightarrow> 'e + 'b) \<Rightarrow> 'a list \<Rightarrow> 'e + 'b list" where
  "all_right f [] = Inr []"
| "all_right f (x # xs) =
     (case f x of Inl e \<Rightarrow> Inl e
      | Inr y \<Rightarrow> (case all_right f xs of Inl e \<Rightarrow> Inl e | Inr ys \<Rightarrow> Inr (y # ys)))"

definition soft_delete ::
    "bool \<Rightarrow> (string \<times> string) list \<Rightarrow> time \<Rightarrow> string option \<Rightarrow> xform \<times> xform list
     \<Rightarrow> xform_error + (xform \<times> xform list)" where
  "soft_delete strict taken t user = (\<lambda>(x, merged).
     if xf_deleted_at x \<noteq> None then Inr (x, merged)
     else (case soft_delete_one strict taken t user x of
             Inl e \<Rightarrow> Inl e
           | Inr y \<Rightarrow>
               (case all_right (soft_delete_one strict taken t user) merged of
                  Inl e \<Rightarrow> Inl e | Inr ms \<Rightarrow> Inr (y, ms))))"

fun restore_all :: "bool \<Rightarrow> (string \<times> string) list \<Rightarrow> xform list \<Rightarrow> xform_error + xform list" where
  "restore_all strict taken [] = Inr []"
| "restore_all strict taken (x # xs) =
     (case restore_one strict taken x of
        Inl e \<Rightarrow> Inl e
      | Inr y \<Rightarrow>
          (case restore_all strict ((xf_id_string y, xf_sms_id_string y) # taken) xs of
             Inl e \<Rightarrow> Inl e | Inr ys \<Rightarrow> Inr (y # ys)))"

definition restore ::
    "bool \<Rightarrow> (string \<times> string) list \<Rightarrow> xform \<times> xform list \<Rightarrow> xform_error + (xform \<times> xform list)" where
  "restore strict taken = (\<lambda>(x, merged).
     if xf_deleted_at x = None then Inr (x, merged)
     else (case restore_all strict taken (x # merged) of
             Inl e \<Rightarrow> Inl e | Inr xs \<Rightarrow> Inr (hd xs, tl xs)))"

section \<open>Ids come back\<close>

definition clear_of :: "string \<Rightarrow> string \<Rightarrow> bool" where
  "clear_of suf v \<longleftrightarrow>
     length v + length suf \<le> max_id_length \<or> (\<forall>n \<in> {1..length suf}. \<not> suffix (take n suf) v)"

lemma suffix_length: "suf \<noteq> [] \<Longrightarrow> \<forall>n \<in> {1..length suf}. \<not> suffix (take n suf) v \<Longrightarrow> \<not> suffix suf v"
  by (metis One_nat_def Suc_leI atLeastAtMost_iff le_refl length_greater_0_conv take_all)

lemma remove_add_suffix:
  assumes "clear_of suf v" "suf \<noteq> []"
  shows "remove_suffix suf (add_suffix suf v) = v"
proof (cases "length v + length suf \<le> max_id_length")
  case False
  with assms have none: "\<forall>n \<in> {1..length suf}. \<not> suffix (take n suf) v" by (simp add: clear_of_def)
  then have "find (\<lambda>n. suffix (take n suf) v) (rev [1..<length suf]) = None"
    by (auto simp: find_None_iff)
  with False suffix_length [OF assms(2) none] show ?thesis by (simp add: add_suffix_def remove_suffix_def)
qed (simp add: add_suffix_def remove_suffix_def suffixI)

lemma digit_slug: "d < 10 \<Longrightarrow> slug_char (digit_char d)"
proof -
  assume "d < 10"
  then have "(of_char (digit_char d) :: nat) = 48 + d" by (simp add: digit_char_def)
  with \<open>d < 10\<close> show ?thesis by (simp add: slug_char_def Let_def)
qed

lemma show_nat_slug: "list_all slug_char (show_nat n)"
proof (induction n rule: show_nat.induct)
  case (1 n)
  then show ?case by (cases "n < 10") (simp_all add: show_nat_small show_nat_large digit_slug)
qed

lemma slug_string:
  assumes "list_all slug_char v" "v \<noteq> []"
  shows "is_slug v"
proof -
  have "\<not> slug_char (CHR 0x0A)" by code_simp
  moreover have "slug_char (last v)" using assms by (simp add: list_all_iff)
  ultimately have "last v \<noteq> CHR 0x0A" by metis
  with assms show ?thesis by (simp add: is_slug_def)
qed

lemma deletion_suffix_slug: "list_all slug_char (deletion_suffix t)" "deletion_suffix t \<noteq> []"
proof -
  have "list_all slug_char ''-deleted-at-''" "slug_char CHR ''-''" by code_simp+
  then show "list_all slug_char (deletion_suffix t)"
    by (simp add: deletion_suffix_def show_int_def show_nat_slug)
  show "deletion_suffix t \<noteq> []" by (simp add: deletion_suffix_def)
qed

lemma before_append:
  "before sep (a @ sep @ r) = before sep (a @ sep)" if "sep \<noteq> []"
proof (induction a)
  case Nil
  then show ?case using that by (cases sep) auto
next
  case (Cons c a)
  have "prefix sep (c # a @ sep @ r) \<longleftrightarrow> prefix sep (c # a @ sep)"
    using prefix_length_prefix [of sep "c # a @ sep @ r" "c # a @ sep"] by (auto intro: prefix_order.trans)
  with Cons show ?case by simp
qed

text \<open>A live dataset whose name has no deletion mark, and room for one.\<close>

definition plain_dataview :: "time \<Rightarrow> dataview \<Rightarrow> bool" where
  "plain_dataview t v \<longleftrightarrow>
     dv_deleted_at v = None \<and> dv_deleted_by v = None \<and> before ''-deleted-at-'' (dv_name v @ ''-deleted-at-'') = dv_name v
     \<and> length (dv_name v) + length (deletion_suffix t) \<le> 255"

lemma dataview_round_trip: "plain_dataview t v \<Longrightarrow> dataview_restore (dataview_soft_delete t user v) = v"
  using before_append [of "''-deleted-at-''" "dv_name v" "show_int (t div second)"]
  by (cases v) (simp add: plain_dataview_def dataview_restore_def dataview_soft_delete_def deletion_suffix_def)

text \<open>A live, active form that \<open>save\<close> accepts and whose ids have no deletion mark.\<close>

definition plain_form :: "(string \<times> string) list \<Rightarrow> time \<Rightarrow> xform \<Rightarrow> bool" where
  "plain_form taken t x \<longleftrightarrow>
     xf_deleted_at x = None \<and> xf_deleted_by x = None \<and> xf_downloadable x
     \<and> xf_xml_ids x = [xf_id_string x] \<and> xf_id_string x \<noteq> [] \<and> list_all slug_char (xf_id_string x)
     \<and> length (xf_id_string x) \<le> max_id_length \<and> xf_sms_id_string x \<noteq> [] \<and> length (xf_sms_id_string x) \<le> max_id_length
     \<and> clear_of (deletion_suffix t) (xf_id_string x) \<and> clear_of (deletion_suffix t) (xf_sms_id_string x)
     \<and> (case xf_version x of None \<Rightarrow> True | Some v \<Rightarrow> \<not> list_ex invalid_xml_char v)
     \<and> (\<forall>(i, s) \<in> set taken. i \<noteq> xf_id_string x \<and> s \<noteq> xf_sms_id_string x)
     \<and> (\<forall>v \<in> set (xf_dataviews x). plain_dataview t v) \<and> (\<forall>m \<in> set (xf_metadata x). m = None)"

lemma add_suffix_length: "length v \<le> max_id_length \<Longrightarrow> length (add_suffix suf v) \<le> max_id_length"
  by (simp add: add_suffix_def)

lemma add_suffix_neq: "v \<noteq> [] \<Longrightarrow> add_suffix suf v \<noteq> []"
  by (simp add: add_suffix_def)

lemma save_ids_deleted:
  assumes "xf_deleted_at y \<noteq> None" "is_slug (xf_id_string y)" "xf_sms_id_string y \<noteq> []"
    and "length (xf_id_string y) \<le> max_id_length" "length (xf_sms_id_string y) \<le> max_id_length"
    and "case xf_version y of None \<Rightarrow> True | Some v \<Rightarrow> \<not> list_ex invalid_xml_char v"
  shows "save_ids strict taken y = Inr y"
  using assms by (auto simp: save_ids_def Let_def split: option.splits)

lemma save_ids_live:
  assumes "xf_deleted_at y = None" "xf_xml_ids y = [xf_id_string y]" "is_slug (xf_id_string y)" "xf_sms_id_string y \<noteq> []"
    and "length (xf_id_string y) \<le> max_id_length" "length (xf_sms_id_string y) \<le> max_id_length"
    and "case xf_version y of None \<Rightarrow> True | Some v \<Rightarrow> \<not> list_ex invalid_xml_char v"
    and "\<forall>(i, s) \<in> set taken. i \<noteq> xf_id_string y \<and> s \<noteq> xf_sms_id_string y"
  shows "save_ids strict taken y = Inr y"
proof -
  have "y\<lparr>xf_id_string := xf_id_string y\<rparr> = y" by (cases y) simp
  then have "set_id_string y = Inr y" by (simp add: set_id_string_def assms(2))
  moreover have "\<not> (\<exists>(i, s) \<in> set taken. i = xf_id_string y \<or> s = xf_sms_id_string y)" using assms(8) by auto
  ultimately show ?thesis
    using assms(1,3-7) by (simp add: save_ids_def Let_def split: option.splits)
qed

lemma undo_fields:
  assumes "xf_deleted_at x = None" "xf_deleted_by x = None" "xf_downloadable x"
    and "i = xf_id_string x" "s = xf_sms_id_string x"
  shows "x\<lparr>xf_deleted_at := Some t, xf_downloadable := False, xf_id_string := i', xf_sms_id_string := s',
      xf_deleted_by := u, xf_dataviews := vs, xf_metadata := ms, xf_deleted_at := None, xf_downloadable := True,
      xf_deleted_by := None, xf_id_string := i, xf_sms_id_string := s\<rparr> = x\<lparr>xf_dataviews := vs, xf_metadata := ms\<rparr>"
  using assms by (cases x) simp

lemma form_round_trip:
  assumes "plain_form taken2 t x"
  shows "\<exists>y. soft_delete_one strict taken1 t user x = Inr y \<and> xf_deleted_at y = Some t \<and> \<not> xf_downloadable y
    \<and> restore_one strict taken2 y = Inr x"
proof -
  let ?suf = "deletion_suffix t"
  let ?y = "x\<lparr>xf_deleted_at := Some t, xf_downloadable := False, xf_id_string := add_suffix ?suf (xf_id_string x),
      xf_sms_id_string := add_suffix ?suf (xf_sms_id_string x),
      xf_deleted_by := (if user \<noteq> None then user else xf_deleted_by x)\<rparr>"
  let ?vs = "map (dataview_soft_delete t user) (xf_dataviews x)"
  note p = assms [unfolded plain_form_def]
  have "is_slug (add_suffix ?suf (xf_id_string x))"
    using p deletion_suffix_slug [of t] by (intro slug_string) (auto simp: add_suffix_def)
  then have saved: "save_ids strict taken1 ?y = Inr ?y"
    using p by (intro save_ids_deleted) (simp_all add: add_suffix_length add_suffix_neq)
  have fit: "dataviews_fit ?vs"
    using p by (auto simp: dataviews_fit_def list_all_iff plain_dataview_def dataview_soft_delete_def)
  let ?z = "?y\<lparr>xf_dataviews := ?vs, xf_metadata := map (\<lambda>m. if m = None then Some t else m) (xf_metadata x)\<rparr>"
  have del: "soft_delete_one strict taken1 t user x = Inr ?z"
    using p saved fit by (simp add: soft_delete_one_def Let_def)
  let ?x = "?z\<lparr>xf_deleted_at := None, xf_downloadable := True, xf_deleted_by := None,
      xf_id_string := remove_suffix ?suf (xf_id_string ?z), xf_sms_id_string := remove_suffix ?suf (xf_sms_id_string ?z)\<rparr>"
  have ids: "remove_suffix ?suf (xf_id_string ?z) = xf_id_string x" "remove_suffix ?suf (xf_sms_id_string ?z) = xf_sms_id_string x"
    using p deletion_suffix_slug(2) by (simp_all add: remove_add_suffix)
  have live: "xf_deleted_at x = None" "xf_deleted_by x = None" "xf_downloadable x" using p by auto
  let ?w = "x\<lparr>xf_dataviews := ?vs, xf_metadata := map (\<lambda>m. if m = None then Some t else m) (xf_metadata x)\<rparr>"
  have x: "?x = ?w"
    by (rule undo_fields [OF live ids])
  have "is_slug (xf_id_string x)" using p by (simp add: slug_string)
  then have "save_ids strict taken2 ?w = Inr ?w"
    using p by (intro save_ids_live) simp_all
  then have "restore_one strict taken2 ?z
      = Inr (?w\<lparr>xf_dataviews := map dataview_restore ?vs,
               xf_metadata := map (\<lambda>m. None) (map (\<lambda>m. if m = None then Some t else m) (xf_metadata x))\<rparr>)"
    unfolding x [symmetric] by (simp add: restore_one_def Let_def)
  moreover have "map dataview_restore ?vs = xf_dataviews x"
    unfolding map_map by (rule map_idI) (use p dataview_round_trip in auto)
  moreover have "map (\<lambda>m. None) (map (\<lambda>m. if m = None then Some t else m) (xf_metadata x)) = xf_metadata x"
    unfolding map_map by (rule map_idI) (use p in auto)
  ultimately have "restore_one strict taken2 ?z = Inr x" by simp
  with del show ?thesis by auto
qed


lemma all_deleted:
  assumes "\<forall>x \<in> set xs. soft_delete_one strict taken t user x = Inr (f x)"
  shows "all_right (soft_delete_one strict taken t user) xs = Inr (map f xs)"
  using assms by (induction xs) simp_all

text \<open>Forms whose ids are free, one after the other.\<close>

fun plain_forms :: "(string \<times> string) list \<Rightarrow> time \<Rightarrow> xform list \<Rightarrow> bool" where
  "plain_forms taken t [] = True"
| "plain_forms taken t (x # xs) =
     (plain_form taken t x \<and> plain_forms ((xf_id_string x, xf_sms_id_string x) # taken) t xs)"

lemma family_round_trip:
  assumes "plain_forms taken2 t xs"
  shows "\<exists>ys. all_right (soft_delete_one strict taken1 t user) xs = Inr ys \<and> restore_all strict taken2 ys = Inr xs
    \<and> (\<forall>y \<in> set ys. xf_deleted_at y = Some t \<and> \<not> xf_downloadable y)"
  using assms
proof (induction xs arbitrary: taken2)
  case (Cons x xs)
  then obtain y where y: "soft_delete_one strict taken1 t user x = Inr y" "restore_one strict taken2 y = Inr x"
      "xf_deleted_at y = Some t" "\<not> xf_downloadable y"
    using form_round_trip [of taken2 t x strict taken1 user] by auto
  obtain ys where "all_right (soft_delete_one strict taken1 t user) xs = Inr ys"
      "restore_all strict ((xf_id_string x, xf_sms_id_string x) # taken2) ys = Inr xs"
      "\<forall>y \<in> set ys. xf_deleted_at y = Some t \<and> \<not> xf_downloadable y"
    using Cons.IH [of "(xf_id_string x, xf_sms_id_string x) # taken2"] Cons.prems by auto
  with y show ?case by (intro exI [of _ "y # ys"]) simp
qed simp


definition sample_form :: xform where
  "sample_form =
     \<lparr>xf_id_string = ''tree'', xf_sms_id_string = ''tree_sms'', xf_sms_keyword = None, xf_xml_ids = [''tree''],
      xf_version = Some ''1'', xf_num_of_submissions = 3, xf_deleted_at = None, xf_deleted_by = None,
      xf_downloadable = True,
      xf_dataviews = [\<lparr>dv_name = ''tall'', dv_deleted_at = None, dv_deleted_by = None\<rparr>], xf_metadata = [None]\<rparr>"

definition sample_time :: time where
  "sample_time = 17 * second"

lemma sample_form_plain: "plain_forms [(''soil'', ''soil'')] sample_time [sample_form]"
  by code_simp


text \<open>
  The ids of a form that reaches the maximum length get no mark, but restoring still looks for a
  part of one at their end.
\<close>

theorem dash_form_is_not_restored:
  "let x = sample_form\<lparr>xf_id_string := replicate 99 (CHR ''a'') @ ''-'', xf_xml_ids := [replicate 99 (CHR ''a'') @ ''-'']\<rparr>
   in (case soft_delete True [] sample_time None (x, []) of
         Inl e \<Rightarrow> False
       | Inr (y, ys) \<Rightarrow>
           restore True [] (y, ys)
           = Inl (XLSFormError ''Your updated form's id_string must match the existing one.''))"
  by code_simp

end
