(* ===== verification/Exports.thy ===== *)
theory Exports
  imports Py_Time
begin

text \<open>
  Exports of forms and entity lists: the rows of \<open>onadata/apps/viewer/models/export.py\<close>
  (\<open>Export\<close> and \<open>GenericExport\<close>, which differ in their owner), their files in the storage, the
  limit on their number, and the asynchronous tasks of \<open>onadata/apps/viewer/tasks.py\<close> that fill,
  fail and delete them.

  What builds the content of a file (\<open>ExportBuilder\<close>, the KML template, the external service) is
  represented by its outcome; the names the storage gives to files are an argument.  Of rows with the
  same creation time the database may take any as the oldest or latest; the model takes the first
  respectively the last.
\<close>

section \<open>Paths and file names\<close>

text \<open>\<open>os.path.join(a, b)\<close> and \<open>os.path.split(p)\<close>.\<close>

definition path_join :: "string \<Rightarrow> string \<Rightarrow> string" where
  "path_join a b =
     (if b \<noteq> [] \<and> hd b = CHR ''/'' then b
      else if a = [] \<or> last a = CHR ''/'' then a @ b else a @ ''/'' @ b)"

definition path_split :: "string \<Rightarrow> string \<times> string" where
  "path_split p =
     (let f = rev (takeWhile (\<lambda>c. c \<noteq> CHR ''/'') (rev p));
          d = take (length p - length f) p
      in (if list_all (\<lambda>c. c = CHR ''/'') d then d else rev (dropWhile (\<lambda>c. c = CHR ''/'') (rev d)), f))"

text \<open>\<open>os.path.splitext(p)\<close>: leading dots of the last component do not count.\<close>

definition splitext :: "string \<Rightarrow> string \<times> string" where
  "splitext p =
     (let f = rev (takeWhile (\<lambda>c. c \<noteq> CHR ''/'') (rev p));
          e = rev (takeWhile (\<lambda>c. c \<noteq> CHR ''.'') (rev f));
          root = take (length f - length e - 1) f
      in if CHR ''.'' \<notin> set f \<or> list_all (\<lambda>c. c = CHR ''.'') root then (p, [])
         else (take (length p - length e - 1) p, CHR ''.'' # e))"

definition is_digit :: "char \<Rightarrow> bool" where
  "is_digit c = (let n = (of_char c :: nat) in 48 \<le> n \<and> n \<le> 57)"

definition digits_value :: "string \<Rightarrow> nat" where
  "digits_value = foldl (\<lambda>n c. 10 * n + (of_char c - 48)) 0"

definition newline :: char where
  "newline = CHR 0x0A"

text \<open>
  The regular expression \<open>(.+?)\-(\d+)(\..+)\<close>, matched from the start: \<open>index_at\<close> is what follows
  the first group.
\<close>

definition index_at :: "string \<Rightarrow> (nat \<times> string) option" where
  "index_at s =
     (case s of
        [] \<Rightarrow> None
      | c # r \<Rightarrow>
          if c \<noteq> CHR ''-'' then None
          else (case dropWhile is_digit r of
                  d # x # e \<Rightarrow>
                    if takeWhile is_digit r \<noteq> [] \<and> d = CHR ''.'' \<and> x \<noteq> newline
                    then Some (digits_value (takeWhile is_digit r), d # takeWhile (\<lambda>c. c \<noteq> newline) (x # e))
                    else None
                | _ \<Rightarrow> None))"

fun match_index :: "bool \<Rightarrow> string \<Rightarrow> (string \<times> nat \<times> string) option" where
  "match_index first [] = None"
| "match_index first (c # s) =
     (case (if first then None else index_at (c # s)) of
        Some (n, e) \<Rightarrow> Some ([], n, e)
      | None \<Rightarrow>
          if c = newline then None else map_option (\<lambda>(b, n, e). (c # b, n, e)) (match_index False s))"

definition increment_index_in_filename :: "string \<Rightarrow> string" where
  "increment_index_in_filename filename =
     (let (base, index, ext) =
            (case match_index True filename of
               Some (b, n, e) \<Rightarrow> (b, n + 1, e)
             | None \<Rightarrow> (let (b, e) = splitext filename in (b, 1, e)))
      in base @ ''-'' @ show_nat index @ ext)"

text \<open>\<open>while not is_filename_unique(..): ..\<close>, with a bound on the number of rounds.\<close>

fun unused_filename :: "nat \<Rightarrow> (string \<Rightarrow> bool) \<Rightarrow> string \<Rightarrow> string option" where
  "unused_filename 0 used filename = None"
| "unused_filename (Suc n) used filename =
     (if used filename then unused_filename n used (increment_index_in_filename filename) else Some filename)"

section \<open>Rows\<close>

text \<open>\<open>async_status\<close>: the numbers are the positions.\<close>

datatype async_status = PENDING | SUCCESSFUL | FAILED | PROGRESS | RETRY | STARTED

definition status_msg :: "async_status \<Rightarrow> string" where
  "status_msg s =
     (case s of PENDING \<Rightarrow> ''PENDING'' | SUCCESSFUL \<Rightarrow> ''SUCCESS'' | FAILED \<Rightarrow> ''FAILURE''
      | PROGRESS \<Rightarrow> ''PROGRESS'' | RETRY \<Rightarrow> ''RETRY'' | STARTED \<Rightarrow> ''STARTED'')"

definition celery_state_to_status :: "string \<Rightarrow> async_status" where
  "celery_state_to_status state =
     (if state = ''PENDING'' then PENDING else if state = ''STARTED'' then STARTED
      else if state = ''RETRY'' then RETRY else if state = ''SUCCESS'' then SUCCESSFUL
      else if state = ''PROGRESS'' then PROGRESS else FAILED)"

record 'o export =
  ex_id :: "nat option"
  ex_owner :: 'o
  ex_type :: string
  ex_created_on :: time
  ex_filename :: "string option"
  ex_filedir :: "string option"
  ex_task_id :: "string option"
  ex_time_of_last_submission :: "time option"
  ex_internal_status :: async_status
  ex_export_url :: "string option"
  ex_options :: "(string, pyval) dict"
  ex_error_message :: "string option"

record 'o exports =
  xs_rows :: "'o export list"
  xs_next :: nat
  xs_files :: "string list"

datatype export_error =
    Integrity_Error
  | Data_Error
  | Does_Not_Exist
  | Unbound_Local
  | Task_Error string
  | Export_Type_Error
  | Export_Connection_Error

definition max_exports :: nat where
  "max_exports = 10"

definition given :: "string option \<Rightarrow> bool" where
  "given s \<longleftrightarrow> s \<noteq> None \<and> s \<noteq> Some []"

definition status :: "'o export \<Rightarrow> async_status" where
  "status e =
     (if given (ex_filename e) then SUCCESSFUL
      else if ex_internal_status e = FAILED then FAILED else PENDING)"

definition is_pending :: "'o export \<Rightarrow> bool" where
  "is_pending e \<longleftrightarrow> status e = PENDING"

definition is_successful :: "'o export \<Rightarrow> bool" where
  "is_successful e \<longleftrightarrow> status e = SUCCESSFUL"

definition filepath :: "'o export \<Rightarrow> string option" where
  "filepath e =
     (case (ex_filedir e, ex_filename e) of
        (Some (d # ds), Some (f # fs)) \<Rightarrow> Some (path_join (d # ds) (f # fs))
      | _ \<Rightarrow> None)"

definition is_filename_unique :: "'o exports \<Rightarrow> 'o \<Rightarrow> string \<Rightarrow> bool" where
  "is_filename_unique T own f \<longleftrightarrow>
     \<not> list_ex (\<lambda>e. ex_owner e = own \<and> ex_filename e = Some f) (xs_rows T)"

definition of_kind :: "'o \<Rightarrow> string \<Rightarrow> 'o export \<Rightarrow> bool" where
  "of_kind own ty e \<longleftrightarrow> ex_owner e = own \<and> ex_type e = ty"

text \<open>\<open>order_by("created_on")[0]\<close> and \<open>latest("created_on")\<close>.\<close>

fun oldest :: "'o export list \<Rightarrow> 'o export option" where
  "oldest [] = None"
| "oldest (e # es) =
     (case oldest es of
        None \<Rightarrow> Some e
      | Some f \<Rightarrow> if ex_created_on e \<le> ex_created_on f then Some e else Some f)"

fun latest :: "'o export list \<Rightarrow> 'o export option" where
  "latest [] = None"
| "latest (e # es) =
     (case latest es of
        None \<Rightarrow> Some e
      | Some f \<Rightarrow> if ex_created_on f < ex_created_on e then Some e else Some f)"

text \<open>\<open>delete()\<close> with \<open>export_delete_callback\<close>.\<close>

definition remove_file :: "'o export \<Rightarrow> string list \<Rightarrow> string list" where
  "remove_file e fs =
     (case filepath e of Some p \<Rightarrow> filter (\<lambda>f. f \<noteq> p) fs | None \<Rightarrow> fs)"

definition delete_row :: "'o export \<Rightarrow> 'o exports \<Rightarrow> 'o exports" where
  "delete_row e T =
     T\<lparr>xs_rows := filter (\<lambda>f. ex_id f \<noteq> ex_id e) (xs_rows T), xs_files := remove_file e (xs_files T)\<rparr>"

definition delete_oldest_export :: "'o \<Rightarrow> string \<Rightarrow> 'o exports \<Rightarrow> 'o exports" where
  "delete_oldest_export own ty T =
     (case oldest (filter (of_kind own ty) (xs_rows T)) of None \<Rightarrow> T | Some e \<Rightarrow> delete_row e T)"

text \<open>The row written by \<open>super().save()\<close>: an update of the row, or an insertion when there is none.\<close>

definition write_row :: "time \<Rightarrow> 'o export \<Rightarrow> 'o exports \<Rightarrow> 'o export \<times> 'o exports" where
  "write_row now e T =
     (if ex_id e \<noteq> None \<and> list_ex (\<lambda>f. ex_id f = ex_id e) (xs_rows T)
      then (e, T\<lparr>xs_rows := map (\<lambda>f. if ex_id f = ex_id e then e else f) (xs_rows T)\<rparr>)
      else
        (let i = (case ex_id e of Some i \<Rightarrow> i | None \<Rightarrow> xs_next T);
             f = e\<lparr>ex_id := Some i, ex_created_on := now\<rparr>
         in (f, T\<lparr>xs_rows := xs_rows T @ [f], xs_next := max (xs_next T) (Suc i)\<rparr>)))"

definition make_room :: "'o export \<Rightarrow> 'o exports \<Rightarrow> 'o exports" where
  "make_room e T =
     (if max_exports \<le> length (filter (of_kind (ex_owner e) (ex_type e)) (xs_rows T))
      then delete_oldest_export (ex_owner e) (ex_type e) T else T)"

text \<open>The lengths of the columns.\<close>

definition at_most :: "nat \<Rightarrow> string option \<Rightarrow> bool" where
  "at_most n s = (case s of None \<Rightarrow> True | Some t \<Rightarrow> length t \<le> n)"

definition columns_fit :: "'o export \<Rightarrow> bool" where
  "columns_fit e \<longleftrightarrow>
     length (ex_type e) \<le> 10 \<and> at_most 255 (ex_filename e) \<and> at_most 255 (ex_filedir e)
     \<and> at_most 255 (ex_task_id e) \<and> at_most 200 (ex_export_url e) \<and> at_most 255 (ex_error_message e)"

text \<open>
  \<open>save()\<close>; \<open>changed\<close> is the time of the last change of the owner's data.  An error leaves the table
  without the row that had to make room.
\<close>

definition save_export ::
    "time \<Rightarrow> ('o \<Rightarrow> time option) \<Rightarrow> 'o export \<Rightarrow> 'o exports \<Rightarrow> (export_error + 'o export) \<times> 'o exports" where
  "save_export now changed e T =
     (let (e1, T1) =
            (if ex_id e = None
             then (e\<lparr>ex_time_of_last_submission := changed (ex_owner e)\<rparr>, make_room e T) else (e, T));
          e2 = (if given (ex_filename e1) then e1\<lparr>ex_internal_status := SUCCESSFUL\<rparr> else e1)
      in if \<not> columns_fit e2 then (Inl Data_Error, T1)
         else if ex_filename e2 \<noteq> None
            \<and> list_ex (\<lambda>f. ex_owner f = ex_owner e2 \<and> ex_filename f = ex_filename e2 \<and> ex_id f \<noteq> ex_id e2) (xs_rows T1)
         then (Inl Integrity_Error, T1)
         else (case write_row now e2 T1 of (f, T2) \<Rightarrow> (Inr f, T2)))"

definition set_filename :: "string \<Rightarrow> string \<Rightarrow> string \<Rightarrow> 'o export \<Rightarrow> 'o export" where
  "set_filename username id_string filename e =
     e\<lparr>ex_filename := Some filename, ex_internal_status := SUCCESSFUL,
       ex_filedir := Some (path_join (path_join (path_join username ''exports'') id_string) (ex_type e))\<rparr>"

section \<open>Options\<close>

definition export_option_fields :: "string list" where
  "export_option_fields =
     [''binary_select_multiples'', ''dataview_pk'', ''title'', ''fields'', ''geo_field'', ''simple_style'',
      ''group_delimiter'', ''include_images'', ''include_labels'', ''include_labels_only'', ''include_hxl'',
      ''language'', ''query'', ''remove_group_name'', ''show_choice_labels'', ''include_reviews'',
      ''split_select_multiples'', ''value_select_multiples'', ''win_excel_utf8'', ''repeat_index_tags'']"

text \<open>
  \<open>get_export_options\<close>, what a row keeps of the options of a request, and
  \<open>get_export_options_query_kwargs\<close>, what a row must have to match them: a JSON lookup by key and
  equal value.
\<close>

definition get_export_options :: "(string, pyval) dict \<Rightarrow> (string, pyval) dict" where
  "get_export_options options = filter (\<lambda>(k, v). k \<in> set export_option_fields) options"

definition get_export_options_query_kwargs :: "(string, pyval) dict \<Rightarrow> (string \<times> pyval) list" where
  "get_export_options_query_kwargs options =
     List.map_filter (\<lambda>k. map_option (Pair k) (map_of options k)) export_option_fields"

definition matches :: "'o \<Rightarrow> string \<Rightarrow> (string, pyval) dict \<Rightarrow> 'o export \<Rightarrow> bool" where
  "matches own ty options e \<longleftrightarrow>
     of_kind own ty e
     \<and> list_all (\<lambda>(k, v). map_of (ex_options e) k = Some v) (get_export_options_query_kwargs options)"

text \<open>
  \<open>Export.exports_outdated\<close> and \<open>GenericExport.exports_outdated\<close>, the latter with the time of the
  last change of its form or entity list.
\<close>

definition exports_outdated ::
    "('o \<Rightarrow> time option) \<Rightarrow> 'o \<Rightarrow> string \<Rightarrow> (string, pyval) dict \<Rightarrow> 'o exports \<Rightarrow> bool" where
  "exports_outdated changed own ty options T =
     (case latest (filter (\<lambda>e. matches own ty options e \<and> ex_internal_status e \<in> {SUCCESSFUL, PENDING}) (xs_rows T)) of
        None \<Rightarrow> True
      | Some e \<Rightarrow>
          (case (ex_time_of_last_submission e, changed own) of
             (Some t, Some c) \<Rightarrow> t < c
           | _ \<Rightarrow> True))"

definition newest_export_for :: "'o \<Rightarrow> string \<Rightarrow> (string, pyval) dict \<Rightarrow> 'o exports \<Rightarrow> 'o export option" where
  "newest_export_for own ty options T = latest (filter (matches own ty options) (xs_rows T))"

text \<open>
  \<open>should_create_new_export\<close>: \<open>always\<close> is the setting \<open>SHOULD_ALWAYS_CREATE_NEW_EXPORT\<close>,
  \<open>ranged\<close> whether the request has one of \<open>start\<close>, \<open>end\<close>, \<open>data_id\<close>.
\<close>

definition should_create_new_export ::
    "bool \<Rightarrow> bool \<Rightarrow> ('o \<Rightarrow> time option) \<Rightarrow> 'o \<Rightarrow> string \<Rightarrow> (string, pyval) dict \<Rightarrow> 'o exports \<Rightarrow> bool" where
  "should_create_new_export always ranged changed own ty options T =
     (always \<or> ranged
      \<or> (case map_of options ''split_select_multiples'' of Some v \<Rightarrow> \<not> truthy v | None \<Rightarrow> False)
      \<or> \<not> list_ex (\<lambda>e. matches own ty options e
                        \<and> (map_of options ''query'' \<in> {None, Some PNone}
                           \<longrightarrow> map_of (ex_options e) ''query'' = None)) (xs_rows T)
      \<or> exports_outdated changed own ty options T)"

text \<open>\<open>check_pending_export\<close>: \<open>minutes\<close> is the setting \<open>PENDING_EXPORT_TIME\<close>.\<close>

definition minute :: time where
  "minute = 60 * second"

definition check_pending_export ::
    "int \<Rightarrow> time \<Rightarrow> 'o \<Rightarrow> string \<Rightarrow> (string, pyval) dict \<Rightarrow> 'o exports \<Rightarrow> 'o export option" where
  "check_pending_export minutes now own ty options T =
     (case filter (\<lambda>e. matches own ty options e \<and> ex_internal_status e = PENDING
                      \<and> now - minutes * minute < ex_created_on e) (xs_rows T) of
        [] \<Rightarrow> None | es \<Rightarrow> Some (last (sort_key (\<lambda>e. case ex_id e of Some i \<Rightarrow> i | None \<Rightarrow> 0) es)))"

section \<open>Generating files\<close>

text \<open>
  How building the content ends: \<open>Built\<close> also without records (\<open>NoRecordsFoundError\<close> is caught),
  \<open>Spss\<close> with the error of the SPSS writer, \<open>Broken\<close> with any other exception.
\<close>

datatype outcome = Built | No_Records | Spss string | Broken string

text \<open>
  The surroundings of a request: the time, its text in file names, the settings
  \<open>EXPORT_WITH_IMAGE_DEFAULT\<close>, \<open>SHOULD_ALWAYS_CREATE_NEW_EXPORT\<close>, \<open>GOOGLE_EXPORT\<close> and
  \<open>PENDING_EXPORT_TIME\<close>, the user name and id of the form, the last change of a form's data, the name
  the storage gives to a new file, the building of contents, and the answer of the external service:
  an error or its address, the name of the template, the response and its status code.
\<close>

record 'o env =
  now :: time
  stamp :: string
  images :: bool
  always_new :: bool
  google :: bool
  pending_minutes :: int
  form_user :: "'o \<Rightarrow> string"
  form_id :: "'o \<Rightarrow> string"
  changed :: "'o \<Rightarrow> time option"
  store_name :: "string list \<Rightarrow> string \<Rightarrow> string"
  build :: "string \<Rightarrow> 'o \<Rightarrow> (string, pyval) dict \<Rightarrow> outcome"
  external :: "'o \<Rightarrow> (string, pyval) dict \<Rightarrow> string + (string \<times> string option \<times> string \<times> int)"

definition save_in :: "'o env \<Rightarrow> 'o export \<Rightarrow> 'o exports \<Rightarrow> (export_error + 'o export) \<times> 'o exports" where
  "save_in env = save_export (now env) (changed env)"

text \<open>\<open>default_storage.save\<close>: a free name, the directory and the last component of it.\<close>

definition store_file :: "'o env \<Rightarrow> string \<Rightarrow> 'o exports \<Rightarrow> (string \<times> string) \<times> 'o exports" where
  "store_file env path T =
     (let name = store_name env (xs_files T) path in (path_split name, T\<lparr>xs_files := xs_files T @ [name]\<rparr>))"

definition create_export_object :: "'o env \<Rightarrow> 'o \<Rightarrow> string \<Rightarrow> (string, pyval) dict \<Rightarrow> 'o export" where
  "create_export_object env own ty options =
     \<lparr>ex_id = None, ex_owner = own, ex_type = ty, ex_created_on = now env, ex_filename = None, ex_filedir = None,
      ex_task_id = None, ex_time_of_last_submission = None, ex_internal_status = PENDING, ex_export_url = None,
      ex_options = get_export_options options, ex_error_message = None\<rparr>"

definition get_export :: "nat option \<Rightarrow> 'o exports \<Rightarrow> 'o export option" where
  "get_export i T = (if i = None then None else find (\<lambda>e. ex_id e = i) (xs_rows T))"

definition get_or_create_export ::
    "'o env \<Rightarrow> nat option \<Rightarrow> 'o \<Rightarrow> string \<Rightarrow> (string, pyval) dict \<Rightarrow> 'o exports \<Rightarrow> 'o export" where
  "get_or_create_export env i own ty options T =
     (case get_export i T of Some e \<Rightarrow> e | None \<Rightarrow> create_export_object env own ty options)"

definition get_or_create_export_object ::
    "'o env \<Rightarrow> nat option \<Rightarrow> 'o \<Rightarrow> string \<Rightarrow> (string, pyval) dict \<Rightarrow> 'o exports
     \<Rightarrow> (export_error + 'o export) \<times> 'o exports" where
  "get_or_create_export_object env i own ty options T =
     (case get_export i T of
        Some e \<Rightarrow> (Inr e, T) | None \<Rightarrow> save_in env (create_export_object env own ty options) T)"

definition opt :: "string \<Rightarrow> (string, pyval) dict \<Rightarrow> pyval" where
  "opt k options = (case map_of options k of Some v \<Rightarrow> v | None \<Rightarrow> PNone)"

definition extension_or :: "string \<Rightarrow> (string, pyval) dict \<Rightarrow> string" where
  "extension_or ty options = (case map_of options ''extension'' of Some (PStr e) \<Rightarrow> e | _ \<Rightarrow> ty)"

definition export_path :: "'o env \<Rightarrow> 'o \<Rightarrow> string \<Rightarrow> string \<Rightarrow> string" where
  "export_path env own ty filename =
     path_join (path_join (path_join (path_join (form_user env own) ''exports'') (form_id env own)) ty) filename"

definition with_file :: "string \<times> string \<Rightarrow> 'o export \<Rightarrow> 'o export" where
  "with_file df e = e\<lparr>ex_filedir := Some (fst df), ex_filename := Some (snd df), ex_internal_status := SUCCESSFUL\<rparr>"

text \<open>
  \<open>generate_export\<close> for the spreadsheet, CSV and SPSS types.  The builder has no
  \<open>to_google_sheets\<close>, other types are missing keys.  An \<open>OperationalError\<close> before anything is
  written makes \<open>retry\<close> call it again and is not modelled.  With \<open>start\<close> or \<open>end\<close> the row
  is not saved.
\<close>

definition save_generated ::
    "'o env \<Rightarrow> string \<Rightarrow> 'o \<Rightarrow> nat option \<Rightarrow> (string, pyval) dict \<Rightarrow> 'o exports
     \<Rightarrow> (export_error + 'o export) \<times> 'o exports" where
  "save_generated env ty own i options T =
     (let base = form_id env own @ ''_'' @ stamp env
            @ (if truthy (opt ''remove_group_name'' options) then ''-group-name-removed'' else [])
            @ (if truthy (opt ''dataview_pk'' options) then ''-dataview'' else [])
      in case unused_filename (Suc (length (xs_rows T))) (\<lambda>f. \<not> is_filename_unique T own f)
                (base @ ''.'' @ extension_or ty options) of
           None \<Rightarrow> (Inl (Task_Error []), T)
         | Some filename \<Rightarrow>
             (case store_file env (export_path env own ty filename) T of
                (df, T1) \<Rightarrow>
                  (let e = with_file df (get_or_create_export env i own ty options T1)
                   in if opt ''start'' options = PNone \<and> opt ''end'' options = PNone
                      then save_in env e T1 else (Inr e, T1))))"

definition generate_export ::
    "'o env \<Rightarrow> string \<Rightarrow> 'o \<Rightarrow> nat option \<Rightarrow> (string, pyval) dict \<Rightarrow> 'o exports
     \<Rightarrow> (export_error + 'o export) \<times> 'o exports" where
  "generate_export env ty own i options T =
     (let options = (if ty \<noteq> ''csv'' then AList.delete ''win_excel_utf8'' options else options)
      in if ty = ''gsheets''
         then (Inl (Task_Error ''ExportBuilder has no attribute to_google_sheets''), T)
         else if ty \<notin> {''xlsx'', ''csv'', ''csv_zip'', ''sav_zip''} then (Inl (Task_Error ty), T)
         else case build env ty own options of
           Broken m \<Rightarrow> (Inl (Task_Error m), T)
         | Spss m \<Rightarrow>
             save_in env ((get_or_create_export env i own ty options T)\<lparr>ex_error_message := Some m,
                                                                        ex_internal_status := FAILED\<rparr>) T
         | _ \<Rightarrow> save_generated env ty own i options T)"

text \<open>
  \<open>generate_attachments_zip_export\<close>, and \<open>generate_kml_export\<close>, \<open>generate_osm_export\<close>,
  \<open>generate_geojson_export\<close>.  The first two take the extension for the type of the export.
\<close>

definition broken :: "outcome \<Rightarrow> string option" where
  "broken r = (case r of Broken m \<Rightarrow> Some m | Spss m \<Rightarrow> Some m | _ \<Rightarrow> None)"

definition generate_attachments_zip_export ::
    "'o env \<Rightarrow> string \<Rightarrow> 'o \<Rightarrow> nat option \<Rightarrow> (string, pyval) dict \<Rightarrow> 'o exports
     \<Rightarrow> (export_error + 'o export) \<times> 'o exports" where
  "generate_attachments_zip_export env ty own i options T =
     (let ty = extension_or ty options
      in case broken (build env ty own options) of
           Some m \<Rightarrow> (Inl (Task_Error m), T)
         | None \<Rightarrow>
             (case store_file env (export_path env own ty
                     (form_id env own @ ''_'' @ stamp env @ ''.'' @ lower ty)) T of
                (df, T1) \<Rightarrow> save_in env (with_file df (get_or_create_export env i own ty options T1)) T1))"

definition generate_in_two_steps ::
    "'o env \<Rightarrow> string \<Rightarrow> string \<Rightarrow> 'o \<Rightarrow> nat option \<Rightarrow> (string, pyval) dict \<Rightarrow> 'o exports
     \<Rightarrow> (export_error + 'o export) \<times> 'o exports" where
  "generate_in_two_steps env ty ext own i options T =
     (case broken (build env ty own options) of
        Some m \<Rightarrow> (Inl (Task_Error m), T)
      | None \<Rightarrow>
          (case store_file env (export_path env own ty (form_id env own @ ''_'' @ stamp env @ ''.'' @ ext)) T of
             (df, T1) \<Rightarrow>
               (case get_or_create_export_object env i own ty options T1 of
                  (Inl x, T2) \<Rightarrow> (Inl x, T2)
                | (Inr e, T2) \<Rightarrow> save_in env (with_file df e) T2)))"

definition generate_kml_export ::
    "'o env \<Rightarrow> string \<Rightarrow> 'o \<Rightarrow> nat option \<Rightarrow> (string, pyval) dict \<Rightarrow> 'o exports
     \<Rightarrow> (export_error + 'o export) \<times> 'o exports" where
  "generate_kml_export env ty own i options =
     (let ty = extension_or ty options in generate_in_two_steps env ty (lower ty) own i options)"

definition generate_osm_export ::
    "'o env \<Rightarrow> string \<Rightarrow> 'o \<Rightarrow> nat option \<Rightarrow> (string, pyval) dict \<Rightarrow> 'o exports
     \<Rightarrow> (export_error + 'o export) \<times> 'o exports" where
  "generate_osm_export env ty own i options =
     generate_in_two_steps env ty (extension_or ty options) own i options"

definition generate_geojson_export ::
    "'o env \<Rightarrow> string \<Rightarrow> 'o \<Rightarrow> nat option \<Rightarrow> (string, pyval) dict \<Rightarrow> 'o exports
     \<Rightarrow> (export_error + 'o export) \<times> 'o exports" where
  "generate_geojson_export env ty own i options =
     generate_in_two_steps env ty (extension_or ty options) own i options"

text \<open>\<open>generate_external_export\<close>, with what the answer of the service changes in the row; here an unknown
  id is an error.\<close>

definition answered :: "string \<Rightarrow> string option \<Rightarrow> string \<Rightarrow> int \<Rightarrow> 'o export \<Rightarrow> 'o export" where
  "answered ser name response code e =
     (if code = 201
      then e\<lparr>ex_internal_status := SUCCESSFUL,
             ex_filename := Some (if name \<noteq> None \<and> name \<noteq> Some []
                                  then the name @ ''-'' @ drop 5 response else drop 5 response),
             ex_export_url := Some (ser @ response)\<rparr>
      else e\<lparr>ex_export_url := Some response, ex_internal_status := FAILED\<rparr>)"

definition generate_external_export ::
    "'o env \<Rightarrow> string \<Rightarrow> 'o \<Rightarrow> nat option \<Rightarrow> (string, pyval) dict \<Rightarrow> 'o exports
     \<Rightarrow> (export_error + 'o export) \<times> 'o exports" where
  "generate_external_export env ty own i options T =
     (case external env own options of
        Inl m \<Rightarrow> (Inl (Task_Error m), T)
      | Inr (ser, name, response, code) \<Rightarrow>
          (case (if i = None then save_in env (create_export_object env own ty options) T
                 else (case get_export i T of Some e \<Rightarrow> (Inr e, T) | None \<Rightarrow> (Inl Does_Not_Exist, T))) of
             (Inl x, T1) \<Rightarrow> (Inl x, T1)
           | (Inr e, T1) \<Rightarrow> save_in env (answered ser name response code e) T1))"

section \<open>Tasks\<close>

text \<open>The generator of each type, as the tasks and the synchronous requests call it.\<close>

definition generate ::
    "'o env \<Rightarrow> string \<Rightarrow> 'o \<Rightarrow> nat option \<Rightarrow> (string, pyval) dict \<Rightarrow> 'o exports
     \<Rightarrow> (export_error + 'o export) \<times> 'o exports" where
  "generate env ty =
     (if ty = ''external'' then generate_external_export env ty
      else if ty = ''osm'' then generate_osm_export env ty
      else if ty = ''zip'' then generate_attachments_zip_export env ty
      else if ty = ''kml'' then generate_kml_export env ty
      else if ty = ''geojson'' then generate_geojson_export env ty
      else generate_export env ty)"

definition task_types :: "string list" where
  "task_types =
     [''xlsx'', ''gsheets'', ''csv'', ''csv_zip'', ''sav_zip'', ''zip'', ''kml'', ''osm'', ''external'', ''geojson'']"

text \<open>
  The ten tasks \<open>create_xlsx_export\<close>, ..  They differ in where they read the row (inside the
  \<open>try\<close> block for three of them, whose handler then finds no \<open>export\<close>) and in whether the
  message of an error is kept; \<open>message\<close> is \<open>str(error)\<close>.  A result \<open>Inr None\<close> is
  the xlsx task's answer to a missing row.
\<close>

definition keeps_message :: "string \<Rightarrow> bool" where
  "keeps_message ty \<longleftrightarrow> ty \<in> {''csv'', ''osm'', ''zip'', ''csv_zip''}"

definition missing_row :: "string \<Rightarrow> export_error + 'o export option" where
  "missing_row ty =
     (if ty = ''xlsx'' then Inr None
      else if ty \<in> {''external'', ''gsheets'', ''geojson''} then Inl Unbound_Local
      else Inl Does_Not_Exist)"

definition run_task ::
    "'o env \<Rightarrow> (export_error \<Rightarrow> string) \<Rightarrow> string \<Rightarrow> nat \<Rightarrow> (string, pyval) dict \<Rightarrow> 'o exports
     \<Rightarrow> (export_error + 'o export option) \<times> 'o exports" where
  "run_task env message ty i options T =
     (case get_export (Some i) T of
        None \<Rightarrow> (missing_row ty, T)
      | Some e \<Rightarrow>
          (let options = (if ty \<in> {''csv_zip'', ''sav_zip''}
                          then AList.update ''extension'' (PStr ''zip'') options else options)
           in case generate env ty (ex_owner e) (Some i) options T of
                (Inr g, T1) \<Rightarrow> (Inr (Some g), T1)
              | (Inl x, T1) \<Rightarrow>
                  (case save_in env
                          (e\<lparr>ex_internal_status := FAILED,
                             ex_error_message := (if keeps_message ty then Some (message x) else ex_error_message e)\<rparr>) T1 of
                     (Inl y, T2) \<Rightarrow> (Inl y, T2) | (Inr _, T2) \<Rightarrow> (Inl x, T2))))"

text \<open>
  \<open>create_async_export\<close>: the row, the task handed to the broker, and the identifier of the task
  written with the requester's copy of the row.  \<open>sent\<close> is the identifier, or \<open>None\<close> when the
  broker is down; the worker may run between the two steps.
\<close>

definition get_boolean_value :: "pyval \<Rightarrow> pyval" where
  "get_boolean_value v =
     (case v of
        PStr s \<Rightarrow> if lower s = ''true'' then PBool True else if lower s = ''false'' then PBool False else v
      | _ \<Rightarrow> v)"

definition async_export_options :: "pyval \<Rightarrow> (string, pyval) dict \<Rightarrow> (string, pyval) dict" where
  "async_export_options query options =
     (let eo = map (\<lambda>(k, v). (k, get_boolean_value v)) (get_export_options options)
      in if truthy query \<and> map_of eo ''query'' = None then AList.update ''query'' query eo else eo)"

definition create_async_row ::
    "'o env \<Rightarrow> 'o \<Rightarrow> string \<Rightarrow> pyval \<Rightarrow> (string, pyval) dict \<Rightarrow> 'o exports
     \<Rightarrow> (export_error + 'o export) \<times> 'o exports" where
  "create_async_row env own ty query options T =
     save_in env ((create_export_object env own ty [])\<lparr>ex_options := async_export_options query options\<rparr>) T"

definition record_task :: "'o env \<Rightarrow> string \<Rightarrow> 'o export \<Rightarrow> 'o exports \<Rightarrow> (export_error + 'o export) \<times> 'o exports" where
  "record_task env task e = save_in env (e\<lparr>ex_task_id := Some task\<rparr>)"

definition broker_down :: "'o env \<Rightarrow> 'o export \<Rightarrow> 'o exports \<Rightarrow> (export_error + 'o export) \<times> 'o exports" where
  "broker_down env e T =
     (case save_in env (e\<lparr>ex_internal_status := FAILED, ex_error_message := Some ''Error connecting to broker.''\<rparr>) T of
        (Inl x, T1) \<Rightarrow> (Inl x, T1) | (Inr _, T1) \<Rightarrow> (Inl Export_Connection_Error, T1))"

definition create_async_export ::
    "'o env \<Rightarrow> ('o exports \<Rightarrow> 'o exports) \<Rightarrow> string option \<Rightarrow> 'o \<Rightarrow> string \<Rightarrow> pyval \<Rightarrow> (string, pyval) dict
     \<Rightarrow> 'o exports \<Rightarrow> (export_error + 'o export) \<times> 'o exports" where
  "create_async_export env worker sent own ty query options T =
     (case create_async_row env own ty query options T of
        (Inl x, T1) \<Rightarrow> (Inl x, T1)
      | (Inr e, T1) \<Rightarrow>
          if ty \<notin> set task_types then (Inl Export_Type_Error, T1)
          else (case sent of
                  None \<Rightarrow> broker_down env e T1
                | Some task \<Rightarrow> record_task env task e (worker T1)))"

text \<open>\<open>delete_export\<close> and the two periodic tasks; \<open>hours\<close> is \<open>EXPORT_TASK_LIFESPAN\<close>.\<close>

definition delete_export :: "nat \<Rightarrow> 'o exports \<Rightarrow> bool \<times> 'o exports" where
  "delete_export i T =
     (case get_export (Some i) T of Some e \<Rightarrow> (True, delete_row e T) | None \<Rightarrow> (False, T))"

definition hour :: time where
  "hour = 60 * minute"

definition expired :: "int \<Rightarrow> time \<Rightarrow> async_status \<Rightarrow> 'o export \<Rightarrow> bool" where
  "expired hours t s e \<longleftrightarrow> ex_internal_status e = s \<and> ex_created_on e < t - hours * hour"

definition mark_expired_pending_exports_as_failed :: "int \<Rightarrow> time \<Rightarrow> 'o exports \<Rightarrow> 'o exports" where
  "mark_expired_pending_exports_as_failed hours t T =
     T\<lparr>xs_rows := map (\<lambda>e. if expired hours t PENDING e then e\<lparr>ex_internal_status := FAILED\<rparr> else e) (xs_rows T)\<rparr>"

definition delete_expired_failed_exports :: "int \<Rightarrow> time \<Rightarrow> 'o exports \<Rightarrow> 'o exports" where
  "delete_expired_failed_exports hours t T = fold delete_row (filter (expired hours t FAILED) (xs_rows T)) T"

section \<open>The search for a free name ends\<close>

lemma index_at_dash: "index_at s \<noteq> None \<Longrightarrow> \<exists>r. s = CHR ''-'' # r"
  by (auto simp: index_at_def split: list.splits if_splits)

lemma digit_char_digit: "d < 10 \<Longrightarrow> is_digit (digit_char d) \<and> (of_char (digit_char d) :: nat) - 48 = d"
proof -
  assume "d < 10"
  then have "(of_char (digit_char d) :: nat) = 48 + d" by (simp add: digit_char_def)
  with \<open>d < 10\<close> show ?thesis by (simp add: is_digit_def Let_def)
qed

lemma show_nat_digits_value: "list_all is_digit (show_nat n) \<and> digits_value (show_nat n) = n"
proof (induction n rule: show_nat.induct)
  case (1 n)
  then show ?case
    by (cases "n < 10") (simp_all add: show_nat_small show_nat_large digit_char_digit digits_value_def)
qed

lemma takeWhile_show_nat:
  "takeWhile is_digit (show_nat n @ CHR ''.'' # e) = show_nat n" "dropWhile is_digit (show_nat n @ CHR ''.'' # e) = CHR ''.'' # e"
proof -
  have d: "\<And>x. x \<in> set (show_nat n) \<Longrightarrow> is_digit x" using show_nat_digits_value [of n] by (auto simp: list_all_iff)
  have "\<not> is_digit (CHR ''.'')" by code_simp
  then show "takeWhile is_digit (show_nat n @ CHR ''.'' # e) = show_nat n"
    "dropWhile is_digit (show_nat n @ CHR ''.'' # e) = CHR ''.'' # e"
    using d by (simp_all add: takeWhile_append2 dropWhile_append2)
qed

lemma index_at_shape:
  assumes "index_at s = Some (n, e)"
  shows "\<exists>x e'. e = CHR ''.'' # x # e' \<and> x \<noteq> newline \<and> takeWhile (\<lambda>c. c \<noteq> newline) e' = e'"
proof -
  obtain x t where "x \<noteq> newline" "e = CHR ''.'' # takeWhile (\<lambda>c. c \<noteq> newline) (x # t)"
    using assms by (auto simp: index_at_def split: list.splits if_splits)
  moreover have "takeWhile (\<lambda>c. c \<noteq> newline) (takeWhile (\<lambda>c. c \<noteq> newline) t) = takeWhile (\<lambda>c. c \<noteq> newline) t"
    by (auto simp: takeWhile_eq_all_conv dest: set_takeWhileD)
  ultimately show ?thesis
    by (intro exI [of _ x] exI [of _ "takeWhile (\<lambda>c. c \<noteq> newline) t"]) simp
qed

lemma index_at_show:
  assumes "e = CHR ''.'' # x # e'" "x \<noteq> newline" "takeWhile (\<lambda>c. c \<noteq> newline) e' = e'"
  shows "index_at (CHR ''-'' # show_nat k @ e) = Some (k, e)"
  using assms show_nat_digits_value [of k] by (simp add: index_at_def takeWhile_show_nat)

text \<open>Whether a group ends before a later dash does not depend on what follows the dash.\<close>

lemma dropWhile_dash: "dropWhile is_digit (b @ CHR ''-'' # u) = dropWhile is_digit b @ CHR ''-'' # u"
  and takeWhile_dash: "takeWhile is_digit (b @ CHR ''-'' # u) = takeWhile is_digit b"
proof -
  have "\<not> is_digit (CHR ''-'')" by code_simp
  then show "dropWhile is_digit (b @ CHR ''-'' # u) = dropWhile is_digit b @ CHR ''-'' # u"
    "takeWhile is_digit (b @ CHR ''-'' # u) = takeWhile is_digit b"
    by (induction b) auto
qed

lemma index_at_before_dash:
  "index_at (c # b @ CHR ''-'' # u) = None \<longleftrightarrow> index_at (c # b @ CHR ''-'' # v) = None"
proof -
  let ?f = "\<lambda>ds w. case w of
      d # x # e \<Rightarrow>
        if ds \<noteq> [] \<and> d = CHR ''.'' \<and> x \<noteq> newline
        then Some (digits_value ds, d # takeWhile (\<lambda>c. c \<noteq> newline) (x # e)) else None
    | _ \<Rightarrow> None"
  have eq: "index_at (c # r) = (if c \<noteq> CHR ''-'' then None else ?f (takeWhile is_digit r) (dropWhile is_digit r))" for r
    by (simp add: index_at_def)
  have "(?f ds (w @ CHR ''-'' # u) = None) = (?f ds (w @ CHR ''-'' # v) = None)" for ds w
    by (cases w; cases "tl w") (auto simp: newline_def split: list.splits)
  then show ?thesis unfolding eq dropWhile_dash takeWhile_dash by simp
qed

lemma match_index_shape:
  "match_index first s = Some (b, n, e) \<Longrightarrow> \<exists>u. s = b @ CHR ''-'' # u \<and> index_at (CHR ''-'' # u) = Some (n, e)"
proof (induction first s arbitrary: b rule: match_index.induct)
  case (2 first c s)
  show ?case
  proof (cases "if first then None else index_at (c # s)")
    case None
    with 2 obtain b' where "b = c # b'" "match_index False s = Some (b', n, e)"
      by (auto split: if_splits)
    with "2.IH" None "2.prems" show ?thesis by (auto split: if_splits)
  next
    case (Some a)
    with "2.prems" have "b = []" "index_at (c # s) = Some (n, e)" by (auto split: prod.splits if_splits)
    moreover then obtain u where "c # s = CHR ''-'' # u" using index_at_dash [of "c # s"] by auto
    ultimately show ?thesis by auto
  qed
qed simp

lemma match_index_again:
  assumes "match_index first s = Some (b, n, e)"
  shows "match_index first (b @ CHR ''-'' # show_nat k @ e) = Some (b, k, e)"
  using assms
proof (induction first s arbitrary: b rule: match_index.induct)
  case (2 first c s)
  show ?case
  proof (cases "if first then None else index_at (c # s)")
    case None
    with "2.prems" obtain b' where b: "b = c # b'" "match_index False s = Some (b', n, e)" "c \<noteq> newline"
      by (auto split: if_splits)
    then obtain u where "s = b' @ CHR ''-'' # u" using match_index_shape by blast
    with None have "(if first then None else index_at (c # b' @ CHR ''-'' # show_nat k @ e)) = None"
      using index_at_before_dash [of c b' u "show_nat k @ e"] by (auto split: if_splits)
    moreover have "match_index False (b' @ CHR ''-'' # show_nat k @ e) = Some (b', k, e)"
      using "2.IH" [OF None b(3,2)] .
    ultimately show ?thesis using b by simp
  next
    case (Some a)
    with "2.prems" have "b = []" "\<not> first" "index_at (c # s) = Some (n, e)" by (auto split: prod.splits if_splits)
    moreover from this index_at_shape [of "c # s" n e] index_at_show [of e _ _ k]
    have "index_at (CHR ''-'' # show_nat k @ e) = Some (k, e)" by auto
    ultimately show ?thesis by simp
  qed
qed simp

lemma increment_matched:
  assumes "match_index True s = Some (b, n, e)"
  shows "match_index True (increment_index_in_filename s) = Some (b, Suc n, e)"
  using match_index_again [OF assms, of "Suc n"] assms by (simp add: increment_index_in_filename_def)

lemma splitext_append: "fst (splitext s) @ snd (splitext s) = s"
proof -
  define f where "f = rev (takeWhile (\<lambda>c. c \<noteq> CHR ''/'') (rev s))"
  define d where "d = rev (dropWhile (\<lambda>c. c \<noteq> CHR ''/'') (rev s))"
  have "rev (takeWhile (\<lambda>c. c \<noteq> CHR ''/'') (rev s) @ dropWhile (\<lambda>c. c \<noteq> CHR ''/'') (rev s)) = s"
    by (simp only: takeWhile_dropWhile_id rev_rev_ident)
  then have s: "s = d @ f" unfolding d_def f_def by (simp only: rev_append)
  define e where "e = rev (takeWhile (\<lambda>c. c \<noteq> CHR ''.'') (rev f))"
  show ?thesis
  proof (cases "CHR ''.'' \<in> set f")
    case True
    then have ne: "dropWhile (\<lambda>c. c \<noteq> CHR ''.'') (rev f) \<noteq> []" by (simp add: dropWhile_eq_Nil_conv)
    obtain r where r: "dropWhile (\<lambda>c. c \<noteq> CHR ''.'') (rev f) = CHR ''.'' # r"
      using ne hd_dropWhile [OF ne] by (cases "dropWhile (\<lambda>c. c \<noteq> CHR ''.'') (rev f)") simp_all
    have "takeWhile (\<lambda>c. c \<noteq> CHR ''.'') (rev f) @ dropWhile (\<lambda>c. c \<noteq> CHR ''.'') (rev f) = rev f"
      by (rule takeWhile_dropWhile_id)
    then have "takeWhile (\<lambda>c. c \<noteq> CHR ''.'') (rev f) @ CHR ''.'' # r = rev f" unfolding r .
    then have "rev (takeWhile (\<lambda>c. c \<noteq> CHR ''.'') (rev f) @ CHR ''.'' # r) = f" by (simp only: rev_rev_ident)
    then have "f = rev r @ CHR ''.'' # e" by (simp add: e_def)
    with s show ?thesis unfolding splitext_def Let_def f_def [symmetric] e_def [symmetric] by simp
  qed (simp add: splitext_def f_def Let_def)
qed

lemma increment_unmatched:
  assumes "match_index True s = None"
  shows "length s < length (increment_index_in_filename s)"
proof -
  have "length s = length (fst (splitext s)) + length (snd (splitext s))"
    by (metis splitext_append length_append)
  with assms show ?thesis by (simp add: increment_index_in_filename_def split: prod.splits)
qed

abbreviation nth_name :: "nat \<Rightarrow> string \<Rightarrow> string" where
  "nth_name k \<equiv> increment_index_in_filename ^^ k"

lemma nth_name_matched:
  "match_index True s = Some (b, n, e) \<Longrightarrow> match_index True (nth_name k s) = Some (b, n + k, e)"
  by (induction k) (simp_all add: increment_matched)

lemma nth_name_grows: "match_index True (nth_name k s) \<noteq> None \<or> length s + k \<le> length (nth_name k s)"
proof (induction k)
  case (Suc k)
  show ?case
  proof (cases "match_index True (nth_name k s)")
    case None
    with Suc increment_unmatched [OF None] show ?thesis by simp
  next
    case (Some bne)
    then obtain b n e where "match_index True (nth_name k s) = Some (b, n, e)" by (cases bne) auto
    from increment_matched [OF this] show ?thesis by simp
  qed
qed simp

lemma nth_name_new:
  assumes "0 < k"
  shows "nth_name k s \<noteq> s"
proof (cases "match_index True s")
  case None
  with nth_name_grows [of k s] assms show ?thesis by auto
next
  case (Some bne)
  then obtain b n e where "match_index True s = Some (b, n, e)" by (cases bne) auto
  with nth_name_matched [OF this, of k] assms show ?thesis by auto
qed

lemma nth_name_inj: "inj (\<lambda>k. nth_name k s)"
proof (rule linorder_injI)
  fix i j :: nat
  assume "i < j"
  then have "nth_name j s = nth_name (j - i) (nth_name i s)"
    by (metis comp_apply funpow_add le_add_diff_inverse2 less_imp_le)
  with nth_name_new [of "j - i" "nth_name i s"] \<open>i < j\<close> show "nth_name i s \<noteq> nth_name j s" by simp
qed

lemma unused_filename_None: "unused_filename n used s = None \<Longrightarrow> k < n \<Longrightarrow> used (nth_name k s)"
proof (induction n used s arbitrary: k rule: unused_filename.induct)
  case (2 n used s)
  then have "used s" by (auto split: if_splits)
  show ?case
  proof (cases k)
    case (Suc m)
    with 2 \<open>used s\<close> have "used (nth_name m (increment_index_in_filename s))" by simp
    with Suc show ?thesis by (simp add: funpow_swap1)
  qed (simp add: \<open>used s\<close>)
qed simp

lemma unused_filename_free: "unused_filename n used s = Some f \<Longrightarrow> \<not> used f"
  by (induction n used s rule: unused_filename.induct) (auto split: if_splits)

lemma unused_filename_enough:
  assumes "\<And>f. used f \<Longrightarrow> f \<in> set names" "length names < n"
  shows "\<exists>f. unused_filename n used s = Some f"
proof (rule ccontr)
  assume "\<not> ?thesis"
  then have "unused_filename n used s = None" by simp
  then have "nth_name k s \<in> set names" if "k < n" for k
    using that by (intro assms(1) unused_filename_None)
  then have "(\<lambda>k. nth_name k s) ` {..<n} \<subseteq> set names" by auto
  then have "card ((\<lambda>k. nth_name k s) ` {..<n}) \<le> card (set names)" by (rule card_mono [rotated]) simp
  moreover have "card ((\<lambda>k. nth_name k s) ` {..<n}) = n"
    by (subst card_image) (auto intro: inj_on_subset [OF nth_name_inj])
  ultimately show False using card_length [of names] assms(2) by simp
qed

text \<open>The search for a file name that no other export of the form has ends: with as many rounds as
  there are exports, plus one, \<open>generate_export\<close> has found one, whatever the name it starts
  from looks like, and the name it ends with is not in use.\<close>

theorem free_filename_is_found:
  "\<exists>f. unused_filename (Suc (length (xs_rows T))) (\<lambda>f. \<not> is_filename_unique T own f) filename = Some f
    \<and> is_filename_unique T own f"
proof -
  have "\<not> is_filename_unique T own f \<Longrightarrow> f \<in> set (map (the \<circ> ex_filename) (xs_rows T))" for f
    by (force simp: is_filename_unique_def list_ex_iff)
  then obtain f where "unused_filename (Suc (length (xs_rows T))) (\<lambda>f. \<not> is_filename_unique T own f) filename = Some f"
    using unused_filename_enough [of "\<lambda>f. \<not> is_filename_unique T own f" "map (the \<circ> ex_filename) (xs_rows T)"
        "Suc (length (xs_rows T))" filename] by auto
  with unused_filename_free [OF this] show ?thesis by auto
qed

section \<open>Sound tables\<close>

text \<open>
  What the operations keep: distinct ids below the next one, at most \<open>max_exports\<close> rows of a kind,
  and a file of its own for each row that names one.
\<close>

definition ids_ok :: "'o exports \<Rightarrow> bool" where
  "ids_ok T \<longleftrightarrow> distinct (map ex_id (xs_rows T)) \<and> (\<forall>e \<in> set (xs_rows T). \<exists>i < xs_next T. ex_id e = Some i)"

definition within_limit :: "'o exports \<Rightarrow> bool" where
  "within_limit T \<longleftrightarrow> (\<forall>own ty. length (filter (of_kind own ty) (xs_rows T)) \<le> max_exports)"

definition own_files :: "'o exports \<Rightarrow> bool" where
  "own_files T \<longleftrightarrow>
     (\<forall>e \<in> set (xs_rows T). \<forall>p. filepath e = Some p \<longrightarrow>
        p \<in> set (xs_files T) \<and> (\<forall>f \<in> set (xs_rows T). filepath f = Some p \<longrightarrow> ex_id f = ex_id e))"

definition sound :: "'o exports \<Rightarrow> bool" where
  "sound T \<longleftrightarrow> ids_ok T \<and> within_limit T \<and> own_files T"

text \<open>Removing rows.\<close>

lemma delete_row_ids: "ids_ok T \<Longrightarrow> ids_ok (delete_row e T)"
  by (auto simp: ids_ok_def delete_row_def distinct_map intro: inj_on_subset)

lemma filter_filter_le: "length (filter P (filter Q xs)) \<le> length (filter P xs)"
  by (induction xs) auto

lemma delete_row_limit: "within_limit T \<Longrightarrow> within_limit (delete_row e T)"
  unfolding within_limit_def delete_row_def
  by (simp add: le_trans [OF filter_filter_le] del: filter_filter)

lemma own_filesD:
  assumes "own_files T" "e \<in> set (xs_rows T)" "filepath e = Some p"
  shows "p \<in> set (xs_files T)" "f \<in> set (xs_rows T) \<Longrightarrow> filepath f = Some p \<Longrightarrow> ex_id f = ex_id e"
  using assms unfolding own_files_def by blast+

lemma own_filesI:
  assumes "\<And>e p. e \<in> set (xs_rows T) \<Longrightarrow> filepath e = Some p \<Longrightarrow> p \<in> set (xs_files T)"
    and "\<And>e f p. e \<in> set (xs_rows T) \<Longrightarrow> f \<in> set (xs_rows T) \<Longrightarrow> filepath e = Some p \<Longrightarrow> filepath f = Some p
      \<Longrightarrow> ex_id f = ex_id e"
  shows "own_files T"
  using assms unfolding own_files_def by blast

lemma delete_row_files:
  assumes "own_files T" "e \<in> set (xs_rows T)"
  shows "own_files (delete_row e T)"
proof (rule own_filesI)
  fix f p
  assume "f \<in> set (xs_rows (delete_row e T))" "filepath f = Some p"
  then have f: "f \<in> set (xs_rows T)" "ex_id f \<noteq> ex_id e" by (simp_all add: delete_row_def)
  note own_filesD [OF assms(1) f(1) \<open>filepath f = Some p\<close>]
  then have "p \<in> set (xs_files T)" "filepath e \<noteq> Some p" using assms(2) f(2) by metis+
  then show "p \<in> set (xs_files (delete_row e T))"
    by (cases "filepath e") (auto simp: delete_row_def remove_file_def)
next
  fix f g p
  assume "f \<in> set (xs_rows (delete_row e T))" "g \<in> set (xs_rows (delete_row e T))" "filepath f = Some p" "filepath g = Some p"
  then show "ex_id g = ex_id f" using own_filesD(2) [OF assms(1)] by (simp add: delete_row_def)
qed

lemma delete_row_sound: "sound T \<Longrightarrow> e \<in> set (xs_rows T) \<Longrightarrow> sound (delete_row e T)"
  by (simp add: sound_def delete_row_ids delete_row_limit delete_row_files)

lemma oldest_in: "oldest es = Some e \<Longrightarrow> e \<in> set es"
  by (induction es arbitrary: e) (auto split: option.splits if_splits)

lemma oldest_None [simp]: "oldest es = None \<longleftrightarrow> es = []"
  by (cases es) (auto split: option.splits)

lemma delete_oldest_sound: "sound T \<Longrightarrow> sound (delete_oldest_export own ty T)"
  by (auto simp: delete_oldest_export_def delete_row_sound dest!: oldest_in split: option.splits)

lemma make_room_sound: "sound T \<Longrightarrow> sound (make_room e T)"
  by (simp add: make_room_def delete_oldest_sound)

lemma filter_drop_one: "x \<in> set xs \<Longrightarrow> P x \<Longrightarrow> \<not> Q x \<Longrightarrow> length (filter P (filter Q xs)) < length (filter P xs)"
proof (induction xs)
  case (Cons a xs)
  then show ?case using filter_filter_le [of P Q xs] by (auto simp: less_Suc_eq_le)
qed simp

text \<open>After \<open>make_room\<close> there is room.\<close>

lemma make_room_room:
  assumes "within_limit T"
  shows "length (filter (of_kind (ex_owner e) (ex_type e)) (xs_rows (make_room e T))) < max_exports"
proof (cases "max_exports \<le> length (filter (of_kind (ex_owner e) (ex_type e)) (xs_rows T))")
  case True
  let ?k = "of_kind (ex_owner e) (ex_type e)"
  have "oldest (filter ?k (xs_rows T)) \<noteq> None" using True by (auto simp: max_exports_def)
  then obtain f where f: "oldest (filter ?k (xs_rows T)) = Some f" by blast
  then have "f \<in> set (xs_rows T)" "?k f" using oldest_in [OF f] by auto
  then have "length (filter ?k (filter (\<lambda>g. ex_id g \<noteq> ex_id f) (xs_rows T))) < length (filter ?k (xs_rows T))"
    by (intro filter_drop_one) auto
  moreover have "length (filter ?k (xs_rows T)) \<le> max_exports" using assms by (simp add: within_limit_def)
  ultimately show ?thesis
    using True f by (simp add: make_room_def delete_oldest_export_def delete_row_def del: filter_filter)
qed (simp add: make_room_def)

text \<open>Writing rows.  A row may name a file only when the file is there and no other row has it.\<close>

definition file_free :: "'o export \<Rightarrow> 'o exports \<Rightarrow> bool" where
  "file_free e T \<longleftrightarrow>
     (\<forall>p. filepath e = Some p \<longrightarrow>
        p \<in> set (xs_files T) \<and> (\<forall>f \<in> set (xs_rows T). filepath f = Some p \<longrightarrow> ex_id f = ex_id e))"

lemma filepath_updates [simp]:
  "filepath (e\<lparr>ex_id := i\<rparr>) = filepath e"
  "filepath (e\<lparr>ex_created_on := t\<rparr>) = filepath e"
  "filepath (e\<lparr>ex_time_of_last_submission := c\<rparr>) = filepath e"
  "filepath (e\<lparr>ex_internal_status := s\<rparr>) = filepath e"
  "filepath (e\<lparr>ex_task_id := k\<rparr>) = filepath e"
  "filepath (e\<lparr>ex_error_message := m\<rparr>) = filepath e"
  "filepath (e\<lparr>ex_export_url := u\<rparr>) = filepath e"
  "filepath (e\<lparr>ex_options := os\<rparr>) = filepath e"
  by (simp_all add: filepath_def)

lemma of_kind_updates [simp]:
  "of_kind own ty (e\<lparr>ex_id := i\<rparr>) = of_kind own ty e"
  "of_kind own ty (e\<lparr>ex_created_on := t\<rparr>) = of_kind own ty e"
  "of_kind own ty (e\<lparr>ex_time_of_last_submission := c\<rparr>) = of_kind own ty e"
  "of_kind own ty (e\<lparr>ex_internal_status := s\<rparr>) = of_kind own ty e"
  "of_kind own ty (e\<lparr>ex_filename := n\<rparr>) = of_kind own ty e"
  "of_kind own ty (e\<lparr>ex_filedir := d\<rparr>) = of_kind own ty e"
  by (simp_all add: of_kind_def)

lemma insert_sound:
  assumes "sound T" "ex_id f = Some (xs_next T)"
    and "length (filter (of_kind (ex_owner f) (ex_type f)) (xs_rows T)) < max_exports"
    and files: "\<And>p. filepath f = Some p \<Longrightarrow> p \<in> set (xs_files T) \<and> (\<forall>g \<in> set (xs_rows T). filepath g \<noteq> Some p)"
  shows "sound (T\<lparr>xs_rows := xs_rows T @ [f], xs_next := Suc (xs_next T)\<rparr>)"
  unfolding sound_def
proof (intro conjI)
  have ids: "ids_ok T" and limit: "within_limit T" and own: "own_files T" using assms(1) by (simp_all add: sound_def)
  have "ex_id f \<notin> ex_id ` set (xs_rows T)" using ids assms(2) by (force simp: ids_ok_def)
  with ids show "ids_ok (T\<lparr>xs_rows := xs_rows T @ [f], xs_next := Suc (xs_next T)\<rparr>)"
    using assms(2) by (fastforce simp: ids_ok_def less_Suc_eq)
  have "length (filter (of_kind own ty) (xs_rows T @ [f])) \<le> max_exports" for own ty
    using limit assms(3) by (cases "of_kind own ty f") (auto simp: within_limit_def of_kind_def Suc_le_eq)
  then show "within_limit (T\<lparr>xs_rows := xs_rows T @ [f], xs_next := Suc (xs_next T)\<rparr>)" by (simp add: within_limit_def)
  show "own_files (T\<lparr>xs_rows := xs_rows T @ [f], xs_next := Suc (xs_next T)\<rparr>)"
  proof (rule own_filesI)
    fix e p
    assume "e \<in> set (xs_rows (T\<lparr>xs_rows := xs_rows T @ [f], xs_next := Suc (xs_next T)\<rparr>))" "filepath e = Some p"
    then show "p \<in> set (xs_files (T\<lparr>xs_rows := xs_rows T @ [f], xs_next := Suc (xs_next T)\<rparr>))"
      using files [of p] own_filesD(1) [OF own, of e p] by (cases "e = f") simp_all
  next
    fix e g p
    assume "e \<in> set (xs_rows (T\<lparr>xs_rows := xs_rows T @ [f], xs_next := Suc (xs_next T)\<rparr>))"
      "g \<in> set (xs_rows (T\<lparr>xs_rows := xs_rows T @ [f], xs_next := Suc (xs_next T)\<rparr>))"
      "filepath e = Some p" "filepath g = Some p"
    then show "ex_id g = ex_id e"
      using files [of p] own_filesD(2) [OF own, of e p g] by (cases "e = f"; cases "g = f") simp_all
  qed
qed

lemma length_filter_map: "(\<And>x. x \<in> set xs \<Longrightarrow> P (h x) = P x) \<Longrightarrow> length (filter P (map h xs)) = length (filter P xs)"
  by (induction xs) auto

lemma replace_sound:
  assumes "sound T" "g \<in> set (xs_rows T)" "ex_id g = ex_id e" "ex_owner g = ex_owner e" "ex_type g = ex_type e"
    and "file_free e T"
  shows "sound (T\<lparr>xs_rows := map (\<lambda>f. if ex_id f = ex_id e then e else f) (xs_rows T)\<rparr>)" (is "sound ?T")
  unfolding sound_def
proof (intro conjI)
  have ids: "ids_ok T" and limit: "within_limit T" and own: "own_files T" using assms(1) by (simp_all add: sound_def)
  have same: "map ex_id (xs_rows ?T) = map ex_id (xs_rows T)" by simp
  have "\<exists>i < xs_next T. ex_id e = Some i" using ids assms(2,3) by (fastforce simp: ids_ok_def)
  with ids show "ids_ok ?T" unfolding ids_ok_def same by auto
  have one: "f = g" if "f \<in> set (xs_rows T)" "ex_id f = ex_id e" for f
    proof (rule inj_onD [of ex_id "set (xs_rows T)"])
    show "inj_on ex_id (set (xs_rows T))" using ids by (simp add: ids_ok_def distinct_map)
  qed (use assms(2,3) that in simp_all)
  have "length (filter (of_kind own ty) (map (\<lambda>f. if ex_id f = ex_id e then e else f) (xs_rows T)))
      = length (filter (of_kind own ty) (xs_rows T))" for own ty
    by (rule length_filter_map) (use one assms(4,5) in \<open>auto simp: of_kind_def\<close>)
  then show "within_limit ?T" using limit by (simp add: within_limit_def)
  show "own_files ?T"
  proof (rule own_filesI)
    fix f p
    assume "f \<in> set (xs_rows ?T)" "filepath f = Some p"
    then consider "f = e" | "f \<in> set (xs_rows T)" by (auto split: if_splits)
    then show "p \<in> set (xs_files ?T)"
    proof cases
      case 1
      with \<open>filepath f = Some p\<close> assms(6) show ?thesis by (simp add: file_free_def)
    next
      case 2
      with \<open>filepath f = Some p\<close> show ?thesis using own_filesD(1) [OF own] by simp
    qed
  next
    fix f h p
    assume "f \<in> set (xs_rows ?T)" "h \<in> set (xs_rows ?T)" and p: "filepath f = Some p" "filepath h = Some p"
    then have mem: "f = e \<or> f \<in> set (xs_rows T)" "h = e \<or> h \<in> set (xs_rows T)" by (auto split: if_splits)
    have e: "k \<in> set (xs_rows T) \<Longrightarrow> filepath k = Some p \<Longrightarrow> filepath e = Some p \<Longrightarrow> ex_id k = ex_id e" for k
      using assms(6) by (simp add: file_free_def)
    show "ex_id h = ex_id f"
      using mem
    proof (elim disjE)
      assume "f \<in> set (xs_rows T)" "h \<in> set (xs_rows T)"
      then show ?thesis using own_filesD(2) [OF own _ p(1)] p(2) by blast
    qed (use e p in simp_all)
  qed
qed

lemma make_room_rows: "f \<in> set (xs_rows (make_room e T)) \<Longrightarrow> f \<in> set (xs_rows T)"
  by (auto simp: make_room_def delete_oldest_export_def delete_row_def split: if_splits option.splits)

lemma make_room_keeps:
  assumes "p \<in> set (xs_files T)" "\<forall>f \<in> set (xs_rows T). filepath f \<noteq> Some p"
  shows "p \<in> set (xs_files (make_room e T))"
  using assms
  by (auto simp: make_room_def delete_oldest_export_def delete_row_def remove_file_def dest!: oldest_in split: option.split)

lemma make_room_next [simp]: "xs_next (make_room e T) = xs_next T"
  by (simp add: make_room_def delete_oldest_export_def delete_row_def split: option.split)

text \<open>Where a row is when it is saved: new, or in the table with the same owner and type.\<close>

definition storable :: "'o export \<Rightarrow> 'o exports \<Rightarrow> bool" where
  "storable e T \<longleftrightarrow>
     (ex_id e = None
      \<or> (\<exists>g \<in> set (xs_rows T). ex_id g = ex_id e \<and> ex_owner g = ex_owner e \<and> ex_type g = ex_type e))
     \<and> file_free e T"

lemma file_free_new:
  assumes "ids_ok T" "ex_id e = None" "file_free e T" "filepath e = Some p"
  shows "p \<in> set (xs_files T) \<and> (\<forall>f \<in> set (xs_rows T). filepath f \<noteq> Some p)"
  using assms by (force simp: file_free_def ids_ok_def)

lemma write_new_sound:
  assumes "sound T" "ex_id e = None" "file_free e T" "filepath e' = filepath e" "ex_id e' = None"
    and kind: "ex_owner e' = ex_owner e" "ex_type e' = ex_type e" and "write_row t e' (make_room e T) = (g, T')"
  shows "sound T'"
proof -
  let ?g = "e'\<lparr>ex_id := Some (xs_next T), ex_created_on := t\<rparr>"
  have T': "T' = (make_room e T)\<lparr>xs_rows := xs_rows (make_room e T) @ [?g], xs_next := Suc (xs_next (make_room e T))\<rparr>"
    using assms(5,8) by (auto simp: write_row_def Let_def)
  have "ids_ok T" "within_limit T" using assms(1) by (simp_all add: sound_def)
  show ?thesis
    unfolding T'
  proof (rule insert_sound)
    show "sound (make_room e T)" by (rule make_room_sound [OF assms(1)])
    show "length (filter (of_kind (ex_owner ?g) (ex_type ?g)) (xs_rows (make_room e T))) < max_exports"
      using make_room_room [OF \<open>within_limit T\<close>, of e] kind by simp
    show "p \<in> set (xs_files (make_room e T)) \<and> (\<forall>f \<in> set (xs_rows (make_room e T)). filepath f \<noteq> Some p)"
      if "filepath ?g = Some p" for p
    proof -
      have "filepath e = Some p" using that assms(4) by simp
      from file_free_new [OF \<open>ids_ok T\<close> assms(2,3) this] make_room_keeps [of p T e] make_room_rows [of _ e T]
      show ?thesis by blast
    qed
  qed simp
qed

lemma write_live_sound:
  assumes "sound T" "g \<in> set (xs_rows T)" "ex_id g = ex_id e" "ex_owner g = ex_owner e" "ex_type g = ex_type e"
    and "file_free e T" and "write_row t e T = (h, T')"
  shows "sound T'"
proof -
  have "\<forall>f \<in> set (xs_rows T). ex_id f \<noteq> None" using assms(1) by (auto simp: sound_def ids_ok_def)
  then have "ex_id e \<noteq> None" using assms(2) unfolding assms(3) [symmetric] by simp
  then have "T' = T\<lparr>xs_rows := map (\<lambda>f. if ex_id f = ex_id e then e else f) (xs_rows T)\<rparr>"
    using assms(2,3,7) by (auto simp: write_row_def list_ex_iff split: if_splits)
  with replace_sound [OF assms(1-6)] show ?thesis by simp
qed

lemma save_sound:
  assumes "sound T" "storable e T" "save_export t ch e T = (r, T')"
  shows "sound T'"
proof (cases "ex_id e")
  case None
  define e1 where "e1 = e\<lparr>ex_time_of_last_submission := ch (ex_owner e)\<rparr>"
  define e2 where "e2 = (if given (ex_filename e1) then e1\<lparr>ex_internal_status := SUCCESSFUL\<rparr> else e1)"
  have e2: "filepath e2 = filepath e" "ex_id e2 = None" "ex_owner e2 = ex_owner e" "ex_type e2 = ex_type e"
    using None by (simp_all add: e2_def e1_def)
  have "T' = make_room e T \<or> (\<exists>g. write_row t e2 (make_room e T) = (g, T'))"
    using assms(3) None unfolding e2_def e1_def
    by (auto simp: save_export_def Let_def split: if_splits prod.splits)
  then show ?thesis
    using write_new_sound [OF assms(1) None _ e2] assms(2) make_room_sound [OF assms(1)]
    by (auto simp: storable_def)
next
  case (Some i)
  define e2 where "e2 = (if given (ex_filename e) then e\<lparr>ex_internal_status := SUCCESSFUL\<rparr> else e)"
  have e2: "filepath e2 = filepath e" "ex_id e2 = ex_id e" "ex_owner e2 = ex_owner e" "ex_type e2 = ex_type e"
    by (simp_all add: e2_def)
  obtain g where g: "g \<in> set (xs_rows T)" "ex_id g = ex_id e2" "ex_owner g = ex_owner e2" "ex_type g = ex_type e2"
    using assms(2) Some by (auto simp: storable_def e2)
  have "file_free e2 T" using assms(2) by (simp add: storable_def file_free_def e2)
  moreover have "T' = T \<or> (\<exists>h. write_row t e2 T = (h, T'))"
    using assms(3) Some unfolding e2_def
    by (auto simp: save_export_def Let_def split: if_splits prod.splits)
  ultimately show ?thesis using write_live_sound [OF assms(1) g] assms(1) by blast
qed

text \<open>External exports have no directory; the other parts of \<open>sound\<close> as above.\<close>

definition no_directory :: "'o export \<Rightarrow> bool" where
  "no_directory e \<longleftrightarrow> (ex_type e = ''external'' \<longrightarrow> ex_filedir e = None)"

definition tidy :: "'o exports \<Rightarrow> bool" where
  "tidy T \<longleftrightarrow> sound T \<and> (\<forall>e \<in> set (xs_rows T). no_directory e)"

lemma tidyD:
  assumes "tidy T"
  shows "sound T" "ids_ok T" "within_limit T" "own_files T" "e \<in> set (xs_rows T) \<Longrightarrow> no_directory e"
  using assms by (simp_all add: tidy_def sound_def)

lemma save_rows:
  assumes "save_export t ch e T = (r, T')" "f \<in> set (xs_rows T')"
  shows "f \<in> set (xs_rows T)
    \<or> ex_type f = ex_type e \<and> ex_filedir f = ex_filedir e \<and> ex_filename f = ex_filename e \<and> r \<noteq> Inl Data_Error"
proof -
  have same: "ex_type (if b then e'\<lparr>ex_internal_status := s\<rparr> else e') = ex_type e'"
    "ex_filedir (if b then e'\<lparr>ex_internal_status := s\<rparr> else e') = ex_filedir e'"
    "ex_filename (if b then e'\<lparr>ex_internal_status := s\<rparr> else e') = ex_filename e'" for b s and e' :: "'a export"
    by simp_all
  have w: "g \<in> set (xs_rows U') \<Longrightarrow> g \<in> set (xs_rows U)
      \<or> ex_type g = ex_type e' \<and> ex_filedir g = ex_filedir e' \<and> ex_filename g = ex_filename e'"
    if "write_row t e' U = (h, U')" for g h e' U U'
    using that by (auto simp: write_row_def Let_def split: if_splits)
  show ?thesis
    using assms by (auto simp: save_export_def Let_def split: if_splits prod.splits dest!: w make_room_rows)
qed

lemma save_tidy:
  assumes "tidy T" "storable e T" "no_directory e" "save_export t ch e T = (r, T')"
  shows "tidy T'"
proof -
  have "no_directory f" if "f \<in> set (xs_rows T')" for f
    using save_rows [OF assms(4) that] tidyD(5) [OF assms(1), of f] assms(3) by (auto simp: no_directory_def)
  then show ?thesis using save_sound [OF tidyD(1) [OF assms(1)] assms(2,4)] by (simp add: tidy_def)
qed

lemma get_export_row: "get_export i T = Some e \<Longrightarrow> e \<in> set (xs_rows T) \<and> ex_id e = i"
  by (auto simp: get_export_def find_Some_iff split: if_splits)

lemma live_storable:
  assumes "tidy T" "g \<in> set (xs_rows T)" "ex_id e = ex_id g" "ex_owner e = ex_owner g" "ex_type e = ex_type g"
    and "filepath e = filepath g \<or> filepath e = None"
  shows "storable e T"
proof -
  have "file_free e T"
    using assms(3,6) own_filesD [OF tidyD(4) [OF assms(1)] assms(2)] by (auto simp: file_free_def)
  then show ?thesis unfolding storable_def using assms(2-5) by (metis assms(3))
qed

lemma new_storable: "ex_id e = None \<Longrightarrow> filepath e = None \<Longrightarrow> storable e T"
  by (simp add: storable_def file_free_def)

lemma create_export_object_new [simp]:
  "ex_id (create_export_object env own ty options) = None"
  "ex_owner (create_export_object env own ty options) = own"
  "ex_type (create_export_object env own ty options) = ty"
  "ex_filedir (create_export_object env own ty options) = None"
  "ex_filename (create_export_object env own ty options) = None"
  by (simp_all add: create_export_object_def)

text \<open>
  What the code relies on in the storage: it gives a new file a name that no file has, one that
  splits into a directory and a name and is joined from them.
\<close>

definition storage_ok :: "(string list \<Rightarrow> string \<Rightarrow> string) \<Rightarrow> bool" where
  "storage_ok store \<longleftrightarrow>
     (\<forall>fs p. store fs p \<notin> set fs
       \<and> (case path_split (store fs p) of (d, f) \<Rightarrow> d \<noteq> [] \<and> f \<noteq> [] \<and> path_join d f = store fs p))"

lemma store_file_new:
  fixes env :: "'o env"
  assumes "storage_ok (store_name env)" "tidy T" "store_file env path T = (df, T1)"
  shows "tidy T1" "xs_rows T1 = xs_rows T"
    "\<exists>p. (\<forall>e :: 'o export. filepath (with_file df e) = Some p) \<and> p \<in> set (xs_files T1) \<and> (\<forall>f \<in> set (xs_rows T1). filepath f \<noteq> Some p)"
proof -
  let ?p = "store_name env (xs_files T) path"
  have T1: "T1 = T\<lparr>xs_files := xs_files T @ [?p]\<rparr>" and df: "df = path_split ?p"
    using assms(3) by (auto simp: store_file_def Let_def)
  show "xs_rows T1 = xs_rows T" by (simp add: T1)
  have "own_files T1"
  proof (rule own_filesI)
    fix e p
    assume "e \<in> set (xs_rows T1)" "filepath e = Some p"
    then show "p \<in> set (xs_files T1)" using own_filesD(1) [OF tidyD(4) [OF assms(2)], of e p] by (simp add: T1)
  next
    fix e f p
    assume "e \<in> set (xs_rows T1)" "f \<in> set (xs_rows T1)" "filepath e = Some p" "filepath f = Some p"
    then show "ex_id f = ex_id e" using own_filesD(2) [OF tidyD(4) [OF assms(2)], of e p f] by (simp add: T1)
  qed
  then show "tidy T1" using assms(2) by (simp add: T1 tidy_def sound_def ids_ok_def within_limit_def)
  obtain d f where p: "?p \<notin> set (xs_files T)" "df = (d, f)" "d \<noteq> []" "f \<noteq> []" "path_join d f = ?p"
    using assms(1) unfolding df storage_ok_def by (fastforce split: prod.splits)
  then have "filepath (with_file df e) = Some ?p" for e :: "'o export"
    by (auto simp: filepath_def with_file_def split: list.split)
  moreover have "filepath g \<noteq> Some ?p" if "g \<in> set (xs_rows T1)" for g
    using own_filesD(1) [OF tidyD(4) [OF assms(2)], of g ?p] that p(1) by (auto simp: T1)
  ultimately show "\<exists>p. (\<forall>e :: 'o export. filepath (with_file df e) = Some p) \<and> p \<in> set (xs_files T1)
      \<and> (\<forall>f \<in> set (xs_rows T1). filepath f \<noteq> Some p)"
    by (intro exI [of _ ?p]) (simp add: T1)
qed

section \<open>Every operation keeps the table sound\<close>

lemma get_or_create_cases:
  obtains (old) "get_export i T = Some (get_or_create_export env i own ty options T)"
  | (new) "get_or_create_export env i own ty options T = create_export_object env own ty options"
  by (cases "get_export i T") (auto simp: get_or_create_export_def)

lemma store_and_save:
  fixes env :: "'o env"
  assumes "storage_ok (store_name env)" "tidy T" "store_file env path T = (df, T1)"
    and "ex_id e = None \<or> (\<exists>g \<in> set (xs_rows T). ex_id g = ex_id e \<and> ex_owner g = ex_owner e \<and> ex_type g = ex_type e)"
  shows "storable (with_file df e) T1"
  using store_file_new [OF assms(1-3)] assms(4) by (auto simp: storable_def file_free_def with_file_def)

lemma get_or_create_live:
  "ex_id (get_or_create_export env i own ty options T) = None
   \<or> (\<exists>g \<in> set (xs_rows T). ex_id g = ex_id (get_or_create_export env i own ty options T)
        \<and> ex_owner g = ex_owner (get_or_create_export env i own ty options T)
        \<and> ex_type g = ex_type (get_or_create_export env i own ty options T))"
  by (rule get_or_create_cases [of i T env own ty options]) (auto dest!: get_export_row)

lemma get_or_create_type:
  assumes "\<And>e. get_export i T = Some e \<Longrightarrow> ex_type e \<noteq> ''external''" "ty \<noteq> ''external''"
  shows "ex_type (get_or_create_export env i own ty options T) \<noteq> ''external''"
  using assms by (cases rule: get_or_create_cases [of i T env own ty options]) auto

lemma get_export_same: "xs_rows T1 = xs_rows T \<Longrightarrow> get_export i T1 = get_export i T"
  by (simp add: get_export_def)

lemma file_saved_tidy:
  assumes "storage_ok (store_name env)" "tidy T" "store_file env path T = (df, T1)"
    and "\<And>e. get_export i T = Some e \<Longrightarrow> ex_type e \<noteq> ''external''" "ty \<noteq> ''external''"
    and "save_in env (with_file df (get_or_create_export env i own ty options T1)) T1 = (r, T')"
  shows "tidy T'"
proof (rule save_tidy)
  have rows: "xs_rows T1 = xs_rows T" by (rule store_file_new(2) [OF assms(1-3)])
  show "tidy T1" by (rule store_file_new(1) [OF assms(1-3)])
  show "storable (with_file df (get_or_create_export env i own ty options T1)) T1"
    using get_or_create_live [of env i own ty options T1] unfolding rows by (rule store_and_save [OF assms(1-3)])
  show "no_directory (with_file df (get_or_create_export env i own ty options T1))"
    using get_or_create_type [of i T1 ty env own options] assms(4,5) get_export_same [OF rows, of i]
    by (simp add: no_directory_def with_file_def)
qed (use assms(6) in \<open>simp add: save_in_def\<close>)

lemma zip_tidy:
  assumes "storage_ok (store_name env)" "tidy T" "\<And>e. get_export i T = Some e \<Longrightarrow> ex_type e \<noteq> ''external''"
    and "extension_or ty options \<noteq> ''external''"
    and "generate_attachments_zip_export env ty own i options T = (r, T')"
  shows "tidy T'"
  using assms(2,5) file_saved_tidy [OF assms(1,2) _ assms(3,4)]
  by (auto simp: generate_attachments_zip_export_def Let_def split: option.splits prod.splits)

lemma unchanged_tidy:
  assumes "tidy T" "get_export i T = Some e" "filepath e' = filepath e \<or> filepath e' = None"
    and "ex_id e' = ex_id e" "ex_owner e' = ex_owner e" "ex_type e' = ex_type e" "ex_filedir e' = ex_filedir e"
    and "save_in env e' T = (r, T')"
  shows "tidy T'"
proof (rule save_tidy [OF assms(1)])
  have e: "e \<in> set (xs_rows T)" using get_export_row [OF assms(2)] by simp
  show "storable e' T" by (rule live_storable [OF assms(1) e assms(4-6,3)])
  show "no_directory e'" using tidyD(5) [OF assms(1) e] assms(6,7) by (simp add: no_directory_def)
qed (use assms(8) in \<open>simp add: save_in_def\<close>)

lemma new_tidy:
  assumes "tidy T" "ex_id e = None" "ex_filedir e = None" "save_in env e T = (r, T')"
  shows "tidy T'"
proof (rule save_tidy [OF assms(1)])
  show "storable e T" using assms(2,3) by (simp add: new_storable filepath_def)
  show "no_directory e" using assms(3) by (simp add: no_directory_def)
qed (use assms(4) in \<open>simp add: save_in_def\<close>)

lemma save_generated_tidy:
  assumes "storage_ok (store_name env)" "tidy T" "\<And>e. get_export i T = Some e \<Longrightarrow> ex_type e \<noteq> ''external''"
    and "ty \<noteq> ''external''" "save_generated env ty own i options T = (r, T')"
  shows "tidy T'"
proof -
  have "tidy T1"
    "save_in env (with_file df (get_or_create_export env i own ty options T1)) T1 = (r, T2) \<Longrightarrow> tidy T2"
    if "store_file env path T = (df, T1)" for path df T1 r T2
    using store_file_new(1) [OF assms(1,2) that] file_saved_tidy [OF assms(1,2) that assms(3,4)] by auto
  then show ?thesis
    using assms(2,5) by (auto simp: save_generated_def Let_def split: option.splits prod.splits if_splits)
qed

lemma generate_export_tidy:
  assumes "storage_ok (store_name env)" "tidy T" "\<And>e. get_export i T = Some e \<Longrightarrow> ex_type e \<noteq> ''external''"
    and "generate_export env ty own i options T = (r, T')"
  shows "tidy T'"
proof -
  define os where "os = (if ty \<noteq> ''csv'' then AList.delete ''win_excel_utf8'' options else options)"
  have spss: "tidy T'"
    if s: "save_in env ((get_or_create_export env i own ty os T)\<lparr>ex_error_message := Some m, ex_internal_status := FAILED\<rparr>) T = (r, T')"
    for m
  proof (cases rule: get_or_create_cases [of i T env own ty os])
    case old
    show ?thesis by (rule unchanged_tidy [OF assms(2) old _ _ _ _ _ s]) simp_all
  next
    case new
    show ?thesis by (rule new_tidy [OF assms(2) _ _ s]) (simp_all add: new)
  qed
  have generated: "tidy T'" if "ty \<noteq> ''external''" "save_generated env ty own i os T = (r, T')"
    by (rule save_generated_tidy [OF assms(1-3) that])
  show ?thesis
  proof (cases "ty \<in> {''xlsx'', ''csv'', ''csv_zip'', ''sav_zip''}")
    case False
    then have "T' = T" using assms(4) by (auto simp: generate_export_def Let_def split: if_splits)
    then show ?thesis by (simp add: assms(2))
  next
    case True
    then have "ty \<noteq> ''external''" "ty \<noteq> ''gsheets''" by auto
    then show ?thesis
      using True assms(2,4) spss generated unfolding generate_export_def Let_def os_def [symmetric]
      by (cases "build env ty own os") simp_all
  qed
qed

lemma save_new_result:
  assumes "ex_id e = None" "ex_filedir e = None" "save_in env e T = (Inr g, T')"
  shows "g \<in> set (xs_rows T')" "ex_owner g = ex_owner e" "ex_type g = ex_type e" "ex_filedir g = None"
    "ex_filename g = ex_filename e"
    "p \<in> set (xs_files T) \<Longrightarrow> \<forall>f \<in> set (xs_rows T). filepath f \<noteq> Some p
      \<Longrightarrow> p \<in> set (xs_files T') \<and> (\<forall>f \<in> set (xs_rows T'). filepath f \<noteq> Some p)"
proof -
  define e2 where "e2 = (let e1 = e\<lparr>ex_time_of_last_submission := changed env (ex_owner e)\<rparr>
    in if given (ex_filename e1) then e1\<lparr>ex_internal_status := SUCCESSFUL\<rparr> else e1)"
  have e2: "ex_id e2 = None" "ex_owner e2 = ex_owner e" "ex_type e2 = ex_type e" "ex_filedir e2 = None"
    "ex_filename e2 = ex_filename e"
    using assms(1,2) by (simp_all add: e2_def Let_def)
  have "write_row (now env) e2 (make_room e T) = (g, T')"
    using assms(1,3) unfolding e2_def
    by (auto simp: save_in_def save_export_def Let_def split: if_splits prod.splits)
  then have g: "g = e2\<lparr>ex_id := Some (xs_next T), ex_created_on := now env\<rparr>"
    and T': "xs_rows T' = xs_rows (make_room e T) @ [g]" "xs_files T' = xs_files (make_room e T)"
    using e2(1) by (auto simp: write_row_def Let_def)
  show "g \<in> set (xs_rows T')" by (simp add: T')
  show "ex_owner g = ex_owner e" "ex_type g = ex_type e" "ex_filedir g = None" "ex_filename g = ex_filename e"
    by (simp_all add: g e2)
  then have "filepath g = None" by (simp add: filepath_def)
  then show "p \<in> set (xs_files T') \<and> (\<forall>f \<in> set (xs_rows T'). filepath f \<noteq> Some p)"
    if "p \<in> set (xs_files T)" "\<forall>f \<in> set (xs_rows T). filepath f \<noteq> Some p"
    using make_room_keeps [OF that, of e] that(2) make_room_rows [of _ e T] by (auto simp: T')
qed

lemma with_file_tidy:
  fixes env :: "'o env"
  assumes "tidy T" "g \<in> set (xs_rows T)" "ex_type g \<noteq> ''external''" "\<forall>e :: 'o export. filepath (with_file df e) = Some p"
    and "p \<in> set (xs_files T)" "\<forall>f \<in> set (xs_rows T). filepath f \<noteq> Some p"
    and "save_in env (with_file df g) T = (r, T')"
  shows "tidy T'"
proof (rule save_tidy [OF assms(1)])
  show "storable (with_file df g) T"
    using assms(2,4-6) by (auto simp: storable_def file_free_def with_file_def)
  show "no_directory (with_file df g)" using assms(3) by (simp add: no_directory_def with_file_def)
qed (use assms(7) in \<open>simp add: save_in_def\<close>)

lemma two_steps_tidy:
  assumes "storage_ok (store_name env)" "tidy T" "\<And>e. get_export i T = Some e \<Longrightarrow> ex_type e \<noteq> ''external''"
    and "ty \<noteq> ''external''" "generate_in_two_steps env ty ext own i options T = (r, T')"
  shows "tidy T'"
proof (cases "broken (build env ty own options)")
  case (Some m)
  with assms(2,5) show ?thesis by (simp add: generate_in_two_steps_def)
next
  case None
  obtain path df T1 where T1: "store_file env path T = (df, T1)"
    and rest: "(case get_or_create_export_object env i own ty options T1 of
        (Inl x, T2) \<Rightarrow> (Inl x, T2) | (Inr e, T2) \<Rightarrow> save_in env (with_file df e) T2) = (r, T')"
    using assms(5) None by (auto simp: generate_in_two_steps_def split: prod.splits)
  note new = store_file_new [OF assms(1,2) T1]
  obtain p where p: "\<forall>e :: 'a export. filepath (with_file df e) = Some p" "p \<in> set (xs_files T1)"
      "\<forall>f \<in> set (xs_rows T1). filepath f \<noteq> Some p"
    using new(3) by blast
  show ?thesis
  proof (cases "get_export i T1")
    case (Some e)
    have "ex_type e \<noteq> ''external''" using assms(3) Some get_export_same [OF new(2)] by metis
    moreover have "save_in env (with_file df e) T1 = (r, T')"
      using rest Some by (simp add: get_or_create_export_object_def)
    ultimately show ?thesis
      using with_file_tidy [OF new(1) _ _ p] get_export_row [OF Some] by blast
  next
    case None
    let ?o = "create_export_object env own ty options"
    show ?thesis
    proof (cases "save_in env ?o T1")
      case (Pair q T2)
      have tidy: "tidy T2" by (rule new_tidy [OF new(1) _ _ Pair]) simp_all
      show ?thesis
      proof (cases q)
        case (Inl x)
        with rest None Pair tidy show ?thesis by (simp add: get_or_create_export_object_def)
      next
        case (Inr g)
        have save: "save_in env (with_file df g) T2 = (r, T')"
          using rest None Pair Inr by (simp add: get_or_create_export_object_def)
        note g = save_new_result [OF _ _ Pair [unfolded Inr]]
        have "ex_type g \<noteq> ''external''" using g(3) assms(4) by simp
        then show ?thesis using with_file_tidy [OF tidy g(1) _ p(1) _ _ save] g(6) [OF _ _ p(2,3)] by simp
      qed
    qed
  qed
qed

lemma row_saved_tidy:
  assumes "tidy T" "e \<in> set (xs_rows T)" "ex_filedir e = None" "save_in env e' T = (r, T')"
    and "ex_id e' = ex_id e" "ex_owner e' = ex_owner e" "ex_type e' = ex_type e" "ex_filedir e' = ex_filedir e"
  shows "tidy T'"
proof (rule save_tidy [OF assms(1)])
  have "filepath e' = None" using assms(3,8) by (simp add: filepath_def)
  then show "storable e' T" using live_storable [OF assms(1,2,5-7)] by simp
  show "no_directory e'" using assms(3,8) by (simp add: no_directory_def)
qed (use assms(4) in \<open>simp add: save_in_def\<close>)

lemma answered_same:
  "ex_id (answered ser name response code e) = ex_id e" "ex_owner (answered ser name response code e) = ex_owner e"
  "ex_type (answered ser name response code e) = ex_type e"
  "ex_filedir (answered ser name response code e) = ex_filedir e"
  by (simp_all add: answered_def)

lemma external_tidy:
  assumes "tidy T" "\<And>e. get_export i T = Some e \<Longrightarrow> ex_type e = ''external''"
    and "generate_external_export env ty own i options T = (r, T')"
  shows "tidy T'"
proof (cases "external env own options")
  case (Inl m)
  with assms(1,3) show ?thesis by (simp add: generate_external_export_def)
next
  case (Inr answer)
  obtain ser name response code where answer: "answer = (ser, name, response, code)" by (cases answer) auto
  have saved: "tidy T2" if "tidy U" "e \<in> set (xs_rows U)" "ex_filedir e = None"
      "save_in env (answered ser name response code e) U = (r2, T2)" for U e r2 T2
    by (rule row_saved_tidy [OF that]) (simp_all add: answered_same)
  note ext = assms(3) [unfolded generate_external_export_def Inr answer sum.case prod.case]
  show ?thesis
  proof (cases i)
    case None
    let ?o = "create_export_object env own ty options"
    obtain q U where U: "save_in env ?o T = (q, U)" by fastforce
    have "tidy U" by (rule new_tidy [OF assms(1) _ _ U]) simp_all
    show ?thesis
    proof (cases q)
      case (Inl x)
      with \<open>tidy U\<close> ext None U show ?thesis by simp
    next
      case q: (Inr g)
      note g = save_new_result(1,4) [OF _ _ U [unfolded q]]
      have "g \<in> set (xs_rows U)" "ex_filedir g = None" by (simp_all add: g)
      from saved [OF \<open>tidy U\<close> this] show ?thesis using ext None U q by simp
    qed
  next
    case (Some n)
    show ?thesis
    proof (cases "get_export i T")
      case None
      with assms(1) ext Some show ?thesis by simp
    next
      case e: (Some e)
      then have row: "e \<in> set (xs_rows T)" "ex_type e = ''external''" using get_export_row assms(2) by blast+
      then have "ex_filedir e = None" using tidyD(5) [OF assms(1)] by (simp add: no_directory_def)
      from saved [OF assms(1) row(1) this] show ?thesis using ext Some e by simp
    qed
  qed
qed

lemma generate_tidy:
  assumes "storage_ok (store_name env)" "tidy T" "\<And>e. get_export i T = Some e \<Longrightarrow> ex_type e = ty"
    and "extension_or ty options \<noteq> ''external'' \<or> ty = ''external''" "generate env ty own i options T = (r, T')"
  shows "tidy T'"
proof (cases "ty = ''external''")
  case True
  with external_tidy [OF assms(2), of i env ty own options r T'] assms(3,5) show ?thesis by (simp add: generate_def)
next
  case False
  then have kind: "\<And>e. get_export i T = Some e \<Longrightarrow> ex_type e \<noteq> ''external''" using assms(3) by blast
  have ext: "extension_or ty options \<noteq> ''external''" using assms(4) False by simp
  have zip: "generate_attachments_zip_export env ty own i options T = (r, T') \<Longrightarrow> tidy T'"
    by (rule zip_tidy [OF assms(1,2) kind ext])
  have kml: "generate_kml_export env ty own i options T = (r, T') \<Longrightarrow> tidy T'"
    unfolding generate_kml_export_def Let_def by (rule two_steps_tidy [OF assms(1,2) kind ext])
  have osm: "generate_osm_export env ty own i options T = (r, T') \<Longrightarrow> tidy T'"
    unfolding generate_osm_export_def by (rule two_steps_tidy [OF assms(1,2) kind False])
  have geojson: "generate_geojson_export env ty own i options T = (r, T') \<Longrightarrow> tidy T'"
    unfolding generate_geojson_export_def by (rule two_steps_tidy [OF assms(1,2) kind False])
  have sheet: "generate_export env ty own i options T = (r, T') \<Longrightarrow> tidy T'"
    by (rule generate_export_tidy [OF assms(1,2) kind])
  show ?thesis
    using assms(5) False zip kml osm geojson sheet by (simp add: generate_def split: if_splits)
qed

text \<open>A failed generation leaves the rows as they were when the row it is for is there.\<close>

lemma save_failed: "ex_id e \<noteq> None \<Longrightarrow> save_in env e T = (Inl x, T') \<Longrightarrow> T' = T"
  by (auto simp: save_in_def save_export_def Let_def split: if_splits prod.splits)

lemma store_file_rows: "store_file env path T = (df, T1) \<Longrightarrow> xs_rows T1 = xs_rows T"
  by (auto simp: store_file_def Let_def)

lemma get_or_create_old: "get_export i T = Some e \<Longrightarrow> get_or_create_export env i own ty options T = e"
  by (simp add: get_or_create_export_def)

lemma found_id: "get_export (Some i) T = Some e \<Longrightarrow> ex_id e = Some i"
  using get_export_row by blast

lemma with_file_id [simp]: "ex_id (with_file df e) = ex_id e" "ex_type (with_file df e) = ex_type e"
    "ex_owner (with_file df e) = ex_owner e" "ex_options (with_file df e) = ex_options e"
    "ex_time_of_last_submission (with_file df e) = ex_time_of_last_submission e"
  by (simp_all add: with_file_def)

lemma file_save_failed:
  assumes "get_export (Some i) T = Some e" "store_file env path T = (df, T1)"
    and "save_in env (with_file df (get_or_create_export env (Some i) own ty options T1)) T1 = (Inl x, T')"
  shows "xs_rows T' = xs_rows T"
proof -
  note rows = store_file_rows [OF assms(2)]
  have "get_export (Some i) T1 = Some e" using assms(1) get_export_same [OF rows] by metis
  then have "T' = T1" using save_failed [OF _ assms(3)] by (simp add: get_or_create_old found_id)
  with rows show ?thesis by simp
qed

lemma generate_failed:
  assumes "get_export (Some i) T = Some e" "generate env ty own (Some i) options T = (Inl x, T')"
  shows "xs_rows T' = xs_rows T"
proof -
  have two: "xs_rows U = xs_rows T" if "generate_in_two_steps env t ext own (Some i) options T = (Inl x, U)" for t ext U
  proof -
    have "xs_rows U = xs_rows T" if s: "store_file env path T = (df, T1)"
        "(case get_or_create_export_object env (Some i) own t options T1 of
            (Inl x, T2) \<Rightarrow> (Inl x, T2) | (Inr e, T2) \<Rightarrow> save_in env (with_file df e) T2) = (Inl x, U)" for path df T1
    proof -
      note rows = store_file_rows [OF s(1)]
      have "get_export (Some i) T1 = Some e" using assms(1) get_export_same [OF rows] by metis
      with s(2) rows save_failed [of "with_file df e" env T1 x U] show ?thesis
        by (simp add: get_or_create_export_object_def found_id)
    qed
    with that show ?thesis by (auto simp: generate_in_two_steps_def split: option.splits prod.splits)
  qed
  have zip: "xs_rows U = xs_rows T" if "generate_attachments_zip_export env t own (Some i) options T = (Inl x, U)" for t U
    using that file_save_failed [OF assms(1)]
    by (auto simp: generate_attachments_zip_export_def Let_def split: option.splits prod.splits)
  have saved: "xs_rows U = xs_rows T" if "save_generated env t own (Some i) os T = (Inl x, U)" for t os U
    using that file_save_failed [OF assms(1)]
    by (auto simp: save_generated_def Let_def split: option.splits prod.splits if_splits)
  have spss: "xs_rows U = xs_rows T"
    if "save_in env ((get_or_create_export env (Some i) own t os T)\<lparr>ex_error_message := m, ex_internal_status := s\<rparr>) T = (Inl x, U)"
    for t os m s U
    using save_failed [OF _ that] by (simp add: get_or_create_old [OF assms(1)] found_id [OF assms(1)])
  have sheet: "xs_rows U = xs_rows T" if "generate_export env t own (Some i) options T = (Inl x, U)" for t U
    using that saved spss unfolding generate_export_def Let_def by (auto split: if_splits outcome.splits)
  have ext: "xs_rows U = xs_rows T" if s: "generate_external_export env t own (Some i) options T = (Inl x, U)" for t U
  proof (cases "external env own options")
    case (Inr a)
    obtain ser name response code where "a = (ser, name, response, code)" by (cases a) auto
    with s Inr assms(1) have "save_in env (answered ser name response code e) T = (Inl x, U)"
      by (simp add: generate_external_export_def)
    from save_failed [OF _ this] show ?thesis by (simp add: answered_same found_id [OF assms(1)])
  qed (use s in \<open>simp add: generate_external_export_def\<close>)
  show ?thesis
    using assms(2) two zip sheet ext
    unfolding generate_def generate_osm_export_def generate_kml_export_def generate_geojson_export_def Let_def
    by (simp split: if_splits)
qed

lemma run_task_tidy:
  assumes "storage_ok (store_name env)" "tidy T" "\<And>e. get_export (Some i) T = Some e \<Longrightarrow> ex_type e = ty"
    and "map_of options ''extension'' = None" "run_task env message ty i options T = (r, T')"
  shows "tidy T'"
proof (cases "get_export (Some i) T")
  case None
  with assms(2,5) show ?thesis by (simp add: run_task_def)
next
  case (Some e)
  let ?o = "if ty \<in> {''csv_zip'', ''sav_zip''} then AList.update ''extension'' (PStr ''zip'') options else options"
  have ext: "extension_or ty ?o \<noteq> ''external'' \<or> ty = ''external''"
    using assms(4) by (auto simp: extension_or_def)
  obtain q T1 where gen: "generate env ty (ex_owner e) (Some i) ?o T = (q, T1)" by fastforce
  have tidy: "tidy T1" by (rule generate_tidy [OF assms(1-3) ext gen])
  show ?thesis
  proof (cases q)
    case (Inr g)
    with tidy gen Some assms(5) show ?thesis by (simp add: run_task_def Let_def)
  next
    case (Inl x)
    have e: "get_export (Some i) T1 = Some e"
      using Some get_export_same [OF generate_failed [OF Some gen [unfolded Inl]]] by metis
    have "tidy T2" if "save_in env (e\<lparr>ex_internal_status := s, ex_error_message := m\<rparr>) T1 = (q2, T2)" for s m q2 T2
      by (rule unchanged_tidy [OF tidy e _ _ _ _ _ that]) simp_all
    with gen Inl Some assms(5) show ?thesis
      by (auto simp: run_task_def Let_def split: sum.splits prod.splits)
  qed
qed

lemma delete_row_tidy: "tidy T \<Longrightarrow> e \<in> set (xs_rows T) \<Longrightarrow> tidy (delete_row e T)"
  by (auto simp: tidy_def delete_row_sound) (simp add: delete_row_def)

lemma delete_rows_tidy:
  assumes "tidy T" "set es \<subseteq> set (xs_rows T)" "distinct (map ex_id es)"
  shows "tidy (fold delete_row es T)"
  using assms
proof (induction es arbitrary: T)
  case (Cons e es)
  have "tidy (delete_row e T)" using Cons.prems by (simp add: delete_row_tidy)
  moreover have "set es \<subseteq> set (xs_rows (delete_row e T))"
  proof
    fix x
    assume "x \<in> set es"
    then have "ex_id x \<in> ex_id ` set es" "x \<in> set (xs_rows T)" using Cons.prems(2) by auto
    then show "x \<in> set (xs_rows (delete_row e T))" using Cons.prems(3) by (auto simp: delete_row_def)
  qed
  ultimately show ?case using Cons by simp
qed simp

lemma map_rows_tidy:
  assumes "tidy T"
    and h: "\<And>e. ex_id (h e) = ex_id e" "\<And>e. ex_owner (h e) = ex_owner e" "\<And>e. ex_type (h e) = ex_type e"
      "\<And>e. ex_filedir (h e) = ex_filedir e" "\<And>e. filepath (h e) = filepath e"
  shows "tidy (T\<lparr>xs_rows := map h (xs_rows T)\<rparr>)" (is "tidy ?T")
proof -
  have "map ex_id (map h (xs_rows T)) = map ex_id (xs_rows T)" by (simp add: h)
  then have "distinct (map ex_id (map h (xs_rows T)))" using tidyD(2) [OF assms(1)] by (simp only: ids_ok_def)
  then have "ids_ok ?T" using tidyD(2) [OF assms(1)] by (simp add: ids_ok_def h)
  moreover have "of_kind own ty \<circ> h = of_kind own ty" for own ty by (simp add: fun_eq_iff of_kind_def h)
  then have "within_limit ?T" using tidyD(3) [OF assms(1)] by (simp add: within_limit_def filter_map)
  moreover have "own_files ?T"
  proof (rule own_filesI)
    fix e p
    assume "e \<in> set (xs_rows ?T)" "filepath e = Some p"
    then obtain e' where "e' \<in> set (xs_rows T)" "filepath e' = Some p" by (auto simp: h)
    from own_filesD(1) [OF tidyD(4) [OF assms(1)] this] show "p \<in> set (xs_files ?T)" by simp
  next
    fix e f p
    assume "e \<in> set (xs_rows ?T)" "f \<in> set (xs_rows ?T)" "filepath e = Some p" "filepath f = Some p"
    then obtain e' f' where e': "e' \<in> set (xs_rows T)" "filepath e' = Some p" "ex_id e = ex_id e'"
      and f': "f' \<in> set (xs_rows T)" "filepath f' = Some p" "ex_id f = ex_id f'" by (auto simp: h)
    from own_filesD(2) [OF tidyD(4) [OF assms(1)] e'(1,2) f'(1,2)] show "ex_id f = ex_id e" by (simp add: e' f')
  qed
  moreover have "no_directory (h e)" if "e \<in> set (xs_rows T)" for e
    using tidyD(5) [OF assms(1) that] by (simp add: no_directory_def h)
  ultimately show ?thesis by (simp add: tidy_def sound_def)
qed

section \<open>Reachable tables\<close>

text \<open>
  The table as requests, workers and the periodic tasks change it, one at a time.  A request that
  records a task saves its own copy of the row, which has no file, whatever the worker has done
  meanwhile, as long as the row is still there.
\<close>

inductive export_reach :: "'o exports \<Rightarrow> bool" where
  start: "export_reach \<lparr>xs_rows = [], xs_next = 1, xs_files = fs\<rparr>"
| sync: "export_reach T \<Longrightarrow> storage_ok (store_name env)
    \<Longrightarrow> extension_or ty options \<noteq> ''external'' \<or> ty = ''external''
    \<Longrightarrow> generate env ty own None options T = (r, T') \<Longrightarrow> export_reach T'"
| request: "export_reach T \<Longrightarrow> create_async_row env own ty query options T = (r, T') \<Longrightarrow> export_reach T'"
| task: "export_reach T \<Longrightarrow> storage_ok (store_name env) \<Longrightarrow> get_export (Some i) T = Some e \<Longrightarrow> ex_type e = ty
    \<Longrightarrow> map_of options ''extension'' = None
    \<Longrightarrow> run_task env message ty i options T = (q, T') \<Longrightarrow> export_reach T'"
| sent: "export_reach T \<Longrightarrow> get_export (ex_id e) T = Some g \<Longrightarrow> ex_owner e = ex_owner g \<Longrightarrow> ex_type e = ex_type g
    \<Longrightarrow> ex_filename e = None \<Longrightarrow> ex_filedir e = None
    \<Longrightarrow> record_task env k e T = (r, T') \<or> broker_down env e T = (r, T') \<Longrightarrow> export_reach T'"
| delete: "export_reach T \<Longrightarrow> delete_export i T = (b, T') \<Longrightarrow> export_reach T'"
| expire: "export_reach T \<Longrightarrow> export_reach (mark_expired_pending_exports_as_failed hours t T)"
| purge: "export_reach T \<Longrightarrow> export_reach (delete_expired_failed_exports hours t T)"

lemma reach_tidy: "export_reach T \<Longrightarrow> tidy T"
proof (induction rule: export_reach.induct)
  case (start fs)
  show ?case by (simp add: tidy_def sound_def ids_ok_def within_limit_def own_files_def)
next
  case (sync T env ty options own r T')
  then show ?case by (intro generate_tidy [OF sync(2) sync.IH _ sync(3,4)]) (simp add: get_export_def)
next
  case (request T env own ty query options r T')
  show ?case
    by (rule new_tidy [OF request.IH _ _ request(2) [unfolded create_async_row_def]]) simp_all
next
  case (task T env i e ty options message q T')
  show ?case by (rule run_task_tidy [OF task(2) task.IH _ task(5,6)]) (use task(3,4) in simp)
next
  case (sent T e g env k r T')
  have g: "g \<in> set (xs_rows T)" "ex_id e = ex_id g" using get_export_row [OF sent(2)] by simp_all
  have saved: "tidy U" if "save_in env e' T = (q, U)" "ex_id e' = ex_id e" "ex_owner e' = ex_owner e" "ex_type e' = ex_type e"
      "ex_filedir e' = None" "ex_filename e' = None" for e' q U
  proof (rule save_tidy [OF sent.IH])
    show "storable e' T"
      using live_storable [OF sent.IH g(1), of e'] g(2) sent(3,4) that(2-6) by (simp add: filepath_def)
    show "no_directory e'" using that(5) by (simp add: no_directory_def)
  qed (use that(1) in \<open>simp add: save_in_def\<close>)
  show ?case
    using sent(5-7) saved
    by (auto simp: record_task_def broker_down_def split: sum.splits prod.splits)
next
  case (delete T i b T')
  then show ?case
    using delete_row_tidy [OF delete.IH] by (auto simp: delete_export_def dest!: get_export_row split: option.splits)
next
  case (expire T hours t)
  show ?case
    unfolding mark_expired_pending_exports_as_failed_def by (rule map_rows_tidy [OF expire.IH]) simp_all
next
  case (purge T hours t)
  have "distinct (map ex_id (filter P (xs_rows T)))" for P
    using tidyD(2) [OF purge.IH] by (simp add: ids_ok_def distinct_map_filter)
  then show ?case
    unfolding delete_expired_failed_exports_def by (intro delete_rows_tidy [OF purge.IH]) auto
qed


text \<open>C25: In every reachable table an export that names a file has it in the storage, and no other export
  names the same file, so that deleting one (or making room for a new one) never takes away the file
  of another.\<close>

theorem exports_keep_their_files:
  assumes "export_reach T" "e \<in> set (xs_rows T)" "filepath e = Some p"
  shows "p \<in> set (xs_files T) \<and> (\<forall>f \<in> set (xs_rows T). filepath f = Some p \<longrightarrow> f = e)"
proof -
  note tidy = reach_tidy [OF assms(1)]
  have "inj_on ex_id (set (xs_rows T))" using tidyD(2) [OF tidy] by (simp add: ids_ok_def distinct_map)
  then show ?thesis
    using own_filesD [OF tidyD(4) [OF tidy] assms(2,3)] assms(2) by (auto dest: inj_onD)
qed

text \<open>A storage, surroundings and a table to try them on.\<close>

definition sample_store :: "string list \<Rightarrow> string \<Rightarrow> string" where
  "sample_store fs p = ''exports/'' @ replicate (Suc (sum_list (map length fs))) (CHR ''x'')"

definition sample_env :: "nat env" where
  "sample_env =
     \<lparr>now = 100, stamp = ''2024'', images = True, always_new = False, google = False, pending_minutes = 5,
      form_user = (\<lambda>_. ''ann''), form_id = (\<lambda>_. ''tree''), changed = (\<lambda>_. Some 50), store_name = sample_store,
      build = (\<lambda>ty own os. Built), external = (\<lambda>own os. Inl ''External server not set'')\<rparr>"

definition no_exports :: "nat exports" where
  "no_exports = \<lparr>xs_rows = [], xs_next = 1, xs_files = []\<rparr>"

definition one_export :: "nat exports" where
  "one_export = snd (generate sample_env ''csv'' 7 None [(''query'', PStr ''{}'')] no_exports)"

lemma path_split_append:
  assumes "CHR ''/'' \<notin> set f" "d \<noteq> []" "last d \<noteq> CHR ''/''"
  shows "path_split (d @ CHR ''/'' # f) = (d, f)"
proof -
  have "takeWhile (\<lambda>c. c \<noteq> CHR ''/'') (rev (d @ CHR ''/'' # f)) = rev f"
    unfolding rev_append rev.simps append_assoc by (subst takeWhile_append2) (use assms(1) in auto)
  moreover have "\<not> list_all (\<lambda>c. c = CHR ''/'') (d @ [CHR ''/''])"
    using assms(2,3) last_in_set by (fastforce simp: list_all_iff)
  moreover have "dropWhile (\<lambda>c. c = CHR ''/'') (rev d) = rev d"
    using assms(2,3) by (cases d rule: rev_cases) auto
  ultimately show ?thesis by (simp add: path_split_def Let_def)
qed

lemma sample_storage_ok: "storage_ok (store_name sample_env)"
proof -
  have "length f \<le> sum_list (map length fs)" if "f \<in> set fs" for f :: string and fs
    using that by (induction fs) auto
  then have "sample_store fs p \<notin> set fs" for fs p by (fastforce simp: sample_store_def)
  moreover have "path_split (''exports/'' @ replicate (Suc n) (CHR ''x'')) = (''exports'', replicate (Suc n) (CHR ''x''))" for n
    using path_split_append [of "replicate (Suc n) (CHR ''x'')" "''exports''"] by simp
  ultimately show ?thesis by (simp add: storage_ok_def sample_env_def sample_store_def path_join_def)
qed

lemma one_export_reached: "export_reach one_export"
proof -
  obtain r T where T: "generate sample_env ''csv'' 7 None [(''query'', PStr ''{}'')] no_exports = (r, T)" by fastforce
  have "export_reach T"
    by (rule export_reach.sync [OF export_reach.start sample_storage_ok _ T [unfolded no_exports_def]])
      (simp add: extension_or_def)
  with T show ?thesis by (simp add: one_export_def)
qed


theorem exports_keep_their_files_witness:
  "filepath (hd (xs_rows one_export)) = Some ''exports/x'' \<and> ''exports/x'' \<in> set (xs_files one_export)"
proof -
  have p: "filepath (hd (xs_rows one_export)) = Some ''exports/x''" "xs_rows one_export \<noteq> []" by code_simp+
  from exports_keep_their_files [OF one_export_reached hd_in_set [OF p(2)] p(1)] p(1) show ?thesis by simp
qed

section \<open>The copy of the requester\<close>

text \<open>
  \<open>create_async_export\<close> saves the whole row again when the broker has taken the task.  A worker
  that is done by then has its file and status overwritten: the export is pending, and its file is
  in the storage without a row.
\<close>

theorem requester_overwrites_worker:
  "case create_async_export sample_env
          (\<lambda>T. snd (run_task sample_env (\<lambda>_. []) ''csv'' 1 [] T)) (Some ''task'') 7 ''csv'' PNone [] no_exports of
     (Inr e, T) \<Rightarrow> status e = PENDING \<and> map status (xs_rows T) = [PENDING] \<and> xs_files T = [''exports/x'']
   | _ \<Rightarrow> False"
  by code_simp

text \<open>
  The same save brings back a row that the limit has deleted, without counting.  Here the requester's
  row was the first, and ten more were created before it is saved again.
\<close>

definition ten_exports :: "nat exports" where
  "ten_exports =
     \<lparr>xs_rows = map (\<lambda>i. (create_export_object sample_env 7 ''csv'' [])\<lparr>ex_id := Some i\<rparr>) [2..<12], xs_next = 12,
      xs_files = []\<rparr>"

theorem requester_revives_row:
  "case record_task sample_env ''task'' ((create_export_object sample_env 7 ''csv'' [])\<lparr>ex_id := Some 1\<rparr>) ten_exports of
     (Inr e, T) \<Rightarrow> length (filter (of_kind 7 ''csv'') (xs_rows T)) = 11
   | _ \<Rightarrow> False"
  by code_simp

end
