(* ===== verification/Export_Requests.thy ===== *)
theory Export_Requests
  imports Exports Permissions
begin

text \<open>
  Requests for exports: the options of a request, the synchronous \<open>custom_response_handler\<close> and the
  asynchronous \<open>process_async_export\<close> of \<open>onadata/libs/utils/api_export_tools.py\<close>, with
  \<open>parse_request_export_options\<close> of \<open>export_tools.py\<close>, on the table of \<open>Exports\<close> and the
  restriction to own submissions of \<open>Permissions\<close>.  \<open>json.loads\<close> and \<open>json.dumps\<close> are
  arguments; the log entries and messages of a request are left out.
\<close>

section \<open>Options of a request\<close>

datatype request_error =
    Parse_Error string
  | Not_Found
  | Value_Error
  | Type_Error
  | Key_Error
  | Query_Index_Error
  | Export_Failed export_error

text \<open>\<open>str_to_bool\<close>; comparing in lower case is the same as in upper case.\<close>

definition str_to_bool :: "pyval \<Rightarrow> bool" where
  "str_to_bool v =
     (case v of PBool b \<Rightarrow> b | PStr s \<Rightarrow> lower s \<in> {''true'', ''t'', ''1''} | PInt i \<Rightarrow> i = 1 | _ \<Rightarrow> False)"

definition supported_index_tags :: "string list" where
  "supported_index_tags = [''['', '']'', ''('', '')'', ''{'', ''}'', ''.'', ''_'']"

definition get_repeat_index_tags :: "string option \<Rightarrow> request_error + (string \<times> string) option" where
  "get_repeat_index_tags tags =
     (case tags of
        None \<Rightarrow> Inr None
      | Some s \<Rightarrow>
          (let (a, b) = (case split_on CHR '','' s of [] \<Rightarrow> (''['', '']'') | [t] \<Rightarrow> (t, t) | t # u # _ \<Rightarrow> (t, u))
           in if a \<in> set supported_index_tags \<and> b \<in> set supported_index_tags then Inr (Some (a, b))
              else Inl (Parse_Error ''The tag is not supported'')))"

definition param :: "string \<Rightarrow> bool \<Rightarrow> (string, string) dict \<Rightarrow> pyval" where
  "param k b params = (case map_of params k of Some s \<Rightarrow> PStr s | None \<Rightarrow> PBool b)"

text \<open>\<open>params.get(k) and params.get(k).lower()\<close>, when it is one of \<open>true\<close>, \<open>false\<close>.\<close>

definition boolean_param :: "string \<Rightarrow> (string, string) dict \<Rightarrow> bool option" where
  "boolean_param k params =
     (case map_of params k of
        Some s \<Rightarrow> if lower s \<in> {''true'', ''false''} then Some (str_to_bool (PStr (lower s))) else None
      | None \<Rightarrow> None)"

definition optional :: "string \<Rightarrow> bool option \<Rightarrow> (string \<times> pyval) list" where
  "optional k b = (case b of Some v \<Rightarrow> [(k, PBool v)] | None \<Rightarrow> [])"

definition parse_request_export_options ::
    "bool \<Rightarrow> (string, string) dict \<Rightarrow> request_error + (string, pyval) dict" where
  "parse_request_export_options imgs params =
     (case get_repeat_index_tags (map_of params ''repeat_index_tags'') of
        Inl e \<Rightarrow> Inl e
      | Inr tags \<Rightarrow> Inr (
          [(''include_labels'', PBool (str_to_bool (param ''include_labels'' False params))),
           (''include_reviews'', PBool (str_to_bool (param ''include_reviews'' False params))),
           (''include_labels_only'', PBool (str_to_bool (param ''include_labels_only'' False params))),
           (''include_hxl'', PBool (str_to_bool (param ''include_hxl'' True params))),
           (''remove_group_name'', PBool (boolean_param ''remove_group_name'' params = Some True)),
           (''group_delimiter'', PStr (if map_of params ''group_delimiter'' = Some ''.'' then ''.'' else ''/'')),
           (''split_select_multiples'', PBool (\<not> str_to_bool (param ''do_not_split_select_multiples'' False params)))]
          @ optional ''binary_select_multiples'' (boolean_param ''binary_select_multiples'' params)
          @ [(''include_images'', PBool (str_to_bool (param ''include_images'' imgs params))),
             (''win_excel_utf8'', PBool (str_to_bool (param ''win_excel_utf8'' False params)))]
          @ optional ''value_select_multiples'' (boolean_param ''value_select_multiples'' params)
          @ optional ''show_choice_labels'' (boolean_param ''show_choice_labels'' params)
          @ (case tags of Some (a, b) \<Rightarrow> [(''repeat_index_tags'', PList [PStr a, PStr b])] | None \<Rightarrow> [])
          @ (case map_of params ''language'' of Some l \<Rightarrow> [(''language'', PStr l)] | None \<Rightarrow> [])))"

text \<open>\<open>get_query_params_from_metadata\<close>.\<close>

definition get_query_params_from_metadata :: "(string, pyval) dict \<Rightarrow> (string, pyval) dict" where
  "get_query_params_from_metadata extra =
     List.map_filter (\<lambda>(k, m). map_option (Pair m) (map_of extra k))
       [(''data_geo_field'', ''geo_field''), (''data_simple_style'', ''simple_style''), (''data_title'', ''title''),
        (''data_fields'', ''fields'')]"

text \<open>\<open>include_hxl_row\<close> and \<open>get_dataview_export_options\<close>; \<open>hxl\<close> are the columns of the form with a tag.\<close>

definition include_hxl_row :: "string list \<Rightarrow> string list \<Rightarrow> bool" where
  "include_hxl_row dv_columns hxl_columns = list_ex (\<lambda>c. c \<in> set dv_columns) hxl_columns"

record filtered_dataset =
  fd_pk :: int
  fd_columns :: "string list"
  fd_hxl :: "string list"

definition get_dataview_export_options :: "filtered_dataset \<Rightarrow> (string, pyval) dict" where
  "get_dataview_export_options dv =
     (''dataview_pk'', PInt (fd_pk dv))
     # (if fd_hxl dv = [] then [] else [(''include_hxl'', PBool (include_hxl_row (fd_columns dv) (fd_hxl dv)))])"

section \<open>Types and dates\<close>

definition export_ext :: "(string, string) dict" where
  "export_ext =
     [(''xlsx'', ''xlsx''), (''csv'', ''csv''), (''csvzip'', ''csv_zip''), (''savzip'', ''sav_zip''), (''uuid'', ''external''),
      (''kml'', ''kml''), (''zip'', ''zip''), (''osm'', ''osm''), (''gsheets'', ''gsheets''), (''geojson'', ''geojson'')]"

definition get_export_type :: "bool \<Rightarrow> string \<Rightarrow> request_error + string" where
  "get_export_type allowed ty =
     (case map_of export_ext ty of
        Some t \<Rightarrow>
          if ty = ''gsheets'' \<and> \<not> allowed then Inl (Parse_Error ''format not known or not implemented!'') else Inr t
      | None \<Rightarrow> Inl (Parse_Error ''format not known or not implemented!''))"

definition export_mimes :: "string list" where
  "export_mimes = [''xls'', ''xlsx'', ''csv'', ''zip'', ''csv_zip'', ''sav_zip'', ''sav'', ''kml'', ''geojson'', ''osm'']"

definition get_extension_from_export_type :: "string \<Rightarrow> string" where
  "get_extension_from_export_type ty =
     (if ty = ''xlsx'' then ''xlsx'' else if ty \<in> {''csv_zip'', ''sav_zip''} then ''zip'' else ty)"

text \<open>\<open>strptime(s, "%y_%m_%d_%H_%M_%S").strftime("%Y-%m-%dT%H:%M:%S")\<close>, \<open>None\<close> for its error.\<close>

definition number_in :: "nat \<Rightarrow> nat \<Rightarrow> string \<Rightarrow> nat option" where
  "number_in lo hi s =
     (let n = digits_value s
      in if s \<noteq> [] \<and> length s \<le> 2 \<and> list_all is_digit s \<and> lo \<le> n \<and> n \<le> hi then Some n else None)"

definition days_in_month :: "nat \<Rightarrow> nat \<Rightarrow> nat" where
  "days_in_month y m =
     (if m = 2 then (if y mod 4 = 0 \<and> (y mod 100 \<noteq> 0 \<or> y mod 400 = 0) then 29 else 28)
      else if m \<in> {4, 6, 9, 11} then 30 else 31)"

definition format_date_for_mongo :: "string \<Rightarrow> string option" where
  "format_date_for_mongo s =
     (case split_on CHR ''_'' s of
        [ys, mos, ds, hs, mis, ss] \<Rightarrow>
          (let day_text = (case ds of [c, d] \<Rightarrow> if c = CHR '' '' then [d] else ds | _ \<Rightarrow> ds)
           in case (number_in 0 99 ys, number_in 1 12 mos, number_in 1 31 day_text, number_in 0 23 hs,
                    number_in 0 59 mis, number_in 0 59 ss) of
                (Some y, Some mo, Some d, Some h, Some mi, Some sec) \<Rightarrow>
                  (let year = (if y < 69 then 2000 + y else 1900 + y)
                   in if length ys = 2 \<and> d \<le> days_in_month year mo
                      then Some (pad 4 (int year) @ ''-'' @ pad 2 (int mo) @ ''-'' @ pad 2 (int d) @ ''T''
                                 @ pad 2 (int h) @ '':'' @ pad 2 (int mi) @ '':'' @ pad 2 (int sec))
                      else None)
              | _ \<Rightarrow> None)
      | _ \<Rightarrow> None)"

definition date_bound :: "string \<Rightarrow> string option \<Rightarrow> request_error + (string \<times> pyval) list" where
  "date_bound op s =
     (case s of
        Some (c # cs) \<Rightarrow>
          (case format_date_for_mongo (c # cs) of
             Some t \<Rightarrow> Inr [(op, PStr t)]
           | None \<Rightarrow> Inl (Parse_Error ''Dates must be in the format YY_MM_DD_hh_mm_ss''))
      | _ \<Rightarrow> Inr [])"

definition ranged :: "(string, string) dict \<Rightarrow> bool" where
  "ranged params \<longleftrightarrow> map_of params ''start'' \<noteq> None \<or> map_of params ''end'' \<noteq> None"

text \<open>\<open>_set_start_end_params\<close>.\<close>

definition set_start_end_params ::
    "(string \<Rightarrow> pyval option) \<Rightarrow> (pyval \<Rightarrow> string) \<Rightarrow> (string, string) dict \<Rightarrow> pyval \<Rightarrow> request_error + pyval" where
  "set_start_end_params loads dumps params query =
     (if \<not> ranged params then Inr query
      else
        (case (case query of PStr s \<Rightarrow> loads s | _ \<Rightarrow> Some query) of
           None \<Rightarrow> Inl Value_Error
         | Some (PDict d) \<Rightarrow>
             (case date_bound ''$gte'' (map_of params ''start'') of
                Inl e \<Rightarrow> Inl e
              | Inr from \<Rightarrow>
                  (case date_bound ''$lte'' (map_of params ''end'') of
                     Inl e \<Rightarrow> Inl e
                   | Inr to \<Rightarrow>
                       Inr (PStr (dumps (PDict (AList.update ''_submission_time'' (PDict (from @ to)) d))))))
         | Some _ \<Rightarrow> Inl Type_Error))"

section \<open>Synchronous requests\<close>

text \<open>
  A request: its parameters, the access of its user, the theories of JSON, the filtered dataset and
  the metadata it is about, its \<open>token\<close>, \<open>meta\<close> and \<open>filename\<close> arguments.
\<close>

record export_request =
  rq_params :: "(string, string) dict"
  rq_host :: string
  rq_user :: string
  rq_perm :: "string \<Rightarrow> bool"
  rq_access :: form_access
  rq_query :: pyval
  rq_dataview :: "filtered_dataset option"
  rq_metadata :: "(string, pyval) dict option"
  rq_token :: "string option"
  rq_meta :: "string option"
  rq_filename :: "string option"

record json =
  loads :: "string \<Rightarrow> pyval option"
  dumps :: "pyval \<Rightarrow> string"

datatype 'o answer =
    File_Of "'o export" "string option" bool
  | Redirect_To "string option"
  | Status async_status "string option"
  | Job "string option"
  | Export_Url "string option"
  | No_Permission
  | Async_Only

text \<open>\<open>_generate_filename\<close>.\<close>

definition generate_filename :: "(string, string) dict \<Rightarrow> string \<Rightarrow> bool \<Rightarrow> bool \<Rightarrow> string option" where
  "generate_filename params id_string remove_group_name of_dataview =
     (case map_of params ''raw'' of
        Some (c # cs) \<Rightarrow> None
      | _ \<Rightarrow> Some (if remove_group_name then id_string @ ''-group-name-removed''
                  else if of_dataview then id_string @ ''-dataview'' else id_string))"

definition dataview_pk :: "export_request \<Rightarrow> pyval" where
  "dataview_pk rq = (case rq_dataview rq of Some dv \<Rightarrow> PInt (fd_pk dv) | None \<Rightarrow> PBool False)"

definition get_param :: "string \<Rightarrow> (string, string) dict \<Rightarrow> pyval" where
  "get_param k params = (case map_of params k of Some s \<Rightarrow> PStr s | None \<Rightarrow> PNone)"

text \<open>
  \<open>_generate_new_export\<close>.  The failure of an external service is a status for the requester, not an
  error.  For the types of \<open>generate_export\<close> the options of the request are parsed again and
  override the others.
\<close>

definition new_export_options ::
    "'o env \<Rightarrow> export_request \<Rightarrow> 'o \<Rightarrow> string \<Rightarrow> pyval \<Rightarrow> (string, pyval) dict \<Rightarrow> request_error + (string, pyval) dict" where
  "new_export_options env rq own ty query export_options =
     (let os = dict_update
                 [(''extension'', PStr (get_extension_from_export_type ty)), (''username'', PStr (form_user env own)),
                  (''id_string'', PStr (form_id env own)), (''host'', PStr (rq_host rq)),
                  (''sort'', get_param ''sort'' (rq_params rq))] export_options;
          os = (if truthy query then AList.update ''query'' query os else os);
          os = AList.update ''dataview_pk'' (dataview_pk rq) os
      in if ty = ''external''
         then Inr (dict_update os [(''token'', get_param ''token'' (rq_params rq)),
                                   (''data_id'', get_param ''data_id'' (rq_params rq)),
                                   (''meta'', get_param ''meta'' (rq_params rq))])
         else if ty \<in> {''osm'', ''zip'', ''kml'', ''geojson''} then Inr os
         else map_sum id (dict_update os) (parse_request_export_options (images env) (rq_params rq)))"

definition generate_new_export ::
    "json \<Rightarrow> 'o env \<Rightarrow> export_request \<Rightarrow> 'o \<Rightarrow> string \<Rightarrow> pyval \<Rightarrow> (string, pyval) dict \<Rightarrow> 'o exports
     \<Rightarrow> (request_error + (string + 'o export)) \<times> 'o exports" where
  "generate_new_export js env rq own ty query export_options T =
     (case set_start_end_params (loads js) (dumps js) (rq_params rq) query of
        Inl e \<Rightarrow> (Inl e, T)
      | Inr query \<Rightarrow>
          (case new_export_options env rq own ty query export_options of
             Inl e \<Rightarrow> (Inl e, T)
           | Inr os \<Rightarrow>
               (case generate env ty own None os T of
                  (Inr g, T1) \<Rightarrow> (Inr (Inr g), T1)
                | (Inl x, T1) \<Rightarrow>
                    ((case x of
                        Task_Error m \<Rightarrow> if ty = ''external'' then Inr (Inl m) else Inl (Export_Failed x)
                      | _ \<Rightarrow> Inl (Export_Failed x)), T1))))"

text \<open>\<open>external_export_response\<close>: an export that failed is no JSON value.\<close>

definition external_export_response :: "string + 'o export \<Rightarrow> request_error + 'o answer" where
  "external_export_response r =
     (case r of
        Inl m \<Rightarrow> Inr (Status FAILED (Some m))
      | Inr e \<Rightarrow> if ex_internal_status e = SUCCESSFUL then Inr (Redirect_To (ex_export_url e)) else Inl Type_Error)"

text \<open>The answer with a file, the last part of \<open>custom_response_handler\<close>.\<close>

definition file_response :: "'o env \<Rightarrow> export_request \<Rightarrow> 'o \<Rightarrow> pyval \<Rightarrow> 'o export \<Rightarrow> request_error + 'o answer" where
  "file_response env rq own remove_group_name e =
     (case ex_filename e of
        None \<Rightarrow> (case ex_error_message e of Some (c # cs) \<Rightarrow> Inl (Parse_Error (c # cs)) | _ \<Rightarrow> Inl Type_Error)
      | Some f \<Rightarrow>
          (if drop 1 (snd (splitext f)) \<notin> set export_mimes then Inl Key_Error
           else if rq_filename rq = None \<and> status e = SUCCESSFUL
           then Inr (File_Of e (generate_filename (rq_params rq) (form_id env own) (truthy remove_group_name)
                                  (truthy (dataview_pk rq))) True)
           else Inr (File_Of e (rq_filename rq) False)))"

definition request_options :: "'o env \<Rightarrow> export_request \<Rightarrow> request_error + (string, pyval) dict" where
  "request_options env rq =
     map_sum id
       (\<lambda>os. let os = (case rq_metadata rq of Some m \<Rightarrow> dict_update os (get_query_params_from_metadata m) | None \<Rightarrow> os);
                 os = AList.update ''host'' (PStr (rq_host rq)) (AList.update ''dataview_pk'' (dataview_pk rq) os)
             in (case rq_dataview rq of Some dv \<Rightarrow> dict_update os (get_dataview_export_options dv) | None \<Rightarrow> os))
       (parse_request_export_options (images env) (rq_params rq))"

definition external_type :: "export_request \<Rightarrow> string \<Rightarrow> string" where
  "external_type rq ty = (if ty = ''xlsx'' \<and> rq_token rq \<noteq> None \<or> rq_meta rq \<noteq> None then ''external'' else ty)"

definition parse_id :: "string \<Rightarrow> nat option" where
  "parse_id s = (if s \<noteq> [] \<and> list_all is_digit s then Some (digits_value s) else None)"

definition ranged_or_data_id :: "(string, string) dict \<Rightarrow> bool" where
  "ranged_or_data_id params \<longleftrightarrow> ranged params \<or> map_of params ''data_id'' \<noteq> None"

text \<open>The export that a request without \<open>export_id\<close> gets: an existing one or a new one.\<close>

definition find_or_generate ::
    "json \<Rightarrow> 'o env \<Rightarrow> export_request \<Rightarrow> 'o \<Rightarrow> string \<Rightarrow> pyval \<Rightarrow> (string, pyval) dict \<Rightarrow> 'o exports
     \<Rightarrow> (request_error + (string + 'o export)) \<times> 'o exports" where
  "find_or_generate js env rq own ty query os T =
     (if should_create_new_export (always_new env) (ranged_or_data_id (rq_params rq)) (changed env) own ty os T
      then generate_new_export js env rq own ty query os T
      else (case newest_export_for own ty os T of
              None \<Rightarrow> (Inl (Export_Failed Does_Not_Exist), T)
            | Some e \<Rightarrow>
                if \<not> given (ex_filename e) \<and> \<not> given (ex_error_message e)
                then generate_new_export js env rq own ty query os T else (Inr (Inr e), T)))"

definition custom_response_handler ::
    "json \<Rightarrow> 'o env \<Rightarrow> export_request \<Rightarrow> 'o \<Rightarrow> string \<Rightarrow> 'o exports \<Rightarrow> (request_error + 'o answer) \<times> 'o exports" where
  "custom_response_handler js env rq own requested T =
     (case get_export_type (google env) requested of
        Inl e \<Rightarrow> (Inl e, T)
      | Inr ty \<Rightarrow>
          (let ty = external_type rq ty
           in case request_options env rq of
                Inl e \<Rightarrow> (Inl e, T)
              | Inr os \<Rightarrow>
                  (case filter_queryset_xform_meta_perms_sql (loads js) (rq_access rq) (rq_user rq) (rq_perm rq) (rq_query rq) of
                     Inl NoRecordsPermission \<Rightarrow> (Inr No_Permission, T)
                   | Inl QueryIndexError \<Rightarrow> (Inl Query_Index_Error, T)
                   | Inr query \<Rightarrow>
                       (let os = (if truthy query then AList.update ''query'' query os else os);
                            remove = opt ''remove_group_name'' os
                        in case map_of (rq_params rq) ''export_id'' of
                             Some (c # cs) \<Rightarrow>
                               (case parse_id (c # cs) of
                                  None \<Rightarrow> (Inl Value_Error, T)
                                | Some i \<Rightarrow>
                                    (case get_export (Some i) T of
                                       Some e \<Rightarrow>
                                         if ex_owner e = own then (file_response env rq own remove e, T)
                                         else (Inl Not_Found, T)
                                     | None \<Rightarrow> (Inl Not_Found, T)))
                           | _ \<Rightarrow>
                               if ty = ''gsheets'' then (Inr Async_Only, T)
                               else (case find_or_generate js env rq own ty query os T of
                                       (Inl e, T1) \<Rightarrow> (Inl e, T1)
                                     | (Inr r, T1) \<Rightarrow>
                                         if ty = ''external'' then (external_export_response r, T1)
                                         else (case r of
                                                 Inl m \<Rightarrow> (Inl Type_Error, T1)
                                               | Inr e \<Rightarrow> (file_response env rq own remove e, T1)))))))"

section \<open>Asynchronous requests\<close>

text \<open>\<open>export_async_export_response\<close>; \<open>url\<close> is the address of an export.\<close>

definition export_async_export_response :: "(nat option \<Rightarrow> string) \<Rightarrow> 'o export \<Rightarrow> 'o answer" where
  "export_async_export_response url e =
     (case status e of
        SUCCESSFUL \<Rightarrow>
          Export_Url (if ex_type e \<notin> {''external'', ''gsheets''} then Some (url (ex_id e)) else ex_export_url e)
      | PENDING \<Rightarrow> Status PENDING None
      | _ \<Rightarrow> Status FAILED (ex_error_message e))"

text \<open>
  \<open>create_export_async\<close>: a request for what is already pending gets the task of the pending export.
\<close>

definition create_export_async ::
    "'o env \<Rightarrow> ('o exports \<Rightarrow> 'o exports) \<Rightarrow> string option \<Rightarrow> 'o \<Rightarrow> string \<Rightarrow> pyval \<Rightarrow> (string, pyval) dict \<Rightarrow> 'o exports
     \<Rightarrow> (request_error + 'o answer) \<times> 'o exports" where
  "create_export_async env worker sent own ty query os T =
     (case check_pending_export (pending_minutes env) (now env) own ty os T of
        Some e \<Rightarrow> (Inr (Job (ex_task_id e)), T)
      | None \<Rightarrow>
          (case create_async_export env worker sent own ty query os T of
             (Inl x, T1) \<Rightarrow> (Inl (Export_Failed x), T1)
           | (Inr e, T1) \<Rightarrow> (Inr (Job (ex_task_id e)), T1)))"

text \<open>
  \<open>process_async_export\<close>: \<open>os\<close> are the options the view has parsed, \<open>credential\<close> the outcome of
  \<open>_get_google_credential\<close>: the stored credential or the address to ask for one.
\<close>

definition process_async_export ::
    "json \<Rightarrow> 'o env \<Rightarrow> (nat option \<Rightarrow> string) \<Rightarrow> (string + string) \<Rightarrow> ('o exports \<Rightarrow> 'o exports) \<Rightarrow> string option
     \<Rightarrow> export_request \<Rightarrow> 'o \<Rightarrow> string \<Rightarrow> (string, pyval) dict \<Rightarrow> 'o exports \<Rightarrow> (request_error + 'o answer) \<times> 'o exports" where
  "process_async_export js env url credential worker sent rq own requested_type os T =
     (case get_export_type (google env) requested_type of
        Inl e \<Rightarrow> (Inl e, T)
      | Inr ty \<Rightarrow>
          (case filter_queryset_xform_meta_perms_sql (loads js) (rq_access rq) (rq_user rq) (rq_perm rq) (opt ''query'' os) of
             Inl NoRecordsPermission \<Rightarrow> (Inr No_Permission, T)
           | Inl QueryIndexError \<Rightarrow> (Inl Query_Index_Error, T)
           | Inr query \<Rightarrow>
               (let os = (if truthy query then AList.update ''query'' query os else os);
                    ty = (if ty = ''xlsx'' \<and> opt ''token'' os \<noteq> PNone \<or> opt ''meta'' os \<noteq> PNone
                          then ''external'' else ty)
                in case (if ty = ''gsheets'' then credential else Inl []) of
                     Inr address \<Rightarrow> (Inr (Redirect_To (Some address)), T)
                   | Inl c \<Rightarrow>
                       (let os = (if ty = ''gsheets'' then AList.update ''google_credentials'' (PStr c) os else os)
                        in if should_create_new_export (always_new env) (ranged_or_data_id (rq_params rq)) (changed env) own ty os T
                              \<or> ty = ''external''
                           then create_export_async env worker sent own ty query os T
                           else (case newest_export_for own ty os T of
                                   None \<Rightarrow> (Inl (Export_Failed Does_Not_Exist), T)
                                 | Some e \<Rightarrow>
                                     if \<not> given (ex_filename e)
                                     then create_export_async env worker sent own ty query os T
                                     else (Inr (export_async_export_response url e), T))))))"

text \<open>
  \<open>get_async_response\<close>: the state and result of the task as the broker reports them, \<open>None\<close> for a
  lost connection, which is tried twice.
\<close>

definition get_async_response ::
    "(nat option \<Rightarrow> string) \<Rightarrow> (string \<times> string option) option list \<Rightarrow> string \<Rightarrow> 'o exports \<Rightarrow> request_error + 'o answer" where
  "get_async_response url reports job T =
     (case filter (\<lambda>r. r \<noteq> None) (take 2 reports) of
        Some (state, progress) # _ \<Rightarrow>
          (if state = ''SUCCESS''
           then (case find (\<lambda>e. ex_task_id e = Some job) (xs_rows T) of
                   Some e \<Rightarrow> Inr (export_async_export_response url e) | None \<Rightarrow> Inl Not_Found)
           else Inr (Status (celery_state_to_status state) progress))
      | _ \<Rightarrow> Inl (Export_Failed Export_Connection_Error))"

section \<open>What is served\<close>

lemma optional_keys [simp]: "k \<in> fst ` set (optional k' b) \<longleftrightarrow> k = k' \<and> b \<noteq> None"
  by (cases b) (auto simp: optional_def)

lemma parse_options_keys:
  assumes "parse_request_export_options imgs params = Inr os" "k \<in> {''query'', ''extension''}"
  shows "k \<notin> fst ` set os"
proof -
  obtain tags where tags: "get_repeat_index_tags (map_of params ''repeat_index_tags'') = Inr tags"
    using assms(1) by (cases "get_repeat_index_tags (map_of params ''repeat_index_tags'')")
      (simp_all add: parse_request_export_options_def)
  have "k \<notin> fst ` set (case tags of Some (a, b) \<Rightarrow> [(''repeat_index_tags'', PList [PStr a, PStr b])] | None \<Rightarrow> [])"
    "k \<notin> fst ` set (case map_of params ''language'' of Some l \<Rightarrow> [(''language'', PStr l)] | None \<Rightarrow> [])"
    using assms(2) by (auto split: option.split)
  moreover note os = assms(1) [unfolded parse_request_export_options_def tags sum.case sum.inject, symmetric]
  ultimately show ?thesis
    using assms(2) unfolding os by (elim insertE emptyE) (simp_all add: image_Un)
qed

lemma metadata_keys: "k \<in> {''query'', ''extension''} \<Longrightarrow> k \<notin> fst ` set (get_query_params_from_metadata m)"
  by (auto simp: get_query_params_from_metadata_def List.map_filter_def split: if_splits)

lemma dataview_keys: "k \<in> {''query'', ''extension''} \<Longrightarrow> k \<notin> fst ` set (get_dataview_export_options dv)"
  by (auto simp: get_dataview_export_options_def)

lemma dict_update_other: "k \<notin> fst ` set es \<Longrightarrow> map_of (dict_update d es) k = map_of d k"
proof -
  assume "k \<notin> fst ` set es"
  then have "map_of (rev es) k = None" by (simp add: map_of_eq_None_iff)
  then show ?thesis by (simp add: dict_get_update)
qed

lemma dict_update_keys: "fst ` set (dict_update d es) = fst ` set d \<union> fst ` set es"
proof -
  have "map_of (dict_update d es) k = None \<longleftrightarrow> map_of d k = None \<and> k \<notin> fst ` set es" for k
    by (simp add: dict_get_update map_of_eq_None_iff split: option.split)
      (metis map_of_eq_None_iff option.distinct(1) set_rev)
  then have "k \<in> fst ` set (dict_update d es) \<longleftrightarrow> k \<in> fst ` set d \<union> fst ` set es" for k
    unfolding map_of_eq_None_iff by blast
  then show ?thesis by (rule set_eqI)
qed

lemma update_keys: "fst ` set (AList.update k v d) = insert k (fst ` set d)"
  by (induction d) auto

lemma request_options_keys:
  assumes "request_options env rq = Inr os" "k \<in> {''query'', ''extension''}"
  shows "k \<notin> fst ` set os"
proof -
  obtain ps where ps: "parse_request_export_options (images env) (rq_params rq) = Inr ps"
    using assms(1) by (cases "parse_request_export_options (images env) (rq_params rq)") (auto simp: request_options_def)
  have "k \<noteq> ''host''" "k \<noteq> ''dataview_pk''" using assms(2) by auto
  note keys = this parse_options_keys [OF ps assms(2)] metadata_keys [OF assms(2)] dataview_keys [OF assms(2)]
  have os: "os =
      (let os = (case rq_metadata rq of Some m \<Rightarrow> dict_update ps (get_query_params_from_metadata m) | None \<Rightarrow> ps);
           os = AList.update ''host'' (PStr (rq_host rq)) (AList.update ''dataview_pk'' (dataview_pk rq) os)
       in (case rq_dataview rq of Some dv \<Rightarrow> dict_update os (get_dataview_export_options dv) | None \<Rightarrow> os))"
    using assms(1) ps by (simp add: request_options_def)
  show ?thesis
    unfolding os Let_def using keys
    by (cases "rq_metadata rq"; cases "rq_dataview rq") (simp_all add: dict_update_keys update_keys)
qed

text \<open>A new export has the owner, the type and the query of the request.\<close>

lemma save_kind:
  assumes "save_in env e T = (Inr g, T')"
  shows "ex_owner g = ex_owner e" "ex_type g = ex_type e" "ex_options g = ex_options e"
  using assms by (auto simp: save_in_def save_export_def write_row_def Let_def split: if_splits prod.splits option.splits)

lemma get_or_create_none [simp]:
  "get_or_create_export env None own ty os T = create_export_object env own ty os"
  "get_or_create_export_object env None own ty os T = save_in env (create_export_object env own ty os) T"
  by (simp_all add: get_or_create_export_def get_or_create_export_object_def get_export_def)

lemma create_options [simp]: "ex_options (create_export_object env own ty os) = get_export_options os"
  by (simp add: create_export_object_def)

lemma get_export_options_query [simp]: "map_of (get_export_options os) ''query'' = map_of os ''query''"
  by (induction os) (auto simp: get_export_options_def export_option_fields_def)

definition requested :: "'o \<Rightarrow> string \<Rightarrow> (string, pyval) dict \<Rightarrow> 'o export \<Rightarrow> bool" where
  "requested own ty os g \<longleftrightarrow> ex_owner g = own \<and> ex_type g = ty \<and> map_of (ex_options g) ''query'' = map_of os ''query''"

lemma requested_file: "requested own ty os e \<Longrightarrow> requested own ty os (with_file df e)"
  by (simp add: requested_def)

lemma requested_new: "requested own ty os (create_export_object env own ty os)"
  by (simp add: requested_def)

lemma requested_saved: "save_in env e T = (Inr g, T') \<Longrightarrow> requested own ty os e \<Longrightarrow> requested own ty os g"
  by (simp add: requested_def save_kind)

lemma two_steps_requested:
  assumes "generate_in_two_steps env ty ext own None os T = (Inr g, T')"
  shows "requested own ty os g"
  using assms
  by (auto simp: generate_in_two_steps_def split: option.splits prod.splits sum.splits)
    (blast intro: requested_saved requested_file requested_new)

lemma zip_requested:
  assumes "generate_attachments_zip_export env ty own None os T = (Inr g, T')"
  shows "requested own (extension_or ty os) os g"
  using assms
  by (auto simp: generate_attachments_zip_export_def Let_def split: option.splits prod.splits)
    (blast intro: requested_saved requested_file requested_new)

lemma external_requested:
  assumes "generate_external_export env ty own None os T = (Inr g, T')"
  shows "requested own ty os g"
proof -
  have a: "requested own ty os (answered a b c d e)" if "requested own ty os e" for a b c d and e :: "'a export"
    using that by (simp add: answered_def requested_def)
  show ?thesis
    using assms
    by (auto simp: generate_external_export_def get_export_def split: option.splits prod.splits sum.splits)
      (blast intro: requested_saved requested_new a)
qed

lemma save_generated_requested:
  assumes "save_generated env ty own None os T = (Inr g, T')"
  shows "requested own ty os g"
  using assms
  by (auto simp: save_generated_def requested_file requested_new Let_def simp del: unused_filename.simps
      split: option.splits prod.splits if_splits intro: requested_saved)

lemma export_requested:
  assumes "generate_export env ty own None os T = (Inr g, T')"
  shows "requested own ty os g"
proof -
  let ?o = "if ty \<noteq> ''csv'' then AList.delete ''win_excel_utf8'' os else os"
  have o: "requested own ty ?o e = requested own ty os e" for e :: "'a export" by (simp add: requested_def)
  have "requested own ty ?o g"
    using assms save_generated_requested [of env ty own ?o T g T']
      requested_saved [of env "(create_export_object env own ty ?o)\<lparr>ex_error_message := m, ex_internal_status := s\<rparr>" T g T' own ty ?o for m s]
    by (auto simp: generate_export_def Let_def requested_def split: if_splits outcome.splits)
  then show ?thesis by (simp only: o)
qed

lemma generate_requested:
  assumes "generate env ty own None os T = (Inr g, T')" "ty \<in> {''zip'', ''kml''} \<Longrightarrow> extension_or ty os = ty"
  shows "requested own ty os g"
  using assms two_steps_requested zip_requested external_requested export_requested
  by (fastforce simp: generate_def generate_osm_export_def generate_kml_export_def generate_geojson_export_def Let_def
      split: if_splits)

lemma new_options:
  assumes "new_export_options env rq own ty query eo = Inr os" "''extension'' \<notin> fst ` set eo"
  shows "map_of os ''query'' = (if truthy query then Some query else map_of (dict_update [] eo) ''query'')"
    "map_of os ''extension'' = Some (PStr (get_extension_from_export_type ty))"
proof -
  define b where "b = dict_update
      [(''extension'', PStr (get_extension_from_export_type ty)), (''username'', PStr (form_user env own)),
       (''id_string'', PStr (form_id env own)), (''host'', PStr (rq_host rq)),
       (''sort'', get_param ''sort'' (rq_params rq))] eo"
  define c where "c = AList.update ''dataview_pk'' (dataview_pk rq) (if truthy query then AList.update ''query'' query b else b)"
  have b: "map_of b ''extension'' = Some (PStr (get_extension_from_export_type ty))"
    "map_of b ''query'' = map_of (dict_update [] eo) ''query''"
    unfolding b_def dict_update_other [OF assms(2)] by (simp_all add: dict_get_update split: option.split)
  then have c: "map_of c ''extension'' = Some (PStr (get_extension_from_export_type ty))"
    "map_of c ''query'' = (if truthy query then Some query else map_of (dict_update [] eo) ''query'')"
    by (simp_all add: c_def)
  have "\<exists>es. os = dict_update c es \<and> ''query'' \<notin> fst ` set es \<and> ''extension'' \<notin> fst ` set es"
  proof (cases "ty = ''external'' \<or> ty \<in> {''osm'', ''zip'', ''kml'', ''geojson''}")
    case True
    have "dict_update c [] = c" by (simp add: dict_update_def)
    with True assms(1) show ?thesis
      unfolding new_export_options_def Let_def b_def [symmetric] c_def [symmetric]
      by (elim disjE) (force intro: exI [of _ "[]"])+
  next
    case False
    then obtain ps where "parse_request_export_options (images env) (rq_params rq) = Inr ps" "os = dict_update c ps"
      using assms(1) unfolding new_export_options_def Let_def b_def [symmetric] c_def [symmetric]
      by (cases "parse_request_export_options (images env) (rq_params rq)") auto
    with parse_options_keys show ?thesis by blast
  qed
  with c show "map_of os ''query'' = (if truthy query then Some query else map_of (dict_update [] eo) ''query'')"
    "map_of os ''extension'' = Some (PStr (get_extension_from_export_type ty))"
    by (auto simp: dict_update_other)
qed

text \<open>The stored query of what a request gets: its query, with the bounds of \<open>start\<close> and \<open>end\<close>.\<close>

lemma generated_query:
  assumes "generate_new_export js env rq own ty query os T = (Inr (Inr e), T')" "''extension'' \<notin> fst ` set os"
  shows "ex_owner e = own \<and> ex_type e = ty
    \<and> (\<exists>q. set_start_end_params (loads js) (dumps js) (rq_params rq) query = Inr q
         \<and> (truthy q \<longrightarrow> map_of (ex_options e) ''query'' = Some q))"
proof -
  obtain q os2 T1 where q: "set_start_end_params (loads js) (dumps js) (rq_params rq) query = Inr q"
    and os2: "new_export_options env rq own ty q os = Inr os2" and g: "generate env ty own None os2 T = (Inr e, T1)"
    using assms(1) by (auto simp: generate_new_export_def split: sum.splits prod.splits export_error.splits if_splits)
  note opts = new_options [OF os2 assms(2)]
  have "extension_or ty os2 = ty" if "ty \<in> {''zip'', ''kml''}"
    using that opts(2) by (auto simp: extension_or_def get_extension_from_export_type_def)
  with generate_requested [OF g] have "requested own ty os2 e" by blast
  with opts(1) q show ?thesis by (auto simp: requested_def)
qed

lemma kwargs_query:
  assumes "matches own ty os e" "map_of os ''query'' = Some q"
  shows "map_of (ex_options e) ''query'' = Some q"
proof -
  have "(''query'', q) \<in> set (get_export_options_query_kwargs os)"
    using assms(2) unfolding get_export_options_query_kwargs_def set_map_filter export_option_fields_def
    by (intro CollectI bexI [of _ "''query''"]) auto
  with assms(1) show ?thesis by (auto simp: matches_def list_all_iff)
qed

lemma latest_in: "latest es = Some e \<Longrightarrow> e \<in> set es"
  by (induction es arbitrary: e) (auto split: option.splits if_splits)

lemma served_query:
  assumes "find_or_generate js env rq own ty query os T = (Inr (Inr e), T')" "''extension'' \<notin> fst ` set os"
    and "truthy query" "map_of os ''query'' = Some query"
  shows "ex_owner e = own \<and> ex_type e = ty
    \<and> (\<exists>q. set_start_end_params (loads js) (dumps js) (rq_params rq) query = Inr q
         \<and> (truthy q \<longrightarrow> map_of (ex_options e) ''query'' = Some q))"
proof (cases "generate_new_export js env rq own ty query os T = (Inr (Inr e), T')")
  case True
  then show ?thesis by (rule generated_query [OF _ assms(2)])
next
  case False
  then have old: "\<not> should_create_new_export (always_new env) (ranged_or_data_id (rq_params rq)) (changed env) own ty os T"
    and e: "newest_export_for own ty os T = Some e"
    using assms(1) by (auto simp: find_or_generate_def split: if_splits option.splits)
  then have "\<not> ranged (rq_params rq)" by (simp add: should_create_new_export_def ranged_or_data_id_def)
  then have "set_start_end_params (loads js) (dumps js) (rq_params rq) query = Inr query"
    by (simp add: set_start_end_params_def)
  moreover have "matches own ty os e" using latest_in [OF e [unfolded newest_export_for_def]] by simp
  ultimately show ?thesis using kwargs_query [OF _ assms(4)] by (auto simp: matches_def of_kind_def)
qed

text \<open>The query of a restricted user is never empty, and adding bounds keeps it restricted.\<close>

lemma own_query_kept:
  assumes "\<not> sees_all xf has_perm" "filter_queryset_xform_meta_perms_sql l xf me has_perm query = Inr q"
  shows "carries_own me q"
  using assms
  by (auto simp: filter_queryset_xform_meta_perms_sql_def carries_own_update_own own_query_def
      split: if_splits pyval.splits list.splits option.splits)

lemma carries_own_truthy: "carries_own me q \<Longrightarrow> truthy q"
  by (cases "(me, q)" rule: carries_own.cases) auto

lemma ranged_own:
  assumes "carries_own me q" "set_start_end_params l d params q = Inr q'"
  shows "q' = q \<or> (\<exists>r. carries_own me r \<and> q' = PStr (d r))"
proof (cases "ranged params")
  case True
  show ?thesis
  proof (cases q)
    case (PDict es)
    with assms(1) have "carries_own me (PDict (AList.update ''_submission_time'' v es))" for v by simp
    moreover obtain v where "q' = PStr (d (PDict (AList.update ''_submission_time'' v es)))"
      using PDict True assms(2) by (auto simp: set_start_end_params_def split: sum.splits)
    ultimately show ?thesis by blast
  qed (use True assms in \<open>auto simp: set_start_end_params_def\<close>)
qed (use assms(2) in \<open>simp add: set_start_end_params_def\<close>)

lemma file_response_export: "file_response env rq own remove e = Inr (File_Of e' f b) \<Longrightarrow> e' = e"
  by (auto simp: file_response_def split: option.splits list.splits if_splits)

text \<open>What \<open>custom_response_handler\<close> looks up and generates when it answers with a file.\<close>

lemma response_found:
  assumes "custom_response_handler js env rq own requested_type T = (Inr (File_Of e f b), T')"
    and "map_of (rq_params rq) ''export_id'' = None"
    and "filter_queryset_xform_meta_perms_sql (loads js) (rq_access rq) (rq_user rq) (rq_perm rq) (rq_query rq) = Inr q"
    and "truthy q"
  shows "\<exists>ty os. get_export_type (google env) requested_type = Inr ty
    \<and> find_or_generate js env rq own (external_type rq ty) q os T = (Inr (Inr e), T')
    \<and> ''extension'' \<notin> fst ` set os \<and> map_of os ''query'' = Some q"
proof -
  obtain ty where ty: "get_export_type (google env) requested_type = Inr ty"
    using assms(1) by (cases "get_export_type (google env) requested_type") (auto simp: custom_response_handler_def)
  obtain os where os: "request_options env rq = Inr os"
    using assms(1) ty by (cases "request_options env rq") (auto simp: custom_response_handler_def Let_def)
  let ?os = "AList.update ''query'' q os"
  have found: "find_or_generate js env rq own (external_type rq ty) q ?os T = (Inr (Inr e), T')"
    using assms ty os
    by (auto simp: custom_response_handler_def Let_def external_export_response_def dest!: file_response_export
        split: if_splits prod.splits sum.splits)
  have "''extension'' \<notin> fst ` set ?os"
    using request_options_keys [OF os, of "''extension''"] by (simp add: update_keys)
  with ty found show ?thesis by auto
qed

section \<open>Trying them\<close>

definition own_access :: form_access where
  "own_access = \<lparr>fa_pk = 7, fa_shared_data = False, fa_metadata = [XFORM_META_PERMS]\<rparr>"

definition sample_json :: json where
  "sample_json = \<lparr>loads = (\<lambda>_. None), dumps = (\<lambda>_. ''{}'')\<rparr>"

definition own_request :: "(string, string) dict \<Rightarrow> export_request" where
  "own_request params =
     \<lparr>rq_params = params, rq_host = ''localhost'', rq_user = ''bob'', rq_perm = (\<lambda>p. p = CAN_VIEW_XFORM_DATA),
      rq_access = own_access, rq_query = PNone, rq_dataview = None, rq_metadata = None, rq_token = None,
      rq_meta = None, rq_filename = None\<rparr>"

text \<open>A storage that keeps the extension, so that the file has a type to be sent with.\<close>

definition csv_env :: "nat env" where
  "csv_env = sample_env\<lparr>store_name := (\<lambda>fs p. p)\<rparr>"

definition own_export :: "nat export" where
  "own_export =
     (case custom_response_handler sample_json csv_env (own_request []) 7 ''csv'' no_exports of
        (Inr (File_Of e f b), T) \<Rightarrow> e | _ \<Rightarrow> create_export_object csv_env 7 [] [])"

lemma own_export_served:
  "custom_response_handler sample_json csv_env (own_request []) 7 ''csv'' no_exports
     = (Inr (File_Of own_export (Some ''tree'') True),
        snd (custom_response_handler sample_json csv_env (own_request []) 7 ''csv'' no_exports))"
  by code_simp

text \<open>
  With \<open>export_id\<close> the query plays no part: the same user gets the file of all submissions that
  someone else had generated.
\<close>

definition full_export :: "nat export" where
  "full_export =
     (create_export_object csv_env 7 ''csv'' [])
     \<lparr>ex_id := Some 1, ex_filename := Some ''all.csv'', ex_filedir := Some ''exports'',
      ex_internal_status := SUCCESSFUL, ex_time_of_last_submission := Some 50\<rparr>"

theorem export_id_bypasses_restriction:
  "\<not> sees_all (rq_access (own_request [(''export_id'', ''1'')])) (rq_perm (own_request [(''export_id'', ''1'')]))
   \<and> fst (custom_response_handler sample_json csv_env (own_request [(''export_id'', ''1'')]) 7 ''csv''
       \<lparr>xs_rows = [full_export], xs_next = 2, xs_files = [''exports/all.csv'']\<rparr>)
     = Inr (File_Of full_export (Some ''tree'') True)"
  by code_simp

text \<open>
  Without a query \<open>should_create_new_export\<close> looks for an export without one, but
  \<open>newest_export_for\<close> does not: a user who sees everything is sent the newer, filtered export.
\<close>

definition filtered_export :: "nat export" where
  "filtered_export =
     full_export\<lparr>ex_id := Some 2, ex_created_on := 101, ex_filename := Some ''filtered.csv'',
       ex_options := (''query'', own_query ''bob'') # ex_options full_export\<rparr>"

definition all_request :: export_request where
  "all_request = (own_request [])\<lparr>rq_perm := (\<lambda>p. True)\<rparr>"

definition with_request_options :: "nat export \<Rightarrow> nat export" where
  "with_request_options e =
     (case request_options csv_env all_request of
        Inr os \<Rightarrow> e\<lparr>ex_options := get_export_options os @ ex_options e\<rparr> | Inl _ \<Rightarrow> e)"

theorem unfiltered_request_gets_filtered_export:
  "fst (custom_response_handler sample_json csv_env all_request 7 ''csv''
       \<lparr>xs_rows = [with_request_options full_export, with_request_options filtered_export], xs_next = 3,
        xs_files = [''exports/all.csv'', ''exports/filtered.csv'']\<rparr>)
     = Inr (File_Of (with_request_options filtered_export) (Some ''tree'') True)
   \<and> map_of (ex_options (with_request_options filtered_export)) ''query'' = Some (own_query ''bob'')"
  by code_simp

end
