(* ===== verification/Counters.thy ===== *)
theory Counters
  imports Py_Time
begin

text \<open>
  Counters kept in the cache and committed to the database,
  \<open>onadata/libs/utils/model_tools.py\<close>; they count the decrypted submissions of a form
  (\<open>libs/kms/tools.py\<close>) and the entities of an entity list (\<open>libs/utils/entities_utils.py\<close>).
  One family of keys is modelled, with its database column.  Commits run in steps, between which
  other processes adjust counters; an adjustment runs as one step.  The cache keeps what it is given
  (its keys have no timeout) and decrements below zero; the lock is held for less than its two hours.
\<close>

section \<open>State and operations\<close>

record counters =
  cn_db :: "nat \<Rightarrow> int"
  cn_cache :: "nat \<Rightarrow> int option"
  cn_tracked :: "nat list option"
  cn_locked :: bool
  cn_created_at :: "time option"
  cn_reported :: bool

definition adjust_numeric_field :: "nat \<Rightarrow> int \<Rightarrow> counters \<Rightarrow> counters" where
  "adjust_numeric_field pk delta s = s\<lparr>cn_db := (cn_db s)(pk := cn_db s pk + delta)\<rparr>"

definition cached :: "counters \<Rightarrow> nat \<Rightarrow> int" where
  "cached s pk = (case cn_cache s pk of Some c \<Rightarrow> c | None \<Rightarrow> 0)"

definition tracked :: "counters \<Rightarrow> nat list" where
  "tracked s = (case cn_tracked s of Some pks \<Rightarrow> pks | None \<Rightarrow> [])"

text \<open>\<open>commit_cached_counters\<close>, whole and in its steps.\<close>

definition commit_read :: "nat \<Rightarrow> counters \<Rightarrow> counters" where
  "commit_read pk s = (if cached s pk \<noteq> 0 then adjust_numeric_field pk (cached s pk) s else s)"

definition commit_delete :: "nat \<Rightarrow> counters \<Rightarrow> counters" where
  "commit_delete pk s = s\<lparr>cn_cache := (cn_cache s)(pk := None)\<rparr>"

definition commit_one :: "nat \<Rightarrow> counters \<Rightarrow> counters" where
  "commit_one pk s = commit_delete pk (commit_read pk s)"

definition commit_end :: "counters \<Rightarrow> counters" where
  "commit_end s = s\<lparr>cn_tracked := None, cn_locked := False, cn_created_at := None\<rparr>"

definition commit_cached_counters :: "counters \<Rightarrow> counters" where
  "commit_cached_counters s =
     (if cn_locked s then s else commit_end (fold commit_one (tracked s) (s\<lparr>cn_locked := True\<rparr>)))"

text \<open>\<open>_execute_cached_counter_commit_failover\<close>.\<close>

definition commit_failover :: "time \<Rightarrow> time \<Rightarrow> counters \<Rightarrow> counters" where
  "commit_failover now timeout s =
     (case cn_created_at s of
        None \<Rightarrow> s
      | Some t \<Rightarrow> if timeout < now - t then (commit_cached_counters s)\<lparr>cn_reported := True\<rparr> else s)"

definition increment_cached_counter :: "time \<Rightarrow> nat \<Rightarrow> int \<Rightarrow> counters \<Rightarrow> counters" where
  "increment_cached_counter now pk delta s =
     s\<lparr>cn_cache := (cn_cache s)(pk := Some (case cn_cache s pk of None \<Rightarrow> 1 | Some c \<Rightarrow> c + delta)),
       cn_tracked := Some (List.insert pk (tracked s)),
       cn_created_at := Some (case cn_created_at s of None \<Rightarrow> now | Some t \<Rightarrow> t)\<rparr>"

definition decrement_cached_counter :: "nat \<Rightarrow> int \<Rightarrow> counters \<Rightarrow> counters" where
  "decrement_cached_counter pk delta s =
     (case cn_cache s pk of None \<Rightarrow> s | Some c \<Rightarrow> s\<lparr>cn_cache := (cn_cache s)(pk := Some (c - delta))\<rparr>)"

text \<open>
  \<open>adjust_counter\<close>; \<open>lost\<close> when the connection to the cache is lost after the counter has been
  changed, which \<open>adjust_counter\<close> answers by adjusting the database too.
\<close>

definition adjust_counter :: "bool \<Rightarrow> time \<Rightarrow> time \<Rightarrow> nat \<Rightarrow> int \<Rightarrow> counters \<Rightarrow> counters" where
  "adjust_counter lost now timeout pk delta s =
     (if cn_locked s \<or> delta < 0 \<and> cn_cache s pk = None then adjust_numeric_field pk delta s
      else
        (let s1 = (if 0 < delta then increment_cached_counter now pk delta s
                   else decrement_cached_counter pk (delta * - 1) s)
         in if lost then adjust_numeric_field pk delta s1 else commit_failover now timeout s1))"

section \<open>Nothing is lost\<close>

text \<open>The value of a counter: what is in the database with what is in the cache.\<close>

definition value_of :: "counters \<Rightarrow> nat \<Rightarrow> int" where
  "value_of s pk = cn_db s pk + cached s pk"

lemma value_commit_one [simp]: "value_of (commit_one p s) pk = value_of s pk"
  by (auto simp: value_of_def commit_one_def commit_delete_def commit_read_def adjust_numeric_field_def cached_def)

lemma commit_one_state [simp]:
  "cn_locked (commit_one p s) = cn_locked s" "cn_tracked (commit_one p s) = cn_tracked s"
  "dom (cn_cache (commit_one p s)) = dom (cn_cache s) - {p}"
  by (auto simp: commit_one_def commit_delete_def commit_read_def adjust_numeric_field_def split: if_splits)

lemma commit_all [simp]:
  "value_of (fold commit_one ps s) pk = value_of s pk"
  "cn_locked (fold commit_one ps s) = cn_locked s"
  "dom (cn_cache (fold commit_one ps s)) = dom (cn_cache s) - set ps"
  by (induction ps arbitrary: s) auto

lemma value_lock [simp]: "value_of (s\<lparr>cn_locked := b\<rparr>) pk = value_of s pk"
  by (simp add: value_of_def cached_def)

lemma commit_end_state [simp]:
  "value_of (commit_end s) pk = value_of s pk" "cn_cache (commit_end s) = cn_cache s"
  "\<not> cn_locked (commit_end s)" "tracked (commit_end s) = []"
  by (simp_all add: commit_end_def value_of_def cached_def tracked_def)

text \<open>Without a commit in progress every cached counter is tracked.\<close>

definition idle :: "counters \<Rightarrow> bool" where
  "idle s \<longleftrightarrow> \<not> cn_locked s \<and> dom (cn_cache s) \<subseteq> set (tracked s)"

lemma commit_idle:
  assumes "idle s"
  shows "value_of (commit_cached_counters s) pk = value_of s pk" "idle (commit_cached_counters s)"
    "dom (cn_cache (commit_cached_counters s)) = {}"
  using assms by (auto simp: commit_cached_counters_def idle_def)

lemma value_reported [simp]: "value_of (s\<lparr>cn_reported := b\<rparr>) pk = value_of s pk"
  "idle (s\<lparr>cn_reported := b\<rparr>) = idle s"
  by (simp_all add: value_of_def cached_def idle_def tracked_def)

lemma failover_idle:
  assumes "idle s"
  shows "value_of (commit_failover now timeout s) pk = value_of s pk" "idle (commit_failover now timeout s)"
  using assms by (simp_all add: commit_failover_def commit_idle split: option.split)

lemma adjust_database [simp]:
  "value_of (adjust_numeric_field p delta s) pk = value_of s pk + (if pk = p then delta else 0)"
  "idle (adjust_numeric_field p delta s) = idle s" "cn_cache (adjust_numeric_field p delta s) = cn_cache s"
  "cn_locked (adjust_numeric_field p delta s) = cn_locked s" "tracked (adjust_numeric_field p delta s) = tracked s"
  by (simp_all add: adjust_numeric_field_def value_of_def cached_def idle_def tracked_def)

definition adjust_cached :: "time \<Rightarrow> nat \<Rightarrow> int \<Rightarrow> counters \<Rightarrow> counters" where
  "adjust_cached t p delta s =
     (if 0 < delta then increment_cached_counter t p delta s else decrement_cached_counter p (delta * - 1) s)"

lemma adjust_cached_idle:
  assumes "idle s" "delta \<le> 1" "\<not> (delta < 0 \<and> cn_cache s p = None)"
  shows "value_of (adjust_cached t p delta s) pk = value_of s pk + (if pk = p then delta else 0)"
    "idle (adjust_cached t p delta s)"
  using assms
  by (auto simp: adjust_cached_def value_of_def idle_def increment_cached_counter_def decrement_cached_counter_def
      cached_def tracked_def split: option.split)

lemma adjust_idle:
  assumes "idle s" "delta \<le> 1"
  shows "value_of (adjust_counter False t timeout p delta s) pk = value_of s pk + (if pk = p then delta else 0)
    \<and> idle (adjust_counter False t timeout p delta s)"
proof (cases "delta < 0 \<and> cn_cache s p = None")
  case True
  with assms(1) show ?thesis by (simp add: adjust_counter_def)
next
  case False
  then have "adjust_counter False t timeout p delta s = commit_failover t timeout (adjust_cached t p delta s)"
    using assms(1) by (auto simp: adjust_counter_def adjust_cached_def idle_def)
  with adjust_cached_idle [OF assms False] show ?thesis by (simp add: failover_idle)
qed

text \<open>
  Adjustments interleaved with the steps of a commit: \<open>todo\<close> are the counters that the running
  commit has not reached, \<open>None\<close> without one; \<open>asked\<close> adds up what has been asked for.
\<close>

inductive counter_reach :: "(nat \<Rightarrow> int) \<Rightarrow> (nat \<Rightarrow> int) \<Rightarrow> counters \<Rightarrow> nat list option \<Rightarrow> bool"
  for begin_db :: "nat \<Rightarrow> int" where
  start: "counter_reach begin_db (\<lambda>_. 0)
    \<lparr>cn_db = begin_db, cn_cache = (\<lambda>_. None), cn_tracked = None, cn_locked = False, cn_created_at = None,
     cn_reported = False\<rparr> None"
| adjust: "counter_reach begin_db asked s todo \<Longrightarrow> delta \<le> 1
    \<Longrightarrow> counter_reach begin_db (asked(pk := asked pk + delta)) (adjust_counter False t timeout pk delta s) todo"
| acquire: "counter_reach begin_db asked s None \<Longrightarrow> \<not> cn_locked s
    \<Longrightarrow> counter_reach begin_db asked (s\<lparr>cn_locked := True\<rparr>) (Some (tracked s))"
| one: "counter_reach begin_db asked s (Some (pk # pks))
    \<Longrightarrow> counter_reach begin_db asked (commit_one pk s) (Some pks)"
| finish: "counter_reach begin_db asked s (Some []) \<Longrightarrow> counter_reach begin_db asked (commit_end s) None"

definition consistent :: "(nat \<Rightarrow> int) \<Rightarrow> (nat \<Rightarrow> int) \<Rightarrow> counters \<Rightarrow> nat list option \<Rightarrow> bool" where
  "consistent begin_db asked s todo \<longleftrightarrow>
     (\<forall>pk. value_of s pk = begin_db pk + asked pk)
     \<and> (case todo of None \<Rightarrow> idle s | Some pks \<Rightarrow> cn_locked s \<and> dom (cn_cache s) \<subseteq> set pks)"

lemma reach_consistent: "counter_reach begin_db asked s todo \<Longrightarrow> consistent begin_db asked s todo"
proof (induction rule: counter_reach.induct)
  case start
  show ?case by (simp add: consistent_def value_of_def cached_def idle_def)
next
  case (adjust asked s todo delta pk t timeout)
  show ?case
  proof (cases todo)
    case None
    with adjust.IH adjust_idle [OF _ adjust(2), of s] show ?thesis by (simp add: consistent_def)
  next
    case (Some pks)
    with adjust.IH have "adjust_counter False t timeout pk delta s = adjust_numeric_field pk delta s"
      by (simp add: consistent_def adjust_counter_def)
    with Some adjust.IH show ?thesis by (simp add: consistent_def)
  qed
next
  case (acquire asked s)
  then show ?case by (simp add: consistent_def idle_def)
next
  case (one asked s pk pks)
  then show ?case by (auto simp: consistent_def)
next
  case (finish asked s)
  then show ?case by (simp add: consistent_def idle_def)
qed


definition fresh_counters :: counters where
  "fresh_counters =
     \<lparr>cn_db = (\<lambda>_. 40), cn_cache = (\<lambda>_. None), cn_tracked = None, cn_locked = False, cn_created_at = None,
      cn_reported = False\<rparr>"


section \<open>What is lost\<close>

text \<open>The first increment of a counter counts one, whatever it adds.\<close>

theorem first_increment_counts_one:
  "cached (adjust_counter False 3 9 7 5 fresh_counters) 7 = 1"
  by (simp add: adjust_counter_def fresh_counters_def increment_cached_counter_def commit_failover_def cached_def Let_def)

text \<open>An increment that has passed the check of the lock before the commit took it is deleted with the counter.\<close>

theorem late_increment_is_lost:
  assumes "cn_cache s 7 = Some 3"
  shows "value_of (commit_end (commit_delete 7 (increment_cached_counter t 7 1 (commit_read 7 (s\<lparr>cn_locked := True\<rparr>))))) 7
    = value_of s 7"
  using assms
  by (simp add: commit_read_def commit_delete_def increment_cached_counter_def adjust_numeric_field_def value_of_def cached_def
      commit_end_def)

text \<open>A connection lost after the counter has been changed counts twice.\<close>

theorem lost_connection_counts_twice:
  "value_of (adjust_counter True 3 9 7 1 fresh_counters) 7 = 42"
  by (simp add: adjust_counter_def fresh_counters_def increment_cached_counter_def adjust_numeric_field_def value_of_def
      cached_def Let_def)

section \<open>The entities of an entity list\<close>

text \<open>
  The signals of \<open>apps/logger/models/entity.py\<close>: what a new, a soft deleted and a deleted entity adds
  to the counter of its list.  \<open>old\<close> is the time of deletion in the database, if the row is there.
\<close>

definition incr_entity_list_num_entities :: "bool \<Rightarrow> int" where
  "incr_entity_list_num_entities created = (if created then 1 else 0)"

definition decr_entity_list_num_entities_on_soft_delete :: "time option option \<Rightarrow> time option \<Rightarrow> int" where
  "decr_entity_list_num_entities_on_soft_delete old deleted_at = (if old = Some None \<and> deleted_at \<noteq> None then - 1 else 0)"

definition decr_entity_list_num_entities_on_hard_delete :: int where
  "decr_entity_list_num_entities_on_hard_delete = - 1"

text \<open>An entity that is soft deleted and then deleted leaves its list with one entity too few.\<close>

theorem deleting_twice_counts_twice:
  "incr_entity_list_num_entities True + decr_entity_list_num_entities_on_soft_delete (Some None) (Some 5)
     + decr_entity_list_num_entities_on_hard_delete = - 1"
  by code_simp

end
