(* ===== verification/Query_Where.thy ===== *)
theory Query_Where
  imports Onadata_Prelude "HOL-Library.AList"
begin

text \<open>
  From the JSON query of a request to SQL: \<open>get_where_clause\<close> of
  \<open>onadata/apps/viewer/parsed_instance_tools.py\<close>, \<open>build_sql_where\<close> and
  \<open>get_sql_with_params\<close> of \<open>apps/viewer/models/parsed_instance.py\<close>, and the sort keys of
  \<open>onadata/libs/models/sorting.py\<close>.

  \<open>json.loads\<close> (with dictionaries as they are written, duplicate keys included), \<open>str()\<close> of a
  value that is not a text and the parsing of dates (\<open>None\<close> when no format fits) are arguments.
\<close>

section \<open>Clauses\<close>

datatype where_error = Value_Error | Attribute_Error | Type_Error | Index_Error | Invalid_Date

record texts =
  json_loads :: "string \<Rightarrow> pyval option"
  text_of :: "pyval \<Rightarrow> string"
  date_of_text :: "string \<Rightarrow> string option"

definition known_dates :: "string list" where
  "known_dates = [''_submission_time'', ''_last_edited'', ''_date_modified'']"

definition none_json_fields :: "(string, string) dict" where
  "none_json_fields =
     [(''_submission_time'', ''date_created''), (''_date_modified'', ''date_modified''), (''_id'', ''id''),
      (''_version'', ''version''), (''_last_edited'', ''last_edited'')]"

definition operands :: "(string, string) dict" where
  "operands = [(''$gt'', ''>''), (''$gte'', ''>=''), (''$lt'', ''<''), (''$lte'', ''<=''), (''$i'', ''~*'')]"

definition json_sql_str :: "string \<Rightarrow> string list \<Rightarrow> string list \<Rightarrow> string list \<Rightarrow> string" where
  "json_sql_str key integers dates decimals =
     (if key \<in> set integers then ''CAST(logger_instance.json->>%s AS INT)''
      else if key \<in> set dates then ''CAST(logger_instance.json->>%s AS TIMESTAMP)''
      else if key \<in> set decimals then ''CAST(logger_instance.json->>%s AS DECIMAL)''
      else ''logger_instance.json->>%s'')"

definition py_text :: "texts \<Rightarrow> pyval \<Rightarrow> string" where
  "py_text tx v = (case v of PStr s \<Rightarrow> s | _ \<Rightarrow> text_of tx v)"

text \<open>One operator of a field, and a field, of \<open>_parse_where\<close>.\<close>

definition operand_text :: "texts \<Rightarrow> string \<Rightarrow> pyval \<Rightarrow> where_error + string" where
  "operand_text tx field v =
     (if field \<in> set known_dates
      then (case v of
              PStr s \<Rightarrow> (case date_of_text tx s of Some t \<Rightarrow> Inr t | None \<Rightarrow> Inl Invalid_Date)
            | _ \<Rightarrow> Inl Type_Error)
      else Inr (py_text tx v))"

definition field_sql :: "string list \<Rightarrow> string list \<Rightarrow> string \<Rightarrow> string" where
  "field_sql integers decimals field =
     (case map_of none_json_fields field of
        Some c \<Rightarrow> ''logger_instance.'' @ c
      | None \<Rightarrow> json_sql_str field integers known_dates decimals)"

definition field_params :: "string \<Rightarrow> string \<Rightarrow> pyval list" where
  "field_params field t = (if map_of none_json_fields field \<noteq> None then [PStr t] else [PStr field, PStr t])"

fun operator_clauses ::
    "texts \<Rightarrow> string \<Rightarrow> string \<Rightarrow> (string \<times> pyval) list \<Rightarrow> where_error + (string list \<times> pyval list)" where
  "operator_clauses tx sql field [] = Inr ([], [])"
| "operator_clauses tx sql field ((key, v) # ops) =
     (case operand_text tx field v of
        Inl e \<Rightarrow> Inl e
      | Inr t \<Rightarrow>
          (case operator_clauses tx sql field ops of
             Inl e \<Rightarrow> Inl e
           | Inr (w, ps) \<Rightarrow>
               Inr ((case map_of operands key of Some op \<Rightarrow> [sql @ '' '' @ op @ '' %s''] | None \<Rightarrow> []) @ w,
                    field_params field t @ ps)))"

definition field_clauses ::
    "texts \<Rightarrow> string list \<Rightarrow> string list \<Rightarrow> string \<Rightarrow> pyval \<Rightarrow> where_error + (string list \<times> pyval list)" where
  "field_clauses tx integers decimals field v =
     (case v of
        PDict ops \<Rightarrow> operator_clauses tx (field_sql integers decimals field) field ops
      | _ \<Rightarrow>
          (case map_of none_json_fields field of
             Some c \<Rightarrow> Inr ([''logger_instance.'' @ c @ '' = %s''], [PStr (py_text tx v)])
           | None \<Rightarrow>
               if v = PNone then Inr ([''logger_instance.json->>%s IS NULL''], [PStr field])
               else Inr ([''logger_instance.json->>%s = %s''], [PStr field, PStr (py_text tx v)])))"

fun parse_where ::
    "texts \<Rightarrow> string list \<Rightarrow> string list \<Rightarrow> (string \<times> pyval) list \<Rightarrow> where_error + (string list \<times> pyval list)" where
  "parse_where tx integers decimals [] = Inr ([], [])"
| "parse_where tx integers decimals ((k, v) # q) =
     (case field_clauses tx integers decimals k v of
        Inl e \<Rightarrow> Inl e
      | Inr (w, ps) \<Rightarrow>
          (case parse_where tx integers decimals q of
             Inl e \<Rightarrow> Inl e | Inr (w', ps') \<Rightarrow> Inr (w @ w', ps @ ps')))"

section \<open>Alternatives\<close>

definition parens :: "string \<Rightarrow> string list \<Rightarrow> string" where
  "parens sep cs = ''('' @ join sep cs @ '')''"

text \<open>One item of a dictionary \<open>d\<close> of \<open>$or\<close>, and all of its items.\<close>

definition or_entry ::
    "texts \<Rightarrow> string list \<Rightarrow> string list \<Rightarrow> (string \<times> pyval) list \<Rightarrow> string \<Rightarrow> pyval
     \<Rightarrow> where_error + (string list \<times> pyval list)" where
  "or_entry tx integers decimals d key v =
     (if map_of none_json_fields key \<noteq> None
      then map_sum id (\<lambda>(w, ps). ([parens '' AND '' w], ps)) (parse_where tx integers decimals d)
      else (case v of
              PNone \<Rightarrow> Inr ([''logger_instance.json->>%s IS NULL''], [PStr key])
            | PList xs \<Rightarrow>
                Inr (map (\<lambda>x. ''logger_instance.json->>%s = %s'') xs, concat (map (\<lambda>x. [PStr key, x]) xs))
            | _ \<Rightarrow> Inr ([''logger_instance.json->>%s = %s''], [PStr key, v])))"

fun or_clauses ::
    "texts \<Rightarrow> string list \<Rightarrow> string list \<Rightarrow> (string \<times> pyval) list \<Rightarrow> (string \<times> pyval) list
     \<Rightarrow> where_error + (string list \<times> pyval list)" where
  "or_clauses tx integers decimals d [] = Inr ([], [])"
| "or_clauses tx integers decimals d ((key, v) # q) =
     (case or_entry tx integers decimals d key v of
        Inl e \<Rightarrow> Inl e
      | Inr (w, ps) \<Rightarrow>
          (case or_clauses tx integers decimals d q of
             Inl e \<Rightarrow> Inl e | Inr (w', ps') \<Rightarrow> Inr (w @ w', ps @ ps')))"

fun or_queries ::
    "texts \<Rightarrow> string list \<Rightarrow> string list \<Rightarrow> pyval list \<Rightarrow> where_error + (string list \<times> pyval list)" where
  "or_queries tx integers decimals [] = Inr ([], [])"
| "or_queries tx integers decimals (q # qs) =
     (case q of
        PDict d \<Rightarrow>
          (case or_clauses tx integers decimals d d of
             Inl e \<Rightarrow> Inl e
           | Inr (w, ps) \<Rightarrow>
               (case or_queries tx integers decimals qs of
                  Inl e \<Rightarrow> Inl e | Inr (w', ps') \<Rightarrow> Inr (w @ w', ps @ ps')))
      | _ \<Rightarrow> Inl Attribute_Error)"

text \<open>\<open>for q in or_dict\<close>: the keys of a dictionary, the characters of a text.\<close>

definition iterate :: "pyval \<Rightarrow> where_error + pyval list" where
  "iterate v =
     (case v of
        PList xs \<Rightarrow> Inr xs | PDict d \<Rightarrow> Inr (map (\<lambda>(k, x). PStr k) d) | PStr s \<Rightarrow> Inr (map (\<lambda>c. PStr [c]) s)
      | _ \<Rightarrow> Inl Type_Error)"

definition or_part ::
    "texts \<Rightarrow> string list \<Rightarrow> string list \<Rightarrow> (string, pyval) dict \<Rightarrow> where_error + (string list \<times> pyval list)" where
  "or_part tx integers decimals d =
     (case map_of d ''$or'' of
        None \<Rightarrow> Inr ([], [])
      | Some v \<Rightarrow>
          (case iterate v of
             Inl e \<Rightarrow> Inl e
           | Inr qs \<Rightarrow>
               map_sum id (\<lambda>(w, ps). ([parens '' OR '' w], ps)) (or_queries tx integers decimals qs)))"

text \<open>\<open>_merge_duplicate_keys\<close>, the hook of \<open>json.loads\<close>, from the inside out.\<close>

definition add_pair :: "string \<Rightarrow> pyval \<Rightarrow> (string \<times> pyval list) list \<Rightarrow> (string \<times> pyval list) list" where
  "add_pair k v ret = AList.update k ((case map_of ret k of Some vs \<Rightarrow> vs | None \<Rightarrow> []) @ [v]) ret"

definition merge_duplicate_keys :: "(string \<times> pyval) list \<Rightarrow> (string, pyval) dict" where
  "merge_duplicate_keys pairs =
     map (\<lambda>(k, vs). (k, case vs of [v] \<Rightarrow> v | _ \<Rightarrow> PList vs)) (fold (\<lambda>(k, v). add_pair k v) pairs [])"

fun merge_all :: "pyval \<Rightarrow> pyval" where
  "merge_all (PDict d) = PDict (merge_duplicate_keys (map (\<lambda>(k, v). (k, merge_all v)) d))"
| "merge_all (PList xs) = PList (map merge_all xs)"
| "merge_all v = v"

text \<open>
  \<open>get_where_clause\<close>.  A \<open>ValueError\<close> or \<open>AttributeError\<close> makes the query a search for its
  text, unless it is a text that begins with a brace.
\<close>

definition text_search :: "pyval \<Rightarrow> where_error \<Rightarrow> where_error + (string list \<times> pyval list)" where
  "text_search query e =
     (if (case query of PStr (c # cs) \<Rightarrow> c = CHR ''{'' | _ \<Rightarrow> False) then Inl e
      else Inr ([''logger_instance.json::text ~* cast(%s as text)''], [query]))"

definition caught :: "pyval \<Rightarrow> where_error + (string list \<times> pyval list) \<Rightarrow> where_error + (string list \<times> pyval list)" where
  "caught query r =
     (case r of
        Inl Value_Error \<Rightarrow> text_search query Value_Error
      | Inl Attribute_Error \<Rightarrow> text_search query Attribute_Error
      | _ \<Rightarrow> r)"

definition dict_where ::
    "texts \<Rightarrow> string list \<Rightarrow> string list \<Rightarrow> pyval \<Rightarrow> where_error + (string list \<times> pyval list)" where
  "dict_where tx integers decimals query =
     (case query of
        PDict d \<Rightarrow>
          (let rest = filter (\<lambda>(k, v). k \<noteq> ''$or'') d
           in caught (PDict rest)
                (case or_part tx integers decimals d of
                   Inl e \<Rightarrow> Inl e
                 | Inr (ow, ops) \<Rightarrow>
                     (case parse_where tx integers decimals rest of
                        Inl e \<Rightarrow> Inl e | Inr (w, ps) \<Rightarrow> Inr (w @ ow, ps @ ops))))
      | _ \<Rightarrow> caught query (Inl Attribute_Error))"

definition get_where_clause ::
    "texts \<Rightarrow> pyval \<Rightarrow> string list \<Rightarrow> string list \<Rightarrow> where_error + (string list \<times> pyval list)" where
  "get_where_clause tx query integer_fields decimals =
     (let integers = ''_id'' # integer_fields
      in case query of
           PStr (c # cs) \<Rightarrow>
             (case json_loads tx (c # cs) of
                None \<Rightarrow> caught query (Inl Value_Error)
              | Some v \<Rightarrow>
                  (case merge_all v of
                     PList [] \<Rightarrow> Inl Index_Error
                   | PList (x # xs) \<Rightarrow> dict_where tx integers decimals x
                   | w \<Rightarrow> dict_where tx integers decimals w))
         | PDict (x # xs) \<Rightarrow> dict_where tx integers decimals query
         | _ \<Rightarrow> Inr ([], []))"

section \<open>The where clause of a form\<close>

text \<open>
  What \<open>build_sql_where\<close> reads of the form (the integer questions by their abbreviated path, the
  active forms of a merged dataset, the submissions being deleted) and its filters; the times as
  \<open>isoformat()\<close> writes them.
\<close>

record form_rows =
  fr_pk :: int
  fr_integers :: "string list"
  fr_merged :: "int list option"
  fr_deleting :: "int list"

record row_filters =
  rf_start :: "string option"
  rf_end :: "string option"
  rf_encrypted :: "bool option"
  rf_decryption :: "string option"

fun where_clauses :: "texts \<Rightarrow> string list \<Rightarrow> pyval list \<Rightarrow> where_error + (string list \<times> pyval list)" where
  "where_clauses tx integers [] = Inr ([], [])"
| "where_clauses tx integers (q # qs) =
     (case get_where_clause tx q integers [] of
        Inl e \<Rightarrow> Inl e
      | Inr (w, ps) \<Rightarrow>
          (case where_clauses tx integers qs of Inl e \<Rightarrow> Inl e | Inr (w', ps') \<Rightarrow> Inr (w @ w', ps @ ps')))"

definition query_clauses :: "texts \<Rightarrow> string list \<Rightarrow> pyval \<Rightarrow> where_error + (string list \<times> pyval list)" where
  "query_clauses tx integers query =
     (case query of PList (q # qs) \<Rightarrow> where_clauses tx integers (q # qs) | _ \<Rightarrow> get_where_clause tx query integers [])"

definition exclude_deleting_submissions_clause :: "int list \<Rightarrow> string \<times> pyval list" where
  "exclude_deleting_submissions_clause ids =
     (if ids = [] then ([], [])
      else (''logger_instance.id NOT IN ('' @ join '', '' (replicate (length ids) ''%s'') @ '')'', map PInt ids))"

text \<open>The clauses that do not come from the query.\<close>

definition filter_clauses :: "form_rows \<Rightarrow> row_filters \<Rightarrow> string list \<times> pyval list" where
  "filter_clauses fr fl =
     (let ex = exclude_deleting_submissions_clause (fr_deleting fr)
      in ((case rf_start fl of None \<Rightarrow> [] | Some t \<Rightarrow> [''logger_instance.date_created >= %s''])
          @ (case rf_end fl of None \<Rightarrow> [] | Some t \<Rightarrow> [''logger_instance.date_created <= %s''])
          @ (case rf_encrypted fl of
               Some b \<Rightarrow> [''logger_instance.is_encrypted = %s'']
             | None \<Rightarrow> [''NOT (logger_instance.is_encrypted = TRUE AND logger_xform.is_managed = TRUE)''])
          @ (case rf_decryption fl of None \<Rightarrow> [] | Some s \<Rightarrow> [''logger_instance.decryption_status = %s''])
          @ (if fst ex = [] then [] else [fst ex]),
          (case rf_start fl of None \<Rightarrow> [] | Some t \<Rightarrow> [PStr t])
          @ (case rf_end fl of None \<Rightarrow> [] | Some t \<Rightarrow> [PStr t])
          @ (case rf_encrypted fl of Some b \<Rightarrow> [PBool b] | None \<Rightarrow> [])
          @ (case rf_decryption fl of None \<Rightarrow> [] | Some s \<Rightarrow> [PStr s])
          @ snd ex))"

definition base_where :: string where
  "base_where = ''WHERE logger_instance.xform_id in %s AND logger_instance.deleted_at IS NULL''"

definition xform_pks :: "form_rows \<Rightarrow> int list" where
  "xform_pks fr = (case fr_merged fr of Some (x # xs) \<Rightarrow> x # xs | _ \<Rightarrow> [fr_pk fr])"

definition and_all :: "string list \<Rightarrow> string" where
  "and_all cs = concat (map (\<lambda>c. '' AND '' @ c) cs)"

definition build_sql_where ::
    "texts \<Rightarrow> form_rows \<Rightarrow> pyval \<Rightarrow> row_filters \<Rightarrow> where_error + (string \<times> pyval list)" where
  "build_sql_where tx fr query fl =
     (case query_clauses tx (fr_integers fr) query of
        Inl e \<Rightarrow> Inl e
      | Inr (w, ps) \<Rightarrow>
          (let (fw, fps) = filter_clauses fr fl
           in Inr (base_where @ (if ps = [] then [] else '' AND '' @ join '' AND '' w) @ and_all fw,
                   PList (map PInt (xform_pks fr)) # ps @ fps)))"

section \<open>The order\<close>

definition lstrip_minus :: "string \<Rightarrow> string" where
  "lstrip_minus s = dropWhile (\<lambda>c. c = CHR ''-'') s"

definition descending :: "string \<Rightarrow> bool" where
  "descending field = (case field of c # _ \<Rightarrow> c = CHR ''-'' | [] \<Rightarrow> False)"

text \<open>\<open>int_of\<close> is \<open>int()\<close> of a text; a text that is no number is then compared with zero.\<close>

definition sort_key :: "(string \<Rightarrow> int option) \<Rightarrow> string \<Rightarrow> pyval \<Rightarrow> where_error + string" where
  "sort_key int_of k v =
     (let signed = \<lambda>i. Inr (if i < 0 then CHR ''-'' # k else k)
      in case v of
           PInt i \<Rightarrow> signed i
         | PBool b \<Rightarrow> Inr k
         | PStr s \<Rightarrow> (case int_of s of Some i \<Rightarrow> signed i | None \<Rightarrow> Inl Type_Error)
         | _ \<Rightarrow> Inl Type_Error)"

fun sort_keys :: "(string \<Rightarrow> int option) \<Rightarrow> (string \<times> pyval) list \<Rightarrow> where_error + string list" where
  "sort_keys int_of [] = Inr []"
| "sort_keys int_of ((k, v) # d) =
     (case sort_key int_of k v of
        Inl e \<Rightarrow> Inl e
      | Inr f \<Rightarrow> (case sort_keys int_of d of Inl e \<Rightarrow> Inl e | Inr fs \<Rightarrow> Inr (f # fs)))"

text \<open>Of two equal keys of a JSON object the last one counts.\<close>

definition sort_from_mongo_sort_str :: "texts \<Rightarrow> (string \<Rightarrow> int option) \<Rightarrow> pyval \<Rightarrow> where_error + string list" where
  "sort_from_mongo_sort_str tx int_of sort_str =
     (case sort_str of
        PStr s \<Rightarrow>
          (if (case s of c # cs \<Rightarrow> c = CHR ''{'' | [] \<Rightarrow> False)
           then (case json_loads tx s of
                   None \<Rightarrow> Inl Value_Error
                 | Some (PDict d) \<Rightarrow> sort_keys int_of (dict_update [] d)
                 | Some v \<Rightarrow> Inl Attribute_Error)
           else Inr [s])
      | _ \<Rightarrow> Inr [])"

definition parse_sort_field :: "string \<Rightarrow> string" where
  "parse_sort_field field =
     (case map_of none_json_fields (lstrip_minus field) of
        Some c \<Rightarrow>
          if descending field then CHR ''-'' # c
          else (case map_of none_json_fields field of Some c' \<Rightarrow> c' | None \<Rightarrow> field)
      | None \<Rightarrow> (case map_of none_json_fields field of Some c' \<Rightarrow> c' | None \<Rightarrow> field))"

definition get_sort_fields :: "texts \<Rightarrow> (string \<Rightarrow> int option) \<Rightarrow> pyval \<Rightarrow> where_error + string list" where
  "get_sort_fields tx int_of srt =
     map_sum id (map parse_sort_field)
       (case srt of PNone \<Rightarrow> Inr [''id''] | _ \<Rightarrow> sort_from_mongo_sort_str tx int_of srt)"

definition has_json_fields :: "string list \<Rightarrow> string list \<Rightarrow> bool" where
  "has_json_fields model_fields sort_list =
     list_ex (\<lambda>i. lstrip_minus i \<notin> set model_fields \<and> i \<noteq> []) sort_list"

definition json_order_column :: "(string, string) dict \<Rightarrow> string \<Rightarrow> string \<Rightarrow> string" where
  "json_order_column columns model_name field =
     (case map_of columns (lstrip_minus field) of
        None \<Rightarrow> '' logger_instance.json->>%s''
      | Some c \<Rightarrow> ''\"'' @ model_name @ ''\".\"'' @ c @ ''\"'')
     @ (if descending field then '' DESC'' else '' ASC'')"

definition json_order_by :: "string list \<Rightarrow> (string, string) dict \<Rightarrow> string \<Rightarrow> string" where
  "json_order_by sort_list columns model_name =
     (if sort_list = [] then []
      else ''ORDER BY '' @ join '','' (map (json_order_column columns model_name) sort_list))"

definition json_order_by_params :: "string list \<Rightarrow> (string, string) dict \<Rightarrow> pyval list" where
  "json_order_by_params sort_list columns =
     map PStr (filter (\<lambda>f. map_of columns f = None) (map lstrip_minus sort_list))"

definition order_column :: "string \<Rightarrow> string" where
  "order_column field =
     (if descending field then '' logger_instance.'' @ tl field @ '' DESC'' else '' logger_instance.'' @ field @ '' ASC'')"

definition order_by :: "string list \<Rightarrow> string list \<Rightarrow> string \<times> pyval list" where
  "order_by model_fields srt =
     (if srt = [] then ([], [])
      else if has_json_fields model_fields srt
      then ('' '' @ json_order_by srt none_json_fields ''logger_instance'', json_order_by_params srt none_json_fields)
      else ('' ORDER BY'' @ join '','' (map order_column srt), []))"

section \<open>The statement\<close>

definition start_index_limit ::
    "string \<Rightarrow> pyval list \<Rightarrow> int option \<Rightarrow> int option \<Rightarrow> where_error + (string \<times> pyval list)" where
  "start_index_limit sql params start_index limit =
     (if (\<exists>i \<in> set_option start_index. i < 0) \<or> (\<exists>i \<in> set_option limit. i < 0) then Inl Value_Error
      else
        (let start = (if limit \<noteq> None \<and> start_index = None then Some 0 else start_index);
             offset = (case start of Some i \<Rightarrow> ('' OFFSET %s'', [PInt i]) | None \<Rightarrow> ([], []));
             lim = (case limit of Some i \<Rightarrow> ('' LIMIT %s'', [PInt i]) | None \<Rightarrow> ([], []))
         in Inr (sql @ fst offset @ fst lim, params @ snd offset @ snd lim)))"

text \<open>The fields asked for: a list, or the JSON text of one.\<close>

definition parse_fields :: "texts \<Rightarrow> pyval \<Rightarrow> where_error + pyval list" where
  "parse_fields tx asked =
     (case asked of
        PStr (c # cs) \<Rightarrow>
          (case json_loads tx (c # cs) of
             None \<Rightarrow> Inl Value_Error | Some v \<Rightarrow> if truthy v then iterate v else Inr [])
      | _ \<Rightarrow> if truthy asked then iterate asked else Inr [])"

definition select_part :: "string list \<Rightarrow> nat \<Rightarrow> string list \<Rightarrow> bool \<Rightarrow> string" where
  "select_part model_fields columns srt json_only =
     (if 0 < columns
      then ''SELECT '' @ join '','' (replicate columns ''logger_instance.json->%s'') @ '' FROM logger_instance''
      else if json_only
      then (if srt \<noteq> [] \<and> has_json_fields model_fields srt then ''SELECT logger_instance.json FROM logger_instance''
            else ''SELECT logger_instance.id, logger_instance.json FROM logger_instance'')
      else ''SELECT logger_instance.id, logger_instance.json, logger_instance.xml FROM logger_instance'')"

definition join_part :: "row_filters \<Rightarrow> string" where
  "join_part fl =
     (if rf_encrypted fl = None then '' JOIN logger_xform ON logger_instance.xform_id = logger_xform.id'' else [])"

record sql_env =
  en_texts :: texts
  en_int :: "string \<Rightarrow> int option"
  en_model_fields :: "string list"

definition get_sql_with_params ::
    "sql_env \<Rightarrow> form_rows \<Rightarrow> pyval \<Rightarrow> pyval \<Rightarrow> pyval \<Rightarrow> int option \<Rightarrow> int option \<Rightarrow> bool \<Rightarrow> row_filters
     \<Rightarrow> where_error + (string \<times> pyval list)" where
  "get_sql_with_params env fr query asked srt start_index limit json_only fl =
     (case get_sort_fields (en_texts env) (en_int env) srt of
        Inl e \<Rightarrow> Inl e
      | Inr sorts \<Rightarrow>
          (case parse_fields (en_texts env) asked of
             Inl e \<Rightarrow> Inl e
           | Inr fs \<Rightarrow>
               (case build_sql_where (en_texts env) fr query fl of
                  Inl e \<Rightarrow> Inl e
                | Inr (sql_where, params) \<Rightarrow>
                    (let (osql, oparams) = order_by (en_model_fields env) sorts
                     in start_index_limit
                          (select_part (en_model_fields env) (length fs) sorts json_only @ join_part fl @ '' '' @ sql_where @ osql)
                          (params @ oparams) start_index limit))))"

text \<open>\<open>query_count\<close>, and the statement \<open>query_fields_data\<close> hands to the cursor.\<close>

definition query_count :: "texts \<Rightarrow> form_rows \<Rightarrow> pyval \<Rightarrow> row_filters \<Rightarrow> where_error + (string \<times> pyval list)" where
  "query_count tx fr query fl =
     map_sum id (\<lambda>(sql_where, params).
         (''SELECT COUNT(logger_instance.id) FROM logger_instance'' @ join_part fl @ '' '' @ sql_where, params))
       (build_sql_where tx fr query fl)"

definition query_fields_data ::
    "sql_env \<Rightarrow> form_rows \<Rightarrow> pyval \<Rightarrow> pyval \<Rightarrow> pyval \<Rightarrow> int option \<Rightarrow> int option \<Rightarrow> row_filters
     \<Rightarrow> where_error + (string \<times> pyval list)" where
  "query_fields_data env fr asked query srt start_index limit fl =
     (case get_sql_with_params env fr query asked srt start_index limit True fl of
        Inl e \<Rightarrow> Inl e
      | Inr (sql, params) \<Rightarrow>
          (case (case asked of PStr s \<Rightarrow> json_loads (en_texts env) s | _ \<Rightarrow> Some asked) of
             None \<Rightarrow> Inl Value_Error
           | Some PNone \<Rightarrow> Inr (sql, params)
           | Some (PList fs) \<Rightarrow> Inr (sql, fs @ params)
           | Some _ \<Rightarrow> Inl Type_Error))"

section \<open>Placeholders\<close>

text \<open>The number of \<open>%s\<close> in a text.\<close>

fun holes :: "string \<Rightarrow> nat" where
  "holes [] = 0"
| "holes [a] = 0"
| "holes (a # b # cs) = (if a = CHR ''%'' \<and> b = CHR ''s'' then Suc (holes cs) else holes (b # cs))"

definition tight :: "string \<Rightarrow> bool" where
  "tight s \<longleftrightarrow> s \<noteq> [] \<and> last s \<noteq> CHR ''%''"

lemma holes_append: "tight s \<Longrightarrow> holes (s @ t) = holes s + holes t"
proof (induction s rule: holes.induct)
  case (3 a b cs)
  then show ?case by (cases cs) (auto simp: tight_def)
next
  case (2 a)
  then show ?case by (cases t) (auto simp: tight_def)
qed (simp add: tight_def)

lemma tight_append [simp]: "tight t \<Longrightarrow> tight (s @ t)"
  by (simp add: tight_def)

definition holes_all :: "string list \<Rightarrow> nat" where
  "holes_all cs = sum_list (map holes cs)"

lemma holes_all_simps [simp]:
  "holes_all [] = 0" "holes_all (c # cs) = holes c + holes_all cs" "holes_all (cs @ ds) = holes_all cs + holes_all ds"
  by (simp_all add: holes_all_def)

lemma holes_join:
  "tight sep \<Longrightarrow> holes sep = 0 \<Longrightarrow> \<forall>c \<in> set cs. tight c
    \<Longrightarrow> holes (join sep cs) = holes_all cs \<and> (cs \<noteq> [] \<longrightarrow> tight (join sep cs))"
  by (induction sep cs rule: join.induct) (auto simp: holes_append)

lemma holes_parens:
  assumes "tight sep" "holes sep = 0" "\<forall>c \<in> set cs. tight c"
  shows "holes (parens sep cs) = holes_all cs" "tight (parens sep cs)"
proof -
  have "holes ((''('' @ join sep cs) @ '')'') = holes_all cs"
  proof (cases cs)
    case (Cons c ds)
    then have "tight (join sep cs)" using holes_join [OF assms] by simp
    then have "holes ((''('' @ join sep cs) @ '')'') = holes (''('' @ join sep cs) + holes '')''" by (intro holes_append) (simp add: tight_def)
    also have "\<dots> = holes (join sep cs)" by (subst holes_append) (auto simp: tight_def)
    finally show ?thesis using holes_join [OF assms] by simp
  qed simp
  then show "holes (parens sep cs) = holes_all cs" by (simp add: parens_def)
  show "tight (parens sep cs)" by (simp add: parens_def tight_def)
qed

text \<open>
  The clauses of a statement: fixed texts with placeholders, their groups, and the list of the
  submissions being deleted.  No name, value or operator of a query occurs in them.
\<close>

definition known_columns :: "string list" where
  "known_columns =
     map (\<lambda>(k, c). ''logger_instance.'' @ c) none_json_fields
     @ [''logger_instance.json->>%s'', ''CAST(logger_instance.json->>%s AS INT)'',
        ''CAST(logger_instance.json->>%s AS TIMESTAMP)'', ''CAST(logger_instance.json->>%s AS DECIMAL)'']"

definition simple_clauses :: "string list" where
  "simple_clauses =
     concat (map (\<lambda>col. map (\<lambda>op. col @ '' '' @ op @ '' %s'') (''='' # map snd operands)) known_columns)
     @ [''logger_instance.json->>%s IS NULL'', ''logger_instance.json::text ~* cast(%s as text)'',
        ''logger_instance.date_created >= %s'', ''logger_instance.date_created <= %s'',
        ''logger_instance.is_encrypted = %s'',
        ''NOT (logger_instance.is_encrypted = TRUE AND logger_xform.is_managed = TRUE)'',
        ''logger_instance.decryption_status = %s'']"

inductive sql_clause :: "string \<Rightarrow> bool" where
  simple: "c \<in> set simple_clauses \<Longrightarrow> sql_clause c"
| group: "sep \<in> {'' AND '', '' OR ''} \<Longrightarrow> \<forall>c \<in> set cs. sql_clause c \<Longrightarrow> sql_clause (parens sep cs)"
| excluded: "ids \<noteq> [] \<Longrightarrow> sql_clause (fst (exclude_deleting_submissions_clause ids))"

lemma simple_tight: "c \<in> set simple_clauses \<Longrightarrow> tight c"
proof -
  have "list_all tight simple_clauses" by (simp add: simple_clauses_def known_columns_def none_json_fields_def operands_def tight_def)
  then show "c \<in> set simple_clauses \<Longrightarrow> tight c" by (simp add: list_all_iff)
qed

lemma clause_tight: "sql_clause c \<Longrightarrow> tight c"
proof (induction rule: sql_clause.induct)
  case (group sep cs)
  then show ?case by (simp add: parens_def tight_def)
next
  case (excluded ids)
  then show ?case by (simp add: exclude_deleting_submissions_clause_def tight_def)
qed (rule simple_tight)

text \<open>Clauses with enough parameters.\<close>

definition sound :: "string list \<Rightarrow> pyval list \<Rightarrow> bool" where
  "sound cs ps \<longleftrightarrow> (\<forall>c \<in> set cs. sql_clause c) \<and> holes_all cs \<le> length ps"

lemma sound_append [intro]: "sound cs ps \<Longrightarrow> sound ds qs \<Longrightarrow> sound (cs @ ds) (ps @ qs)"
  by (auto simp: sound_def)

lemma sound_Nil [simp, intro]: "sound [] ps"
  by (simp add: sound_def)

lemma sound_group:
  assumes "sound cs ps" "sep \<in> {'' AND '', '' OR ''}"
  shows "sound [parens sep cs] ps"
proof -
  have "tight sep" "holes sep = 0" using assms(2) by (auto simp: tight_def)
  moreover have "\<forall>c \<in> set cs. tight c" using assms(1) clause_tight by (auto simp: sound_def)
  ultimately have "holes (parens sep cs) = holes_all cs" by (rule holes_parens)
  then show ?thesis using assms by (auto simp: sound_def intro: sql_clause.group)
qed

lemma field_sql_known: "field_sql integers decimals field \<in> set known_columns"
proof (cases "map_of none_json_fields field")
  case None
  then show ?thesis by (simp add: field_sql_def json_sql_str_def known_columns_def)
next
  case (Some c)
  from map_of_SomeD [OF Some] have "''logger_instance.'' @ c \<in> (\<lambda>(k, c). ''logger_instance.'' @ c) ` set none_json_fields"
    by (force simp: image_iff)
  with Some show ?thesis by (simp add: field_sql_def known_columns_def)
qed

lemma operand_holes: "op \<in> set (''='' # map snd operands) \<Longrightarrow> holes ('' '' @ op @ '' %s'') = 1"
  by (auto simp: operands_def)

lemma column_holes:
  "tight (field_sql integers decimals field) \<and> holes (field_sql integers decimals field) + 1 = length (field_params field t)"
proof (cases "map_of none_json_fields field")
  case None
  then show ?thesis by (simp add: field_sql_def json_sql_str_def field_params_def tight_def)
next
  case (Some c)
  have "list_all (\<lambda>(k, c). tight (''logger_instance.'' @ c) \<and> holes (''logger_instance.'' @ c) = 0) none_json_fields"
    by (simp add: none_json_fields_def tight_def)
  with map_of_SomeD [OF Some] have "tight (''logger_instance.'' @ c) \<and> holes (''logger_instance.'' @ c) = 0"
    unfolding list_all_iff by blast
  with Some show ?thesis unfolding field_sql_def field_params_def option.case by simp
qed

lemma known_holes:
  assumes "op \<in> set (''='' # map snd operands)"
  shows "holes (field_sql integers decimals field @ '' '' @ op @ '' %s'') = length (field_params field t)"
proof -
  note col = column_holes [of integers decimals field t]
  show ?thesis unfolding holes_append [OF conjunct1 [OF col]] operand_holes [OF assms] by (rule conjunct2 [OF col])
qed

lemma in_product: "x \<in> set xs \<Longrightarrow> y \<in> set ys \<Longrightarrow> f x y \<in> set (concat (map (\<lambda>x. map (f x) ys) xs) @ zs)"
  by auto

lemma known_clause:
  assumes "op \<in> set (''='' # map snd operands)"
  shows "sound [field_sql integers decimals field @ '' '' @ op @ '' %s''] (field_params field t)"
proof -
  have "field_sql integers decimals field @ '' '' @ op @ '' %s'' \<in> set simple_clauses"
    unfolding simple_clauses_def
    by (rule in_product [OF field_sql_known assms, of "\<lambda>col op. col @ '' '' @ op @ '' %s''"])
  from sql_clause.simple [OF this] known_holes [OF assms, of integers decimals field t] show ?thesis
    by (simp add: sound_def)
qed

lemma fixed_clauses:
  "sound [''logger_instance.json->>%s IS NULL''] [p]" "sound [''logger_instance.json->>%s = %s''] [p, q]"
  "sound [''logger_instance.json::text ~* cast(%s as text)''] [p]"
proof -
  have "''logger_instance.json->>%s = %s'' \<in> set simple_clauses"
    by (simp add: simple_clauses_def known_columns_def)
  then show "sound [''logger_instance.json->>%s = %s''] [p, q]" by (simp add: sound_def sql_clause.simple)
qed (simp_all add: sound_def sql_clause.simple simple_clauses_def)

lemma operator_clauses_sound:
  "operator_clauses tx (field_sql integers decimals field) field ops = Inr (w, ps) \<Longrightarrow> sound w ps"
proof (induction ops arbitrary: w ps)
  case (Cons o1 ops)
  obtain key v where o1: "o1 = (key, v)" by (cases o1)
  from Cons.prems obtain t w' ps' where r: "operator_clauses tx (field_sql integers decimals field) field ops = Inr (w', ps')"
    and w: "w = (case map_of operands key of Some op \<Rightarrow> [field_sql integers decimals field @ '' '' @ op @ '' %s''] | None \<Rightarrow> []) @ w'"
    and ps: "ps = field_params field t @ ps'"
    by (auto simp: o1 split: sum.splits)
  have "sound (case map_of operands key of Some op \<Rightarrow> [field_sql integers decimals field @ '' '' @ op @ '' %s''] | None \<Rightarrow> [])
    (field_params field t)"
  proof (cases "map_of operands key")
    case (Some op)
    then have "op \<in> set (''='' # map snd operands)" by (auto dest: map_of_SomeD intro: rev_image_eqI)
    with Some show ?thesis by (simp only: option.case) (rule known_clause)
  qed simp
  then show ?case unfolding w ps using Cons.IH [OF r] by blast
qed simp

lemma field_clauses_sound: "field_clauses tx integers decimals field v = Inr (w, ps) \<Longrightarrow> sound w ps"
proof (cases "\<exists>ops. v = PDict ops")
  case True
  moreover assume "field_clauses tx integers decimals field v = Inr (w, ps)"
  ultimately show ?thesis by (auto simp: field_clauses_def intro: operator_clauses_sound)
next
  case False
  assume a: "field_clauses tx integers decimals field v = Inr (w, ps)"
  show ?thesis
  proof (cases "map_of none_json_fields field")
    case None
    with a False show ?thesis by (auto simp: field_clauses_def fixed_clauses split: pyval.splits if_splits)
  next
    case (Some c)
    have "sound [field_sql integers decimals field @ '' '' @ ''='' @ '' %s''] (field_params field (py_text tx v))"
      by (rule known_clause) simp
    with a False Some show ?thesis by (auto simp: field_clauses_def field_sql_def field_params_def split: pyval.splits)
  qed
qed

lemma parse_where_sound: "parse_where tx integers decimals q = Inr (w, ps) \<Longrightarrow> sound w ps"
proof (induction q arbitrary: w ps)
  case (Cons kv q)
  obtain k v where kv: "kv = (k, v)" by (cases kv)
  from Cons.prems obtain w1 p1 w2 p2 where "field_clauses tx integers decimals k v = Inr (w1, p1)"
    and "parse_where tx integers decimals q = Inr (w2, p2)" and "w = w1 @ w2" "ps = p1 @ p2"
    by (auto simp: kv split: sum.splits)
  with Cons.IH show ?case by (auto dest: field_clauses_sound)
qed simp

lemma list_clauses: "sound (map (\<lambda>x. ''logger_instance.json->>%s = %s'') xs) (concat (map (\<lambda>x. [PStr key, x]) xs))"
proof (induction xs)
  case (Cons x xs)
  from sound_append [OF fixed_clauses(2) [of "PStr key" x] this] show ?case by simp
qed simp

text \<open>The clauses of one entry of \<open>$or\<close>.\<close>

lemma or_entry_sound:
  assumes "or_entry tx integers decimals d key v = Inr (w, ps)"
  shows "sound w ps"
proof (cases "map_of none_json_fields key")
  case None
  with assms show ?thesis by (cases v) (auto simp: or_entry_def fixed_clauses intro: list_clauses)
next
  case (Some c)
  with assms obtain w' where w: "parse_where tx integers decimals d = Inr (w', ps)" "w = [parens '' AND '' w']"
    by (cases "parse_where tx integers decimals d") (auto simp: or_entry_def)
  show ?thesis unfolding w(2) by (rule sound_group [OF parse_where_sound [OF w(1)]]) simp
qed

lemma or_clauses_sound: "or_clauses tx integers decimals d q = Inr (w, ps) \<Longrightarrow> sound w ps"
proof (induction q arbitrary: w ps)
  case (Cons kv q)
  obtain k v where kv: "kv = (k, v)" by (cases kv)
  from Cons.prems obtain w1 p1 w2 p2 where "or_entry tx integers decimals d k v = Inr (w1, p1)"
    and "or_clauses tx integers decimals d q = Inr (w2, p2)" and "w = w1 @ w2" "ps = p1 @ p2"
    by (auto simp: kv split: sum.splits)
  with Cons.IH show ?case by (auto dest: or_entry_sound)
qed simp

lemma or_queries_sound: "or_queries tx integers decimals qs = Inr (w, ps) \<Longrightarrow> sound w ps"
proof (induction qs arbitrary: w ps)
  case (Cons q qs)
  from Cons.prems obtain d w1 p1 w2 p2 where "or_clauses tx integers decimals d d = Inr (w1, p1)"
    and "or_queries tx integers decimals qs = Inr (w2, p2)" and "w = w1 @ w2" "ps = p1 @ p2"
    by (cases q) (auto split: sum.splits)
  with Cons.IH show ?case by (auto dest: or_clauses_sound)
qed simp

lemma or_part_sound:
  assumes "or_part tx integers decimals d = Inr (w, ps)"
  shows "sound w ps"
proof (cases "map_of d ''$or''")
  case (Some v)
  with assms obtain qs where "iterate v = Inr qs" by (cases "iterate v") (auto simp: or_part_def)
  moreover from this Some assms obtain w' where "or_queries tx integers decimals qs = Inr (w', ps)" "w = [parens '' OR '' w']"
    by (cases "or_queries tx integers decimals qs") (auto simp: or_part_def)
  ultimately show ?thesis by (auto intro: sound_group or_queries_sound)
qed (use assms in \<open>simp add: or_part_def\<close>)

lemma caught_cases:
  assumes "caught query r = Inr (w, ps)"
  shows "r = Inr (w, ps) \<or> w = [''logger_instance.json::text ~* cast(%s as text)''] \<and> ps = [query]"
  using assms by (cases r) (auto simp: caught_def text_search_def split: where_error.splits if_splits)

lemma caught_sound: "caught query r = Inr (w, ps) \<Longrightarrow> (r = Inr (w, ps) \<Longrightarrow> sound w ps) \<Longrightarrow> sound w ps"
  using caught_cases [of query r w ps] by (auto simp: fixed_clauses)

text \<open>The clauses of a dictionary: those of its search, or those of its fields and of its \<open>$or\<close>.\<close>

lemma dict_where_cases:
  assumes "dict_where tx integers decimals (PDict d) = Inr (w, ps)"
  obtains "w = [''logger_instance.json::text ~* cast(%s as text)'']" "ps = [PDict (filter (\<lambda>(k, v). k \<noteq> ''$or'') d)]"
  | w1 p1 w2 p2 where "parse_where tx integers decimals (filter (\<lambda>(k, v). k \<noteq> ''$or'') d) = Inr (w1, p1)"
      "or_part tx integers decimals d = Inr (w2, p2)" "w = w1 @ w2" "ps = p1 @ p2"
proof -
  let ?rest = "filter (\<lambda>(k, v). k \<noteq> ''$or'') d"
  have "caught (PDict ?rest)
      (case or_part tx integers decimals d of
         Inl e \<Rightarrow> Inl e
       | Inr (ow, ops) \<Rightarrow>
           (case parse_where tx integers decimals ?rest of Inl e \<Rightarrow> Inl e | Inr (w, ps) \<Rightarrow> Inr (w @ ow, ps @ ops)))
    = Inr (w, ps)"
    using assms by (simp add: dict_where_def Let_def)
  from caught_cases [OF this] show ?thesis
    using that by (auto split: sum.split_asm)
qed

lemma dict_where_sound: "dict_where tx integers decimals q = Inr (w, ps) \<Longrightarrow> sound w ps"
proof (cases "\<exists>d. q = PDict d")
  case True
  then obtain d where q: "q = PDict d" by blast
  assume "dict_where tx integers decimals q = Inr (w, ps)"
  from this [unfolded q] show ?thesis
    by (rule dict_where_cases) (auto intro: parse_where_sound or_part_sound fixed_clauses)
next
  case False
  assume a: "dict_where tx integers decimals q = Inr (w, ps)"
  from False have "dict_where tx integers decimals q = caught q (Inl Attribute_Error)"
    by (cases q) (simp_all add: dict_where_def)
  with a show ?thesis by (auto intro: caught_sound)
qed

lemma get_where_clause_sound: "get_where_clause tx q integer_fields decimals = Inr (w, ps) \<Longrightarrow> sound w ps"
proof -
  assume a: "get_where_clause tx q integer_fields decimals = Inr (w, ps)"
  let ?ints = "''_id'' # integer_fields"
  consider "w = []" | "\<exists>v. dict_where tx ?ints decimals v = Inr (w, ps)" | "caught q (Inl Value_Error) = Inr (w, ps)"
    using a by (auto simp: get_where_clause_def Let_def split: pyval.splits list.splits option.splits)
  then show ?thesis by cases (auto dest: dict_where_sound intro: caught_sound)
qed

lemma where_clauses_sound: "where_clauses tx integers qs = Inr (w, ps) \<Longrightarrow> sound w ps"
proof (induction qs arbitrary: w ps)
  case (Cons q qs)
  from Cons.prems obtain w1 p1 w2 p2 where "get_where_clause tx q integers [] = Inr (w1, p1)"
    and "where_clauses tx integers qs = Inr (w2, p2)" and "w = w1 @ w2" "ps = p1 @ p2"
    by (auto split: sum.splits)
  with Cons.IH show ?case by (auto dest: get_where_clause_sound)
qed simp

lemma query_clauses_sound: "query_clauses tx integers q = Inr (w, ps) \<Longrightarrow> sound w ps"
  by (cases q) (auto simp: query_clauses_def simp del: where_clauses.simps
      intro: get_where_clause_sound where_clauses_sound split: list.splits)

lemma excluding:
  "ids \<noteq> [] \<Longrightarrow> sound [fst (exclude_deleting_submissions_clause ids)] (snd (exclude_deleting_submissions_clause ids))"
proof -
  assume ids: "ids \<noteq> []"
  let ?c = "fst (exclude_deleting_submissions_clause ids)"
  have fix1: "holes (join '', '' (replicate n ''%s'')) = n \<and> (0 < n \<longrightarrow> tight (join '', '' (replicate n ''%s'')))" for n
    using holes_join [of "'', ''" "replicate n ''%s''"] by (simp add: tight_def holes_all_def sum_list_replicate)
  have "holes (join '', '' (replicate (length ids) ''%s'') @ '')'') = length ids"
    using fix1 [of "length ids"] ids by (simp add: holes_append)
  moreover have "holes (''logger_instance.id NOT IN ('' @ t) = holes t" for t
    by (subst holes_append) (simp_all add: tight_def)
  ultimately have "holes ?c = length ids"
    using ids by (simp add: exclude_deleting_submissions_clause_def del: append.simps)
  then show ?thesis using ids sql_clause.excluded [OF ids]
    by (simp add: sound_def exclude_deleting_submissions_clause_def)
qed

lemma one_sound: "c \<in> set simple_clauses \<Longrightarrow> holes c \<le> length ps \<Longrightarrow> sound [c] ps"
  by (simp add: sound_def sql_clause.simple)

lemma filters_sound: "sound (fst (filter_clauses fr fl)) (snd (filter_clauses fr fl))"
proof -
  have simple: "c \<in> set simple_clauses"
    if "c \<in> {''logger_instance.date_created >= %s'', ''logger_instance.date_created <= %s'',
      ''logger_instance.is_encrypted = %s'', ''NOT (logger_instance.is_encrypted = TRUE AND logger_xform.is_managed = TRUE)'',
      ''logger_instance.decryption_status = %s''}" for c
    using that unfolding simple_clauses_def set_append by auto
  have ex: "sound (if fst ex = [] then [] else [fst ex]) (snd ex)"
    if "ex = exclude_deleting_submissions_clause (fr_deleting fr)" for ex
    using that excluding [of "fr_deleting fr"] by (cases "fr_deleting fr = []") (simp_all add: exclude_deleting_submissions_clause_def)
  show ?thesis
    unfolding filter_clauses_def Let_def fst_conv snd_conv
    by (intro sound_append ex refl)
      (auto split: option.split intro!: one_sound simple)
qed

lemma and_all_holes: "\<forall>c \<in> set cs. tight c \<Longrightarrow> holes (and_all cs) = holes_all cs"
proof (induction cs)
  case (Cons c cs)
  have "holes ('' AND '' @ c @ and_all cs) = holes (c @ and_all cs)" by (subst holes_append) (simp_all add: tight_def)
  with Cons show ?case by (simp add: and_all_def holes_append del: append.simps)
qed (simp add: and_all_def)

lemma join_and_all: "cs \<noteq> [] \<Longrightarrow> '' AND '' @ join '' AND '' cs = and_all cs"
  by (induction "'' AND ''" cs rule: join.induct) (simp_all add: and_all_def)

lemma where_holes: "\<forall>c \<in> set cs. sql_clause c \<Longrightarrow> holes (base_where @ and_all cs) = Suc (holes_all cs)"
proof -
  assume "\<forall>c \<in> set cs. sql_clause c"
  then have "holes (and_all cs) = holes_all cs" by (intro and_all_holes) (auto dest: clause_tight)
  then show ?thesis by (subst holes_append) (simp_all add: tight_def base_where_def)
qed

text \<open>What a where clause that the driver can fill is made of.\<close>

lemma build_sql_where_clauses:
  assumes "build_sql_where tx fr q fl = Inr (sql, params)"
  obtains w ps where "query_clauses tx (fr_integers fr) q = Inr (w, ps)" "sound w ps"
    "params = PList (map PInt (xform_pks fr)) # ps @ snd (filter_clauses fr fl)"
    "holes sql \<le> length params"
    "holes sql = length params \<Longrightarrow>
       holes_all w = length ps \<or> ps = []"
    "holes sql = length params \<Longrightarrow> sql = base_where @ and_all ((if ps = [] then [] else w) @ fst (filter_clauses fr fl))"
proof -
  obtain fw fps where f: "filter_clauses fr fl = (fw, fps)" by (cases "filter_clauses fr fl")
  from assms f obtain w ps where q: "query_clauses tx (fr_integers fr) q = Inr (w, ps)"
    and sql: "sql = base_where @ (if ps = [] then [] else '' AND '' @ join '' AND '' w) @ and_all fw"
    and params: "params = PList (map PInt (xform_pks fr)) # ps @ fps"
    by (auto simp: build_sql_where_def split: sum.splits)
  have w: "sound w ps" by (rule query_clauses_sound [OF q])
  have fs: "sound fw fps" using filters_sound [of fr fl] by (simp add: f)
  let ?cs = "(if ps = [] then [] else w) @ fw"
  have clauses: "\<forall>c \<in> set ?cs. sql_clause c" using w fs by (auto simp: sound_def)
  show ?thesis
  proof (cases "w = [] \<and> ps \<noteq> []")
    case True
    then have sql: "sql = (base_where @ '' AND '') @ and_all fw" using sql by simp
    have "holes sql = holes (base_where @ '' AND '') + holes (and_all fw)"
      unfolding sql by (rule holes_append) (simp add: tight_def)
    moreover have "holes (base_where @ '' AND '') = 1" by (simp add: base_where_def)
    moreover have "holes (and_all fw) = holes_all fw"
      using fs by (intro and_all_holes) (auto simp: sound_def dest: clause_tight)
    ultimately have "holes sql = Suc (holes_all fw)" by (simp only: One_nat_def plus_1_eq_Suc)
    then have "holes sql < length params"
      using fs True params by (cases ps) (auto simp: sound_def)
    with that [OF q w] show ?thesis by (simp add: f params)
  next
    case False
    then have eq: "sql = base_where @ and_all ?cs" using sql join_and_all [of w] by (auto simp: and_all_def)
    with where_holes [OF clauses] have "holes sql = Suc (holes_all ?cs)" by simp
    with that [OF q w] eq w fs show ?thesis by (auto simp: f params sound_def split: if_splits)
  qed
qed

text \<open>C28: The text of a where clause is made of fixed clauses only: nothing that a query names, compares
  with or asks for gets into it.  It never has more placeholders than parameters, and when they are
  as many (which the driver demands before it sends a statement) it is the conjunction of
  the clauses.\<close>

theorem where_is_parameterised:
  assumes "build_sql_where tx fr query fl = Inr (sql, params)"
  shows "holes sql \<le> length params
    \<and> (holes sql = length params \<longrightarrow> (\<exists>cs. sql = base_where @ and_all cs \<and> (\<forall>c \<in> set cs. sql_clause c)))"
proof -
  obtain w ps where w: "sound w ps" and le: "holes sql \<le> length params"
    and eq: "holes sql = length params \<Longrightarrow> sql = base_where @ and_all ((if ps = [] then [] else w) @ fst (filter_clauses fr fl))"
    by (rule build_sql_where_clauses [OF assms]) blast
  have "\<forall>c \<in> set ((if ps = [] then [] else w) @ fst (filter_clauses fr fl)). sql_clause c"
    using w filters_sound [of fr fl] by (auto simp: sound_def)
  with le eq show ?thesis by blast
qed

definition sample_texts :: texts where
  "sample_texts = \<lparr>json_loads = (\<lambda>_. None), text_of = (\<lambda>_. ''1''), date_of_text = (\<lambda>s. Some s)\<rparr>"

definition sample_rows :: form_rows where
  "sample_rows = \<lparr>fr_pk = 4, fr_integers = [''age''], fr_merged = None, fr_deleting = [9]\<rparr>"

definition no_filters :: row_filters where
  "no_filters = \<lparr>rf_start = None, rf_end = None, rf_encrypted = Some False, rf_decryption = None\<rparr>"

theorem where_is_parameterised_witness:
  "\<exists>sql params. build_sql_where sample_texts sample_rows (PDict [(''age'', PDict [(''$gt'', PInt 1)]), (''$or'', PList [PDict [(''a'', PNone)]])]) no_filters
     = Inr (sql, params) \<and> holes sql \<le> length params \<and> length params = 6"
proof -
  let ?q = "PDict [(''age'', PDict [(''$gt'', PInt 1)]), (''$or'', PList [PDict [(''a'', PNone)]])]"
  obtain sql params where r: "build_sql_where sample_texts sample_rows ?q no_filters = Inr (sql, params)"
    and "length params = 6"
  proof -
    have "case build_sql_where sample_texts sample_rows ?q no_filters of Inl e \<Rightarrow> False | Inr (sql, params) \<Rightarrow> length params = 6"
      by code_simp
    then show ?thesis using that by (auto split: sum.splits)
  qed
  with where_is_parameterised [OF r] show ?thesis by blast
qed

section \<open>The restriction to one submitter\<close>

definition own_clause :: string where
  "own_clause = ''logger_instance.json->>%s = %s''"

definition own_params :: "string \<Rightarrow> pyval list" where
  "own_params me = [PStr ''_submitted_by'', PStr me]"

text \<open>The clause with its two parameters, amid others.\<close>

definition demands_own :: "string \<Rightarrow> string list \<Rightarrow> pyval list \<Rightarrow> bool" where
  "demands_own me w ps \<longleftrightarrow>
     (\<exists>pre post p1 p2. w = pre @ own_clause # post \<and> ps = p1 @ own_params me @ p2 \<and> sound pre p1 \<and> sound post p2)"

lemma demands_left:
  assumes "demands_own me w ps" "sound w' ps'"
  shows "demands_own me (w' @ w) (ps' @ ps)"
proof -
  obtain pre post p1 p2 where "w = pre @ own_clause # post" "ps = p1 @ own_params me @ p2" "sound pre p1" "sound post p2"
    using assms(1) unfolding demands_own_def by blast
  then have "w' @ w = (w' @ pre) @ own_clause # post \<and> ps' @ ps = (ps' @ p1) @ own_params me @ p2
      \<and> sound (w' @ pre) (ps' @ p1) \<and> sound post p2"
    using assms(2) by auto
  then show ?thesis unfolding demands_own_def by blast
qed

lemma demands_right:
  assumes "demands_own me w ps" "sound w' ps'"
  shows "demands_own me (w @ w') (ps @ ps')"
proof -
  obtain pre post p1 p2 where "w = pre @ own_clause # post" "ps = p1 @ own_params me @ p2" "sound pre p1" "sound post p2"
    using assms(1) unfolding demands_own_def by blast
  then have "w @ w' = pre @ own_clause # (post @ w') \<and> ps @ ps' = p1 @ own_params me @ (p2 @ ps')
      \<and> sound pre p1 \<and> sound (post @ w') (p2 @ ps')"
    using assms(2) by auto
  then show ?thesis unfolding demands_own_def by blast
qed

lemma field_demands_own:
  assumes "field_clauses tx integers decimals ''_submitted_by'' (PStr me) = Inr (w, ps)"
  shows "demands_own me w ps"
proof -
  have "w = [] @ own_clause # []" "ps = [] @ own_params me @ []"
    using assms by (simp_all add: field_clauses_def none_json_fields_def py_text_def own_clause_def own_params_def)
  with sound_Nil show ?thesis unfolding demands_own_def by blast
qed

lemma parse_where_demands_own:
  "parse_where tx integers decimals d = Inr (w, ps) \<Longrightarrow> map_of d ''_submitted_by'' = Some (PStr me)
    \<Longrightarrow> demands_own me w ps"
proof (induction d arbitrary: w ps)
  case (Cons kv d)
  obtain k v where kv: "kv = (k, v)" by (cases kv)
  from Cons.prems(1) obtain w1 p1 w2 p2 where 1: "field_clauses tx integers decimals k v = Inr (w1, p1)"
    and 2: "parse_where tx integers decimals d = Inr (w2, p2)" and w: "w = w1 @ w2" "ps = p1 @ p2"
    by (auto simp: kv split: sum.splits)
  show ?case
  proof (cases "k = ''_submitted_by''")
    case True
    with Cons.prems(2) have "v = PStr me" by (simp add: kv)
    with 1 True have "demands_own me w1 p1" by (auto intro: field_demands_own)
    then show ?thesis unfolding w by (rule demands_right [OF _ parse_where_sound [OF 2]])
  next
    case False
    with Cons.prems(2) have "demands_own me w2 p2" by (intro Cons.IH [OF 2]) (simp add: kv)
    with field_clauses_sound [OF 1] show ?thesis unfolding w by (intro demands_left)
  qed
qed simp

lemma map_of_filter_key: "k \<noteq> k' \<Longrightarrow> map_of (filter (\<lambda>(a, b). a \<noteq> k') d) k = map_of d k"
  by (induction d) auto

text \<open>A dictionary that names the submitter demands him, or searches for a dictionary.\<close>

lemma get_where_demands_own:
  assumes r: "get_where_clause tx (PDict d) integer_fields decimals = Inr (w, ps)"
    and d: "map_of d ''_submitted_by'' = Some (PStr me)" and dicts: "\<forall>p \<in> set ps. \<not> is_dict p"
  shows "demands_own me w ps"
proof -
  have "d \<noteq> []" using d by auto
  with r have "dict_where tx (''_id'' # integer_fields) decimals (PDict d) = Inr (w, ps)"
    by (cases d) (auto simp: get_where_clause_def Let_def)
  then show ?thesis
  proof (cases rule: dict_where_cases)
    case 1
    with dicts show ?thesis by simp
  next
    case (2 w1 p1 w2 p2)
    have "map_of (filter (\<lambda>(k, v). k \<noteq> ''$or'') d) ''_submitted_by'' = Some (PStr me)"
      using d by (subst map_of_filter_key) simp_all
    with 2 show ?thesis by (simp add: demands_right or_part_sound parse_where_demands_own)
  qed
qed

lemma where_demands_own:
  assumes "where_clauses tx integers (PDict d # qs) = Inr (w, ps)" "\<forall>p \<in> set ps. \<not> is_dict p"
    and d: "map_of d ''_submitted_by'' = Some (PStr me)"
  shows "demands_own me w ps"
proof -
  obtain w1 p1 w2 p2 where 1: "get_where_clause tx (PDict d) integers [] = Inr (w1, p1)"
    and 2: "where_clauses tx integers qs = Inr (w2, p2)" and w: "w = w1 @ w2" "ps = p1 @ p2"
    using assms(1) by (auto split: sum.splits)
  have "demands_own me w1 p1" using assms(2) by (intro get_where_demands_own [OF 1 d]) (simp add: w)
  then show ?thesis unfolding w by (rule demands_right [OF _ where_clauses_sound [OF 2]])
qed

section \<open>Where the texts do not fit\<close>

text \<open>An operator that is not known adds its parameters and no clause.\<close>

theorem unknown_operator_does_not_fit:
  "case build_sql_where sample_texts sample_rows (PDict [(''age'', PDict [(''$ne'', PInt 1)])]) no_filters of
     Inl e \<Rightarrow> False | Inr (sql, params) \<Rightarrow> holes sql < length params"
  by code_simp

text \<open>Alternatives that are no dictionaries turn the whole query into a search for the rest of it.\<close>

theorem malformed_alternatives_drop_fields:
  "get_where_clause sample_texts (PDict [(''_submitted_by'', PStr ''bob''), (''$or'', PList [PInt 3])]) [] []
     = Inr ([''logger_instance.json::text ~* cast(%s as text)''], [PDict [(''_submitted_by'', PStr ''bob'')]])"
  by code_simp

text \<open>No alternative at all is a clause that is no SQL.\<close>

theorem no_alternative_is_empty_group:
  "get_where_clause sample_texts (PDict [(''a'', PStr ''b''), (''$or'', PList [])]) [] []
     = Inr ([own_clause, ''()''], [PStr ''a'', PStr ''b''])"
  by code_simp

text \<open>
  The columns of a submission have been renamed when \<open>json_order_by\<close> looks for them under the
  names of the JSON fields: in a mixed order it takes them all from the JSON data.
\<close>

theorem columns_sorted_by_json:
  assumes "get_sort_fields tx int_of srt = Inr sorts" "f \<in> set sorts"
  shows "map_of none_json_fields (lstrip_minus f) = None"
proof -
  have c: "map_of none_json_fields (lstrip_minus c) = None \<and> map_of none_json_fields (lstrip_minus (CHR ''-'' # c)) = None"
    if "map_of none_json_fields k = Some c" for k c
    using that by (auto simp: none_json_fields_def lstrip_minus_def split: if_splits)
  have key: "lstrip_minus k = k" if "map_of none_json_fields k = Some c" for k c
    using that by (auto simp: none_json_fields_def lstrip_minus_def split: if_splits)
  from assms obtain g where "f = parse_sort_field g"
    by (cases "case srt of PNone \<Rightarrow> Inr [''id''] | _ \<Rightarrow> sort_from_mongo_sort_str tx int_of srt")
      (auto simp: get_sort_fields_def)
  moreover have "lstrip_minus g = g" if "\<not> descending g"
    using that by (cases g) (simp_all add: descending_def lstrip_minus_def)
  ultimately show ?thesis
    using c key by (auto simp: parse_sort_field_def split: option.splits if_splits)
qed

theorem columns_sorted_by_json_witness:
  "map_of none_json_fields (lstrip_minus ''id'') = None"
  using columns_sorted_by_json [of sample_texts "\<lambda>_. None" PNone "[''id'']" "''id''"]
  by (simp add: get_sort_fields_def parse_sort_field_def none_json_fields_def lstrip_minus_def)

end
