(* ===== verification/Survey.thy ===== *)
theory Survey
  imports Onadata_Prelude "HOL-Library.AList" "HOL-Library.Sublist"
begin

text \<open>
  The questions of a form: the methods of \<open>XFormMixin\<close> on its survey
  (\<open>onadata/apps/logger/models/xform.py\<close>), the names of fields in stored submissions
  (\<open>onadata/libs/utils/mongo.py\<close>) and the labels of choices
  (\<open>onadata/libs/utils/common_tools.py\<close>).

  The elements of a survey are what pyxform makes of the form; their paths, and the order in
  which \<open>iter_descendants\<close> yields them, are given with the form.
\<close>

section \<open>Elements\<close>

datatype label = No_Label | Label string | Translations "(string \<times> string) list"

datatype section_kind = Survey_Root | Group | Repeat

text \<open>The bind of an element, if it has one, is read for its type only.\<close>

datatype element =
    Section (el_kind: section_kind) (el_name: string) (el_path: string) (el_bind: "string option option")
      (el_label: label) (el_children: "element list")
  | Question (el_name: string) (el_path: string) (el_type: string) (el_bind: "string option option")
      (el_label: label) (el_options: "element list option")
  | Choice (el_name: string) (el_path: string) (el_label: label)

record form =
  fo_root :: element
  fo_elements :: "element list"
  fo_language :: "string option"

fun type_of :: "element \<Rightarrow> string option" where
  "type_of (Section k _ _ _ _ _) = Some (case k of Survey_Root \<Rightarrow> ''survey'' | Group \<Rightarrow> ''group'' | Repeat \<Rightarrow> ''repeat'')"
| "type_of (Question _ _ t _ _ _) = Some t"
| "type_of (Choice _ _ _) = None"

fun bind_type :: "element \<Rightarrow> string option" where
  "bind_type (Section _ _ _ b _ _) = (case b of Some t \<Rightarrow> t | None \<Rightarrow> None)"
| "bind_type (Question _ _ _ b _ _) = (case b of Some t \<Rightarrow> t | None \<Rightarrow> None)"
| "bind_type (Choice _ _ _) = None"

fun options_of :: "element \<Rightarrow> element list option" where
  "options_of (Question _ _ _ _ _ cs) = cs"
| "options_of _ = None"

definition MULTIPLE_SELECT_TYPE :: string where "MULTIPLE_SELECT_TYPE = ''select all that apply''"
definition SELECT_ONE :: string where "SELECT_ONE = ''select one''"

definition multiple_select :: "element \<Rightarrow> bool" where
  "multiple_select e \<longleftrightarrow> bind_type e = Some ''string'' \<and> type_of e = Some MULTIPLE_SELECT_TYPE"

definition get_abbreviated_xpath :: "string \<Rightarrow> string" where
  "get_abbreviated_xpath xpath = join ''/'' (drop 2 (split_on CHR ''/'' xpath))"

definition abbreviated :: "element \<Rightarrow> string" where
  "abbreviated e = get_abbreviated_xpath (el_path e)"

definition get_survey_elements_of_type :: "form \<Rightarrow> string \<Rightarrow> element list" where
  "get_survey_elements_of_type f t = filter (\<lambda>e. type_of e = Some t) (fo_elements f)"

definition get_survey_elements_with_choices :: "form \<Rightarrow> element list" where
  "get_survey_elements_with_choices f =
     filter (\<lambda>e. type_of e = Some SELECT_ONE \<or> type_of e = Some MULTIPLE_SELECT_TYPE) (fo_elements f)"

definition get_select_one_xpaths :: "form \<Rightarrow> string list" where
  "get_select_one_xpaths f = map abbreviated (get_survey_elements_of_type f SELECT_ONE)"

definition get_select_multiple_xpaths :: "form \<Rightarrow> string list" where
  "get_select_multiple_xpaths f = map abbreviated (get_survey_elements_of_type f MULTIPLE_SELECT_TYPE)"

definition known_media_types :: "string list" where
  "known_media_types = [''photo'', ''image'', ''background-audio'', ''audio'', ''video'', ''file'']"

definition get_media_survey_xpaths :: "form \<Rightarrow> string list" where
  "get_media_survey_xpaths f = map abbreviated (concat (map (get_survey_elements_of_type f) known_media_types))"

definition get_osm_survey_xpaths :: "form \<Rightarrow> string list" where
  "get_osm_survey_xpaths f = map abbreviated (get_survey_elements_of_type f ''osm'')"

definition get_field_name_xpaths_only :: "form \<Rightarrow> string list" where
  "get_field_name_xpaths_only f =
     map abbreviated
       (filter (\<lambda>e. case type_of e of Some t \<Rightarrow> t \<noteq> [] \<and> t \<noteq> ''survey'' | None \<Rightarrow> False) (fo_elements f))"

definition xpaths_bound_to :: "string \<Rightarrow> form \<Rightarrow> string list" where
  "xpaths_bound_to t f = map abbreviated (filter (\<lambda>e. bind_type e = Some t) (fo_elements f))"

definition geopoint_xpaths :: "form \<Rightarrow> string list" where "geopoint_xpaths = xpaths_bound_to ''geopoint''"
definition polygon_xpaths :: "form \<Rightarrow> string list" where "polygon_xpaths = xpaths_bound_to ''geoshape''"
definition geotrace_xpaths :: "form \<Rightarrow> string list" where "geotrace_xpaths = xpaths_bound_to ''geotrace''"

text \<open>Zero when there is none.\<close>

definition xpath_of_first_geopoint :: "form \<Rightarrow> nat + string" where
  "xpath_of_first_geopoint f = (case geopoint_xpaths f of [] \<Rightarrow> Inl 0 | x # _ \<Rightarrow> Inr x)"

section \<open>Names in stored submissions\<close>

definition key_whitelist :: "string list" where
  "key_whitelist =
     [''$or'', ''$and'', ''$exists'', ''$in'', ''$gt'', ''$gte'', ''$lt'', ''$lte'', ''$regex'', ''$options'', ''$all'']"

definition encode_dots :: "string \<Rightarrow> string" where
  "encode_dots s = concat (map (\<lambda>c. if c = CHR ''.'' then ''Lg=='' else [c]) s)"

definition encode_for_mongo :: "string \<Rightarrow> string" where
  "encode_for_mongo key = encode_dots (case key of c # cs \<Rightarrow> if c = CHR ''$'' then ''JA=='' @ cs else key | [] \<Rightarrow> [])"

fun decode_dots :: "string \<Rightarrow> string" where
  "decode_dots [] = []"
| "decode_dots (c # cs) =
     (if take 4 (c # cs) = ''Lg=='' then CHR ''.'' # decode_dots (drop 3 cs) else c # decode_dots cs)"

definition decode_from_mongo :: "string \<Rightarrow> string" where
  "decode_from_mongo key = decode_dots (if take 4 key = ''JA=='' then CHR ''$'' # drop 4 key else key)"

definition is_invalid_for_mongo :: "string \<Rightarrow> bool" where
  "is_invalid_for_mongo key \<longleftrightarrow>
     key \<notin> set key_whitelist \<and> ((case key of c # _ \<Rightarrow> c = CHR ''$'' | [] \<Rightarrow> False) \<or> CHR ''.'' \<in> set key)"

definition get_mongo_field_names_dict :: "form \<Rightarrow> (string, string) dict" where
  "get_mongo_field_names_dict f = dict_update [] (map (\<lambda>e. (encode_for_mongo (abbreviated e), abbreviated e)) (fo_elements f))"

section \<open>Looking for an element\<close>

definition is_digit :: "char \<Rightarrow> bool" where
  "is_digit c \<longleftrightarrow> c \<in> set ''0123456789''"

text \<open>\<open>re.sub\<close> of \<open>[\<close>, digits, \<open>]\<close> by nothing.\<close>

function remove_all_indices :: "string \<Rightarrow> string" where
  "remove_all_indices [] = []"
| "remove_all_indices (c # cs) =
     (let ds = takeWhile is_digit cs; rest = dropWhile is_digit cs
      in if c = CHR ''['' \<and> ds \<noteq> [] \<and> rest \<noteq> [] \<and> hd rest = CHR '']'' then remove_all_indices (tl rest)
         else c # remove_all_indices cs)"
  by pat_completeness auto
termination
  by (relation "measure length") (auto intro: le_less_trans [OF diff_le_self] le_imp_less_Suc length_dropWhile_le)

text \<open>
  The elements by abbreviated path; a choice found under its question is remembered under its
  own path.  The lookup of the parent of the empty path is the lookup of the empty path.
\<close>

type_synonym element_index = "(string, element) dict"

definition element_index :: "form \<Rightarrow> element_index" where
  "element_index f = dict_update [] (map (\<lambda>e. (abbreviated e, e)) (fo_elements f))"

definition parent_path :: "string \<Rightarrow> string" where
  "parent_path path = join ''/'' (butlast (split_on CHR ''/'' path))"

definition choice_of :: "element option \<Rightarrow> string \<Rightarrow> element option" where
  "choice_of parent choice_name =
     (case parent of
        Some p \<Rightarrow>
          (case options_of p of
             Some os \<Rightarrow>
               if type_of p = Some MULTIPLE_SELECT_TYPE then find (\<lambda>c. el_name c = choice_name) os else None
           | None \<Rightarrow> None)
      | None \<Rightarrow> None)"

definition remember :: "element option \<Rightarrow> element option \<Rightarrow> element_index \<Rightarrow> element_index" where
  "remember parent found ix =
     (case (parent, found) of
        (Some p, Some c) \<Rightarrow> AList.update (get_abbreviated_xpath (el_path p @ el_path c)) c ix
      | _ \<Rightarrow> ix)"

partial_function (option) get_element ::
    "string \<Rightarrow> element_index \<Rightarrow> (element option \<times> element_index) option" where
  "get_element path ix =
     (case map_of ix (remove_all_indices path) of
        Some e \<Rightarrow> Some (Some e, ix)
      | None \<Rightarrow>
          Option.bind (get_element (parent_path path) ix)
            (\<lambda>(parent, ix1).
               let found = choice_of parent (last (split_on CHR ''/'' path))
               in Some (found, remember parent found ix1)))"

declare get_element.simps [code]

definition get_survey_element ::
    "form \<Rightarrow> string \<Rightarrow> element_index \<Rightarrow> (element option \<times> element_index) option" where
  "get_survey_element f name_or_xpath ix =
     map_option
       (\<lambda>(found, ix1).
          ((case found of Some e \<Rightarrow> Some e | None \<Rightarrow> find (\<lambda>e. el_name e = name_or_xpath) (fo_elements f)), ix1))
       (get_element name_or_xpath ix)"

text \<open>\<open>flatten\<close> of \<open>get_child_elements\<close>.\<close>

fun flatten :: "string \<Rightarrow> element \<Rightarrow> element list" where
  "flatten sought (Section k n p b l es) =
     (if k = Group \<or> get_abbreviated_xpath p = sought \<and> k = Repeat
      then concat (map (flatten sought) es) else [Section k n p b l es])"
| "flatten sought e = [e]"

definition get_child_elements ::
    "form \<Rightarrow> string \<Rightarrow> element_index \<Rightarrow> (element list \<times> element_index) option" where
  "get_child_elements f sought ix =
     map_option (\<lambda>(found, ix1). ((case found of Some e \<Rightarrow> flatten sought e | None \<Rightarrow> []), ix1))
       (get_survey_element f sought ix)"

section \<open>Labels\<close>

datatype survey_error = Key_Error | Attribute_Error | Assertion_Error | Index_Error

text \<open>\<open>get_language\<close> of a list that is not empty, and the label of an element.\<close>

definition get_language :: "string option \<Rightarrow> string list \<Rightarrow> string option" where
  "get_language default_language languages =
     (case languages of
        [] \<Rightarrow> None
      | l # _ \<Rightarrow> Some (case default_language of Some d \<Rightarrow> if d \<in> set languages then d else l | None \<Rightarrow> l))"

definition element_label :: "string option \<Rightarrow> string option \<Rightarrow> label \<Rightarrow> string option" where
  "element_label default_language language lab =
     (case lab of
        No_Label \<Rightarrow> None
      | Label s \<Rightarrow> Some s
      | Translations ts \<Rightarrow>
          (case language of
             Some l \<Rightarrow>
               if l \<noteq> [] \<and> map_of ts l \<noteq> None then map_of ts l
               else (case get_language default_language (map fst ts) of
                       Some l' \<Rightarrow> if l' = [] then Some [] else map_of ts l' | None \<Rightarrow> Some [])
           | None \<Rightarrow>
               (case get_language default_language (map fst ts) of
                  Some l' \<Rightarrow> if l' = [] then Some [] else map_of ts l' | None \<Rightarrow> Some [])))"

definition get_label ::
    "form \<Rightarrow> string \<Rightarrow> element option \<Rightarrow> string option \<Rightarrow> element_index \<Rightarrow> (string option \<times> element_index) option" where
  "get_label f path elem language ix =
     map_option
       (\<lambda>(found, ix1).
          ((case found of Some e \<Rightarrow> element_label (fo_language f) language (el_label e) | None \<Rightarrow> None), ix1))
       (case elem of Some e \<Rightarrow> Some (Some e, ix) | None \<Rightarrow> get_element path ix)"

text \<open>
  The label of a choice: \<open>XFormMixin.get_choice_label\<close>, whose language defaults to English and
  falls back on the first, and \<open>get_choice_label\<close> of \<open>common_tools\<close>.
\<close>

definition choice_label_or_value :: "element list \<Rightarrow> string \<Rightarrow> string \<Rightarrow> survey_error + string option" where
  "choice_label_or_value options choice_value lang =
     (case find (\<lambda>c. el_name c = choice_value) options of
        None \<Rightarrow> Inr (Some choice_value)
      | Some c \<Rightarrow>
          (case el_label c of
             No_Label \<Rightarrow> Inr None
           | Label s \<Rightarrow> Inr (Some s)
           | Translations [] \<Rightarrow> Inl Index_Error
           | Translations ((k, l) # ts) \<Rightarrow>
               Inr (Some (case map_of ((k, l) # ts) lang of Some s \<Rightarrow> s | None \<Rightarrow> l))))"

definition get_choice_label :: "string option \<Rightarrow> string option \<Rightarrow> label \<Rightarrow> survey_error + string option" where
  "get_choice_label default_language language lab =
     (case lab of
        No_Label \<Rightarrow> Inr None
      | Label s \<Rightarrow> Inr (Some s)
      | Translations ts \<Rightarrow>
          (case (case language of
                   Some l \<Rightarrow> if l \<in> fst ` set ts then Some l else get_language default_language (map fst ts)
                 | None \<Rightarrow> get_language default_language (map fst ts)) of
             Some l \<Rightarrow> (case map_of ts l of Some s \<Rightarrow> Inr (Some s) | None \<Rightarrow> Inl Key_Error)
           | None \<Rightarrow> Inl Key_Error))"

text \<open>\<open>_get_choice_label_value\<close> for the element found, and \<open>get_choice_label_value\<close>.\<close>

definition label_of_choice ::
    "string option \<Rightarrow> string option \<Rightarrow> element option \<Rightarrow> string \<Rightarrow> survey_error + string option" where
  "label_of_choice default_language language found choice_name =
     (case found of
        None \<Rightarrow> Inr None
      | Some e \<Rightarrow>
          (case options_of e of
             None \<Rightarrow> Inr None
           | Some os \<Rightarrow>
               (case find (\<lambda>c. el_name c = choice_name) os of
                  None \<Rightarrow> Inr None | Some c \<Rightarrow> get_choice_label default_language language (el_label c))))"

fun labels_of_choices ::
    "string option \<Rightarrow> string option \<Rightarrow> element option \<Rightarrow> string list \<Rightarrow> survey_error + string list" where
  "labels_of_choices default_language language found [] = Inr []"
| "labels_of_choices default_language language found (item # items) =
     (case label_of_choice default_language language found item of
        Inl e \<Rightarrow> Inl e
      | Inr answer \<Rightarrow>
          (case labels_of_choices default_language language found items of
             Inl e \<Rightarrow> Inl e
           | Inr answers \<Rightarrow>
               Inr ((case answer of Some s \<Rightarrow> if s = [] then item else s | None \<Rightarrow> item) # answers)))"

definition get_choice_label_value ::
    "form \<Rightarrow> string \<Rightarrow> string \<Rightarrow> string option \<Rightarrow> element_index
     \<Rightarrow> (survey_error + string) option \<times> element_index" where
  "get_choice_label_value f key val language ix =
     (let is_one = key \<in> set (get_select_one_xpaths f);
          is_many = key \<in> set (get_select_multiple_xpaths f)
      in case (if is_one \<or> is_many then get_survey_element f key ix else Some (None, ix)) of
           None \<Rightarrow> (None, ix)
         | Some (found, ix1) \<Rightarrow>
             (let one = (if is_one then label_of_choice (fo_language f) language found val else Inr None);
                  many = (if is_many
                          then map_sum id (\<lambda>texts. Some (join '' '' texts))
                                 (labels_of_choices (fo_language f) language found (split_on CHR '' '' val))
                          else one)
              in (Some (case one of
                          Inl e \<Rightarrow> Inl e
                        | Inr _ \<Rightarrow>
                            (case many of
                               Inl e \<Rightarrow> Inl e
                             | Inr (Some s) \<Rightarrow> Inr (if s = [] then val else s)
                             | Inr None \<Rightarrow> Inr val)), ix1)))"

section \<open>Columns\<close>

definition geodata_suffixes :: "string list" where
  "geodata_suffixes = [''latitude'', ''longitude'', ''altitude'', ''precision'']"

definition get_additional_geopoint_xpaths :: "string \<Rightarrow> string list" where
  "get_additional_geopoint_xpaths xpath =
     (let front = parent_path xpath;
          back = last (split_on CHR ''/'' xpath);
          (pre, name) = (if front \<noteq> [] \<and> back \<noteq> [] then (front @ ''/'', back) else ([], xpath))
      in map (\<lambda>suffix. join ''_'' [pre, name, suffix]) geodata_suffixes)"

definition question_types_to_exclude :: "string option \<Rightarrow> bool" where
  "question_types_to_exclude t \<longleftrightarrow> t = Some ''note''"

text \<open>
  \<open>xpaths\<close> of an element that is not left out: what it adds to the result.  A choice is never
  a child of a section.
\<close>

fun xpaths :: "nat \<Rightarrow> string \<Rightarrow> element \<Rightarrow> string list" where
  "xpaths repeats pre (Section k n p b l es) =
     (let path = pre @ ''/'' @ n
      in concat (map (\<lambda>i.
            concat (map (\<lambda>e. if question_types_to_exclude (type_of e) then [] else xpaths repeats (path @ i) e) es))
          (if k = Repeat then map (\<lambda>i. ''['' @ show_nat (i + 1) @ '']'') [0..<repeats] else [[]]))
        @ (if b = Some (Some ''geopoint'') then get_additional_geopoint_xpaths path else []))"
| "xpaths repeats pre (Question n p t b l os) =
     (let path = pre @ ''/'' @ n
      in if b = Some (Some ''string'') \<and> t = MULTIPLE_SELECT_TYPE
         then (case os of Some cs \<Rightarrow> map (\<lambda>c. path @ ''/'' @ el_name c) cs | None \<Rightarrow> [path])
         else path # (if b = Some (Some ''geopoint'') then get_additional_geopoint_xpaths path else []))"
| "xpaths repeats pre (Choice n p l) = []"

definition additional_headers :: "string list" where
  "additional_headers =
     [''_xform_id_string'', ''_percentage_complete'', ''_status'', ''_attachments'', ''_potential_duplicates'']"

definition get_headers :: "form \<Rightarrow> bool \<Rightarrow> nat \<Rightarrow> string list" where
  "get_headers f include_additional_headers repeats =
     map get_abbreviated_xpath (xpaths repeats [] (fo_root f))
     @ [''_id'', ''_uuid'', ''_submission_time'', ''_date_modified'', ''_tags'', ''_notes'', ''_review_status'',
        ''_review_comment'', ''_version'', ''_duration'', ''_submitted_by'', ''_last_edited_by'', ''_total_media'',
        ''_media_count'', ''_media_all_received'']
     @ (if include_additional_headers then additional_headers else [])"

fun remove_first_index :: "string \<Rightarrow> string" where
  "remove_first_index [] = []"
| "remove_first_index (c # cs) =
     (if take 3 (c # cs) = ''[1]'' then remove_first_index (drop 2 cs) else c # remove_first_index cs)"

definition get_keys :: "form \<Rightarrow> string list" where
  "get_keys f = map remove_first_index (get_headers f False 4)"

text \<open>\<open>cmp\<close> of texts, by code points, and \<open>xpath_cmp\<close>.\<close>

fun str_less :: "string \<Rightarrow> string \<Rightarrow> bool" where
  "str_less [] [] = False"
| "str_less [] (d # ds) = True"
| "str_less (c # cs) [] = False"
| "str_less (c # cs) (d # ds) =
     ((of_char c :: nat) < of_char d \<or> c = d \<and> str_less cs ds)"

definition cmp :: "string \<Rightarrow> string \<Rightarrow> int" where
  "cmp x y = (if str_less y x then 1 else if str_less x y then - 1 else 0)"

fun index_of :: "'a list \<Rightarrow> 'a \<Rightarrow> nat" where
  "index_of [] x = 0"
| "index_of (y # ys) x = (if x = y then 0 else Suc (index_of ys x))"

definition xpath_cmp :: "form \<Rightarrow> string \<Rightarrow> string \<Rightarrow> int" where
  "xpath_cmp f x y =
     (let known = map abbreviated (fo_elements f);
          new_x = remove_all_indices x;
          new_y = remove_all_indices y;
          i = index_of known new_x;
          j = index_of known new_y
      in if new_x = new_y then cmp x y
         else if new_x \<notin> set known \<and> new_y \<notin> set known then 0
         else if new_x \<notin> set known then 1
         else if new_y \<notin> set known then - 1
         else if j < i then 1 else if i < j then - 1 else 0)"

text \<open>\<open>renamed\<close> is \<open>ColumnRename.get_dict()\<close>.\<close>

definition get_variable_name :: "form \<Rightarrow> (string, string) dict \<Rightarrow> string \<Rightarrow> survey_error + string" where
  "get_variable_name f renamed path =
     (if path \<notin> set (get_keys f) then Inl Assertion_Error
      else
        (let header = get_headers f False 4 ! index_of (get_keys f) path
         in Inr (case map_of renamed header of Some (c # cs) \<Rightarrow> c # cs | _ \<Rightarrow> header)))"

section \<open>Rows for a spreadsheet\<close>

definition rename_key :: "(string, pyval) dict \<Rightarrow> string \<Rightarrow> string \<Rightarrow> survey_error + (string, pyval) dict" where
  "rename_key item old_key new_key =
     (if map_of item new_key \<noteq> None then Inl Assertion_Error
      else (case map_of item old_key of
              None \<Rightarrow> Inl Key_Error
            | Some v \<Rightarrow> Inr (AList.delete old_key (AList.update new_key v item))))"

text \<open>\<open>elem.bind.get("type")\<close>: a choice has no bind at all.\<close>

definition bound_type :: "element \<Rightarrow> survey_error + string option" where
  "bound_type e =
     (case e of
        Choice _ _ _ \<Rightarrow> Inl Attribute_Error
      | _ \<Rightarrow> (case el_bind e of None \<Rightarrow> Inl Attribute_Error | Some t \<Rightarrow> Inr t))"

definition cell_words :: "(string, pyval) dict \<Rightarrow> string \<Rightarrow> survey_error + string list" where
  "cell_words item key =
     (case map_of item key of
        Some (PStr s) \<Rightarrow> Inr (split_ws s) | Some _ \<Rightarrow> Inl Attribute_Error | None \<Rightarrow> Inl Key_Error)"

definition expand_select_all_that_apply ::
    "(string, pyval) dict \<Rightarrow> string \<Rightarrow> element option \<Rightarrow> survey_error + (string, pyval) dict" where
  "expand_select_all_that_apply item key elem =
     (case elem of
        None \<Rightarrow> Inr item
      | Some e \<Rightarrow>
          (case bound_type e of
             Inl err \<Rightarrow> Inl err
           | Inr t \<Rightarrow>
               if t = Some ''string'' \<and> type_of e = Some MULTIPLE_SELECT_TYPE then
                 (case cell_words item key of
                    Inl err \<Rightarrow> Inl err
                  | Inr selected \<Rightarrow>
                      (case options_of e of
                         None \<Rightarrow> Inl Attribute_Error
                       | Some os \<Rightarrow>
                           Inr (AList.delete key
                             (dict_update item
                               (map (\<lambda>c. (get_abbreviated_xpath (el_path e @ el_path c), PBool (el_name c \<in> set selected))) os)))))
               else Inr item))"

definition expand_geocodes ::
    "(string, pyval) dict \<Rightarrow> string \<Rightarrow> element option \<Rightarrow> survey_error + (string, pyval) dict" where
  "expand_geocodes item key elem =
     (case elem of
        None \<Rightarrow> Inr item
      | Some e \<Rightarrow>
          (case bound_type e of
             Inl err \<Rightarrow> Inl err
           | Inr t \<Rightarrow>
               if t = Some ''geopoint'' then
                 (case cell_words item key of
                    Inl err \<Rightarrow> Inl err
                  | Inr geodata \<Rightarrow>
                      if length geodata \<le> length geodata_suffixes
                      then Inr (dict_update item (zip (map (\<lambda>x. key @ ''_'' @ x) geodata_suffixes) (map PStr geodata)))
                      else Inl Index_Error)
               else Inr item))"

text \<open>One row of \<open>get_data_for_excel\<close>; \<open>None\<close> when a lookup does not end.\<close>

fun excel_row ::
    "string list \<Rightarrow> (string, pyval) dict \<Rightarrow> element_index \<Rightarrow> ((survey_error + (string, pyval) dict) \<times> element_index) option" where
  "excel_row [] row ix = Some (Inr row, ix)"
| "excel_row (key # ks) row ix =
     (case get_element key ix of
        None \<Rightarrow> None
      | Some (elem, ix1) \<Rightarrow>
          (case expand_select_all_that_apply row key elem of
             Inl e \<Rightarrow> Some (Inl e, ix1)
           | Inr row1 \<Rightarrow>
               (case expand_geocodes row1 key elem of
                  Inl e \<Rightarrow> Some (Inl e, ix1)
                | Inr row2 \<Rightarrow> excel_row ks row2 ix1)))"

section \<open>Tables of a nested record\<close>

text \<open>
  \<open>DictOrganizer\<close>: a table for the record and for every dictionary and list in it.  The loop that is
  to copy the values of a record copies those that are a dictionary and a list at once: none.
\<close>

type_synonym obs = "(string, (string, pyval) dict list) dict"

definition obs_row :: "string \<Rightarrow> int \<Rightarrow> nat \<Rightarrow> (string, pyval) dict" where
  "obs_row parent_table parent_index this_index =
     [(''_parent_table_name'', PStr parent_table), (''_parent_index'', PInt parent_index), (''_index'', PInt (int this_index))]"

definition table_rows :: "obs \<Rightarrow> string \<Rightarrow> (string, pyval) dict list" where
  "table_rows obs t = (case map_of obs t of Some rows \<Rightarrow> rows | None \<Rightarrow> [])"

definition add_obs :: "obs \<Rightarrow> string \<Rightarrow> string \<Rightarrow> int \<Rightarrow> obs" where
  "add_obs obs t parent_table parent_index =
     AList.update t (table_rows obs t @ [obs_row parent_table parent_index (length (table_rows obs t))]) obs"

text \<open>\<open>_build_obs_from_dict\<close>: the items of a dictionary whose row, at \<open>this_index\<close>, is there.\<close>

fun obs_items :: "(string \<times> pyval) list \<Rightarrow> obs \<Rightarrow> string \<Rightarrow> nat \<Rightarrow> survey_error + obs"
  and obs_list :: "pyval list \<Rightarrow> obs \<Rightarrow> string \<Rightarrow> string \<Rightarrow> nat \<Rightarrow> survey_error + obs" where
  "obs_items [] obs table this_index = Inr obs"
| "obs_items ((k, v) # items) obs table this_index =
     (case (case v of
              PDict d \<Rightarrow> obs_items d (add_obs obs k table (int this_index)) k (length (table_rows obs k))
            | PList xs \<Rightarrow> obs_list xs obs k table this_index
            | _ \<Rightarrow> Inr obs) of
        Inl e \<Rightarrow> Inl e | Inr obs1 \<Rightarrow> obs_items items obs1 table this_index)"
| "obs_list [] obs k table this_index = Inr obs"
| "obs_list (x # xs) obs k table this_index =
     (case x of
        PDict d \<Rightarrow>
          (case obs_items d (add_obs obs k table (int this_index)) k (length (table_rows obs k)) of
             Inl e \<Rightarrow> Inl e | Inr obs1 \<Rightarrow> obs_list xs obs1 k table this_index)
      | _ \<Rightarrow> Inl Attribute_Error)"

definition build_obs_from_dict :: "pyval \<Rightarrow> obs \<Rightarrow> string \<Rightarrow> string \<Rightarrow> int \<Rightarrow> survey_error + obs" where
  "build_obs_from_dict dict_item obs table parent_table parent_index =
     (case dict_item of
        PDict d \<Rightarrow> obs_items d (add_obs obs table parent_table parent_index) table (length (table_rows obs table))
      | _ \<Rightarrow> Inl Attribute_Error)"

definition get_observation_from_dict :: "(string, pyval) dict \<Rightarrow> survey_error + obs" where
  "get_observation_from_dict item =
     (case item of
        [(root_name, v)] \<Rightarrow> build_obs_from_dict v [] root_name [] (- 1)
      | _ \<Rightarrow> Inl Assertion_Error)"

text \<open>Every row knows its place in its table and a row that is there.\<close>

definition row_exists :: "obs \<Rightarrow> string \<Rightarrow> int \<Rightarrow> bool" where
  "row_exists obs p j \<longleftrightarrow> p = [] \<and> j = - 1 \<or> (\<exists>n < length (table_rows obs p). j = int n)"

definition obs_linked :: "obs \<Rightarrow> bool" where
  "obs_linked obs \<longleftrightarrow>
     (\<forall>t i. i < length (table_rows obs t) \<longrightarrow> (\<exists>p j. table_rows obs t ! i = obs_row p j i \<and> row_exists obs p j))"

definition obs_grow :: "obs \<Rightarrow> obs \<Rightarrow> bool" where
  "obs_grow obs obs' \<longleftrightarrow> (\<forall>t. length (table_rows obs t) \<le> length (table_rows obs' t))"

lemma obs_grow_trans: "obs_grow a b \<Longrightarrow> obs_grow b c \<Longrightarrow> obs_grow a c"
  unfolding obs_grow_def by (meson le_trans)

lemma table_rows_add [simp]:
  "table_rows (add_obs obs t p j) u =
     (if u = t then table_rows obs t @ [obs_row p j (length (table_rows obs t))] else table_rows obs u)"
  by (simp add: table_rows_def add_obs_def update_conv')

lemma row_exists_grow: "row_exists obs p j \<Longrightarrow> obs_grow obs obs' \<Longrightarrow> row_exists obs' p j"
  unfolding row_exists_def obs_grow_def by (elim disjE exE conjE) (use less_le_trans in blast)+

lemma grow_add: "obs_grow obs (add_obs obs t p j)"
  by (simp add: obs_grow_def)

lemma add_obs_linked:
  assumes "obs_linked obs" "row_exists obs p j"
  shows "obs_linked (add_obs obs t p j)"
  unfolding obs_linked_def
proof (intro allI impI)
  fix u i
  assume i: "i < length (table_rows (add_obs obs t p j) u)"
  show "\<exists>p' j'. table_rows (add_obs obs t p j) u ! i = obs_row p' j' i \<and> row_exists (add_obs obs t p j) p' j'"
  proof (cases "i < length (table_rows obs u)")
    case True
    with assms(1) obtain p' j' where "table_rows obs u ! i = obs_row p' j' i" "row_exists obs p' j'"
      unfolding obs_linked_def by blast
    moreover have "table_rows (add_obs obs t p j) u ! i = table_rows obs u ! i" using True by (auto simp: nth_append)
    ultimately show ?thesis using row_exists_grow [OF _ grow_add] by metis
  next
    case False
    with i have "u = t" "i = length (table_rows obs t)" by (auto split: if_splits)
    then have "table_rows (add_obs obs t p j) u ! i = obs_row p j i" by (simp add: nth_append)
    with row_exists_grow [OF assms(2) grow_add] show ?thesis by blast
  qed
qed

lemma obs_items_linked:
  "obs_items items obs table this_index = Inr obs' \<Longrightarrow> obs_linked obs \<Longrightarrow> this_index < length (table_rows obs table)
    \<Longrightarrow> obs_linked obs' \<and> obs_grow obs obs'"
  "obs_list xs obs k table this_index = Inr obs' \<Longrightarrow> obs_linked obs \<Longrightarrow> this_index < length (table_rows obs table)
    \<Longrightarrow> obs_linked obs' \<and> obs_grow obs obs'"
proof (induction items obs table this_index and xs obs k table this_index arbitrary: obs' and obs' rule: obs_items_obs_list.induct)
  case (2 k v items obs table this_index)
  let ?a = "add_obs obs k table (int this_index)"
  have a: "obs_linked ?a" "length (table_rows obs k) < length (table_rows ?a k)"
    using 2(6) by (auto simp: row_exists_def intro!: add_obs_linked [OF \<open>obs_linked obs\<close>])
  from 2(4) obtain obs1 where 1: "(case v of PDict d \<Rightarrow> obs_items d ?a k (length (table_rows obs k))
      | PList xs \<Rightarrow> obs_list xs obs k table this_index | _ \<Rightarrow> Inr obs) = Inr obs1"
    and rest: "obs_items items obs1 table this_index = Inr obs'"
    by (auto split: sum.splits)
  have step: "obs_linked obs1 \<and> obs_grow obs obs1"
  proof (cases v)
    case (PDict d)
    with 1 2(2) [OF PDict _ a] have "obs_linked obs1 \<and> obs_grow ?a obs1" by simp
    then show ?thesis using obs_grow_trans [OF grow_add] by blast
  next
    case (PList xs)
    with 1 2(1) [OF PList _ 2(5,6)] show ?thesis by simp
  qed (use 1 2(5) in \<open>simp_all add: obs_grow_def\<close>)
  then have "this_index < length (table_rows obs1 table)" using 2(6) unfolding obs_grow_def by (meson less_le_trans)
  with step 2(3) [OF 1 rest] show ?case using obs_grow_trans by blast
next
  case (4 x xs obs k table this_index)
  let ?a = "add_obs obs k table (int this_index)"
  have a: "obs_linked ?a" "length (table_rows obs k) < length (table_rows ?a k)"
    using 4(5) by (auto simp: row_exists_def intro!: add_obs_linked [OF \<open>obs_linked obs\<close>])
  from 4(3) obtain d obs1 where x: "x = PDict d" and 1: "obs_items d ?a k (length (table_rows obs k)) = Inr obs1"
    and rest: "obs_list xs obs1 k table this_index = Inr obs'"
    by (auto split: pyval.splits sum.splits)
  have "obs_linked obs1 \<and> obs_grow ?a obs1" by (rule 4(1) [OF x 1 a])
  then have step: "obs_linked obs1 \<and> obs_grow obs obs1" using obs_grow_trans [OF grow_add] by blast
  then have "this_index < length (table_rows obs1 table)" using 4(5) unfolding obs_grow_def by (meson less_le_trans)
  with step 4(2) [OF x 1 rest] show ?case using obs_grow_trans by blast
qed (simp_all add: obs_grow_def)

text \<open>C32: The tables that are made of a nested record are linked: the row at a place of a table has that
  place as its index, and names a table and a row of it that exist (the row of the record itself names
  none).\<close>

theorem observations_are_linked:
  assumes "get_observation_from_dict item = Inr obs"
  shows "obs_linked obs"
proof -
  from assms obtain root d where item: "item = [(root, PDict d)]"
    and r: "obs_items d (add_obs [] root [] (- 1)) root 0 = Inr obs"
    by (auto simp: get_observation_from_dict_def build_obs_from_dict_def table_rows_def
        split: list.splits pyval.splits prod.splits)
  have "obs_linked []" by (simp add: obs_linked_def table_rows_def)
  then have "obs_linked (add_obs [] root [] (- 1))" by (rule add_obs_linked) (simp add: row_exists_def)
  moreover have "0 < length (table_rows (add_obs [] root [] (- 1)) root)" by simp
  ultimately show ?thesis using obs_items_linked(1) [OF r] by blast
qed

theorem observations_are_linked_witness:
  "\<exists>obs. get_observation_from_dict [(''f'', PDict [(''a'', PInt 1), (''r'', PList [PDict [], PDict [(''g'', PDict [])]])])] = Inr obs
     \<and> obs_linked obs \<and> map_of obs ''g'' = Some [obs_row ''r'' 1 0]"
proof -
  let ?i = "[(''f'', PDict [(''a'', PInt 1), (''r'', PList [PDict [], PDict [(''g'', PDict [])]])])]"
  have "case get_observation_from_dict ?i of Inl e \<Rightarrow> False | Inr obs \<Rightarrow> map_of obs ''g'' = Some [obs_row ''r'' 1 0]"
    by code_simp
  then show ?thesis using observations_are_linked [of ?i] by (auto split: sum.splits)
qed

text \<open>No value of the record gets into a table.\<close>

theorem observations_hold_no_values:
  "get_observation_from_dict [(''f'', PDict [(''a'', PInt 1)])] = Inr [(''f'', [obs_row [] (- 1) 0])]"
  by code_simp

section \<open>Lookups end\<close>

lemma join_butlast_shorter: "parts \<noteq> [] \<Longrightarrow> join [c] parts \<noteq> [] \<Longrightarrow> length (join [c] (butlast parts)) < length (join [c] parts)"
proof (induction parts)
  case (Cons p parts)
  show ?case
  proof (cases parts)
    case Nil
    with Cons.prems show ?thesis by simp
  next
    case outer: (Cons q qs)
    show ?thesis
    proof (cases qs)
      case Nil
      with outer show ?thesis by simp
    next
      case (Cons r rs)
      have "join [c] parts \<noteq> []" using outer Cons by (auto simp: join_Cons)
      with Cons.IH outer have "length (join [c] (butlast parts)) < length (join [c] parts)" by simp
      with outer Cons show ?thesis by (simp add: join_Cons)
    qed
  qed
qed simp

lemma parent_path_shorter: "path \<noteq> [] \<Longrightarrow> length (parent_path path) < length path"
  using join_butlast_shorter [of "split_on CHR ''/'' path" "CHR ''/''"] by (simp add: parent_path_def)

lemma parent_path_Nil [simp]: "parent_path [] = []"
  by (simp add: parent_path_def split_on_def)

lemma remember_keeps: "map_of ix k \<noteq> None \<Longrightarrow> map_of (remember parent found ix) k \<noteq> None"
  by (auto simp: remember_def update_conv' split: option.splits)

lemma lookup_with_root:
  "map_of ix [] \<noteq> None \<Longrightarrow> \<exists>found ix'. get_element path ix = Some (found, ix') \<and> map_of ix' [] \<noteq> None"
proof (induction path rule: length_induct)
  case (1 path)
  show ?case
  proof (cases "map_of ix (remove_all_indices path)")
    case (Some e)
    with 1(2) show ?thesis by (subst get_element.simps) auto
  next
    case None
    with 1(2) have "path \<noteq> []" by auto
    then obtain parent ix1 where "get_element (parent_path path) ix = Some (parent, ix1)" "map_of ix1 [] \<noteq> None"
      using 1 parent_path_shorter by blast
    with None remember_keeps [of ix1 "[]"] show ?thesis
      by (subst get_element.simps) (auto simp: Let_def)
  qed
qed

lemma found_has_root:
  assumes "get_element path ix = Some r" "path = []"
  shows "map_of ix [] \<noteq> None"
proof -
  have "path = [] \<longrightarrow> map_of ix [] \<noteq> None"
  proof (rule get_element.raw_induct [OF _ assms(1)], intro impI notI)
    fix look :: "string \<Rightarrow> element_index \<Rightarrow> (element option \<times> element_index) option" and path ix r
    assume IH: "\<And>path ix r. look path ix = Some r \<Longrightarrow> path = [] \<longrightarrow> map_of ix [] \<noteq> None"
      and r: "(case map_of ix (remove_all_indices path) of
          None \<Rightarrow> Option.bind (look (parent_path path) ix)
            (\<lambda>(parent, ix1).
               let found = choice_of parent (last (split_on CHR ''/'' path)) in Some (found, remember parent found ix1))
        | Some e \<Rightarrow> Some (Some e, ix)) = Some r"
      and "path = []" "map_of ix [] = None"
    then obtain parent ix1 where "look [] ix = Some (parent, ix1)" by (auto simp: bind_eq_Some_conv)
    with IH \<open>map_of ix [] = None\<close> show False by blast
  qed
  with assms(2) show ?thesis by simp
qed

lemma lookup_without_root: "map_of ix [] = None \<Longrightarrow> get_element [] ix = None"
  by (rule ccontr) (auto dest: found_has_root)

text \<open>C30: Looking up an element ends for every path, and leaves an index for which this holds again, exactly
  when the root of the survey is in the index under the empty path; without it the lookup of the parent of
  the empty path never ends.\<close>

theorem lookups_end_iff_root_known:
  "(\<forall>path. \<exists>found ix'. get_element path ix = Some (found, ix')) \<longleftrightarrow> map_of ix [] \<noteq> None"
proof
  assume "\<forall>path. \<exists>found ix'. get_element path ix = Some (found, ix')"
  then obtain r where "get_element [] ix = Some r" by blast
  then show "map_of ix [] \<noteq> None" by (rule found_has_root) (rule refl)
next
  assume "map_of ix [] \<noteq> None"
  then show "\<forall>path. \<exists>found ix'. get_element path ix = Some (found, ix')" using lookup_with_root by blast
qed

section \<open>Names survive the database\<close>

lemma decode_mark [simp]: "decode_dots (CHR ''L'' # CHR ''g'' # CHR ''='' # CHR ''='' # s) = CHR ''.'' # decode_dots s"
  by (simp add: numeral_eq_Suc)

lemma encode_dots_Cons: "encode_dots (c # cs) = (if c = CHR ''.'' then ''Lg=='' else [c]) @ encode_dots cs"
  by (simp add: encode_dots_def)

text \<open>A mark that begins with no encoded dot is a mark of the text itself.\<close>

lemma encode_dots_take:
  "CHR ''L'' \<notin> set m \<Longrightarrow> take (length m) (encode_dots cs) = m \<Longrightarrow> take (length m) cs = m"
proof (induction m arbitrary: cs)
  case (Cons x m)
  show ?case
  proof (cases cs)
    case Nil
    with Cons.prems(2) show ?thesis by (simp add: encode_dots_def)
  next
    case outer: (Cons c ds)
    with Cons.prems have "c = x" "take (length m) (encode_dots ds) = m"
      by (auto simp: encode_dots_Cons split: if_splits)
    with Cons outer show ?thesis by simp
  qed
qed simp

lemma take_sublist: "take n s = m \<Longrightarrow> sublist m s"
  by (metis sublist_take)

lemma decode_encode_dots: "\<not> sublist ''Lg=='' s \<Longrightarrow> decode_dots (encode_dots s) = s"
proof (induction s)
  case (Cons c cs)
  have IH: "decode_dots (encode_dots cs) = cs" using Cons by (auto simp: sublist_Cons_right)
  show ?case
  proof (cases "c = CHR ''.''")
    case True
    with IH show ?thesis by (simp add: encode_dots_Cons)
  next
    case False
    have "take 4 (c # encode_dots cs) \<noteq> ''Lg==''"
    proof
      assume a: "take 4 (c # encode_dots cs) = ''Lg==''"
      then have c: "c = CHR ''L''" and t: "take (length ''g=='') (encode_dots cs) = ''g==''"
        by (simp_all add: numeral_eq_Suc)
      have "take (length ''g=='') cs = ''g==''" by (rule encode_dots_take [OF _ t]) simp
      with c have "take 4 (c # cs) = ''Lg==''" by (simp add: numeral_eq_Suc)
      with take_sublist Cons.prems show False by blast
    qed
    with False IH show ?thesis by (simp add: encode_dots_Cons)
  qed
qed (simp add: encode_dots_def)

definition plain_name :: "string \<Rightarrow> bool" where
  "plain_name key \<longleftrightarrow> \<not> sublist ''Lg=='' key \<and> \<not> prefix ''JA=='' key"

lemma decode_encode_for_mongo: "plain_name key \<Longrightarrow> decode_from_mongo (encode_for_mongo key) = key"
proof (cases "\<exists>cs. key = CHR ''$'' # cs")
  case True
  assume p: "plain_name key"
  from True obtain cs where key: "key = CHR ''$'' # cs" by blast
  with p have "\<not> sublist ''Lg=='' cs" by (auto simp: plain_name_def sublist_Cons_right)
  then have "decode_dots (encode_dots cs) = cs" by (rule decode_encode_dots)
  then show ?thesis
    by (simp add: key encode_for_mongo_def decode_from_mongo_def encode_dots_Cons numeral_eq_Suc)
next
  case False
  assume p: "plain_name key"
  have e: "encode_for_mongo key = encode_dots key" using False by (auto simp: encode_for_mongo_def split: list.splits)
  have "take 4 (encode_dots key) \<noteq> ''JA==''"
  proof
    assume "take 4 (encode_dots key) = ''JA==''"
    then have t: "take (length ''JA=='') (encode_dots key) = ''JA==''" by (simp add: numeral_eq_Suc)
    have "take (length ''JA=='') key = ''JA==''" by (rule encode_dots_take [OF _ t]) simp
    then have "prefix ''JA=='' key" using take_is_prefix [of "length ''JA==''" key] by (simp only:)
    with p show False by (simp add: plain_name_def)
  qed
  with e p show ?thesis by (simp add: decode_from_mongo_def plain_name_def decode_encode_dots)
qed

text \<open>C31: The names under which answers are stored lead back to the questions: when no path has the marks of
  an encoded dot or dollar in it, decoding the stored name of an element gives its path, and so does looking
  it up in the dictionary of the form.\<close>

theorem stored_names_lead_back:
  assumes "e \<in> set (fo_elements f)" "\<forall>e \<in> set (fo_elements f). plain_name (abbreviated e)"
  shows "decode_from_mongo (encode_for_mongo (abbreviated e)) = abbreviated e
    \<and> map_of (get_mongo_field_names_dict f) (encode_for_mongo (abbreviated e)) = Some (abbreviated e)"
proof -
  have d: "decode_from_mongo (encode_for_mongo (abbreviated e)) = abbreviated e" if "e \<in> set (fo_elements f)" for e
    using assms(2) that by (intro decode_encode_for_mongo) blast
  let ?es = "map (\<lambda>e. (encode_for_mongo (abbreviated e), abbreviated e)) (fo_elements f)"
  have "(encode_for_mongo (abbreviated e), abbreviated e) \<in> set (rev ?es)" using assms(1) by simp
  from weak_map_of_SomeI [OF this] obtain v where v: "map_of (rev ?es) (encode_for_mongo (abbreviated e)) = Some v"
    by blast
  from map_of_SomeD [OF this] obtain e' where e': "e' \<in> set (fo_elements f)"
    "encode_for_mongo (abbreviated e) = encode_for_mongo (abbreviated e')" "v = abbreviated e'"
    unfolding set_rev set_map image_iff prod.inject by blast
  have "v = abbreviated e" using d [OF e'(1)] d [OF assms(1)] e'(2,3) by metis
  with v d [OF assms(1)] show ?thesis unfolding get_mongo_field_names_dict_def dict_get_update by simp
qed

definition sample_form :: form where
  "sample_form =
     (let q = Question ''a.b'' ''/data/g/a.b'' ''text'' (Some (Some ''string'')) No_Label None;
          g = Section Group ''g'' ''/data/g'' None No_Label [q];
          root = Section Survey_Root ''data'' ''/data'' None No_Label [g]
      in \<lparr>fo_root = root, fo_elements = [root, g, q], fo_language = None\<rparr>)"

theorem stored_names_lead_back_witness:
  "map_of (get_mongo_field_names_dict sample_form) ''g/aLg==b'' = Some ''g/a.b''"
proof -
  let ?q = "Question ''a.b'' ''/data/g/a.b'' ''text'' (Some (Some ''string'')) No_Label None"
  have names: "list_all (\<lambda>e. abbreviated e \<in> {[], ''g'', ''g/a.b''}) (fo_elements sample_form)" by code_simp
  have "plain_name p" if "p \<in> {[], ''g'', ''g/a.b''}" for p
    using that by (auto simp: plain_name_def sublist_Cons_right)
  with names have "\<forall>e \<in> set (fo_elements sample_form). plain_name (abbreviated e)" by (auto simp: list_all_iff)
  moreover have "?q \<in> set (fo_elements sample_form)" by (simp add: sample_form_def Let_def)
  moreover have "abbreviated ?q = ''g/a.b''" "encode_for_mongo ''g/a.b'' = ''g/aLg==b''" by code_simp+
  ultimately show ?thesis using stored_names_lead_back [of ?q sample_form] by simp
qed

text \<open>The tenth repeat is sorted before the second.\<close>

theorem tenth_repeat_before_second:
  "xpath_cmp sample_form ''r[10]/a'' ''r[2]/a'' = - 1"
  by code_simp

end
