(* ===== verification/Export_Cells.thy ===== *)
theory Export_Cells
  imports Survey
begin

text \<open>
  The cells of an exported row, \<open>onadata/libs/utils/export_builder.py\<close>: the splitting of
  multiple choices and of positions, labels, native types and the references between answers; and
  \<open>sanitize_for_export\<close> of \<open>libs/utils/common_tools.py\<close>.

  Answers are JSON values until they are converted; a number with a fraction and a date are the
  text of their value.  The conversions of Python's library are arguments.
\<close>

section \<open>Values\<close>

datatype cell = Val pyval | Native string string

datatype cell_error = Wrong_Type | No_Attribute | No_Key | Label_Failed survey_error | No_Return

type_synonym 'v row = "(string \<times> 'v) list"

record conversions =
  str_of :: "pyval \<Rightarrow> string"
  int_of :: "pyval \<Rightarrow> cell_error + int option"
  float_of :: "pyval \<Rightarrow> cell_error + string option"
  date_of :: "string \<Rightarrow> string option"
  datetime_of :: "string \<Rightarrow> string option"
  trunc_of :: "string \<Rightarrow> int"
  is_zero :: "string \<Rightarrow> bool"

record builder =
  split_multiples :: bool
  binary_multiples :: bool
  value_multiples :: bool
  show_labels :: bool
  language :: "string option"

definition formula_prefixes :: "char list" where
  "formula_prefixes = [CHR ''='', CHR ''+'', CHR ''-'', CHR ''@'', CHR 0x09, CHR 0x0D, CHR 0x0A, CHR ''%'']"

definition is_number :: "conversions \<Rightarrow> string \<Rightarrow> bool" where
  "is_number py token = (case float_of py (PStr token) of Inr (Some t) \<Rightarrow> True | _ \<Rightarrow> False)"

text \<open>A text of one character replaced everywhere, and the cell without a formula.\<close>

definition replace_char :: "char \<Rightarrow> string \<Rightarrow> string \<Rightarrow> string" where
  "replace_char c r s = concat (map (\<lambda>x. if x = c then r else [x]) s)"

definition sanitize_text :: "conversions \<Rightarrow> string \<Rightarrow> string" where
  "sanitize_text py s =
     (case s of
        [] \<Rightarrow> []
      | c # cs \<Rightarrow>
          (if c \<in> set formula_prefixes then
             (if c \<in> {CHR ''-'', CHR ''+''} \<and> list_all (is_number py) (split_ws s) then s
              else replace_char CHR ''|'' [CHR 0x5C, CHR ''|''] (CHR 0x27 # s))
           else replace_char CHR ''|'' [CHR 0x5C, CHR ''|''] s))"

definition sanitize_for_export :: "conversions \<Rightarrow> cell \<Rightarrow> cell" where
  "sanitize_for_export py c = (case c of Val (PStr s) \<Rightarrow> Val (PStr (sanitize_text py s)) | _ \<Rightarrow> c)"

section \<open>Choices\<close>

record select_choice =
  sc_label :: string
  sc_own_label :: string
  sc_label_xpath :: string
  sc_title :: string
  sc_xpath :: string

text \<open>\<open>get_choice_label_value\<close> of a value: one that is no text has no label.\<close>

definition label_cell :: "form \<Rightarrow> string option \<Rightarrow> string \<Rightarrow> pyval \<Rightarrow> cell_error + pyval" where
  "label_cell f lang key v =
     (case v of
        PStr s \<Rightarrow>
          (case fst (get_choice_label_value f key s lang (element_index f)) of
             None \<Rightarrow> Inl No_Return | Some (Inl e) \<Rightarrow> Inl (Label_Failed e) | Some (Inr t) \<Rightarrow> Inr (PStr t))
      | _ \<Rightarrow> if key \<in> set (get_select_multiple_xpaths f) then Inl No_Attribute else Inr v)"

text \<open>\<open>row.get(xpath) and str(row.get(xpath))\<close>: empty when there is no answer.\<close>

definition answer_text :: "conversions \<Rightarrow> pyval row \<Rightarrow> string \<Rightarrow> string" where
  "answer_text py row xpath =
     (case map_of row xpath of
        Some (PStr s) \<Rightarrow> s | Some v \<Rightarrow> if truthy v then str_of py v else [] | None \<Rightarrow> [])"

definition selections :: "string \<Rightarrow> string \<Rightarrow> string list" where
  "selections xpath data = map (\<lambda>w. xpath @ ''/'' @ w) (split_ws data)"

text \<open>The column and the value of one choice.\<close>

definition choice_cell :: "builder \<Rightarrow> string \<Rightarrow> string \<Rightarrow> select_choice \<Rightarrow> string \<times> pyval" where
  "choice_cell b xpath data c =
     (let sel = selections xpath data
      in if value_multiples b then
           (if show_labels b
            then (sc_label c, if sc_xpath c \<in> set sel then PStr (sc_own_label c) else PNone)
            else (sc_xpath c, case map_of (zip sel (split_ws data)) (sc_xpath c) of Some w \<Rightarrow> PStr w | None \<Rightarrow> PNone))
         else if binary_multiples b then
           (if show_labels b then sc_label c else sc_xpath c, PInt (if sc_xpath c \<in> set sel then 1 else 0))
         else
           (if show_labels b then sc_label c else sc_xpath c,
            if sel = [] then PNone else PBool (sc_xpath c \<in> set sel)))"

definition split_one_multiple ::
    "conversions \<Rightarrow> builder \<Rightarrow> form \<Rightarrow> string \<Rightarrow> select_choice list \<Rightarrow> pyval row \<Rightarrow> cell_error + pyval row" where
  "split_one_multiple py b f xpath choices row =
     (let data = answer_text py row xpath
      in case (if data \<noteq> [] \<and> show_labels b
               then map_sum id (\<lambda>t. AList.update xpath t row) (label_cell f (language b) xpath (PStr data)) else Inr row) of
           Inl e \<Rightarrow> Inl e
         | Inr row1 \<Rightarrow> Inr (dict_update row1 (map (choice_cell b xpath data) choices)))"

fun split_select_multiples ::
    "conversions \<Rightarrow> builder \<Rightarrow> form \<Rightarrow> (string \<times> select_choice list) list \<Rightarrow> pyval row \<Rightarrow> cell_error + pyval row" where
  "split_select_multiples py b f [] row = Inr row"
| "split_select_multiples py b f ((xpath, choices) # multiples) row =
     (case split_one_multiple py b f xpath choices row of
        Inl e \<Rightarrow> Inl e | Inr row1 \<Rightarrow> split_select_multiples py b f multiples row1)"

text \<open>The labels of multiple choices that are not split, and of single ones.\<close>

fun label_multiples :: "conversions \<Rightarrow> builder \<Rightarrow> form \<Rightarrow> string list \<Rightarrow> pyval row \<Rightarrow> cell_error + pyval row" where
  "label_multiples py b f [] row = Inr row"
| "label_multiples py b f (xpath # xs) row =
     (let data = answer_text py row xpath
      in if data = [] then label_multiples py b f xs row
         else (case label_cell f (language b) xpath (PStr data) of
                 Inl e \<Rightarrow> Inl e | Inr t \<Rightarrow> label_multiples py b f xs (AList.update xpath t row)))"

fun label_singles :: "builder \<Rightarrow> form \<Rightarrow> string list \<Rightarrow> pyval row \<Rightarrow> cell_error + pyval row" where
  "label_singles b f [] row = Inr row"
| "label_singles b f (key # ks) row =
     (case map_of row key of
        None \<Rightarrow> label_singles b f ks row
      | Some v \<Rightarrow>
          (case label_cell f (language b) key v of
             Inl e \<Rightarrow> Inl e | Inr t \<Rightarrow> label_singles b f ks (AList.update key t row)))"

section \<open>Positions and encoded names\<close>

fun split_gps_components :: "(string \<times> string list) list \<Rightarrow> pyval row \<Rightarrow> cell_error + pyval row" where
  "split_gps_components [] row = Inr row"
| "split_gps_components ((xpath, components) # fs) row =
     (case map_of row xpath of
        Some (PStr s) \<Rightarrow> split_gps_components fs (dict_update row (zip components (map PStr (split_ws s))))
      | Some v \<Rightarrow> if truthy v then Inl No_Attribute else split_gps_components fs row
      | None \<Rightarrow> split_gps_components fs row)"

fun decode_mongo_encoded_fields :: "(string \<times> string) list \<Rightarrow> pyval row \<Rightarrow> pyval row" where
  "decode_mongo_encoded_fields [] row = row"
| "decode_mongo_encoded_fields ((xpath, encoded_xpath) # fs) row =
     decode_mongo_encoded_fields fs
       (case map_of row encoded_xpath of
          Some v \<Rightarrow> if truthy v then AList.update xpath v (AList.delete encoded_xpath row) else row
        | None \<Rightarrow> row)"

section \<open>Native types\<close>

definition convertible :: "string list" where
  "convertible = [''int'', ''decimal'', ''date'']"

definition string_to_date_with_xls_validation :: "conversions \<Rightarrow> cell \<Rightarrow> cell" where
  "string_to_date_with_xls_validation py c =
     (case c of Val (PStr s) \<Rightarrow> (case date_of py s of Some d \<Rightarrow> Native ''date'' d | None \<Rightarrow> c) | _ \<Rightarrow> c)"

text \<open>\<open>CONVERT_FUNCS\<close>; \<open>None\<close> is a \<open>ValueError\<close>, which leaves the value as it is.\<close>

definition convert_func :: "conversions \<Rightarrow> string \<Rightarrow> cell \<Rightarrow> cell_error + cell option" where
  "convert_func py ty c =
     (if ty = ''int'' then
        (case c of
           Val v \<Rightarrow> map_sum id (map_option (\<lambda>i. Val (PInt i))) (int_of py v)
         | Native t s \<Rightarrow> if t = ''decimal'' then Inr (Some (Val (PInt (trunc_of py s)))) else Inl Wrong_Type)
      else if ty = ''decimal'' then
        (case c of
           Val v \<Rightarrow> map_sum id (map_option (Native ''decimal'')) (float_of py v)
         | Native t s \<Rightarrow> if t = ''decimal'' then Inr (Some c) else Inl Wrong_Type)
      else if ty = ''date'' then Inr (Some (string_to_date_with_xls_validation py c))
      else if ty = ''dateTime'' then
        (case c of Val (PStr s) \<Rightarrow> Inr (map_option (Native ''dateTime'') (datetime_of py (take 19 s))) | _ \<Rightarrow> Inl Wrong_Type)
      else Inr (Some c))"

definition convert_type :: "conversions \<Rightarrow> cell \<Rightarrow> string \<Rightarrow> cell_error + cell" where
  "convert_type py c ty =
     (case convert_func py ty c of Inl e \<Rightarrow> Inl e | Inr (Some d) \<Rightarrow> Inr d | Inr None \<Rightarrow> Inr c)"

text \<open>A column of a section.\<close>

record column =
  co_label :: string
  co_title :: string
  co_xpath :: string
  co_type :: "string option"
  co_parent :: "string option"
  co_label_xpath :: "string option"

fun convert_columns :: "conversions \<Rightarrow> column list \<Rightarrow> cell row \<Rightarrow> cell_error + cell row" where
  "convert_columns py [] row = Inr row"
| "convert_columns py (elm # elms) row =
     (case (map_of row (co_xpath elm), co_type elm) of
        (Some v, Some ty) \<Rightarrow>
          if ty \<in> set convertible \<and> v \<noteq> Val PNone \<and> v \<noteq> Val (PStr [])
          then (case convert_type py v ty of
                  Inl e \<Rightarrow> Inl e | Inr c \<Rightarrow> convert_columns py elms (AList.update (co_xpath elm) c row))
          else convert_columns py elms row
      | _ \<Rightarrow> convert_columns py elms row)"

section \<open>References between answers\<close>

definition is_word :: "char \<Rightarrow> bool" where
  "is_word c \<longleftrightarrow>
     c \<in> set ''abcdefghijklmnopqrstuvwxyzABCDEFGHIJKLMNOPQRSTUVWXYZ0123456789_''"

text \<open>The names in \<open>re.findall(r"\$\{\w+\}", value)\<close>, and \<open>str.replace\<close>.\<close>

function dynamic_names :: "string \<Rightarrow> string list" where
  "dynamic_names [] = []"
| "dynamic_names (c # cs) =
     (let w = takeWhile is_word (tl cs); rest = dropWhile is_word (tl cs)
      in if c = CHR ''$'' \<and> cs \<noteq> [] \<and> hd cs = CHR ''{'' \<and> w \<noteq> [] \<and> rest \<noteq> [] \<and> hd rest = CHR ''}''
         then w # dynamic_names (tl rest) else dynamic_names cs)"
  by pat_completeness auto
termination
proof (relation "measure length")
  fix c :: char and cs w rest
  have "length (tl (dropWhile is_word (tl cs))) \<le> length cs"
    using length_dropWhile_le [of is_word "tl cs"] by (simp add: le_diff_conv)
  then show "rest = dropWhile is_word (tl cs) \<Longrightarrow> (tl rest, c # cs) \<in> measure length" by simp
qed simp_all

function replace_text :: "string \<Rightarrow> string \<Rightarrow> string \<Rightarrow> string" where
  "replace_text pat rep [] = []"
| "replace_text pat rep (c # cs) =
     (if pat \<noteq> [] \<and> take (length pat) (c # cs) = pat then rep @ replace_text pat rep (drop (length pat - 1) cs)
      else c # replace_text pat rep cs)"
  by pat_completeness auto
termination by (relation "measure (\<lambda>(pat, rep, s). length s)") auto

definition cell_true :: "conversions \<Rightarrow> cell \<Rightarrow> bool" where
  "cell_true py c = (case c of Val v \<Rightarrow> truthy v | Native t s \<Rightarrow> t \<noteq> ''decimal'' \<or> \<not> is_zero py s)"

fun fill_names :: "conversions \<Rightarrow> cell row \<Rightarrow> string list \<Rightarrow> string \<Rightarrow> cell_error + string" where
  "fill_names py row [] s = Inr s"
| "fill_names py row (w # ws) s =
     (case map_of row w of
        Some c \<Rightarrow>
          if cell_true py c
          then (case c of
                  Val (PStr t) \<Rightarrow> fill_names py row ws (replace_text (''${'' @ w @ ''}'') t s) | _ \<Rightarrow> Inl Wrong_Type)
          else fill_names py row ws s
      | None \<Rightarrow> fill_names py row ws s)"

fun map_dynamic :: "conversions \<Rightarrow> string list \<Rightarrow> cell row \<Rightarrow> cell_error + cell row" where
  "map_dynamic py [] row = Inr row"
| "map_dynamic py (key # ks) row =
     (case map_of row key of
        Some (Val (PStr s)) \<Rightarrow>
          (case fill_names py row (dynamic_names s) s of
             Inl e \<Rightarrow> Inl e | Inr t \<Rightarrow> map_dynamic py ks (AList.update key (Val (PStr t)) row))
      | _ \<Rightarrow> map_dynamic py ks row)"

section \<open>A row\<close>

text \<open>What \<open>set_survey\<close> has found out about the sections.\<close>

record plan =
  pl_sections :: "(string \<times> column list) list"
  pl_multiples :: "(string, (string \<times> select_choice list) list) dict"
  pl_ones :: "(string, string list) dict"
  pl_gps :: "(string, (string \<times> string list) list) dict"
  pl_osm :: "(string, (string \<times> string list) list) dict"
  pl_encoded :: "(string, (string \<times> string) list) dict"

definition at_section :: "(string, 'a list) dict \<Rightarrow> string \<Rightarrow> 'a list" where
  "at_section d name = (case map_of d name of Some xs \<Rightarrow> xs | None \<Rightarrow> [])"

text \<open>The first half of \<open>pre_process_row\<close>, on the answers, and all of it.\<close>

definition split_row ::
    "conversions \<Rightarrow> builder \<Rightarrow> form \<Rightarrow> plan \<Rightarrow> string \<Rightarrow> pyval row \<Rightarrow> cell_error + pyval row" where
  "split_row py b f pl name row =
     (let row1 = decode_mongo_encoded_fields (at_section (pl_encoded pl) name) row;
          multiples = at_section (pl_multiples pl) name
      in case (if split_multiples b then split_select_multiples py b f multiples row1
               else if show_labels b then label_multiples py b f (map fst multiples) row1 else Inr row1) of
           Inl e \<Rightarrow> Inl e
         | Inr row2 \<Rightarrow>
             (case split_gps_components (at_section (pl_gps pl) name) row2 of
                Inl e \<Rightarrow> Inl e
              | Inr row3 \<Rightarrow>
                  if show_labels b then label_singles b f (at_section (pl_ones pl) name) row3 else Inr row3))"

definition pre_process_row ::
    "conversions \<Rightarrow> builder \<Rightarrow> form \<Rightarrow> plan \<Rightarrow> pyval row \<Rightarrow> string \<times> column list \<Rightarrow> cell_error + cell row" where
  "pre_process_row py b f pl row section =
     (case split_row py b f pl (fst section) row of
        Inl e \<Rightarrow> Inl e
      | Inr row1 \<Rightarrow>
          (case convert_columns py (snd section) (map (\<lambda>(k, v). (k, Val v)) row1) of
             Inl e \<Rightarrow> Inl e
           | Inr row2 \<Rightarrow>
               (case (case map_of row2 ''_submission_time'' of
                        None \<Rightarrow> Inr row2
                      | Some c \<Rightarrow>
                          map_sum id (\<lambda>d. AList.update ''_submission_time'' d row2) (convert_type py c ''dateTime'')) of
                  Inl e \<Rightarrow> Inl e
                | Inr row3 \<Rightarrow> map_dynamic py (map fst row3) row3)))"

section \<open>No cell is a formula\<close>

text \<open>Every bar has a backslash before it.\<close>

definition bars_escaped :: "string \<Rightarrow> bool" where
  "bars_escaped s \<longleftrightarrow> (\<forall>i < length s. s ! i = CHR ''|'' \<longrightarrow> 0 < i \<and> s ! (i - 1) = CHR 0x5C)"

lemma bars_escaped_append:
  "bars_escaped s \<Longrightarrow> bars_escaped t \<Longrightarrow> bars_escaped (s @ t)"
  unfolding bars_escaped_def
proof (intro allI impI)
  fix i
  assume s: "\<forall>i < length s. s ! i = CHR ''|'' \<longrightarrow> 0 < i \<and> s ! (i - 1) = CHR 0x5C"
    and t: "\<forall>i < length t. t ! i = CHR ''|'' \<longrightarrow> 0 < i \<and> t ! (i - 1) = CHR 0x5C"
    and i: "i < length (s @ t)" "(s @ t) ! i = CHR ''|''"
  show "0 < i \<and> (s @ t) ! (i - 1) = CHR 0x5C"
  proof (cases "i < length s")
    case True
    with s i(2) show ?thesis by (simp add: nth_append less_imp_diff_less)
  next
    case False
    with i have "i - length s < length t" "t ! (i - length s) = CHR ''|''" by (auto simp: nth_append)
    with t have "0 < i - length s" "t ! (i - length s - 1) = CHR 0x5C" by blast+
    then show ?thesis by (auto simp: nth_append)
  qed
qed

lemma replace_bars_escaped: "bars_escaped (replace_char CHR ''|'' [CHR 0x5C, CHR ''|''] s)"
proof (induction s)
  case (Cons c s)
  have "bars_escaped (if c = CHR ''|'' then [CHR 0x5C, CHR ''|''] else [c])"
    by (auto simp: bars_escaped_def less_Suc_eq nth_Cons')
  from bars_escaped_append [OF this Cons] show ?case by (simp add: replace_char_def)
qed (simp add: replace_char_def bars_escaped_def)

text \<open>C34: No text of an export is taken for a formula: it begins with none of the characters that
  begin one, unless every word of it is a number, and is then left as it was; otherwise every bar in it is
  escaped.\<close>

theorem sanitized_is_no_formula:
  "sanitize_for_export py (Val (PStr s)) = Val (PStr t) \<Longrightarrow>
     t = s \<and> list_all (is_number py) (split_ws s) \<and> s \<noteq> [] \<and> hd s \<in> {CHR ''-'', CHR ''+''}
     \<or> (t \<noteq> [] \<longrightarrow> hd t \<notin> set formula_prefixes) \<and> bars_escaped t"
proof -
  assume "sanitize_for_export py (Val (PStr s)) = Val (PStr t)"
  then have t: "t = sanitize_text py s" by (simp add: sanitize_for_export_def)
  show ?thesis
  proof (cases s)
    case Nil
    with t show ?thesis by (simp add: sanitize_text_def bars_escaped_def)
  next
    case (Cons c cs)
    show ?thesis
    proof (cases "c \<in> set formula_prefixes")
      case True
      with t Cons replace_bars_escaped [of "CHR 0x27 # s"] show ?thesis
        by (auto simp: sanitize_text_def replace_char_def formula_prefixes_def)
    next
      case False
      with t Cons replace_bars_escaped [of s] show ?thesis
        by (auto simp: sanitize_text_def replace_char_def formula_prefixes_def)
    qed
  qed
qed

definition sample_py :: conversions where
  "sample_py =
     \<lparr>str_of = (\<lambda>_. ''1''), int_of = (\<lambda>_. Inr None),
      float_of = (\<lambda>v. Inr (if v = PStr ''-1.5'' then Some ''-1.5'' else None)),
      date_of = (\<lambda>_. None), datetime_of = (\<lambda>_. None), trunc_of = (\<lambda>_. 0), is_zero = (\<lambda>_. False)\<rparr>"

theorem sanitized_is_no_formula_witness:
  "hd (sanitize_text sample_py ''=DDE|cmd'') \<notin> set formula_prefixes \<and> bars_escaped (sanitize_text sample_py ''=DDE|cmd'')
     \<and> sanitize_text sample_py ''-1.5'' = ''-1.5''"
proof -
  have "sanitize_text sample_py ''=DDE|cmd'' \<noteq> []" "sanitize_text sample_py ''-1.5'' = ''-1.5''" by code_simp+
  then show ?thesis
    using sanitized_is_no_formula [of sample_py "''=DDE|cmd''" "sanitize_text sample_py ''=DDE|cmd''"]
    by (auto simp: sanitize_for_export_def)
qed

section \<open>Columns of choices\<close>

lemma choice_column: "\<not> show_labels b \<Longrightarrow> fst (choice_cell b xpath data c) = sc_xpath c"
  by (simp add: choice_cell_def Let_def)

text \<open>The columns of the choices, one after the other, are different, and none is a question.\<close>

definition choice_columns :: "(string \<times> select_choice list) list \<Rightarrow> string list" where
  "choice_columns ms = concat (map (\<lambda>m. map sc_xpath (snd m)) ms)"

definition columns_apart :: "(string \<times> select_choice list) list \<Rightarrow> bool" where
  "columns_apart ms \<longleftrightarrow> distinct (choice_columns ms) \<and> fst ` set ms \<inter> set (choice_columns ms) = {}"

lemma choice_columns_Cons: "choice_columns ((x, cs) # ms) = map sc_xpath cs @ choice_columns ms"
  by (simp add: choice_columns_def)

lemma columns_apart_Cons:
  "columns_apart ((x, cs) # ms) \<longleftrightarrow>
     distinct (map sc_xpath cs) \<and> sc_xpath ` set cs \<inter> set (choice_columns ms) = {} \<and> columns_apart ms
     \<and> x \<notin> sc_xpath ` set cs \<and> x \<notin> set (choice_columns ms) \<and> fst ` set ms \<inter> sc_xpath ` set cs = {}"
proof -
  have "insert x F \<inter> (A \<union> B) = {} \<longleftrightarrow> x \<notin> A \<and> x \<notin> B \<and> F \<inter> A = {} \<and> F \<inter> B = {}" for F A B :: "string set"
    by blast
  then show ?thesis
    unfolding columns_apart_def choice_columns_Cons distinct_append set_append set_map list.set image_insert fst_conv
    by (simp only:) blast
qed

lemma answer_text_cong: "map_of row xpath = map_of row' xpath \<Longrightarrow> answer_text py row xpath = answer_text py row' xpath"
  by (simp add: answer_text_def)

lemma split_one:
  assumes "\<not> show_labels b"
  obtains row1 where "split_one_multiple py b f xpath choices row = Inr row1"
    "\<And>k. k \<notin> sc_xpath ` set choices \<Longrightarrow> map_of row1 k = map_of row k"
    "\<And>c. c \<in> set choices \<Longrightarrow> distinct (map sc_xpath choices)
       \<Longrightarrow> map_of row1 (sc_xpath c) = Some (snd (choice_cell b xpath (answer_text py row xpath) c))"
proof
  let ?g = "choice_cell b xpath (answer_text py row xpath)"
  let ?row1 = "dict_update row (map ?g choices)"
  show "split_one_multiple py b f xpath choices row = Inr ?row1"
    using assms by (simp add: split_one_multiple_def Let_def)
  have keys: "fst ` set (rev (map ?g choices)) = sc_xpath ` set choices"
    using choice_column [OF assms] by (simp add: image_image)
  show "map_of ?row1 k = map_of row k" if "k \<notin> sc_xpath ` set choices" for k
  proof -
    have "map_of (rev (map ?g choices)) k = None" using that keys by (simp only: map_of_eq_None_iff) blast
    then show ?thesis by (simp only: dict_get_update option.case)
  qed
  show "map_of ?row1 (sc_xpath c) = Some (snd (?g c))"
    if c: "c \<in> set choices" and d: "distinct (map sc_xpath choices)" for c
  proof -
    have "map fst (map ?g choices) = map sc_xpath choices" using choice_column [OF assms] by simp
    then have dist: "distinct (map fst (rev (map ?g choices)))" using d by (metis distinct_rev rev_map)
    have "?g c = (sc_xpath c, snd (?g c))" using choice_column [OF assms] by (metis surjective_pairing)
    then have "(sc_xpath c, snd (?g c)) \<in> set (rev (map ?g choices))" using c by (metis image_eqI list.set_map set_rev)
    with dist have "map_of (rev (map ?g choices)) (sc_xpath c) = Some (snd (?g c))" by (rule map_of_is_SomeI)
    then show ?thesis by (simp only: dict_get_update option.case)
  qed
qed

lemma split_all:
  assumes "\<not> show_labels b" "columns_apart ms"
  shows "\<exists>row'. split_select_multiples py b f ms row = Inr row'
    \<and> (\<forall>k. k \<notin> set (choice_columns ms) \<longrightarrow> map_of row' k = map_of row k)
    \<and> (\<forall>(x, cs) \<in> set ms. \<forall>c \<in> set cs. map_of row' (sc_xpath c) = Some (snd (choice_cell b x (answer_text py row x) c)))"
  using assms(2)
proof (induction ms arbitrary: row)
  case (Cons m ms)
  obtain x cs where m: "m = (x, cs)" by (cases m)
  obtain row1 where r1: "split_one_multiple py b f x cs row = Inr row1"
    and other: "\<And>k. k \<notin> sc_xpath ` set cs \<Longrightarrow> map_of row1 k = map_of row k"
    and own: "\<And>c. c \<in> set cs \<Longrightarrow> distinct (map sc_xpath cs)
      \<Longrightarrow> map_of row1 (sc_xpath c) = Some (snd (choice_cell b x (answer_text py row x) c))"
    using split_one [OF assms(1), of py f x cs row] by metis
  have apart: "columns_apart ms" "distinct (map sc_xpath cs)" "sc_xpath ` set cs \<inter> set (choice_columns ms) = {}"
    "fst ` set ms \<inter> sc_xpath ` set cs = {}"
    using Cons.prems by (simp_all add: columns_apart_Cons m)
  obtain row' where r: "split_select_multiples py b f ms row1 = Inr row'"
    and other': "\<And>k. k \<notin> set (choice_columns ms) \<Longrightarrow> map_of row' k = map_of row1 k"
    and own': "\<And>y ds c. (y, ds) \<in> set ms \<Longrightarrow> c \<in> set ds
      \<Longrightarrow> map_of row' (sc_xpath c) = Some (snd (choice_cell b y (answer_text py row1 y) c))"
    using Cons.IH [OF apart(1), of row1] by blast
  have "map_of row' k = map_of row k" if "k \<notin> set (choice_columns (m # ms))" for k
    using that other other' by (simp add: m choice_columns_def)
  moreover have "map_of row' (sc_xpath c) = Some (snd (choice_cell b y (answer_text py row y) c))"
    if "(y, ds) \<in> set (m # ms)" "c \<in> set ds" for y ds c
  proof (cases "(y, ds) = m")
    case True
    with that(2) have c: "c \<in> set cs" "y = x" by (simp_all add: m)
    then have "sc_xpath c \<notin> set (choice_columns ms)" using apart(3) by blast
    from other' [OF this] own [OF c(1) apart(2)] c(2) show ?thesis by simp
  next
    case False
    with that(1) have y: "(y, ds) \<in> set ms" by simp
    then have "y \<in> fst ` set ms" by force
    with apart(4) have "answer_text py row1 y = answer_text py row y" by (intro answer_text_cong other) blast
    with own' [OF y that(2)] show ?thesis by simp
  qed
  ultimately show ?case using r1 r by (auto simp: m)
qed simp


definition plain_choice :: "string \<Rightarrow> string \<Rightarrow> select_choice" where
  "plain_choice xpath name =
     \<lparr>sc_label = name, sc_own_label = name, sc_label_xpath = name, sc_title = name, sc_xpath = xpath @ ''/'' @ name\<rparr>"

definition plain_builder :: builder where
  "plain_builder =
     \<lparr>split_multiples = True, binary_multiples = False, value_multiples = False, show_labels = False, language = None\<rparr>"


end
