(* ===== verification/Export_Rows.thy ===== *)
theory Export_Rows
  imports Export_Cells
begin

text \<open>
  The rows of an export: how a nested submission becomes one row of the form and one for every entry of
  a repeat, \<open>dict_to_joined_export\<close> of \<open>onadata/libs/utils/export_builder.py\<close>, with
  \<open>get_value_or_attachment_uri\<close> of \<open>libs/utils/common_tools.py\<close>; and the numbers that join them.
\<close>

section \<open>Fields\<close>

record site =
  st_py :: conversions
  st_protocol :: string
  st_host :: string
  st_port :: string
  st_media :: "string list"

definition current_site_url :: "site \<Rightarrow> pyval \<Rightarrow> string" where
  "current_site_url st path =
     st_protocol st @ ''://'' @ st_host st @ (if st_port st = [] then [] else '':'' @ st_port st)
     @ (case path of PStr s \<Rightarrow> s | _ \<Rightarrow> if truthy path then str_of (st_py st) path else [])"

text \<open>The attachments of that name, and the value of a field.\<close>

fun named_attachments :: "pyval \<Rightarrow> pyval list \<Rightarrow> cell_error + (string, pyval) dict list" where
  "named_attachments v [] = Inr []"
| "named_attachments v (a # as) =
     (case a of
        PDict d \<Rightarrow>
          (case named_attachments v as of
             Inl e \<Rightarrow> Inl e
           | Inr ds \<Rightarrow> Inr (if (case map_of d ''name'' of Some n \<Rightarrow> n | None \<Rightarrow> PNone) = v then d # ds else ds))
      | _ \<Rightarrow> Inl No_Attribute)"

definition attachments_of :: "pyval row \<Rightarrow> pyval row \<Rightarrow> cell_error + pyval list" where
  "attachments_of record data =
     (let given = (case map_of record ''_attachments'' of Some v \<Rightarrow> if truthy v then v else PList [] | None \<Rightarrow> PList [])
      in case (case map_of data ''_attachments'' of Some v \<Rightarrow> v | None \<Rightarrow> given) of
           PList xs \<Rightarrow> Inr xs
         | PDict d \<Rightarrow> Inr (map (\<lambda>(k, v). PStr k) d)
         | PStr s \<Rightarrow> Inr (map (\<lambda>c. PStr [c]) s)
         | _ \<Rightarrow> Inl Wrong_Type)"

definition get_value_or_attachment_uri ::
    "site \<Rightarrow> pyval row \<Rightarrow> pyval row \<Rightarrow> string \<Rightarrow> pyval \<Rightarrow> cell_error + pyval" where
  "get_value_or_attachment_uri st record data key v =
     (if key \<notin> set (st_media st) then Inr v
      else (case attachments_of record data of
              Inl e \<Rightarrow> Inl e
            | Inr xs \<Rightarrow>
                (case named_attachments v xs of
                   Inl e \<Rightarrow> Inl e
                 | Inr [] \<Rightarrow> Inr v
                 | Inr (d # _) \<Rightarrow>
                     Inr (PStr (current_site_url st
                       (case map_of d ''download_url'' of Some u \<Rightarrow> u | None \<Rightarrow> PStr []))))))"

text \<open>\<open>sep.join(texts)\<close> of values, and the texts of notes.\<close>

fun join_texts :: "string \<Rightarrow> pyval list \<Rightarrow> cell_error + string" where
  "join_texts sep [] = Inr []"
| "join_texts sep (v # vs) =
     (case (v, join_texts sep vs) of
        (PStr s, Inr t) \<Rightarrow> Inr (if vs = [] then s else s @ sep @ t) | _ \<Rightarrow> Inl Wrong_Type)"

fun note_texts :: "pyval list \<Rightarrow> cell_error + pyval list" where
  "note_texts [] = Inr []"
| "note_texts (v # vs) =
     (case (case v of
              PStr s \<Rightarrow> Inr (PStr s)
            | PDict d \<Rightarrow> (case map_of d ''note'' of Some n \<Rightarrow> Inr n | None \<Rightarrow> Inl No_Key)
            | _ \<Rightarrow> Inl Wrong_Type) of
        Inl e \<Rightarrow> Inl e | Inr n \<Rightarrow> (case note_texts vs of Inl e \<Rightarrow> Inl e | Inr ns \<Rightarrow> Inr (n # ns)))"

definition elements_of :: "pyval \<Rightarrow> cell_error + pyval list" where
  "elements_of v =
     (case v of
        PList xs \<Rightarrow> Inr xs | PDict d \<Rightarrow> Inr (map (\<lambda>(k, x). PStr k) d) | PStr s \<Rightarrow> Inr (map (\<lambda>c. PStr [c]) s)
      | _ \<Rightarrow> Inl Wrong_Type)"

definition field_value :: "site \<Rightarrow> pyval row \<Rightarrow> pyval row \<Rightarrow> string \<Rightarrow> pyval \<Rightarrow> cell_error + pyval" where
  "field_value st record data key v =
     (if key = ''_tags'' then
        (case elements_of v of Inl e \<Rightarrow> Inl e | Inr xs \<Rightarrow> map_sum id PStr (join_texts '','' xs))
      else if key = ''_notes'' then
        (case elements_of v of
           Inl e \<Rightarrow> Inl e
         | Inr xs \<Rightarrow>
             (case note_texts xs of
                Inl e \<Rightarrow> Inl e | Inr ns \<Rightarrow> map_sum id PStr (join_texts [CHR 0x0D, CHR 0x0A] ns)))
      else get_value_or_attachment_uri st record data key v)"

section \<open>Rows\<close>

text \<open>A section of what is exported is a dictionary or a list of dictionaries.\<close>

datatype out = Fields "pyval row" | Rows "pyval row list"

type_synonym tables = "(string, out) dict"
type_synonym indices = "(string, nat) dict"

definition count :: "indices \<Rightarrow> string \<Rightarrow> nat" where
  "count idx k = (case map_of idx k of Some n \<Rightarrow> n | None \<Rightarrow> 0)"

definition is_repeat :: "string \<Rightarrow> bool" where
  "is_repeat key \<longleftrightarrow> key \<notin> {''_notes'', ''_attachments'', ''_tags''}"

definition add_field ::
    "site \<Rightarrow> pyval row \<Rightarrow> string \<Rightarrow> pyval row \<Rightarrow> string \<Rightarrow> pyval \<Rightarrow> tables \<Rightarrow> cell_error + tables" where
  "add_field st record name data key v out =
     (case field_value st record data key v of
        Inl e \<Rightarrow> Inl e
      | Inr w \<Rightarrow>
          (case map_of out name of
             None \<Rightarrow> Inr (AList.update name (Fields [(key, w)]) out)
           | Some (Fields f) \<Rightarrow> Inr (AList.update name (Fields (AList.update key w f)) out)
           | Some (Rows rs) \<Rightarrow> Inl Wrong_Type))"

text \<open>What the call for an entry of a repeat returns is added to the tables and to the row of the entry.\<close>

fun merge_output :: "tables \<Rightarrow> tables \<Rightarrow> pyval row \<Rightarrow> cell_error + (tables \<times> pyval row)" where
  "merge_output [] out item = Inr (out, item)"
| "merge_output ((k, Rows rs) # new) out item =
     (case map_of out k of
        None \<Rightarrow> merge_output new (AList.update k (Rows rs) out) item
      | Some (Rows r0) \<Rightarrow> merge_output new (AList.update k (Rows (r0 @ rs)) out) item
      | Some (Fields f) \<Rightarrow> Inl No_Attribute)"
| "merge_output ((k, Fields f) # new) out item = merge_output new out (dict_update item f)"

definition index_fields :: "nat \<Rightarrow> nat \<Rightarrow> string \<Rightarrow> pyval row" where
  "index_fields child_index index name =
     [(''_index'', PInt (int child_index)), (''_parent_index'', PInt (int index)), (''_parent_table_name'', PStr name)]"

definition append_row :: "string \<Rightarrow> pyval row \<Rightarrow> tables \<Rightarrow> cell_error + tables" where
  "append_row key item out =
     (case map_of out key of
        Some (Rows rs) \<Rightarrow> Inr (AList.update key (Rows (rs @ [item])) out)
      | Some (Fields f) \<Rightarrow> Inl No_Attribute
      | None \<Rightarrow> Inl No_Key)"

text \<open>\<open>dict_to_joined_export\<close> on the items of a dictionary, and its loop over the entries of a repeat.\<close>

fun joined_items ::
    "site \<Rightarrow> pyval row \<Rightarrow> string \<Rightarrow> nat \<Rightarrow> pyval row \<Rightarrow> (string \<times> pyval) list \<Rightarrow> indices \<Rightarrow> tables
     \<Rightarrow> cell_error + (indices \<times> tables)"
  and joined_entries ::
    "site \<Rightarrow> pyval row \<Rightarrow> string \<Rightarrow> nat \<Rightarrow> string \<Rightarrow> pyval list \<Rightarrow> indices \<Rightarrow> tables
     \<Rightarrow> cell_error + (indices \<times> tables)" where
  "joined_items st record name index data [] idx out = Inr (idx, out)"
| "joined_items st record name index data ((key, v) # items) idx out =
     (case (case v of
              PList xs \<Rightarrow>
                if is_repeat key
                then joined_entries st record name index key xs idx (AList.update key (Rows []) out)
                else map_sum id (\<lambda>o1. (idx, o1)) (add_field st record name data key v out)
            | _ \<Rightarrow> map_sum id (\<lambda>o1. (idx, o1)) (add_field st record name data key v out)) of
        Inl e \<Rightarrow> Inl e | Inr (idx1, out1) \<Rightarrow> joined_items st record name index data items idx1 out1)"
| "joined_entries st record name index key [] idx out = Inr (idx, out)"
| "joined_entries st record name index key (child # xs) idx out =
     (let child_index = count idx key + 1;
          idx1 = AList.update key child_index idx
      in case (case child of
                 PDict d \<Rightarrow> joined_items st record key child_index d d idx1 []
               | _ \<Rightarrow> Inr (idx1, [])) of
           Inl e \<Rightarrow> Inl e
         | Inr (idx2, new) \<Rightarrow>
             (case merge_output new out (index_fields child_index index name) of
                Inl e \<Rightarrow> Inl e
              | Inr (out1, item) \<Rightarrow>
                  (case append_row key item out1 of
                     Inl e \<Rightarrow> Inl e
                   | Inr out2 \<Rightarrow> joined_entries st record name index key xs idx2 out2)))"

definition dict_to_joined_export ::
    "site \<Rightarrow> pyval row \<Rightarrow> nat \<Rightarrow> indices \<Rightarrow> string \<Rightarrow> cell_error + (indices \<times> tables)" where
  "dict_to_joined_export st record index idx name = joined_items st record name index record record idx []"

text \<open>\<open>decode_mongo_encoded_section_names\<close>, on values and on the tables.\<close>

fun decode_names :: "pyval \<Rightarrow> pyval" where
  "decode_names (PDict d) =
     PDict (dict_update [] (map (\<lambda>(k, v).
       (decode_from_mongo k,
        case v of
          PDict e \<Rightarrow> decode_names v
        | PList xs \<Rightarrow> PList (map (\<lambda>x. case x of PDict e \<Rightarrow> decode_names x | _ \<Rightarrow> x) xs)
        | _ \<Rightarrow> v)) d))"
| "decode_names v = v"

definition decode_row :: "pyval row \<Rightarrow> pyval row" where
  "decode_row r = (case decode_names (PDict r) of PDict d \<Rightarrow> d | _ \<Rightarrow> [])"

definition decode_mongo_encoded_section_names :: "tables \<Rightarrow> tables" where
  "decode_mongo_encoded_section_names out =
     dict_update []
       (map (\<lambda>(k, v). (decode_from_mongo k, case v of Fields f \<Rightarrow> Fields (decode_row f) | Rows rs \<Rightarrow> Rows (map decode_row rs)))
         out)"

section \<open>Numbers\<close>

text \<open>The names of the repeats in a record; \<open>proper\<close> when no repeat is called as another one beside or above it,
  and no question as the columns that join the rows.\<close>

definition joining_columns :: "string list" where
  "joining_columns = [''_index'', ''_parent_index'', ''_parent_table_name'']"

fun item_names :: "(string \<times> pyval) list \<Rightarrow> string list" and entry_names :: "pyval list \<Rightarrow> string list" where
  "item_names [] = []"
| "item_names ((k, v) # items) =
     (case v of PList xs \<Rightarrow> if is_repeat k then k # entry_names xs else [] | _ \<Rightarrow> []) @ item_names items"
| "entry_names [] = []"
| "entry_names (x # xs) = (case x of PDict d \<Rightarrow> item_names d | _ \<Rightarrow> []) @ entry_names xs"

fun proper_items :: "(string \<times> pyval) list \<Rightarrow> bool" and proper_entries :: "pyval list \<Rightarrow> bool" where
  "proper_items [] \<longleftrightarrow> True"
| "proper_items ((k, v) # items) \<longleftrightarrow>
     (case v of
        PList xs \<Rightarrow>
          if is_repeat k
          then k \<notin> set (entry_names xs) \<and> proper_entries xs
               \<and> set (k # entry_names xs) \<inter> set (item_names items) = {}
          else k \<notin> set joining_columns
      | _ \<Rightarrow> k \<notin> set joining_columns)
     \<and> proper_items items"
| "proper_entries [] \<longleftrightarrow> True"
| "proper_entries (x # xs) \<longleftrightarrow> (case x of PDict d \<Rightarrow> proper_items d | _ \<Rightarrow> True) \<and> proper_entries xs"

definition rows_of :: "tables \<Rightarrow> string \<Rightarrow> pyval row list" where
  "rows_of out k = (case map_of out k of Some (Rows rs) \<Rightarrow> rs | _ \<Rightarrow> [])"

text \<open>Rows numbered on from \<open>n\<close>, and rows whose parents are: the row \<open>index\<close> of \<open>name\<close>, or one of those
  counted for a repeat.\<close>

fun numbered :: "nat \<Rightarrow> pyval row list \<Rightarrow> bool" where
  "numbered n [] \<longleftrightarrow> True"
| "numbered n (r # rs) \<longleftrightarrow> map_of r ''_index'' = Some (PInt (int (Suc n))) \<and> numbered (Suc n) rs"

lemma numbered_append: "numbered n (rs @ rs') \<longleftrightarrow> numbered n rs \<and> numbered (n + length rs) rs'"
  by (induction rs arbitrary: n) auto

lemma numbered_nth: "numbered n rs \<Longrightarrow> i < length rs \<Longrightarrow> map_of (rs ! i) ''_index'' = Some (PInt (int (n + i + 1)))"
  by (induction rs arbitrary: n i) (auto simp: nth_Cons split: nat.split)

definition parent_is :: "pyval row \<Rightarrow> string \<Rightarrow> nat \<Rightarrow> bool" where
  "parent_is r p j \<longleftrightarrow>
     map_of r ''_parent_table_name'' = Some (PStr p) \<and> map_of r ''_parent_index'' = Some (PInt (int j))"

definition has_parent :: "string \<Rightarrow> nat \<Rightarrow> string set \<Rightarrow> indices \<Rightarrow> pyval row \<Rightarrow> bool" where
  "has_parent name index ns idx r \<longleftrightarrow>
     parent_is r name index \<or> (\<exists>p \<in> ns. \<exists>j. parent_is r p j \<and> 1 \<le> j \<and> j \<le> count idx p)"

lemma has_parent_mono:
  "has_parent name index ns idx r \<Longrightarrow> ns \<subseteq> ms \<Longrightarrow> (\<And>k. count idx k \<le> count idx' k) \<Longrightarrow> has_parent name index ms idx' r"
  unfolding has_parent_def by (meson le_trans subsetD)

text \<open>What a part of a record with the repeats \<open>ns\<close> adds.\<close>

definition extends ::
    "string set \<Rightarrow> string \<Rightarrow> nat \<Rightarrow> indices \<times> tables \<Rightarrow> indices \<times> tables \<Rightarrow> string \<Rightarrow> bool" where
  "extends ns name index s s' k \<longleftrightarrow>
     (\<exists>new. rows_of (snd s') k = rows_of (snd s) k @ new \<and> numbered (count (fst s) k) new
        \<and> count (fst s') k = count (fst s) k + length new \<and> (\<forall>r \<in> set new. has_parent name index ns (fst s') r))"

definition adds ::
    "string set \<Rightarrow> string \<Rightarrow> nat \<Rightarrow> indices \<times> tables \<Rightarrow> indices \<times> tables \<Rightarrow> bool" where
  "adds ns name index s s' \<longleftrightarrow>
     (\<forall>k. k \<notin> ns \<longrightarrow> count (fst s') k = count (fst s) k)
     \<and> (\<forall>k. k \<notin> ns \<longrightarrow> k \<noteq> name \<longrightarrow> map_of (snd s') k = map_of (snd s) k)
     \<and> (\<forall>k \<in> ns. extends ns name index s s' k)"

lemma addsD:
  assumes "adds ns name index s s'"
  shows "count (fst s) k \<le> count (fst s') k" "k \<notin> ns \<Longrightarrow> count (fst s') k = count (fst s) k"
    "k \<notin> ns \<Longrightarrow> k \<noteq> name \<Longrightarrow> map_of (snd s') k = map_of (snd s) k"
    "k \<noteq> name \<Longrightarrow> extends ns name index s s' k"
proof -
  note a = assms [unfolded adds_def]
  show c: "k \<notin> ns \<Longrightarrow> count (fst s') k = count (fst s) k"
    and m: "k \<notin> ns \<Longrightarrow> k \<noteq> name \<Longrightarrow> map_of (snd s') k = map_of (snd s) k" using a by blast+
  show "count (fst s) k \<le> count (fst s') k"
    using a c by (cases "k \<in> ns") (auto simp: extends_def)
  show "k \<noteq> name \<Longrightarrow> extends ns name index s s' k"
    using a c m by (cases "k \<in> ns") (auto simp: extends_def rows_of_def)
qed

lemma extends_trans:
  assumes "extends ns name index s s1 k" "extends ms name index s1 s2 k" "\<And>k. count (fst s1) k \<le> count (fst s2) k"
  shows "extends (ns \<union> ms) name index s s2 k"
proof -
  obtain n1 n2 where
    1: "rows_of (snd s1) k = rows_of (snd s) k @ n1" "numbered (count (fst s) k) n1"
      "count (fst s1) k = count (fst s) k + length n1" "\<forall>r \<in> set n1. has_parent name index ns (fst s1) r"
    and 2: "rows_of (snd s2) k = rows_of (snd s1) k @ n2" "numbered (count (fst s1) k) n2"
      "count (fst s2) k = count (fst s1) k + length n2" "\<forall>r \<in> set n2. has_parent name index ms (fst s2) r"
    using assms(1,2) unfolding extends_def by blast
  have "has_parent name index (ns \<union> ms) (fst s2) r" if "r \<in> set (n1 @ n2)" for r
    using that 1(4) 2(4) assms(3) by (auto intro: has_parent_mono)
  moreover have "numbered (count (fst s) k) (n1 @ n2)" using 1(2,3) 2(2) by (simp add: numbered_append)
  moreover have "rows_of (snd s2) k = rows_of (snd s) k @ (n1 @ n2)" using 1(1) 2(1) by simp
  moreover have "count (fst s2) k = count (fst s) k + length (n1 @ n2)" using 1(3) 2(3) by simp
  ultimately show ?thesis unfolding extends_def by blast
qed

lemma adds_trans:
  assumes "adds ns name index s s1" "adds ms name index s1 s2" "name \<notin> ns \<union> ms"
  shows "adds (ns \<union> ms) name index s s2"
  unfolding adds_def
proof (intro conjI allI impI ballI)
  fix k
  assume "k \<in> ns \<union> ms"
  with assms(3) have "k \<noteq> name" by blast
  then show "extends (ns \<union> ms) name index s s2 k"
    using extends_trans [OF addsD(4) [OF assms(1)] addsD(4) [OF assms(2)] addsD(1) [OF assms(2)]] by blast
next
  fix k
  assume "k \<notin> ns \<union> ms"
  then show "count (fst s2) k = count (fst s) k" using addsD(2) [OF assms(1)] addsD(2) [OF assms(2)] by simp
  assume "k \<noteq> name"
  with \<open>k \<notin> ns \<union> ms\<close> show "map_of (snd s2) k = map_of (snd s) k"
    using addsD(3) [OF assms(1)] addsD(3) [OF assms(2)] by simp
qed

text \<open>No field is named as a joining column; merging then keeps those of the row.\<close>

definition plain_fields :: "tables \<Rightarrow> bool" where
  "plain_fields out \<longleftrightarrow> (\<forall>k f. map_of out k = Some (Fields f) \<longrightarrow> fst ` set f \<inter> set joining_columns = {})"

lemma plain_fieldsD: "plain_fields out \<Longrightarrow> map_of out k = Some (Fields f) \<Longrightarrow> fst ` set f \<inter> set joining_columns = {}"
  unfolding plain_fields_def by blast

lemma plain_fields_tl:
  assumes "plain_fields ((q, v) # new)" "map_of new q = None"
  shows "plain_fields new"
  unfolding plain_fields_def
proof (intro allI impI)
  fix k f
  assume k: "map_of new k = Some (Fields f)"
  with assms(2) have "map_of ((q, v) # new) k = Some (Fields f)" by auto
  with assms(1) show "fst ` set f \<inter> set joining_columns = {}" by (rule plain_fieldsD)
qed

lemma get_update_other: "k \<notin> fst ` set f \<Longrightarrow> map_of (dict_update item f) k = map_of item k"
  by (simp add: dict_get_update map_of_eq_None_iff [THEN iffD2])

lemma merge_output_adds:
  assumes "merge_output new out item = Inr (out', item')" "dict_ok new" "plain_fields new"
  shows "rows_of out' k = rows_of out k @ rows_of new k
    \<and> ((\<nexists>rs. map_of new k = Some (Rows rs)) \<longrightarrow> map_of out' k = map_of out k)
    \<and> (m \<in> set joining_columns \<longrightarrow> map_of item' m = map_of item m)
    \<and> (dict_ok out \<longrightarrow> dict_ok out') \<and> (plain_fields out \<longrightarrow> plain_fields out')"
  using assms
proof (induction new out item rule: merge_output.induct)
  case (1 out item)
  then show ?case by (simp add: rows_of_def)
next
  case (2 q rs new out item)
  have new: "dict_ok new" "q \<notin> fst ` set new" using 2(4) by (simp_all add: dict_ok_def)
  then have q: "map_of new q = None" by (simp add: map_of_eq_None_iff)
  have pl: "plain_fields new" by (rule plain_fields_tl [OF 2(5) q])
  have upd: "plain_fields out \<longrightarrow> plain_fields (AList.update q (Rows rs') out)" "dict_ok out \<longrightarrow> dict_ok (AList.update q (Rows rs') out)"
    for rs' by (auto simp: plain_fields_def ad.ok_put)
  show ?case
  proof (cases "map_of out q")
    case None
    with 2(1) [OF None _ new(1) pl] 2(3) upd q show ?thesis by (auto simp: rows_of_def)
  next
    case (Some v)
    show ?thesis
    proof (cases v)
      case (Fields f)
      with Some 2(3) show ?thesis by simp
    next
      case (Rows r0)
      with Some 2(2) [OF Some Rows _ new(1) pl] 2(3) upd q show ?thesis by (auto simp: rows_of_def)
    qed
  qed
next
  case (3 q f new out item)
  have new: "dict_ok new" "q \<notin> fst ` set new" using 3(3) by (simp_all add: dict_ok_def)
  then have q: "map_of new q = None" by (simp add: map_of_eq_None_iff)
  have f: "fst ` set f \<inter> set joining_columns = {}" using plain_fieldsD [OF 3(4), of q f] by simp
  have pl: "plain_fields new" by (rule plain_fields_tl [OF 3(4) q])
  have keep: "m \<in> set joining_columns \<longrightarrow> map_of (dict_update item f) m = map_of item m"
    using f by (auto intro!: get_update_other)
  from 3(1) [OF _ new(1) pl] 3(2) q keep show ?case by (auto simp: rows_of_def)
qed

lemma add_field_adds:
  assumes "add_field st record name data key v out = Inr out'" "key \<notin> set joining_columns"
  shows "adds {} name index (idx, out) (idx, out')" "dict_ok out \<longrightarrow> dict_ok out'" "plain_fields out \<longrightarrow> plain_fields out'"
    "rows_of out' name = rows_of out name"
proof -
  obtain f where out': "out' = AList.update name (Fields f) out" and r: "rows_of out name = []"
    and f: "plain_fields out \<Longrightarrow> fst ` set f \<inter> set joining_columns = {}"
  proof (cases "map_of out name")
    case None
    with assms obtain w where "out' = AList.update name (Fields [(key, w)]) out"
      by (auto simp: add_field_def split: sum.splits)
    with None assms(2) show ?thesis by (intro that [of "[(key, w)]"]) (simp_all add: rows_of_def)
  next
    case (Some x)
    with assms(1) obtain w f where x: "x = Fields f" and o': "out' = AList.update name (Fields (AList.update key w f)) out"
      by (auto simp: add_field_def split: sum.splits out.splits)
    show ?thesis
    proof (rule that [OF o'])
      show "rows_of out name = []" using Some x by (simp add: rows_of_def)
      assume "plain_fields out"
      from plain_fieldsD [OF this Some [unfolded x]] assms(2)
      show "fst ` set (AList.update key w f) \<inter> set joining_columns = {}" by (simp add: dom_update)
    qed
  qed
  show "adds {} name index (idx, out) (idx, out')" by (simp add: adds_def out')
  show "dict_ok out \<longrightarrow> dict_ok out'" by (simp add: out' ad.ok_put)
  show "rows_of out' name = rows_of out name" using r by (simp add: out' rows_of_def)
  show "plain_fields out \<longrightarrow> plain_fields out'"
    using f unfolding plain_fields_def out' by auto
qed

text \<open>The row of an entry after the rows of what is nested in it.\<close>

lemma entry_adds:
  assumes child: "adds ns key n (idx1, []) (idx2, new)" and idx1: "idx1 = AList.update key n idx" and n: "n = count idx key + 1"
    and new: "dict_ok new" "plain_fields new" "rows_of new key = []"
    and merge: "merge_output new out (index_fields n index name) = Inr (out1, item)" and app: "append_row key item out1 = Inr out2"
    and names: "key \<notin> ns" "name \<notin> insert key ns" and out: "dict_ok out" "plain_fields out"
  shows "adds (insert key ns) name index (idx, out) (idx2, out2) \<and> dict_ok out2 \<and> plain_fields out2
    \<and> rows_of out2 name = rows_of out name @ rows_of new name"
proof -
  note m = merge_output_adds [OF merge new(1,2)]
  from app obtain rs where rs: "map_of out1 key = Some (Rows rs)" and out2: "out2 = AList.update key (Rows (rs @ [item])) out1"
    by (auto simp: append_row_def split: option.splits out.splits)
  have rows: "rows_of out2 k = (if k = key then rows_of out key @ [item] else rows_of out k @ rows_of new k)" for k
    using m [of k] rs new(3) by (auto simp: out2 rows_of_def)
  have c: "count idx2 key = count idx key + 1" using addsD(2) [OF child, of key] names(1) n by (simp add: idx1 count_def)
  have c1: "k \<noteq> key \<Longrightarrow> count idx1 k = count idx k" for k by (simp add: idx1 count_def)
  have mono: "count idx k \<le> count idx2 k" for k
    using addsD(1) [OF child, of k] c c1 [of k] by (cases "k = key") auto
  have item: "map_of item ''_index'' = Some (PInt (int n))" "parent_is item name index"
    using m by (simp_all add: index_fields_def joining_columns_def parent_is_def)
  have "adds (insert key ns) name index (idx, out) (idx2, out2)"
    unfolding adds_def
  proof (intro conjI allI impI ballI)
    fix k
    assume k: "k \<notin> insert key ns"
    with addsD(2) [OF child, of k] c1 [of k] show "count (fst (idx2, out2)) k = count (fst (idx, out)) k" by simp
    from k have "map_of new k = None" using addsD(3) [OF child, of k] by simp
    with m [of k] k show "map_of (snd (idx2, out2)) k = map_of (snd (idx, out)) k" by (simp add: out2)
  next
    fix k
    assume k: "k \<in> insert key ns"
    show "extends (insert key ns) name index (idx, out) (idx2, out2) k"
    proof (cases "k = key")
      case True
      have "has_parent name index (insert key ns) idx2 item" using item(2) by (simp add: has_parent_def)
      with True rows [of key] c item(1) n show ?thesis unfolding extends_def by (intro exI [of _ "[item]"]) simp
    next
      case False
      then obtain rs' where r: "rows_of new k = rs'" "numbered (count idx1 k) rs'" "count idx2 k = count idx1 k + length rs'"
        "\<forall>r \<in> set rs'. has_parent key n ns idx2 r"
        using addsD(4) [OF child, of k] by (auto simp: extends_def rows_of_def)
      have "has_parent name index (insert key ns) idx2 r" if "r \<in> set rs'" for r
        using r(4) that c n unfolding has_parent_def by (metis insertCI le_add2 order_refl)
      with r rows [of k] False c1 [OF False] show ?thesis unfolding extends_def by (intro exI [of _ rs']) simp
    qed
  qed
  moreover have "dict_ok out2" using m out(1) by (simp add: out2 ad.ok_put)
  moreover have "plain_fields out2" using m out(2) by (auto simp: out2 plain_fields_def)
  moreover have "rows_of out2 name = rows_of out name @ rows_of new name" using rows [of name] names(2) by simp
  ultimately show ?thesis by blast
qed

lemma adds_refl [simp]: "adds ns name index s s"
  by (auto simp: adds_def extends_def)

lemma adds_empty_rows: "map_of out key = None \<Longrightarrow> adds {key} name index (idx, out) (idx, AList.update key (Rows []) out)"
  by (auto simp: adds_def extends_def rows_of_def)

definition joins :: "string set \<Rightarrow> string \<Rightarrow> nat \<Rightarrow> indices \<times> tables \<Rightarrow> indices \<times> tables \<Rightarrow> bool" where
  "joins ns name index s s' \<longleftrightarrow>
     adds ns name index s s' \<and> dict_ok (snd s') \<and> plain_fields (snd s') \<and> rows_of (snd s') name = rows_of (snd s) name"

lemma joins_trans:
  "joins ns name index s s1 \<Longrightarrow> joins ms name index s1 s2 \<Longrightarrow> name \<notin> ns \<Longrightarrow> name \<notin> ms \<Longrightarrow> joins (ns \<union> ms) name index s s2"
  unfolding joins_def using adds_trans [of ns name index s s1 ms s2] by auto

lemma joined_adds:
  "joined_items st rc name index data items idx out = Inr (idx', out') \<Longrightarrow> proper_items items
    \<Longrightarrow> name \<notin> set (item_names items) \<Longrightarrow> \<forall>k \<in> set (item_names items). map_of out k = None
    \<Longrightarrow> dict_ok out \<Longrightarrow> plain_fields out \<Longrightarrow> joins (set (item_names items)) name index (idx, out) (idx', out')"
  "joined_entries st rc name index key xs idx out = Inr (idx', out') \<Longrightarrow> proper_entries xs
    \<Longrightarrow> key \<notin> set (entry_names xs) \<Longrightarrow> name \<notin> set (key # entry_names xs)
    \<Longrightarrow> dict_ok out \<Longrightarrow> plain_fields out \<Longrightarrow> joins (set (key # entry_names xs)) name index (idx, out) (idx', out')"
proof (induction st rc name index data items idx out and st rc name index key xs idx out
    arbitrary: idx' out' and idx' out' rule: joined_items_joined_entries.induct)
  case (1 st rc name index data idx out)
  then show ?case by (simp add: joins_def)
next
  case (2 st rc name index data key v items idx out)
  show ?case
  proof (cases "\<exists>xs. v = PList xs \<and> is_repeat key")
    case True
    then obtain xs where v: "v = PList xs" "is_repeat key" by blast
    let ?out0 = "AList.update key (Rows []) out"
    from 2(3) v obtain idx1 out1 where 1: "joined_entries st rc name index key xs idx ?out0 = Inr (idx1, out1)"
      and rest: "joined_items st rc name index data items idx1 out1 = Inr (idx', out')"
      by (auto split: sum.splits)
    have pr: "key \<notin> set (entry_names xs)" "proper_entries xs" "proper_items items"
      "set (key # entry_names xs) \<inter> set (item_names items) = {}"
      using 2(4) v by simp_all
    have nm: "name \<notin> set (key # entry_names xs)" "name \<notin> set (item_names items)" using 2(5) v by simp_all
    have key: "map_of out key = None" using 2(6) v by simp
    have ok: "dict_ok ?out0" "plain_fields ?out0" using 2(7,8) by (auto simp: ad.ok_put plain_fields_def)
    have "joins {key} name index (idx, out) (idx, ?out0)"
      using adds_empty_rows [OF key] ok nm(1) by (simp add: joins_def rows_of_def)
    moreover have j1: "joins (set (key # entry_names xs)) name index (idx, ?out0) (idx1, out1)"
      by (rule 2(1) [OF v 1 pr(2,1) nm(1) ok])
    ultimately have j: "joins ({key} \<union> set (key # entry_names xs)) name index (idx, out) (idx1, out1)"
      by (rule joins_trans) (use nm(1) in simp_all)
    have "map_of out1 k = None" if k: "k \<in> set (item_names items)" for k
    proof -
      from k nm pr(4) have "k \<notin> {key} \<union> set (key # entry_names xs)" "k \<noteq> name" by auto
      with j have "map_of out1 k = map_of out k" unfolding joins_def using addsD(3) by fastforce
      then show ?thesis using 2(6) k v by simp
    qed
    then have "joins (set (item_names items)) name index (idx1, out1) (idx', out')"
      using 2(2) [OF _ _ rest pr(3) nm(2)] 1 v j by (simp add: joins_def)
    from joins_trans [OF j this] nm v show ?thesis by (simp add: insert_absorb2)
  next
    case False
    then have nr: "(case v of PList xs \<Rightarrow> if is_repeat key then key # entry_names xs else [] | _ \<Rightarrow> []) = []"
      and col: "key \<notin> set joining_columns" and pr: "proper_items items"
      using 2(4) by (auto split: pyval.splits if_splits)
    from 2(3) False obtain out1 where 1: "add_field st rc name data key v out = Inr out1"
      and rest: "joined_items st rc name index data items idx out1 = Inr (idx', out')"
      by (cases "add_field st rc name data key v out") (auto split: pyval.splits if_splits)
    note a = add_field_adds [OF 1 col]
    have names: "item_names ((key, v) # items) = item_names items" using nr by simp
    have nm: "name \<notin> set (item_names items)" using 2(5) names by simp
    have j: "joins {} name index (idx, out) (idx, out1)" using a 2(7,8) by (simp add: joins_def)
    have step: "(case v of
        PList xs \<Rightarrow>
          if is_repeat key
          then joined_entries st rc name index key xs idx (AList.update key (Rows []) out)
          else map_sum id (\<lambda>o1. (idx, o1)) (add_field st rc name data key v out)
      | _ \<Rightarrow> map_sum id (\<lambda>o1. (idx, o1)) (add_field st rc name data key v out)) = Inr (idx, out1)"
      using 1 False by (cases v) simp_all
    have "map_of out1 k = None" if "k \<in> set (item_names items)" for k
    proof -
      have "k \<noteq> name" using that nm by blast
      with a(1) [of index idx] have "map_of out1 k = map_of out k" using addsD(3) by fastforce
      then show ?thesis using 2(6) that names by simp
    qed
    then have "joins (set (item_names items)) name index (idx, out1) (idx', out')"
      using 2(2) [OF step refl rest pr nm] j by (simp add: joins_def)
    from joins_trans [OF j this] nm names show ?thesis by simp
  qed
next
  case (3 st rc name index key idx out)
  then show ?case by (simp add: joins_def)
next
  case (4 st rc name index key child xs idx out)
  let ?n = "count idx key + 1"
  let ?idx1 = "AList.update key ?n idx"
  let ?ns = "set (case child of PDict d \<Rightarrow> item_names d | _ \<Rightarrow> [])"
  from 4(3) obtain idx2 new out1 item out2
    where c: "(case child of PDict d \<Rightarrow> joined_items st rc key ?n d d ?idx1 [] | _ \<Rightarrow> Inr (?idx1, [])) = Inr (idx2, new)"
      and m: "merge_output new out (index_fields ?n index name) = Inr (out1, item)"
      and app: "append_row key item out1 = Inr out2"
      and rest: "joined_entries st rc name index key xs idx2 out2 = Inr (idx', out')"
    by (auto simp: Let_def simp del: One_nat_def split: sum.splits)
  have nm: "key \<notin> ?ns" "name \<notin> insert key ?ns" "key \<notin> set (entry_names xs)" "name \<notin> set (key # entry_names xs)"
    and pr: "proper_entries xs"
    using 4(4,5,6) by auto
  have j: "joins ?ns key ?n (?idx1, []) (idx2, new)"
  proof (cases "\<exists>d. child = PDict d")
    case True
    then obtain d where d: "child = PDict d" by blast
    have "joined_items st rc key ?n d d ?idx1 [] = Inr (idx2, new)" using c d by simp
    from 4(1) [OF refl refl d this] 4(4) nm(1) d show ?thesis by (simp add: dict_ok_def plain_fields_def)
  next
    case False
    with c have "idx2 = ?idx1" "new = []" "?ns = {}" by (auto split: pyval.splits)
    then show ?thesis by (simp add: joins_def dict_ok_def plain_fields_def)
  qed
  then have new: "adds ?ns key ?n (?idx1, []) (idx2, new)" "dict_ok new" "plain_fields new" "rows_of new key = []"
    by (simp_all add: joins_def rows_of_def)
  have "rows_of new name = []" using addsD(3) [OF new(1), of name] nm(2) by (simp add: rows_of_def)
  with entry_adds [OF new(1) refl refl new(2,3,4) m app nm(1,2) 4(7,8)]
  have e: "joins (insert key ?ns) name index (idx, out) (idx2, out2)" by (simp add: joins_def)
  have "joins (set (key # entry_names xs)) name index (idx2, out2) (idx', out')"
    using 4(2) [OF refl refl c refl m refl app rest pr nm(3,4)] e by (simp add: joins_def)
  from joins_trans [OF e this nm(2,4)] show ?case by (simp add: Un_commute)
qed

text \<open>The records of an export, one after the other; \<open>index\<close> is the number of the first.\<close>

fun joined_records ::
    "site \<Rightarrow> string \<Rightarrow> pyval row list \<Rightarrow> nat \<Rightarrow> indices \<Rightarrow> cell_error + (indices \<times> tables list)" where
  "joined_records st name [] index idx = Inr (idx, [])"
| "joined_records st name (r # rs) index idx =
     (case dict_to_joined_export st r index idx name of
        Inl e \<Rightarrow> Inl e
      | Inr (idx1, out) \<Rightarrow>
          (case joined_records st name rs (index + 1) idx1 of
             Inl e \<Rightarrow> Inl e | Inr (idx2, outs) \<Rightarrow> Inr (idx2, out # outs)))"

definition sheet :: "tables list \<Rightarrow> string \<Rightarrow> pyval row list" where
  "sheet outs k = concat (map (\<lambda>out. rows_of out k) outs)"

definition row_linked :: "string \<Rightarrow> nat \<Rightarrow> nat \<Rightarrow> indices \<Rightarrow> pyval row \<Rightarrow> bool" where
  "row_linked name from until idx r \<longleftrightarrow>
     (\<exists>j. parent_is r name j \<and> from \<le> j \<and> j < until) \<or> (\<exists>p j. p \<noteq> name \<and> parent_is r p j \<and> 1 \<le> j \<and> j \<le> count idx p)"

lemma row_linked_mono:
  "row_linked name a b idx r \<Longrightarrow> a' \<le> a \<Longrightarrow> b \<le> b' \<Longrightarrow> (\<And>p. p \<noteq> name \<Longrightarrow> count idx p \<le> count idx' p)
    \<Longrightarrow> row_linked name a' b' idx' r"
  unfolding row_linked_def by (meson le_trans less_le_trans)

lemma has_parent_linked:
  assumes "has_parent name index ns idx r" "name \<notin> ns"
  shows "row_linked name index (Suc index) idx r"
  using assms(1) unfolding has_parent_def
proof (elim disjE bexE exE conjE)
  assume "parent_is r name index"
  then have "\<exists>j. parent_is r name j \<and> index \<le> j \<and> j < Suc index" by (intro exI [of _ index]) simp
  then show ?thesis unfolding row_linked_def by (rule disjI1)
next
  fix p j
  assume "p \<in> ns" "parent_is r p j" "1 \<le> j" "j \<le> count idx p"
  moreover from this assms(2) have "p \<noteq> name" by blast
  ultimately have "\<exists>p j. p \<noteq> name \<and> parent_is r p j \<and> 1 \<le> j \<and> j \<le> count idx p" by (intro exI [of _ p] exI [of _ j]) simp
  then show ?thesis unfolding row_linked_def by (rule disjI2)
qed

lemma joined_records_numbered:
  "joined_records st name rs index idx = Inr (idx', outs) \<Longrightarrow> \<forall>r \<in> set rs. proper_items r \<and> name \<notin> set (item_names r)
    \<Longrightarrow> k \<noteq> name
    \<Longrightarrow> numbered (count idx k) (sheet outs k) \<and> count idx' k = count idx k + length (sheet outs k)
      \<and> (\<forall>r \<in> set (sheet outs k). row_linked name index (index + length rs) idx' r)"
proof (induction rs arbitrary: index idx idx' outs k)
  case (Cons r rs)
  from Cons.prems(1) obtain idx1 out outs' where 1: "dict_to_joined_export st r index idx name = Inr (idx1, out)"
    and 2: "joined_records st name rs (index + 1) idx1 = Inr (idx', outs')" and outs: "outs = out # outs'"
    by (auto simp: simp del: One_nat_def split: sum.splits)
  let ?ns = "set (item_names r)"
  have "joins ?ns name index (idx, []) (idx1, out)"
    using joined_adds(1) [OF 1 [unfolded dict_to_joined_export_def]] Cons.prems(2) by (simp add: dict_ok_def plain_fields_def)
  then have a: "adds ?ns name index (idx, []) (idx1, out)" by (simp add: joins_def)
  have IH: "numbered (count idx1 p) (sheet outs' p) \<and> count idx' p = count idx1 p + length (sheet outs' p)
      \<and> (\<forall>r \<in> set (sheet outs' p). row_linked name (index + 1) (index + 1 + length rs) idx' r)" if "p \<noteq> name" for p
    using Cons.IH [OF 2 _ that] Cons.prems(2) by simp
  from addsD(4) [OF a Cons.prems(3)] have rows: "numbered (count idx k) (rows_of out k)"
    "count idx1 k = count idx k + length (rows_of out k)" "\<forall>r \<in> set (rows_of out k). has_parent name index ?ns idx1 r"
    by (auto simp: extends_def rows_of_def)
  have grow: "count idx1 p \<le> count idx' p" if "p \<noteq> name" for p using IH [OF that] by linarith
  have sheet: "sheet outs k = rows_of out k @ sheet outs' k" by (simp add: sheet_def outs)
  have "row_linked name index (index + length (r # rs)) idx' x" if "x \<in> set (sheet outs k)" for x
  proof (cases "x \<in> set (rows_of out k)")
    case True
    with rows(3) have "has_parent name index ?ns idx1 x" by blast
    moreover have "name \<notin> ?ns" using Cons.prems(2) by simp
    ultimately have "row_linked name index (Suc index) idx1 x" by (rule has_parent_linked)
    then show ?thesis by (rule row_linked_mono) (simp_all add: grow)
  next
    case False
    with that sheet IH [OF Cons.prems(3)] have "row_linked name (index + 1) (index + 1 + length rs) idx' x" by auto
    then show ?thesis by (rule row_linked_mono) simp_all
  qed
  with rows IH [OF Cons.prems(3)] show ?case by (simp add: sheet numbered_append)
qed (simp add: sheet_def)

text \<open>C35: In an export of several submissions, the rows of every repeat are numbered from one on without a gap, in the
  order in which they are written, and each names a row that is there as its parent: a
  submission by its number, or the row of a repeat by its number in its sheet; provided that the
  names of repeats and questions do not clash.\<close>

theorem repeat_rows_are_numbered:
  assumes "joined_records st name rs 1 [] = Inr (idx, outs)"
    and "\<forall>r \<in> set rs. proper_items r \<and> name \<notin> set (item_names r)" and "k \<noteq> name"
  shows "(\<forall>i < length (sheet outs k). map_of (sheet outs k ! i) ''_index'' = Some (PInt (int (i + 1))))
    \<and> (\<forall>r \<in> set (sheet outs k).
          (\<exists>j. parent_is r name j \<and> 1 \<le> j \<and> j \<le> length rs)
          \<or> (\<exists>p j. parent_is r p j \<and> 1 \<le> j \<and> j \<le> length (sheet outs p)))"
proof -
  note n = joined_records_numbered [OF assms(1,2)]
  have zero: "count [] k = 0" for k by (simp add: count_def)
  have "numbered 0 (sheet outs k)" using n [OF assms(3)] zero by simp
  from numbered_nth [OF this] have num: "map_of (sheet outs k ! i) ''_index'' = Some (PInt (int (i + 1)))"
    if "i < length (sheet outs k)" for i using that by simp
  have cnt: "p \<noteq> name \<Longrightarrow> count idx p = length (sheet outs p)" for p using n [of p] zero by simp
  have "(\<exists>j. parent_is r name j \<and> 1 \<le> j \<and> j \<le> length rs) \<or> (\<exists>p j. parent_is r p j \<and> 1 \<le> j \<and> j \<le> length (sheet outs p))"
    if "r \<in> set (sheet outs k)" for r
  proof -
    have "row_linked name 1 (1 + length rs) idx r" using n [OF assms(3)] that by blast
    then consider j where "parent_is r name j" "1 \<le> j" "j < 1 + length rs"
      | p j where "p \<noteq> name" "parent_is r p j" "1 \<le> j" "j \<le> count idx p"
      unfolding row_linked_def by blast
    then show ?thesis
    proof cases
      case 1
      then show ?thesis by (intro disjI1 exI [of _ j]) simp
    next
      case 2
      with cnt [OF 2(1)] show ?thesis by (intro disjI2 exI [of _ p] exI [of _ j]) simp
    qed
  qed
  with num show ?thesis by blast
qed

definition sample_site :: site where
  "sample_site = \<lparr>st_py = sample_py, st_protocol = ''http'', st_host = ''h'', st_port = [], st_media = []\<rparr>"

definition sample_records :: "pyval row list" where
  "sample_records =
     (let r = [(''a'', PStr ''x''), (''r'', PList [PDict [(''r/s'', PList [PDict [(''r/s/b'', PInt 1)], PDict []])], PDict []])]
      in [r, r])"

theorem repeat_rows_are_numbered_witness:
  "\<exists>outs. length (sheet outs ''r/s'') = 4 \<and> map_of (sheet outs ''r/s'' ! 3) ''_index'' = Some (PInt 4)"
proof -
  have "case joined_records sample_site ''f'' sample_records 1 [] of
      Inl e \<Rightarrow> False | Inr (idx, outs) \<Rightarrow> length (sheet outs ''r/s'') = 4"
    by code_simp
  then obtain idx outs where r: "joined_records sample_site ''f'' sample_records 1 [] = Inr (idx, outs)"
    and l: "length (sheet outs ''r/s'') = 4"
    by (auto split: sum.splits)
  have "\<forall>r \<in> set sample_records. proper_items r \<and> ''f'' \<notin> set (item_names r)"
    by (simp add: sample_records_def Let_def is_repeat_def joining_columns_def)
  from repeat_rows_are_numbered [OF r this, of "''r/s''"] l show ?thesis by (intro exI [of _ outs]) simp
qed

end
