(* ===== verification/Export_Columns.thy ===== *)
theory Export_Columns
  imports Export_Rows
begin

text \<open>
  The columns of an export: \<open>ExportBuilder.set_survey\<close> with its \<open>build_sections\<close>, the titles and
  labels of columns, and \<open>get_fields\<close> (\<open>onadata/libs/utils/export_builder.py\<close>).

  What pyxform knows of a question beside the survey of \<open>Survey\<close> (its parameters, its choice filter
  and itemset, the choices of the itemsets) and the tags of OSM files are arguments.  Every lookup uses
  the index of the form; what a lookup remembers does not change the lookups made here.
\<close>

section \<open>Titles\<close>

record question_info =
  qi_randomize :: "string option"
  qi_filtered :: bool
  qi_itemset :: "string option"

record column_env =
  ce_form :: form
  ce_info :: "string \<Rightarrow> question_info"
  ce_itemsets :: "string \<Rightarrow> (string \<times> label option) list option"
  ce_osm :: "string \<Rightarrow> string list"
  ce_delimiter :: char
  ce_remove_group :: bool

definition find_element :: "form \<Rightarrow> string \<Rightarrow> cell_error + element option" where
  "find_element f xpath =
     (case get_survey_element f xpath (element_index f) of None \<Rightarrow> Inl No_Return | Some (found, ix) \<Rightarrow> Inr found)"

definition grouped_title :: "column_env \<Rightarrow> string \<Rightarrow> bool \<Rightarrow> cell_error + string" where
  "grouped_title ce xpath gps_extra_field =
     (let d = ce_delimiter ce
      in if gps_extra_field then Inr (last (split_on d xpath))
         else (case find_element (ce_form ce) xpath of
                 Inl e \<Rightarrow> Inl e
               | Inr None \<Rightarrow> Inr xpath
               | Inr (Some (Choice n p l)) \<Rightarrow>
                   (case find_element (ce_form ce) (join [d] (butlast (split_on d xpath))) of
                      Inl e \<Rightarrow> Inl e
                    | Inr None \<Rightarrow> Inl No_Attribute
                    | Inr (Some parent) \<Rightarrow> Inr (join [d] [el_name parent, n]))
               | Inr (Some e) \<Rightarrow> Inr (el_name e)))"

definition format_field_title :: "column_env \<Rightarrow> string \<Rightarrow> bool \<Rightarrow> cell_error + string" where
  "format_field_title ce xpath gps_extra_field =
     (let d = ce_delimiter ce
      in map_sum id (\<lambda>title. if d \<noteq> CHR ''/'' \<and> CHR ''/'' \<in> set title then join [d] (split_on CHR ''/'' title) else title)
           (if ce_remove_group ce then grouped_title ce xpath gps_extra_field else Inr xpath))"

section \<open>Choices\<close>

fun first_text :: "string list \<Rightarrow> string option" where
  "first_text [] = None"
| "first_text (x # xs) = (case first_text xs of None \<Rightarrow> Some x | Some y \<Rightarrow> Some (if str_less y x then y else x))"

definition get_default_language :: "string option \<Rightarrow> string list \<Rightarrow> string option" where
  "get_default_language default_language languages =
     (if languages \<noteq> []
         \<and> (case default_language of Some l \<Rightarrow> l = [] \<or> l \<notin> set languages | None \<Rightarrow> True)
      then first_text languages else default_language)"

definition get_choice_label_from_dict :: "string option \<Rightarrow> string option \<Rightarrow> label \<Rightarrow> string option" where
  "get_choice_label_from_dict default_language lang lab =
     (case lab of
        No_Label \<Rightarrow> None
      | Label s \<Rightarrow> Some s
      | Translations ts \<Rightarrow>
          (let default_label = Option.bind (get_default_language default_language (map fst ts)) (map_of ts)
           in case lang of
                Some (c # cs) \<Rightarrow> (case map_of ts (c # cs) of Some s \<Rightarrow> Some s | None \<Rightarrow> default_label)
              | _ \<Rightarrow> default_label))"

definition or_else :: "string option \<Rightarrow> string \<Rightarrow> string" where
  "or_else lab title = (case lab of Some (c # cs) \<Rightarrow> c # cs | _ \<Rightarrow> title)"

definition get_choice_dict :: "column_env \<Rightarrow> string \<Rightarrow> string \<Rightarrow> string option \<Rightarrow> cell_error + select_choice" where
  "get_choice_dict ce child_name xpath lab =
     map_sum id
       (\<lambda>title.
          let own = or_else lab title; joined = join [ce_delimiter ce] [child_name, own]
          in \<lparr>sc_label = joined, sc_own_label = own, sc_label_xpath = joined, sc_title = title, sc_xpath = xpath\<rparr>)
       (format_field_title ce xpath False)"

fun all_right :: "('e + 'a) list \<Rightarrow> 'e + 'a list" where
  "all_right [] = Inr []"
| "all_right (r # rs) =
     (case r of Inl e \<Rightarrow> Inl e | Inr x \<Rightarrow> (case all_right rs of Inl e \<Rightarrow> Inl e | Inr xs \<Rightarrow> Inr (x # xs)))"

definition randomized :: "string option \<Rightarrow> bool" where
  "randomized s = (case s of Some t \<Rightarrow> lower t \<in> {''true'', ''t'', ''1''} | None \<Rightarrow> False)"

definition get_select_multiples_choices ::
    "column_env \<Rightarrow> string option \<Rightarrow> element \<Rightarrow> cell_error + select_choice list" where
  "get_select_multiples_choices ce lang child =
     (let qi = ce_info ce (el_path child); f = ce_form ce
      in if (qi_filtered qi \<or> randomized (qi_randomize qi)) \<and> (case qi_itemset qi of Some s \<Rightarrow> s \<noteq> [] | None \<Rightarrow> False)
         then (case ce_itemsets ce (the (qi_itemset qi)) of
                 None \<Rightarrow> Inr []
               | Some items \<Rightarrow>
                   all_right (map (\<lambda>(n, lab).
                     case lab of
                       None \<Rightarrow> Inl No_Key
                     | Some l \<Rightarrow>
                         get_choice_dict ce (el_name child) (abbreviated child @ ''/'' @ n)
                           (get_choice_label_from_dict (fo_language f) lang l)) items))
         else (case options_of child of
                 None \<Rightarrow> Inr []
               | Some os \<Rightarrow>
                   all_right (map (\<lambda>c.
                     case get_choice_label (fo_language f) lang (el_label c) of
                       Inl e \<Rightarrow> Inl (Label_Failed e)
                     | Inr lab \<Rightarrow>
                         get_choice_dict ce (el_name child) (get_abbreviated_xpath (el_path child @ ''/'' @ el_name c)) lab) os)))"

section \<open>Sections\<close>

definition add_column :: "nat \<Rightarrow> column \<Rightarrow> plan \<Rightarrow> plan" where
  "add_column i c pl =
     pl\<lparr>pl_sections := (pl_sections pl)[i := (fst (pl_sections pl ! i), snd (pl_sections pl ! i) @ [c])]\<rparr>"

definition section_name :: "nat \<Rightarrow> plan \<Rightarrow> string" where
  "section_name i pl = fst (pl_sections pl ! i)"

text \<open>\<open>_append_xpaths_to_section\<close>.\<close>

definition append_xpaths ::
    "string \<Rightarrow> string \<Rightarrow> 'a list \<Rightarrow> (string, (string \<times> 'a list) list) dict \<Rightarrow> (string, (string \<times> 'a list) list) dict" where
  "append_xpaths name xpath xs d = AList.update name (AList.update xpath xs (at_section d name)) d"

definition choice_column_of :: "select_choice \<Rightarrow> column" where
  "choice_column_of c =
     \<lparr>co_label = sc_label c, co_title = sc_title c, co_xpath = sc_xpath c, co_type = Some ''string'', co_parent = None,
      co_label_xpath = Some (sc_label_xpath c)\<rparr>"

definition extra_column :: "string \<Rightarrow> string \<Rightarrow> string \<Rightarrow> string option \<Rightarrow> column" where
  "extra_column title xpath ty parent =
     \<lparr>co_label = title, co_title = title, co_xpath = xpath, co_type = Some ty, co_parent = parent, co_label_xpath = None\<rparr>"

definition add_choice :: "nat \<Rightarrow> select_choice \<Rightarrow> plan \<Rightarrow> plan" where
  "add_choice i c pl = (if choice_column_of c \<in> set (snd (pl_sections pl ! i)) then pl else add_column i (choice_column_of c) pl)"

text \<open>The columns of one question: its own, those of its choices, of its position and of its OSM tags.\<close>

definition exported_question :: "element \<Rightarrow> bool" where
  "exported_question e =
     (case e of
        Question n p t b l os \<Rightarrow> (case b of Some ty \<Rightarrow> \<not> question_types_to_exclude ty | None \<Rightarrow> False)
         \<and> \<not> question_types_to_exclude (Some t)
      | _ \<Rightarrow> False)"

definition add_question :: "column_env \<Rightarrow> string option \<Rightarrow> nat \<Rightarrow> element \<Rightarrow> plan \<Rightarrow> cell_error + plan" where
  "add_question ce lang i child pl =
     (let xpath = abbreviated child
      in map_sum id
           (\<lambda>title.
              let pl1 = add_column i
                    \<lparr>co_label = or_else (element_label (fo_language (ce_form ce)) lang (el_label child)) title,
                     co_title = title, co_xpath = xpath, co_type = bind_type child, co_parent = None, co_label_xpath = None\<rparr> pl
              in if is_invalid_for_mongo xpath
                 then pl1\<lparr>pl_encoded := AList.update (section_name i pl)
                        (AList.update xpath (encode_for_mongo xpath) (at_section (pl_encoded pl1) (section_name i pl))) (pl_encoded pl1)\<rparr>
                 else pl1)
           (format_field_title ce xpath False))"

definition add_multiples :: "column_env \<Rightarrow> builder \<Rightarrow> nat \<Rightarrow> element \<Rightarrow> plan \<Rightarrow> cell_error + plan" where
  "add_multiples ce b i child pl =
     (if \<not> multiple_select child then Inr pl
      else (case (if split_multiples b then get_select_multiples_choices ce (language b) child else Inr []) of
              Inl e \<Rightarrow> Inl e
            | Inr choices \<Rightarrow>
                Inr ((fold (add_choice i) choices pl)
                  \<lparr>pl_multiples := append_xpaths (section_name i pl) (abbreviated child) choices (pl_multiples pl)\<rparr>)))"

fun add_extra_columns ::
    "column_env \<Rightarrow> nat \<Rightarrow> string \<Rightarrow> string option \<Rightarrow> bool \<Rightarrow> string list \<Rightarrow> plan \<Rightarrow> cell_error + plan" where
  "add_extra_columns ce i ty parent gps [] pl = Inr pl"
| "add_extra_columns ce i ty parent gps (x # xs) pl =
     (case format_field_title ce x gps of
        Inl e \<Rightarrow> Inl e
      | Inr title \<Rightarrow> add_extra_columns ce i ty parent gps xs (add_column i (extra_column title x ty parent) pl))"

definition add_gps :: "column_env \<Rightarrow> nat \<Rightarrow> element \<Rightarrow> plan \<Rightarrow> cell_error + plan" where
  "add_gps ce i child pl =
     (if bind_type child \<noteq> Some ''geopoint'' then Inr pl
      else
        (let xs = get_additional_geopoint_xpaths (abbreviated child)
         in map_sum id
              (\<lambda>pl1. pl1\<lparr>pl_gps := append_xpaths (section_name i pl) (abbreviated child) xs (pl_gps pl1)\<rparr>)
              (add_extra_columns ce i ''decimal'' (Some (abbreviated child)) True xs pl)))"

definition add_osm :: "column_env \<Rightarrow> nat \<Rightarrow> element \<Rightarrow> plan \<Rightarrow> cell_error + plan" where
  "add_osm ce i child pl =
     (if type_of child \<noteq> Some ''osm'' then Inr pl
      else
        (let xs = ce_osm ce (abbreviated child)
         in map_sum id
              (\<lambda>pl1. pl1\<lparr>pl_osm := append_xpaths (section_name i pl) (abbreviated child) xs (pl_osm pl1)\<rparr>)
              (add_extra_columns ce i ''osm'' None False xs pl)))"

definition add_select_one :: "nat \<Rightarrow> element \<Rightarrow> plan \<Rightarrow> plan" where
  "add_select_one i child pl =
     (if bind_type child = Some ''string'' \<and> type_of child = Some SELECT_ONE
      then pl\<lparr>pl_ones := AList.update (section_name i pl)
             (let ones = at_section (pl_ones pl) (section_name i pl)
              in if abbreviated child \<in> set ones then ones else ones @ [abbreviated child]) (pl_ones pl)\<rparr>
      else pl)"

definition add_child :: "column_env \<Rightarrow> builder \<Rightarrow> nat \<Rightarrow> element \<Rightarrow> plan \<Rightarrow> cell_error + plan" where
  "add_child ce b i child pl =
     (case add_question ce (language b) i child pl of
        Inl e \<Rightarrow> Inl e
      | Inr pl1 \<Rightarrow>
          (case add_multiples ce b i child pl1 of
             Inl e \<Rightarrow> Inl e
           | Inr pl2 \<Rightarrow>
               (case add_gps ce i child pl2 of
                  Inl e \<Rightarrow> Inl e
                | Inr pl3 \<Rightarrow> map_sum id (add_select_one i child) (add_osm ce i child pl3))))"

text \<open>\<open>build_sections\<close> of one child; \<open>i\<close> is the place of the current section.\<close>

fun build_section :: "column_env \<Rightarrow> builder \<Rightarrow> nat \<Rightarrow> element \<Rightarrow> plan \<Rightarrow> cell_error + plan"
  and build_sections :: "column_env \<Rightarrow> builder \<Rightarrow> nat \<Rightarrow> element list \<Rightarrow> plan \<Rightarrow> cell_error + plan" where
  "build_section ce b i (Section k n p bd l es) pl =
     (if k = Repeat
      then build_sections ce b (length (pl_sections pl)) es
             (pl\<lparr>pl_sections := pl_sections pl @ [(get_abbreviated_xpath p, [])]\<rparr>)
      else build_sections ce b i es pl)"
| "build_section ce b i (Question n p t bd l os) pl =
     (if exported_question (Question n p t bd l os) then add_child ce b i (Question n p t bd l os) pl else Inr pl)"
| "build_section ce b i (Choice n p l) pl = Inr pl"
| "build_sections ce b i [] pl = Inr pl"
| "build_sections ce b i (e # es) pl =
     (case build_section ce b i e pl of Inl err \<Rightarrow> Inl err | Inr pl1 \<Rightarrow> build_sections ce b i es pl1)"

definition set_survey :: "column_env \<Rightarrow> builder \<Rightarrow> cell_error + plan" where
  "set_survey ce b =
     build_sections ce b 0 (el_children (fo_root (ce_form ce)))
       \<lparr>pl_sections = [(el_name (fo_root (ce_form ce)), [])], pl_multiples = [], pl_ones = [], pl_gps = [], pl_osm = [],
        pl_encoded = []\<rparr>"

definition extra_fields :: "string list" where
  "extra_fields =
     [''_id'', ''_uuid'', ''_submission_time'', ''_index'', ''_parent_table_name'', ''_parent_index'', ''_tags'', ''_notes'',
      ''_version'', ''_duration'', ''_submitted_by'', ''_last_edited_by'']"

text \<open>\<open>configured\<close> is the setting \<open>EXTRA_COLUMNS\<close>.\<close>

definition extra_columns :: "bool \<Rightarrow> string list \<Rightarrow> string list" where
  "extra_columns include_reviews configured =
     extra_fields @ (if include_reviews then [''_review_status'', ''_review_comment'', ''_review_date''] else []) @ configured"

text \<open>\<open>get_fields\<close>; the columns of a filtered dataset, if there is one, select the columns by title.\<close>

definition field_name :: "builder \<Rightarrow> (column \<Rightarrow> string) \<Rightarrow> column \<Rightarrow> string" where
  "field_name b key c = (if show_labels b then or_else (co_label_xpath c) (key c) else key c)"

definition get_fields :: "builder \<Rightarrow> string list \<Rightarrow> string list option \<Rightarrow> column list \<Rightarrow> (column \<Rightarrow> string) \<Rightarrow> string list" where
  "get_fields b extra dataview cs key =
     (case dataview of
        Some cols \<Rightarrow>
          (let own = map (field_name b key) (filter (\<lambda>c. co_title c \<in> set cols) cs)
           in fold (\<lambda>col acc. if col \<notin> set acc \<and> col \<in> set extra then acc @ [col] else acc) cols own)
      | None \<Rightarrow> map (field_name b key) cs @ extra)"

section \<open>No question is left out\<close>

text \<open>The sections of the repeats in an element, and the questions with the section they belong to.\<close>

fun repeat_sections :: "element \<Rightarrow> string list" where
  "repeat_sections (Section k n p bd l es) =
     (if k = Repeat then [get_abbreviated_xpath p] else []) @ concat (map repeat_sections es)"
| "repeat_sections e = []"

fun placed :: "string \<Rightarrow> element \<Rightarrow> (string \<times> element) list" where
  "placed name (Section k n p bd l es) =
     concat (map (placed (if k = Repeat then get_abbreviated_xpath p else name)) es)"
| "placed name e = (if exported_question e then [(name, e)] else [])"

definition question_column :: "element \<Rightarrow> column \<Rightarrow> bool" where
  "question_column e c \<longleftrightarrow> co_xpath c = abbreviated e \<and> co_type c = bind_type e"

definition has_column :: "plan \<Rightarrow> string \<Rightarrow> element \<Rightarrow> bool" where
  "has_column pl name e \<longleftrightarrow> (\<exists>(s, cs) \<in> set (pl_sections pl). s = name \<and> (\<exists>c \<in> set cs. question_column e c))"

text \<open>What a step leaves of a list of sections.\<close>

definition keeps :: "plan \<Rightarrow> plan \<Rightarrow> bool" where
  "keeps pl pl' \<longleftrightarrow>
     list_all2 (\<lambda>(s, cs) (s', cs'). s = s' \<and> set cs \<subseteq> set cs') (pl_sections pl) (take (length (pl_sections pl)) (pl_sections pl'))"

definition names :: "plan \<Rightarrow> string list" where
  "names pl = map fst (pl_sections pl)"

lemma keeps_nth:
  "keeps pl pl' \<longleftrightarrow> length (pl_sections pl) \<le> length (pl_sections pl')
     \<and> (\<forall>j < length (pl_sections pl). fst (pl_sections pl ! j) = fst (pl_sections pl' ! j)
          \<and> set (snd (pl_sections pl ! j)) \<subseteq> set (snd (pl_sections pl' ! j)))"
  unfolding keeps_def list_all2_conv_all_nth by (auto simp: case_prod_unfold min_def split: if_splits)

lemma keeps_refl [simp]: "keeps pl pl"
  by (simp add: keeps_nth)

lemma keeps_trans: "keeps a b \<Longrightarrow> keeps b c \<Longrightarrow> keeps a c"
  unfolding keeps_nth by (metis (no_types, lifting) order_trans order_less_le_trans)

lemma has_column_nth:
  "has_column pl s e \<longleftrightarrow>
     (\<exists>j < length (pl_sections pl). fst (pl_sections pl ! j) = s
        \<and> (\<exists>c \<in> set (snd (pl_sections pl ! j)). question_column e c))"
  unfolding has_column_def case_prod_unfold set_conv_nth [of "pl_sections pl"] by blast

lemma keeps_has_column:
  assumes "keeps pl pl'" "has_column pl s e"
  shows "has_column pl' s e"
proof -
  from assms(2) obtain j c where "j < length (pl_sections pl)" "fst (pl_sections pl ! j) = s"
    "c \<in> set (snd (pl_sections pl ! j))" "question_column e c"
    unfolding has_column_nth by blast
  with assms(1) have "j < length (pl_sections pl')" "fst (pl_sections pl' ! j) = s"
    "c \<in> set (snd (pl_sections pl' ! j))" "question_column e c"
    unfolding keeps_nth by auto
  then show ?thesis unfolding has_column_nth by blast
qed

lemma keeps_section:
  "keeps pl pl' \<Longrightarrow> i < length (pl_sections pl) \<Longrightarrow> i < length (pl_sections pl') \<and> section_name i pl' = section_name i pl"
  by (auto simp: keeps_nth section_name_def)

text \<open>The steps for one question add columns to its section only.\<close>

definition widens :: "plan \<Rightarrow> plan \<Rightarrow> bool" where
  "widens pl pl' \<longleftrightarrow> keeps pl pl' \<and> names pl' = names pl"

lemma widens_refl [simp]: "widens pl pl"
  by (simp add: widens_def)

lemma widens_trans: "widens a b \<Longrightarrow> widens b c \<Longrightarrow> widens a c"
  by (auto simp: widens_def intro: keeps_trans)

lemma widens_same: "pl_sections pl' = pl_sections pl \<Longrightarrow> widens a pl \<Longrightarrow> widens a pl'"
  by (simp add: widens_def keeps_nth names_def)

lemma widens_add: "widens pl (add_column i c pl)"
proof -
  have "names (add_column i c pl) = names pl"
    unfolding names_def add_column_def
    by (cases "i < length (pl_sections pl)") (auto intro!: nth_equalityI simp: nth_list_update)
  moreover have "keeps pl (add_column i c pl)"
    unfolding keeps_nth add_column_def by (cases "i < length (pl_sections pl)") (auto simp: nth_list_update)
  ultimately show ?thesis by (simp add: widens_def)
qed

lemma widens_choice: "widens pl (add_choice i c pl)"
  by (simp add: add_choice_def widens_add)

lemma widens_choices: "widens pl (fold (add_choice i) cs pl)"
proof (induction cs arbitrary: pl)
  case (Cons c cs)
  from widens_trans [OF widens_choice Cons.IH] show ?case by simp
qed simp

lemma widens_multiples: "add_multiples ce b i e pl = Inr pl' \<Longrightarrow> widens pl pl'"
  using widens_same [OF _ widens_choices [of pl i]]
  by (cases "split_multiples b") (auto simp: add_multiples_def widens_same [OF _ widens_refl] split: if_splits sum.splits)

lemma widens_extra: "add_extra_columns ce i ty parent gps xs pl = Inr pl' \<Longrightarrow> widens pl pl'"
proof (induction xs arbitrary: pl)
  case (Cons x xs)
  then obtain title where
    "add_extra_columns ce i ty parent gps xs (add_column i (extra_column title x ty parent) pl) = Inr pl'"
    by (auto split: sum.splits)
  from widens_trans [OF widens_add Cons.IH [OF this]] show ?case .
qed simp

lemma map_sum_Inr: "map_sum id g r = Inr y \<longleftrightarrow> (\<exists>x. r = Inr x \<and> y = g x)"
  by (cases r) auto

lemma widens_gps: "add_gps ce i e pl = Inr pl' \<Longrightarrow> widens pl pl'"
  by (auto simp: add_gps_def Let_def map_sum_Inr split: if_splits dest!: widens_extra intro: widens_same [rotated])

lemma widens_osm: "add_osm ce i e pl = Inr pl' \<Longrightarrow> widens pl pl'"
  by (auto simp: add_osm_def Let_def map_sum_Inr split: if_splits dest!: widens_extra intro: widens_same [rotated])

lemma widens_select_one: "widens pl (add_select_one i e pl)"
  by (simp add: add_select_one_def Let_def widens_same [OF _ widens_refl])

lemma question_added:
  assumes "add_question ce lang i e pl = Inr pl'" "i < length (pl_sections pl)"
  shows "widens pl pl' \<and> has_column pl' (section_name i pl) e"
proof -
  from assms(1) obtain c where "pl_sections pl' = pl_sections (add_column i c pl)" "question_column e c"
    by (auto simp: add_question_def Let_def map_sum_Inr question_column_def split: if_splits)
  then have "widens pl pl'" "has_column pl' (section_name i pl) e"
    using assms(2) widens_same [OF _ widens_add, of pl' i c pl]
    unfolding has_column_nth section_name_def by (auto simp: add_column_def intro!: exI [of _ i])
  then show ?thesis ..
qed

lemma child_added:
  assumes "add_child ce b i e pl = Inr pl'" "i < length (pl_sections pl)"
  shows "widens pl pl' \<and> has_column pl' (section_name i pl) e"
proof -
  from assms(1) obtain pl1 pl2 pl3 pl4 where 1: "add_question ce (language b) i e pl = Inr pl1"
    and steps: "add_multiples ce b i e pl1 = Inr pl2" "add_gps ce i e pl2 = Inr pl3" "add_osm ce i e pl3 = Inr pl4"
      "pl' = add_select_one i e pl4"
    by (auto simp: add_child_def map_sum_Inr split: sum.splits)
  note q = question_added [OF 1 assms(2)]
  have "widens pl1 pl'"
    using widens_trans [OF widens_multiples [OF steps(1)]
        widens_trans [OF widens_gps [OF steps(2)] widens_trans [OF widens_osm [OF steps(3)] widens_select_one]]] steps(4)
    by simp
  with q show ?thesis using keeps_has_column widens_trans unfolding widens_def by metis
qed

definition builds :: "nat \<Rightarrow> string list \<Rightarrow> (string \<times> element) list \<Rightarrow> plan \<Rightarrow> plan \<Rightarrow> bool" where
  "builds i added qs pl pl' \<longleftrightarrow>
     keeps pl pl' \<and> names pl' = names pl @ added \<and> (\<forall>(s, q) \<in> set qs. has_column pl' s q)"

lemma builds_append:
  "builds i as qs pl pl1 \<Longrightarrow> builds i bs rs pl1 pl2 \<Longrightarrow> builds i (as @ bs) (qs @ rs) pl pl2"
  by (auto simp: builds_def intro: keeps_trans keeps_has_column)

lemma section_opened:
  "keeps pl (pl\<lparr>pl_sections := pl_sections pl @ [s]\<rparr>)"
  by (auto simp: keeps_nth nth_append)

lemma build_keeps:
  "build_section ce b i e pl = Inr pl' \<Longrightarrow> i < length (pl_sections pl) \<Longrightarrow>
     builds i (repeat_sections e) (placed (section_name i pl) e) pl pl'"
  "build_sections ce b i es pl = Inr pl' \<Longrightarrow> i < length (pl_sections pl) \<Longrightarrow>
     builds i (concat (map repeat_sections es)) (concat (map (placed (section_name i pl)) es)) pl pl'"
proof (induction ce b i e pl and ce b i es pl arbitrary: pl' and pl' rule: build_section_build_sections.induct)
  case (1 ce b i k n p bd l es pl)
  show ?case
  proof (cases "k = Repeat")
    case True
    let ?pl1 = "pl\<lparr>pl_sections := pl_sections pl @ [(get_abbreviated_xpath p, [])]\<rparr>"
    have "builds (length (pl_sections pl)) (concat (map repeat_sections es))
        (concat (map (placed (section_name (length (pl_sections pl)) ?pl1)) es)) ?pl1 pl'"
      using 1 True by simp
    moreover have "section_name (length (pl_sections pl)) ?pl1 = get_abbreviated_xpath p" by (simp add: section_name_def)
    ultimately show ?thesis
      using True keeps_trans [OF section_opened] by (auto simp: builds_def names_def)
  next
    case False
    with 1 show ?thesis by (simp add: builds_def)
  qed
next
  case (2 ce b i n p t bd l os pl)
  then show ?case using child_added [of ce b i "Question n p t bd l os" pl pl']
    by (auto simp: builds_def widens_def split: if_splits)
next
  case (3 ce b i n p l pl)
  then show ?case by (simp add: builds_def exported_question_def)
next
  case (4 ce b i pl)
  then show ?case by (simp add: builds_def)
next
  case (5 ce b i e es pl)
  from "5.prems"(1) obtain pl1 where 1: "build_section ce b i e pl = Inr pl1" and 2: "build_sections ce b i es pl1 = Inr pl'"
    by (auto split: sum.splits)
  have first: "builds i (repeat_sections e) (placed (section_name i pl) e) pl pl1"
    using "5.IH"(1) [OF 1 "5.prems"(2)] .
  have same: "i < length (pl_sections pl1)" "section_name i pl1 = section_name i pl"
    using first keeps_section "5.prems"(2) unfolding builds_def by blast+
  from builds_append [OF first "5.IH"(2) [OF 1 2 same(1), unfolded same(2)]] show ?case by simp
qed

definition exported_questions :: "form \<Rightarrow> (string \<times> element) list" where
  "exported_questions f = concat (map (placed (el_name (fo_root f))) (el_children (fo_root f)))"

text \<open>C36: No question is left out of an export: the sections are the survey and, in the order of the form,
  its repeats, and every exported question has a column with its path and type in the section of
  the nearest repeat around it, or of the survey.\<close>

theorem every_question_has_a_column:
  assumes "set_survey ce b = Inr pl"
  shows "map fst (pl_sections pl)
       = el_name (fo_root (ce_form ce)) # concat (map repeat_sections (el_children (fo_root (ce_form ce))))
     \<and> (\<forall>(s, q) \<in> set (exported_questions (ce_form ce)).
          \<exists>cs c. (s, cs) \<in> set (pl_sections pl) \<and> c \<in> set cs \<and> co_xpath c = abbreviated q \<and> co_type c = bind_type q)"
proof -
  have "builds 0 (concat (map repeat_sections (el_children (fo_root (ce_form ce))))) (exported_questions (ce_form ce))
      \<lparr>pl_sections = [(el_name (fo_root (ce_form ce)), [])], pl_multiples = [], pl_ones = [], pl_gps = [], pl_osm = [],
       pl_encoded = []\<rparr> pl"
    using build_keeps(2) [OF assms [unfolded set_survey_def]] by (simp add: section_name_def exported_questions_def)
  then show ?thesis
    unfolding builds_def names_def has_column_def question_column_def by fastforce
qed

definition plain_info :: question_info where
  "plain_info = \<lparr>qi_randomize = None, qi_filtered = False, qi_itemset = None\<rparr>"

text \<open>Two questions with the same choices, and a repeat.\<close>

definition fruit_form :: form where
  "fruit_form =
     (let q = (\<lambda>n. Question n (''/data/'' @ n) MULTIPLE_SELECT_TYPE (Some (Some ''string'')) No_Label
                (Some [Choice ''fig'' (''/data/'' @ n @ ''/fig'') No_Label]));
          a = Question ''a'' ''/data/r/a'' ''integer'' (Some (Some ''int'')) No_Label None;
          r = Section Repeat ''r'' ''/data/r'' None No_Label [a];
          root = Section Survey_Root ''data'' ''/data'' None No_Label [q ''bought'', r, q ''eaten'']
      in \<lparr>fo_root = root, fo_elements = [root, q ''bought'', r, a, q ''eaten''], fo_language = None\<rparr>)"

definition fruit_env :: "char \<Rightarrow> bool \<Rightarrow> column_env" where
  "fruit_env d remove =
     \<lparr>ce_form = fruit_form, ce_info = (\<lambda>_. plain_info), ce_itemsets = (\<lambda>_. None), ce_osm = (\<lambda>_. []), ce_delimiter = d,
      ce_remove_group = remove\<rparr>"

definition titles :: "cell_error + plan \<Rightarrow> (string \<times> string list) list" where
  "titles r = (case r of Inl e \<Rightarrow> [] | Inr pl \<Rightarrow> map (\<lambda>(s, cs). (s, map co_title cs)) (pl_sections pl))"

lemma fruit_titles:
  "titles (set_survey (fruit_env CHR ''/'' False) plain_builder)
     = [(''data'', [''bought'', ''bought/fig'', ''eaten'', ''eaten/fig'']), (''r'', [''r/a''])]"
  by code_simp

theorem every_question_has_a_column_witness:
  "\<exists>pl cs c. set_survey (fruit_env CHR ''/'' False) plain_builder = Inr pl \<and> (''r'', cs) \<in> set (pl_sections pl) \<and> c \<in> set cs
     \<and> co_xpath c = ''r/a'' \<and> co_type c = Some ''int''"
proof -
  let ?q = "Question ''a'' ''/data/r/a'' ''integer'' (Some (Some ''int'')) No_Label None"
  obtain pl where pl: "set_survey (fruit_env CHR ''/'' False) plain_builder = Inr pl"
    using fruit_titles by (cases "set_survey (fruit_env CHR ''/'' False) plain_builder") (simp_all add: titles_def)
  have q: "(''r'', ?q) \<in> set (exported_questions (ce_form (fruit_env CHR ''/'' False)))" by code_simp
  have "\<exists>cs c. (''r'', cs) \<in> set (pl_sections pl) \<and> c \<in> set cs \<and> co_xpath c = abbreviated ?q \<and> co_type c = bind_type ?q"
    using every_question_has_a_column [OF pl] q by blast
  moreover have "abbreviated ?q = ''r/a''" "bind_type ?q = Some ''int''" by code_simp+
  ultimately show ?thesis using pl by auto
qed

lemma find_indexed:
  "map_of (element_index f) (remove_all_indices path) = Some e \<Longrightarrow> find_element f path = Inr (Some e)"
  by (simp add: find_element_def get_survey_element_def get_element.simps [of path])

lemma find_choice:
  assumes "map_of (element_index f) (remove_all_indices path) = None"
    and "map_of (element_index f) (remove_all_indices (parent_path path)) = Some p"
    and "choice_of (Some p) (last (split_on CHR ''/'' path)) = Some c"
  shows "find_element f path = Inr (Some c)"
proof -
  have "get_element (parent_path path) (element_index f) = Some (Some p, element_index f)"
    using assms(2) by (simp add: get_element.simps [of "parent_path path"])
  with assms(1,3) show ?thesis
    by (simp add: find_element_def get_survey_element_def get_element.simps [of path] Let_def)
qed

text \<open>With the dot as delimiter, the question of a choice is looked for under the empty path, and the titles do not
  tell the choices of different questions: both have the name of the form.\<close>

theorem dot_titles_confuse_choices:
  "format_field_title (fruit_env CHR ''.'' True) ''bought/fig'' False = Inr ''data.fig''
     \<and> format_field_title (fruit_env CHR ''.'' True) ''eaten/fig'' False = Inr ''data.fig''
     \<and> format_field_title (fruit_env CHR ''/'' True) ''bought/fig'' False = Inr ''bought/fig''"
proof -
  have bought: "find_element fruit_form ''bought/fig'' = Inr (Some (Choice ''fig'' ''/data/bought/fig'' No_Label))"
    by (rule find_choice) code_simp+
  have eaten: "find_element fruit_form ''eaten/fig'' = Inr (Some (Choice ''fig'' ''/data/eaten/fig'' No_Label))"
    by (rule find_choice) code_simp+
  have root: "find_element fruit_form [] = Inr (Some (fo_root fruit_form))"
    by (rule find_indexed) code_simp
  have question: "find_element fruit_form ''bought'' = Inr (Some (hd (el_children (fo_root fruit_form))))"
    by (rule find_indexed) code_simp
  have names: "el_name (fo_root fruit_form) = ''data''" "el_name (hd (el_children (fo_root fruit_form))) = ''bought''"
    by code_simp+
  have paths: "split_on CHR ''.'' ''bought/fig'' = [''bought/fig'']" "split_on CHR ''.'' ''eaten/fig'' = [''eaten/fig'']"
    "split_on CHR ''/'' ''bought/fig'' = [''bought'', ''fig'']" "join ''.'' [''data'', ''fig''] = ''data.fig''"
    "join ''/'' [''bought''] = ''bought''" "join ''/'' [''bought'', ''fig''] = ''bought/fig''"  "join ''.'' [] = []"
    by code_simp+
  show ?thesis
    by (simp add: format_field_title_def grouped_title_def fruit_env_def bought eaten root question names paths Let_def)
qed

end
