(* ===== verification/Export_Files.thy ===== *)
theory Export_Files
  imports Export_Columns
begin

text \<open>
  The files of an export: the tables that \<open>to_zipped_csv\<close>, \<open>to_xlsx_export\<close> and \<open>to_zipped_sav\<close> of
  \<open>onadata/libs/utils/export_builder.py\<close> write, with the names of their sheets, files and SPSS variables.

  A table is the list of the rows given to the writer of its format, which is not modelled.  Sections have
  different names (a table is found by the name of its section), so that no row is processed twice.  What
  the SPSS writer makes of times and the texts of UUIDs are arguments.
\<close>

section \<open>Names of sheets\<close>

definition sheet_name_max :: nat where
  "sheet_name_max = 31"

text \<open>The loop of \<open>get_valid_sheet_name\<close>; a number of more than 31 digits is never reached.\<close>

definition numbered_name :: "nat \<Rightarrow> string \<Rightarrow> string" where
  "numbered_name i name = take (sheet_name_max - length (show_nat i)) name @ show_nat i"

partial_function (option) free_sheet_name :: "nat \<Rightarrow> string \<Rightarrow> string list \<Rightarrow> string option" where
  "free_sheet_name i name existing =
     (if name \<in> set existing then free_sheet_name (i + 1) (numbered_name i name) existing else Some name)"

definition get_valid_sheet_name :: "string \<Rightarrow> string list \<Rightarrow> string option" where
  "get_valid_sheet_name desired existing = free_sheet_name 1 (take sheet_name_max desired) existing"

definition flat_name :: "string \<Rightarrow> string" where
  "flat_name s = join ''_'' (split_on CHR ''/'' s)"

fun sheet_titles :: "string list \<Rightarrow> (string, string) dict \<Rightarrow> (string, string) dict option" where
  "sheet_titles [] given = Some given"
| "sheet_titles (s # ss) given =
     (case get_valid_sheet_name (flat_name s) (map snd given) of
        None \<Rightarrow> None | Some t \<Rightarrow> sheet_titles ss (AList.update s t given))"

section \<open>Tables\<close>

record file_env =
  fe_columns :: column_env
  fe_builder :: builder
  fe_py :: conversions
  fe_site :: site
  fe_labels :: bool
  fe_labels_only :: bool
  fe_hxl :: bool
  fe_hxl_columns :: "(string, string) dict"
  fe_dataview :: "string list option"
  fe_extra :: "string list"

type_synonym sheets = "(string, cell list list) dict"

definition write_table_row :: "string \<Rightarrow> cell list \<Rightarrow> sheets \<Rightarrow> sheets" where
  "write_table_row s r sheets = AList.update s (at_section sheets s @ [r]) sheets"

definition text_cells :: "file_env \<Rightarrow> string list \<Rightarrow> cell list" where
  "text_cells fe = map (\<lambda>s. sanitize_for_export (fe_py fe) (Val (PStr s)))"

definition fields_of :: "file_env \<Rightarrow> column list \<Rightarrow> (column \<Rightarrow> string) \<Rightarrow> string list" where
  "fields_of fe cs key = get_fields (fe_builder fe) (fe_extra fe) (fe_dataview fe) cs key"

definition hxl_row :: "file_env \<Rightarrow> column list \<Rightarrow> string list" where
  "hxl_row fe cs =
     map (\<lambda>col. case map_of (fe_hxl_columns fe) col of Some t \<Rightarrow> t | None \<Rightarrow> []) (fields_of fe cs co_title)"

text \<open>The titles, the labels and the HXL tags above the rows.\<close>

definition header_rows :: "file_env \<Rightarrow> column list \<Rightarrow> cell list list" where
  "header_rows fe cs =
     (if fe_labels_only fe then [] else [text_cells fe (fields_of fe cs co_title)])
     @ (if fe_labels fe \<or> fe_labels_only fe then [text_cells fe (fields_of fe cs co_label)] else [])
     @ (if fe_hxl fe \<and> fe_hxl_columns fe \<noteq> [] \<and> hxl_row fe cs \<noteq> [] then [text_cells fe (hxl_row fe cs)] else [])"

definition open_tables :: "file_env \<Rightarrow> (string \<times> column list) list \<Rightarrow> sheets" where
  "open_tables fe sections = map (\<lambda>(s, cs). (s, header_rows fe cs)) sections"

text \<open>The tables of a record; the row of the form gets its number, and no parent.\<close>

definition with_index :: "string \<Rightarrow> nat \<Rightarrow> tables \<Rightarrow> cell_error + tables" where
  "with_index name index out =
     (case (case map_of out name of None \<Rightarrow> Fields [] | Some t \<Rightarrow> t) of
        Fields f \<Rightarrow>
          Inr (AList.update name
            (Fields (AList.update ''_parent_index'' (PInt (- 1)) (AList.update ''_index'' (PInt (int index)) f))) out)
      | Rows rs \<Rightarrow> Inl Wrong_Type)"

definition rows_in :: "tables \<Rightarrow> string \<Rightarrow> pyval row list" where
  "rows_in out s = (case map_of out s of None \<Rightarrow> [] | Some (Fields f) \<Rightarrow> [f] | Some (Rows rs) \<Rightarrow> rs)"

text \<open>\<open>wr\<close> is the \<open>write_row\<close> of the format.\<close>

fun write_rows ::
    "file_env \<Rightarrow> (string \<times> column list \<Rightarrow> cell row \<Rightarrow> cell_error + cell list) \<Rightarrow> plan \<Rightarrow> string \<times> column list
     \<Rightarrow> pyval row list \<Rightarrow> sheets \<Rightarrow> cell_error + sheets" where
  "write_rows fe wr pl sec [] sheets = Inr sheets"
| "write_rows fe wr pl sec (r # rs) sheets =
     (case pre_process_row (fe_py fe) (fe_builder fe) (ce_form (fe_columns fe)) pl r sec of
        Inl e \<Rightarrow> Inl e
      | Inr row \<Rightarrow>
          (case wr sec row of
             Inl e \<Rightarrow> Inl e
           | Inr cells \<Rightarrow> write_rows fe wr pl sec rs (write_table_row (fst sec) cells sheets)))"

fun write_sections ::
    "file_env \<Rightarrow> (string \<times> column list \<Rightarrow> cell row \<Rightarrow> cell_error + cell list) \<Rightarrow> plan \<Rightarrow> (string \<times> column list) list
     \<Rightarrow> tables \<Rightarrow> sheets \<Rightarrow> cell_error + sheets" where
  "write_sections fe wr pl [] out sheets = Inr sheets"
| "write_sections fe wr pl (sec # secs) out sheets =
     (case write_rows fe wr pl sec (rows_in out (fst sec)) sheets of
        Inl e \<Rightarrow> Inl e | Inr sheets1 \<Rightarrow> write_sections fe wr pl secs out sheets1)"

definition survey_name :: "file_env \<Rightarrow> string" where
  "survey_name fe = el_name (fo_root (ce_form (fe_columns fe)))"

fun write_records ::
    "file_env \<Rightarrow> (string \<times> column list \<Rightarrow> cell row \<Rightarrow> cell_error + cell list) \<Rightarrow> plan \<Rightarrow> nat \<Rightarrow> indices \<Rightarrow> pyval row list
     \<Rightarrow> sheets \<Rightarrow> cell_error + sheets" where
  "write_records fe wr pl index idx [] sheets = Inr sheets"
| "write_records fe wr pl index idx (r # rs) sheets =
     (case dict_to_joined_export (fe_site fe) r index idx (survey_name fe) of
        Inl e \<Rightarrow> Inl e
      | Inr (idx1, joined) \<Rightarrow>
          (case with_index (survey_name fe) index (decode_mongo_encoded_section_names joined) of
             Inl e \<Rightarrow> Inl e
           | Inr out \<Rightarrow>
               (case write_sections fe wr pl (pl_sections pl) out sheets of
                  Inl e \<Rightarrow> Inl e | Inr sheets1 \<Rightarrow> write_records fe wr pl (index + 1) idx1 rs sheets1)))"

section \<open>Formats\<close>

definition iso_format :: "string \<Rightarrow> string" where
  "iso_format kind = (if kind = ''date'' then ''%Y-%m-%d'' else ''%Y-%m-%dT%H:%M:%S'')"

text \<open>
  \<open>encode_if_str\<close>; \<open>spss\<close> is \<open>spssDateTime\<close> of the SPSS writer, if there is one.  The other format of
  times is never used: a text is never empty.
\<close>

definition encode_if_str ::
    "conversions \<Rightarrow> bool \<Rightarrow> (string \<Rightarrow> string \<Rightarrow> cell) option \<Rightarrow> cell row \<Rightarrow> string \<Rightarrow> cell" where
  "encode_if_str py encode_dates sav row key =
     (let c = (case map_of row key of Some c \<Rightarrow> c | None \<Rightarrow> Val PNone);
          day = (case c of Native k s \<Rightarrow> k \<noteq> ''decimal'' | Val v \<Rightarrow> False)
      in case (c, sav) of
           (Native k s, Some spss) \<Rightarrow> if day then spss s (iso_format k) else Val (PStr s)
         | (Native k s, None) \<Rightarrow> if day \<and> encode_dates then Val (PStr s) else c
         | (Val v, Some spss) \<Rightarrow>
             (case v of
                PNone \<Rightarrow> Val (PStr []) | PBool b \<Rightarrow> c | PStr s \<Rightarrow> c | _ \<Rightarrow> Val (PStr (str_of py v)))
         | (Val v, None) \<Rightarrow> c)"

definition csv_cells :: "file_env \<Rightarrow> string \<times> column list \<Rightarrow> cell row \<Rightarrow> cell_error + cell list" where
  "csv_cells fe sec row =
     Inr (map (\<lambda>f. sanitize_for_export (fe_py fe) (encode_if_str (fe_py fe) False None row f))
       (fields_of fe (snd sec) co_xpath))"

definition to_zipped_csv :: "file_env \<Rightarrow> plan \<Rightarrow> pyval row list \<Rightarrow> cell_error + sheets" where
  "to_zipped_csv fe pl data =
     map_sum id (map (\<lambda>(s, rows). (flat_name s @ ''.csv'', rows)))
       (write_records fe (csv_cells fe) pl 1 [] data (open_tables fe (pl_sections pl)))"

text \<open>In a workbook the parent is the title of a sheet.\<close>

definition with_parent_title :: "(string, string) dict \<Rightarrow> cell row \<Rightarrow> cell_error + cell row" where
  "with_parent_title sheet_of row =
     map_sum id (\<lambda>c. AList.update ''_parent_table_name'' c row)
       (case map_of row ''_parent_table_name'' of
          Some (Val (PStr s)) \<Rightarrow> Inr (case map_of sheet_of s of Some t \<Rightarrow> Val (PStr t) | None \<Rightarrow> Val PNone)
        | Some (Val (PList xs)) \<Rightarrow> Inl Wrong_Type
        | Some (Val (PDict d)) \<Rightarrow> Inl Wrong_Type
        | _ \<Rightarrow> Inr (Val PNone))"

definition xlsx_cells ::
    "file_env \<Rightarrow> (string, string) dict \<Rightarrow> string \<times> column list \<Rightarrow> cell row \<Rightarrow> cell_error + cell list" where
  "xlsx_cells fe sheet_of sec row =
     map_sum id
       (\<lambda>row1. map (\<lambda>f. sanitize_for_export (fe_py fe) (case map_of row1 f of Some c \<Rightarrow> c | None \<Rightarrow> Val PNone))
                 (fields_of fe (snd sec) co_xpath))
       (with_parent_title sheet_of row)"

definition to_xlsx_export :: "file_env \<Rightarrow> plan \<Rightarrow> pyval row list \<Rightarrow> (cell_error + sheets) option" where
  "to_xlsx_export fe pl data =
     map_option
       (\<lambda>sheet_of.
          map_sum id (map (\<lambda>(s, rows). (case map_of sheet_of s of Some t \<Rightarrow> t | None \<Rightarrow> [], rows)))
            (write_records fe (xlsx_cells fe sheet_of) pl 1 [] data (open_tables fe (pl_sections pl))))
       (sheet_titles (map fst (pl_sections pl)) [])"

section \<open>Sheets have different names\<close>

fun name_after :: "nat \<Rightarrow> string \<Rightarrow> string" where
  "name_after 0 name = name"
| "name_after (Suc i) name = numbered_name (Suc i) (name_after i name)"

lemma length_show_nat: "10 ^ k \<le> n \<Longrightarrow> n < 10 ^ Suc k \<Longrightarrow> length (show_nat n) = Suc k"
proof (induction k arbitrary: n)
  case 0
  then show ?case by (simp add: show_nat_small)
next
  case (Suc k)
  have "10 ^ k \<le> n div 10" "n div 10 < 10 ^ Suc k" using Suc.prems by auto
  with Suc.IH have "length (show_nat (n div 10)) = Suc k" by blast
  moreover have "\<not> n < 10" using Suc.prems(1) by (auto simp: not_less intro: order_trans [OF self_le_power])
  ultimately show ?case by (simp add: show_nat_large)
qed

lemma length_show_nat_le: "0 < n \<Longrightarrow> n < 10 ^ Suc k \<Longrightarrow> length (show_nat n) \<le> Suc k"
proof (induction k arbitrary: n)
  case 0
  then show ?case by (simp add: show_nat_small)
next
  case (Suc k)
  show ?case
  proof (cases "n < 10 ^ Suc k")
    case True
    with Suc.IH Suc.prems(1) show ?thesis using le_SucI by blast
  next
    case False
    with length_show_nat [of "Suc k" n] Suc.prems(2) show ?thesis by simp
  qed
qed

lemma name_after_short:
  assumes "i < 10 ^ 31" "length name \<le> sheet_name_max"
  shows "length (name_after i name) \<le> sheet_name_max"
proof (cases i)
  case (Suc j)
  then have "length (show_nat (Suc j)) \<le> 31" using length_show_nat_le [of "Suc j" 30] assms(1) by simp
  with Suc show ?thesis by (simp add: numbered_name_def sheet_name_max_def)
qed (use assms(2) in simp)

lemma name_after_long:
  assumes "10 ^ 30 \<le> i" "i < 10 ^ 31"
  shows "name_after i name = show_nat i"
proof (cases i)
  case (Suc j)
  with length_show_nat [of 30 i] assms show ?thesis by (simp add: numbered_name_def sheet_name_max_def)
qed (use assms(1) in simp)

lemma some_name_is_free:
  assumes "length existing < 9 * 10 ^ 30"
  shows "\<exists>j < 10 ^ 31. name_after j name \<notin> set existing"
proof (rule ccontr)
  let ?I = "{10 ^ 30 ..< 10 ^ 31 :: nat}"
  assume "\<not> ?thesis"
  then have "show_nat ` ?I \<subseteq> set existing" using name_after_long by force
  then have "card (show_nat ` ?I) \<le> length existing" using card_length card_mono le_trans by (metis List.finite_set)
  moreover have "card (show_nat ` ?I) = card ?I" by (rule card_image) (auto intro: inj_onI)
  ultimately show False using assms by simp
qed

lemma free_name_found:
  "i \<le> j \<Longrightarrow> name_after j name \<notin> set existing \<Longrightarrow>
     \<exists>k \<le> j. free_sheet_name (Suc i) (name_after i name) existing = Some (name_after k name) \<and> name_after k name \<notin> set existing"
proof (induction i rule: inc_induct)
  case base
  then show ?case by (auto simp: free_sheet_name.simps)
next
  case (step i)
  then show ?case
  proof (cases "name_after i name \<in> set existing")
    case True
    with step show ?thesis by (simp add: free_sheet_name.simps [of "Suc i" "name_after i name"])
  next
    case False
    with step.hyps show ?thesis by (intro exI [of _ i]) (simp add: free_sheet_name.simps)
  qed
qed

lemma sheet_name_found:
  assumes "length existing < 9 * 10 ^ 30"
  shows "\<exists>t. get_valid_sheet_name desired existing = Some t \<and> t \<notin> set existing \<and> length t \<le> sheet_name_max"
proof -
  let ?name = "take sheet_name_max desired"
  obtain j where j: "j < 10 ^ 31" "name_after j ?name \<notin> set existing"
    using some_name_is_free [OF assms] by blast
  obtain k where "k \<le> j" "get_valid_sheet_name desired existing = Some (name_after k ?name)"
    "name_after k ?name \<notin> set existing"
    using free_name_found [OF _ j(2), of 0] by (auto simp: get_valid_sheet_name_def)
  moreover have "length (name_after k ?name) \<le> sheet_name_max"
    by (rule name_after_short) (use \<open>k \<le> j\<close> j(1) in auto)
  ultimately show ?thesis by blast
qed

text \<open>C38: The sheets of a workbook have different titles of at most 31 characters, whatever the sections are called,
  and the search for them ends.\<close>

theorem sheet_titles_are_valid:
  assumes "distinct sections" "length sections \<le> 9 * 10 ^ 30"
  shows "\<exists>ts. sheet_titles sections [] = Some (zip sections ts) \<and> length ts = length sections \<and> distinct ts
           \<and> (\<forall>t \<in> set ts. length t \<le> sheet_name_max)"
proof -
  have "\<exists>ts'. sheet_titles ss (zip done ts) = Some (zip (done @ ss) (ts @ ts')) \<and> length ts' = length ss \<and> distinct (ts @ ts')
      \<and> (\<forall>t \<in> set ts'. length t \<le> sheet_name_max)"
    if "distinct (done @ ss)" "length (done @ ss) \<le> 9 * 10 ^ 30" "length ts = length done" "distinct ts"
    for ss "done" ts
    using that
  proof (induction ss arbitrary: "done" ts)
    case (Cons s ss)
    obtain t where t: "get_valid_sheet_name (flat_name s) ts = Some t" "t \<notin> set ts" "length t \<le> sheet_name_max"
      using sheet_name_found [of ts "flat_name s"] Cons.prems(2,3) by auto
    have "AList.update s t (zip done ts) = zip (done @ [s]) (ts @ [t])"
      using Cons.prems(1,3) dict_put_new [of s "zip done ts" t] by (auto simp: zip_append simp flip: set_map)
    moreover obtain ts' where "sheet_titles ss (zip (done @ [s]) (ts @ [t])) = Some (zip (done @ s # ss) (ts @ t # ts'))"
      "length ts' = length ss" "distinct (ts @ t # ts')" "\<forall>t \<in> set ts'. length t \<le> sheet_name_max"
      using Cons.IH [of "done @ [s]" "ts @ [t]"] Cons.prems t by (auto simp del: zip_append)
    ultimately show ?case using t Cons.prems(3)
      by (intro exI [of _ "t # ts'"]) (simp del: zip_append)
  qed simp
  from this [of "[]" sections "[]"] assms show ?thesis by simp
qed

theorem sheet_titles_are_valid_witness:
  "\<exists>ts. sheet_titles [''a/b'', ''a_b''] [] = Some (zip [''a/b'', ''a_b''] ts) \<and> length ts = 2 \<and> distinct ts"
  using sheet_titles_are_valid [of "[''a/b'', ''a_b'']"] by auto

section \<open>Rows under their headers\<close>

definition width :: "file_env \<Rightarrow> column list \<Rightarrow> nat" where
  "width fe cs = length cs + length (fe_extra fe)"

lemma fields_width [simp]: "fe_dataview fe = None \<Longrightarrow> length (fields_of fe cs key) = width fe cs"
  by (simp add: fields_of_def get_fields_def width_def)

lemma headers_width: "fe_dataview fe = None \<Longrightarrow> r \<in> set (header_rows fe cs) \<Longrightarrow> length r = width fe cs"
  by (auto simp: header_rows_def text_cells_def hxl_row_def split: if_splits)

definition adds_rows :: "nat \<Rightarrow> nat \<Rightarrow> cell list list \<Rightarrow> cell list list \<Rightarrow> bool" where
  "adds_rows w n a b \<longleftrightarrow> (\<exists>rows. b = a @ rows \<and> length rows = n \<and> (\<forall>r \<in> set rows. length r = w))"

lemma adds_none: "adds_rows w 0 a a"
  by (simp add: adds_rows_def)

lemma adds_more: "adds_rows w m a b \<Longrightarrow> adds_rows w n b c \<Longrightarrow> adds_rows w (m + n) a c"
  unfolding adds_rows_def by fastforce

lemma at_write: "at_section (write_table_row s r sheets) s' = (if s' = s then at_section sheets s @ [r] else at_section sheets s')"
  by (simp add: at_section_def write_table_row_def update_conv')

definition table_names :: "sheets \<Rightarrow> string set" where
  "table_names sheets = fst ` set sheets"

lemma keys_write: "table_names sheets \<subseteq> table_names (write_table_row s r sheets)"
  unfolding table_names_def write_table_row_def dom_map_of_conv_image_fst [symmetric] by (auto simp: update_conv')

lemma csv_width: "fe_dataview fe = None \<Longrightarrow> csv_cells fe sec row = Inr cells \<Longrightarrow> length cells = width fe (snd sec)"
  by (auto simp: csv_cells_def)

lemma rows_written:
  "fe_dataview fe = None \<Longrightarrow> write_rows fe (csv_cells fe) pl sec rs sheets = Inr sheets' \<Longrightarrow>
     adds_rows (width fe (snd sec)) (length rs) (at_section sheets (fst sec)) (at_section sheets' (fst sec))
     \<and> (\<forall>s. s \<noteq> fst sec \<longrightarrow> at_section sheets' s = at_section sheets s) \<and> table_names sheets \<subseteq> table_names sheets'"
proof (induction rs arbitrary: sheets)
  case Nil
  then show ?case by (simp add: adds_none)
next
  case (Cons r rs)
  then obtain row cells where cells: "csv_cells fe sec row = Inr cells"
    and next_rows: "write_rows fe (csv_cells fe) pl sec rs (write_table_row (fst sec) cells sheets) = Inr sheets'"
    by (auto split: sum.splits)
  have "adds_rows (width fe (snd sec)) 1 (at_section sheets (fst sec)) (at_section sheets (fst sec) @ [cells])"
    using csv_width [OF Cons.prems(1) cells] by (simp add: adds_rows_def)
  from adds_more [OF this] Cons.IH [OF Cons.prems(1) next_rows] keys_write [of sheets "fst sec" cells] show ?case
    by (simp add: at_write) (metis order_trans)
qed

lemma sections_written:
  "fe_dataview fe = None \<Longrightarrow> distinct (map fst secs) \<Longrightarrow> write_sections fe (csv_cells fe) pl secs out sheets = Inr sheets' \<Longrightarrow>
     (\<forall>(s, cs) \<in> set secs. adds_rows (width fe cs) (length (rows_in out s)) (at_section sheets s) (at_section sheets' s))
     \<and> (\<forall>s. s \<notin> fst ` set secs \<longrightarrow> at_section sheets' s = at_section sheets s) \<and> table_names sheets \<subseteq> table_names sheets'"
proof (induction secs arbitrary: sheets)
  case (Cons sec secs)
  then obtain sheets1 where 1: "write_rows fe (csv_cells fe) pl sec (rows_in out (fst sec)) sheets = Inr sheets1"
    and 2: "write_sections fe (csv_cells fe) pl secs out sheets1 = Inr sheets'"
    by (auto split: sum.splits)
  note rows = rows_written [OF Cons.prems(1) 1]
  note rest = Cons.IH [OF Cons.prems(1) _ 2]
  have new: "fst sec \<notin> fst ` set secs" and dist: "distinct (map fst secs)" using Cons.prems(2) by auto
  have "adds_rows (width fe cs) (length (rows_in out s)) (at_section sheets s) (at_section sheets' s)"
    if "(s, cs) \<in> set (sec # secs)" for s cs
  proof (cases "(s, cs) = sec")
    case True
    with rows rest [OF dist] new show ?thesis by (metis fst_conv snd_conv)
  next
    case False
    with that have sc: "(s, cs) \<in> set secs" by auto
    with new have "s \<noteq> fst sec" by (metis fst_conv image_eqI)
    with rows have "at_section sheets1 s = at_section sheets s" by blast
    moreover have "adds_rows (width fe cs) (length (rows_in out s)) (at_section sheets1 s) (at_section sheets' s)"
      using rest [OF dist] sc by blast
    ultimately show ?thesis by simp
  qed
  moreover have "\<forall>s. s \<notin> fst ` set (sec # secs) \<longrightarrow> at_section sheets' s = at_section sheets s"
    using rows rest [OF dist] by auto
  moreover have "table_names sheets \<subseteq> table_names sheets'" using rows rest [OF dist] by blast
  ultimately show ?case by blast
qed simp

lemma main_row: "with_index name index out = Inr out' \<Longrightarrow> length (rows_in out' name) = 1"
  by (auto simp: with_index_def rows_in_def update_conv' split: out.splits)

lemma records_written:
  "fe_dataview fe = None \<Longrightarrow> distinct (map fst (pl_sections pl)) \<Longrightarrow>
     write_records fe (csv_cells fe) pl index idx rs sheets = Inr sheets' \<Longrightarrow> (s, cs) \<in> set (pl_sections pl) \<Longrightarrow>
     \<exists>n. adds_rows (width fe cs) n (at_section sheets s) (at_section sheets' s) \<and> (s = survey_name fe \<longrightarrow> n = length rs)
       \<and> table_names sheets \<subseteq> table_names sheets'"
proof (induction rs arbitrary: index idx sheets)
  case Nil
  then show ?case using adds_none by (intro exI [of _ 0]) simp
next
  case (Cons r rs)
  from Cons.prems(3) obtain out idx1 joined sheets1
    where o: "with_index (survey_name fe) index (decode_mongo_encoded_section_names joined) = Inr out"
      and 1: "write_sections fe (csv_cells fe) pl (pl_sections pl) out sheets = Inr sheets1"
      and 2: "write_records fe (csv_cells fe) pl (index + 1) idx1 rs sheets1 = Inr sheets'"
    by (auto split: sum.splits prod.splits)
  have first: "adds_rows (width fe cs) (length (rows_in out s)) (at_section sheets s) (at_section sheets1 s)"
    using sections_written [OF Cons.prems(1,2) 1] Cons.prems(4) by blast
  obtain n where "adds_rows (width fe cs) n (at_section sheets1 s) (at_section sheets' s)"
    "s = survey_name fe \<longrightarrow> n = length rs" "table_names sheets1 \<subseteq> table_names sheets'"
    using Cons.IH [OF Cons.prems(1,2) 2 Cons.prems(4)] by blast
  moreover have "table_names sheets \<subseteq> table_names sheets1" using sections_written [OF Cons.prems(1,2) 1] by blast
  ultimately show ?case using adds_more [OF first] main_row [OF o]
    by (intro exI [of _ "length (rows_in out s) + n"]) auto
qed


definition fruit_files :: file_env where
  "fruit_files =
     \<lparr>fe_columns = fruit_env CHR ''/'' False, fe_builder = plain_builder, fe_py = sample_py, fe_site = sample_site,
      fe_labels = False, fe_labels_only = False, fe_hxl = False, fe_hxl_columns = [], fe_dataview = None,
      fe_extra = [''_index'', ''_parent_index'']\<rparr>"

definition fruit_records :: "pyval row list" where
  "fruit_records = [[(''bought'', PStr ''fig''), (''r'', PList [PDict [(''r/a'', PInt 3)], PDict [(''r/a'', PInt 4)]])], []]"

lemma fruit_export:
  "(case set_survey (fruit_env CHR ''/'' False) plain_builder of
      Inl e \<Rightarrow> False | Inr pl \<Rightarrow> to_zipped_csv fruit_files pl fruit_records =
        Inr [(''data.csv'',
               [map (\<lambda>s. Val (PStr s)) [''bought'', ''bought/fig'', ''eaten'', ''eaten/fig'', ''_index'', ''_parent_index''],
                [Val (PStr ''fig''), Val (PBool True), Val PNone, Val PNone, Val (PInt 1), Val (PInt (- 1))],
                [Val PNone, Val PNone, Val PNone, Val PNone, Val (PInt 2), Val (PInt (- 1))]]),
             (''r.csv'',
               [map (\<lambda>s. Val (PStr s)) [''r/a'', ''_index'', ''_parent_index''],
                [Val (PInt 3), Val (PInt 1), Val (PInt 1)], [Val (PInt 4), Val (PInt 2), Val (PInt 1)]])])"
  by code_simp


text \<open>Two sections of a form may have one file name, and only the file of one of them is found in the archive.\<close>

theorem sections_share_a_file: "flat_name ''a/b'' = flat_name ''a_b''"
  by code_simp

section \<open>SPSS\<close>

definition valid_sav_char :: "char \<Rightarrow> bool" where
  "valid_sav_char c \<longleftrightarrow>
     c \<in> set ''0123456789ABCDEFGHIJKLMNOPQRSTUVWXYZabcdefghijklmnopqrstuvwxyz._$#@''"

text \<open>The \<open>u\<close> is the second group of a new UUID.\<close>

definition check_sav_column :: "string \<Rightarrow> string \<Rightarrow> string list \<Rightarrow> string" where
  "check_sav_column u column columns =
     (let short = take 64 column
      in if lower short \<in> set (map lower columns)
         then (if length short > 59 then take (length short - 5) short else short) @ ''@'' @ u
         else short)"

definition sav_text :: "string \<Rightarrow> string" where
  "sav_text title =
     map (\<lambda>c. if valid_sav_char c then c else CHR ''_'')
       (filter (\<lambda>c. c \<notin> {CHR ''{'', CHR ''}''}) (map (\<lambda>c. if c = CHR ''/'' then CHR ''.'' else c) title))"

definition get_var_name :: "string \<Rightarrow> string \<Rightarrow> string list \<Rightarrow> string \<times> string list" where
  "get_var_name u title var_names =
     (let checked = check_sav_column u (sav_text title) var_names;
          var_name = (case checked of c # cs \<Rightarrow> if c = CHR ''_'' then CHR ''@'' # checked else checked | [] \<Rightarrow> checked)
      in (var_name, var_names @ [var_name]))"

definition is_all_numeric :: "conversions \<Rightarrow> cell list \<Rightarrow> bool" where
  "is_all_numeric py items =
     list_all (\<lambda>c. case c of
         Val (PStr s) \<Rightarrow> is_number py s \<and> \<not> (length s > 1 \<and> s ! 0 = CHR ''0'' \<and> s ! 1 \<noteq> CHR ''.'')
       | _ \<Rightarrow> True) items"

text \<open>
  What pyxform knows of the choices of a question (\<open>sv_children\<close>, \<open>sv_choices\<close>), the text of the float that is
  greater than the integer written in the same way (\<open>sv_above\<close>, for integers no float is equal to), the times of the SPSS
  writer, and the texts of the UUIDs of a section, by the number of names before.
\<close>

record sav_env =
  sv_children :: "string \<Rightarrow> (string \<times> label option) list option"
  sv_choices :: "(string, (string \<times> label option) list) dict option"
  sv_above :: "string \<Rightarrow> string option"
  sv_spss :: "string \<Rightarrow> string \<Rightarrow> cell"
  sv_uuid :: "nat \<Rightarrow> string"

definition sav_choices :: "file_env \<Rightarrow> sav_env \<Rightarrow> element \<Rightarrow> cell_error + (string \<times> label option) list" where
  "sav_choices fe sv q =
     (case sv_children sv (el_path q) of
        Some cs \<Rightarrow> Inr cs
      | None \<Rightarrow>
          (case sv_choices sv of
             None \<Rightarrow> Inr []
           | Some d \<Rightarrow>
               (case qi_itemset (ce_info (fe_columns fe) (el_path q)) of
                  Some (c # cs) \<Rightarrow> Inr (case map_of d (c # cs) of Some xs \<Rightarrow> xs | None \<Rightarrow> [])
                | _ \<Rightarrow> if d = [] then Inr [] else Inl Wrong_Type)))"

definition value_name :: "conversions \<Rightarrow> sav_env \<Rightarrow> bool \<Rightarrow> string \<Rightarrow> cell" where
  "value_name py sv numeric name =
     (if numeric
      then (case int_of py (PStr name) of
              Inr (Some i) \<Rightarrow> (case sv_above sv name of Some t \<Rightarrow> Native ''decimal'' t | None \<Rightarrow> Val (PInt i))
            | _ \<Rightarrow> Val (PStr name))
      else Val (PStr name))"

fun value_labels ::
    "file_env \<Rightarrow> sav_env \<Rightarrow> bool \<Rightarrow> (string \<times> label option) list \<Rightarrow> (cell, string) dict \<Rightarrow> cell_error + (cell, string) dict" where
  "value_labels fe sv numeric [] d = Inr d"
| "value_labels fe sv numeric ((n, lab) # cs) d =
     (case get_choice_label_from_dict (fo_language (ce_form (fe_columns fe))) (language (fe_builder fe))
             (case lab of Some l \<Rightarrow> l | None \<Rightarrow> Label []) of
        None \<Rightarrow> Inl No_Attribute
      | Some s \<Rightarrow>
          value_labels fe sv numeric cs (AList.update (value_name (fe_py fe) sv numeric (strip n)) (strip s) d))"

definition question_labels :: "file_env \<Rightarrow> sav_env \<Rightarrow> element \<Rightarrow> cell_error + (cell, string) dict" where
  "question_labels fe sv q =
     (case sav_choices fe sv q of
        Inl e \<Rightarrow> Inl e
      | Inr choices \<Rightarrow>
          value_labels fe sv
            (type_of q \<noteq> Some MULTIPLE_SELECT_TYPE \<and> is_all_numeric (fe_py fe) (map (\<lambda>(n, l). Val (PStr n)) choices))
            choices [])"

fun sav_value_labels ::
    "file_env \<Rightarrow> sav_env \<Rightarrow> (string, string) dict \<Rightarrow> element list \<Rightarrow> (string, (cell, string) dict) dict
     \<Rightarrow> cell_error + (string, (cell, string) dict) dict" where
  "sav_value_labels fe sv var_of [] d = Inr d"
| "sav_value_labels fe sv var_of (q # qs) d =
     (if var_of \<noteq> [] \<and> map_of var_of (abbreviated q) = None then sav_value_labels fe sv var_of qs d
      else (case question_labels fe sv q of
              Inl e \<Rightarrow> Inl e
            | Inr labels \<Rightarrow>
                sav_value_labels fe sv var_of qs
                  (AList.update (or_else (map_of var_of (abbreviated q)) (el_name q)) labels d)))"

definition get_sav_value_labels ::
    "file_env \<Rightarrow> sav_env \<Rightarrow> (string, string) dict \<Rightarrow> cell_error + (string, (cell, string) dict) dict" where
  "get_sav_value_labels fe sv var_of =
     sav_value_labels fe sv var_of (get_survey_elements_with_choices (ce_form (fe_columns fe))) []"

definition sav_elements :: "file_env \<Rightarrow> column list \<Rightarrow> column list" where
  "sav_elements fe cs = cs @ map (\<lambda>f. extra_column f f f None) (fe_extra fe)"

text \<open>
  The names of the variables, with the xpaths and the labels; a part of a geopoint gets the mark that was
  given to the name of its question.
\<close>

definition gps_xpaths :: "plan \<Rightarrow> string list" where
  "gps_xpaths pl = concat (map (map fst \<circ> snd) (pl_gps pl))"

definition sav_title :: "(string, string) dict \<Rightarrow> column \<Rightarrow> string" where
  "sav_title marks c =
     (case map_of marks (case co_parent c of Some x \<Rightarrow> x | None \<Rightarrow> []) of
        Some m \<Rightarrow> co_title c @ ''_'' @ m | None \<Rightarrow> co_title c)"

definition gps_mark :: "plan \<Rightarrow> column \<Rightarrow> string \<Rightarrow> (string, string) dict \<Rightarrow> (string, string) dict" where
  "gps_mark pl c var_name marks =
     (if co_xpath c \<in> set (gps_xpaths pl) \<and> length (split_on CHR ''@'' var_name) = 2
      then AList.update (co_xpath c) (last (split_on CHR ''@'' var_name)) marks else marks)"

fun sav_names ::
    "sav_env \<Rightarrow> plan \<Rightarrow> column list \<Rightarrow> (string, string) dict \<Rightarrow> string list \<Rightarrow> string list" where
  "sav_names sv pl [] marks given = given"
| "sav_names sv pl (c # cs) marks given =
     (case get_var_name (sv_uuid sv (length given)) (sav_title marks c) given of
        (var_name, given1) \<Rightarrow> sav_names sv pl cs (gps_mark pl c var_name marks) given1)"

record sav_options =
  so_formats :: "(string, string) dict"
  so_labels :: "(string, string) dict"
  so_names :: "string list"
  so_numeric :: "(string, bool) dict"
  so_values :: "(string, (cell, string) dict) dict"

definition element_at :: "form \<Rightarrow> string \<Rightarrow> cell_error + element option" where
  "element_at f xpath = (case get_element xpath (element_index f) of None \<Rightarrow> Inl No_Return | Some (found, ix) \<Rightarrow> Inr found)"

text \<open>\<open>_is_numeric\<close>, and its last part, for an element that is a choice or no question with choices.\<close>

definition parent_is_multiple :: "form \<Rightarrow> string \<Rightarrow> cell_error + bool" where
  "parent_is_multiple f xpath =
     (if parent_path xpath = [] then Inr False
      else map_sum id (\<lambda>p. case p of Some e \<Rightarrow> type_of e = Some MULTIPLE_SELECT_TYPE | None \<Rightarrow> False)
             (element_at f (parent_path xpath)))"

definition sav_is_numeric ::
    "file_env \<Rightarrow> (string, string) dict \<Rightarrow> (string, (cell, string) dict) dict \<Rightarrow> string \<Rightarrow> string option \<Rightarrow> cell_error + bool" where
  "sav_is_numeric fe var_of all_labels xpath ty =
     (let f = ce_form (fe_columns fe); py = fe_py fe
      in if ty \<in> {Some ''decimal'', Some ''int'', Some ''date''} then Inr True
         else if ty \<noteq> Some ''string'' then Inr False
         else (case element_at f xpath of
                 Inl e \<Rightarrow> Inl e
               | Inr None \<Rightarrow> Inr False
               | Inr (Some (Choice n p l)) \<Rightarrow>
                   if value_multiples (fe_builder fe) then Inr (is_all_numeric py [Val (PStr n)])
                   else parent_is_multiple f xpath
               | Inr (Some e) \<Rightarrow>
                   if type_of e = Some SELECT_ONE
                   then (case map_of all_labels (or_else (map_of var_of xpath) xpath) of
                           None \<Rightarrow> Inl No_Key
                         | Some d \<Rightarrow>
                             if d \<noteq> [] then Inr (is_all_numeric py (map fst d)) else parent_is_multiple f xpath)
                   else parent_is_multiple f xpath))"

fun first_types :: "(string \<times> string) list \<Rightarrow> (string, string) dict \<Rightarrow> (string \<times> string) list
    \<Rightarrow> (string, string) dict \<times> (string \<times> string) list" where
  "first_types [] firsts dups = (firsts, dups)"
| "first_types ((xpath, var_name) # vs) firsts dups =
     (if map_of firsts xpath = None then first_types vs (firsts @ [(xpath, var_name)]) dups
      else first_types vs firsts (dups @ [(xpath, var_name)]))"

text \<open>The types of the variables of some xpaths.\<close>

fun typed_vars ::
    "(string \<Rightarrow> string option \<Rightarrow> cell_error + bool) \<Rightarrow> (string \<times> string \<times> string option) list \<Rightarrow> (string, bool) dict
     \<Rightarrow> cell_error + (string, bool) dict" where
  "typed_vars numeric [] d = Inr d"
| "typed_vars numeric ((var_name, xpath, ty) # vs) d =
     (case numeric xpath ty of Inl e \<Rightarrow> Inl e | Inr b \<Rightarrow> typed_vars numeric vs (AList.update var_name b d))"

definition element_type :: "column list \<Rightarrow> string \<Rightarrow> string option" where
  "element_type es xpath = (case find (\<lambda>e. co_xpath e = xpath) es of Some e \<Rightarrow> co_type e | None \<Rightarrow> Some [])"

definition numeric_extra :: "string list" where
  "numeric_extra = [''_id'', ''_index'', ''_parent_index'', ''_submission_time'']"

definition get_sav_options :: "file_env \<Rightarrow> sav_env \<Rightarrow> plan \<Rightarrow> column list \<Rightarrow> cell_error + sav_options" where
  "get_sav_options fe sv pl cs =
     (let es = sav_elements fe cs;
          given = sav_names sv pl es [] [];
          vars = zip (map co_xpath es) given;
          var_of = dict_update [] vars;
          (firsts, dups) = first_types vars [] [];
          first_var = (\<lambda>x. case map_of firsts x of Some v \<Rightarrow> v | None \<Rightarrow> [])
      in case get_sav_value_labels fe sv var_of of
           Inl e \<Rightarrow> Inl e
         | Inr all_labels \<Rightarrow>
             (case typed_vars (sav_is_numeric fe var_of all_labels) (map (\<lambda>e. (first_var (co_xpath e), co_xpath e, co_type e)) es) [] of
                Inl e \<Rightarrow> Inl e
              | Inr types1 \<Rightarrow>
                  (case typed_vars (sav_is_numeric fe var_of all_labels)
                          (map (\<lambda>(x, v). (v, x, element_type es x)) dups)
                          (dict_update types1 (map (\<lambda>x. (first_var x, x \<in> set numeric_extra)) (fe_extra fe))) of
                     Inl e \<Rightarrow> Inl e
                   | Inr types \<Rightarrow>
                       Inr \<lparr>so_formats =
                              dict_update []
                                (map (\<lambda>e. (first_var (co_xpath e), ''EDATE40'')) (filter (\<lambda>e. co_type e = Some ''date'') es)
                                 @ [(''@_submission_time'', ''DATETIME40'')]),
                            so_labels = dict_update [] (zip given (map co_label es)),
                            so_names = given,
                            so_numeric = types,
                            so_values = dict_update []
                              (concat (map (\<lambda>v. case map_of all_labels v of Some d \<Rightarrow> [(v, d)] | None \<Rightarrow> []) given))\<rparr>)))"

text \<open>A row: the fields are named by xpath, the variables by name; what has no variable is left out.\<close>

definition sav_cells :: "file_env \<Rightarrow> sav_env \<Rightarrow> (string \<Rightarrow> sav_options) \<Rightarrow> string \<times> column list \<Rightarrow> cell row \<Rightarrow> cell_error + cell list" where
  "sav_cells fe sv opts sec row =
     (let so = opts (fst sec);
          fields = map (map (\<lambda>c. if c = CHR '':'' then CHR ''_'' else c)) (map co_xpath (snd sec) @ fe_extra fe)
      in Inr (map (\<lambda>(f, v).
           case encode_if_str (fe_py fe) False (Some (sv_spss sv)) row f of
             Val (PBool b) \<Rightarrow>
               if map_of (so_numeric so) v = Some True then Val (PBool b) else Val (PStr (str_of (fe_py fe) (PBool b)))
           | c \<Rightarrow> c) (zip fields (so_names so))))"

text \<open>The sections keep the elements that were added to them for the options.\<close>

fun sav_sections ::
    "file_env \<Rightarrow> sav_env \<Rightarrow> plan \<Rightarrow> (string \<times> column list) list \<Rightarrow> cell_error + (string, sav_options) dict" where
  "sav_sections fe sv pl [] = Inr []"
| "sav_sections fe sv pl ((s, cs) # secs) =
     (case get_sav_options fe sv pl cs of
        Inl e \<Rightarrow> Inl e
      | Inr so \<Rightarrow> (case sav_sections fe sv pl secs of Inl e \<Rightarrow> Inl e | Inr d \<Rightarrow> Inr ((s, so) # d)))"

definition to_zipped_sav ::
    "file_env \<Rightarrow> sav_env \<Rightarrow> plan \<Rightarrow> pyval row list \<Rightarrow> cell_error + (string \<times> sav_options \<times> cell list list) list" where
  "to_zipped_sav fe sv pl data =
     (case sav_sections fe sv pl (pl_sections pl) of
        Inl e \<Rightarrow> Inl e
      | Inr options \<Rightarrow>
          (let pl1 = pl\<lparr>pl_sections := map (\<lambda>(s, cs). (s, sav_elements fe cs)) (pl_sections pl)\<rparr>;
               options_at = (\<lambda>s. case map_of options s of Some so \<Rightarrow> so
                  | None \<Rightarrow> \<lparr>so_formats = [], so_labels = [], so_names = [], so_numeric = [], so_values = []\<rparr>)
           in map_sum id (map (\<lambda>(s, rows). (flat_name s @ ''.sav'', options_at s, rows)))
                (write_records fe (sav_cells fe sv options_at) pl1 1 [] data (map (\<lambda>(s, cs). (s, [])) (pl_sections pl)))))"

section \<open>Variables have different names\<close>

text \<open>The two characters that the proofs are about.\<close>

definition at_sign :: char where "at_sign = CHR ''@''"
definition low_line :: char where "low_line = CHR ''_''"

text \<open>A title is special when its variable would start with the underscore that no variable may start with.\<close>

definition sav_short :: "string \<Rightarrow> string" where
  "sav_short title = take 64 (sav_text title)"

definition underscored :: "string \<Rightarrow> bool" where
  "underscored s \<longleftrightarrow> s \<noteq> [] \<and> hd s = low_line"

definition proper_titles :: "string list \<Rightarrow> bool" where
  "proper_titles ts \<longleftrightarrow>
     (\<forall>t \<in> set ts. at_sign \<notin> set t \<and> sav_text t \<noteq> []) \<and> distinct (map lower (filter underscored (map sav_short ts)))"

definition proper_uuids :: "nat \<Rightarrow> (nat \<Rightarrow> string) \<Rightarrow> bool" where
  "proper_uuids k u \<longleftrightarrow>
     distinct (map u [0..<k])
     \<and> list_all (\<lambda>n. length (u n) = 4 \<and> lower (u n) = u n \<and> at_sign \<notin> set (u n) \<and> list_all valid_sav_char (u n)) [0..<k]"

lemma proper_uuid:
  "proper_uuids k u \<Longrightarrow> n < k \<Longrightarrow>
     length (u n) = 4 \<and> lower (u n) = u n \<and> at_sign \<notin> set (u n) \<and> list_all valid_sav_char (u n)"
  by (simp add: proper_uuids_def list_all_iff)

text \<open>The names are of three kinds.\<close>

definition plain_var :: "string \<Rightarrow> bool" where
  "plain_var v \<longleftrightarrow> at_sign \<notin> set v \<and> v \<noteq> [] \<and> \<not> underscored v"

definition marked_var :: "string list \<Rightarrow> string \<Rightarrow> bool" where
  "marked_var ss v \<longleftrightarrow> (\<exists>s \<in> set ss. underscored s \<and> at_sign \<notin> set s \<and> v = at_sign # s)"

definition suffixed_var :: "(nat \<Rightarrow> string) \<Rightarrow> nat \<Rightarrow> string \<Rightarrow> bool" where
  "suffixed_var u k v \<longleftrightarrow> (\<exists>p n. n < k \<and> plain_var p \<and> v = p @ at_sign # u n)"

definition var_kinds :: "(nat \<Rightarrow> string) \<Rightarrow> nat \<Rightarrow> string list \<Rightarrow> string \<Rightarrow> bool" where
  "var_kinds u k ss v \<longleftrightarrow> plain_var v \<or> marked_var ss v \<or> suffixed_var u k v"

lemma lower_char_iff:
  assumes "(of_char c' :: nat) \<in> {64, 95}"
  shows "lower_char c = c' \<longleftrightarrow> c = c'"
proof (cases "65 \<le> (of_char c :: nat) \<and> (of_char c :: nat) \<le> 90 \<or> 192 \<le> (of_char c :: nat) \<and> (of_char c :: nat) \<le> 222 \<and> (of_char c :: nat) \<noteq> 215")
  case True
  then have "lower_char c = char_of ((of_char c :: nat) + 32)" by (simp add: lower_char_def Let_def)
  moreover have "(of_char (char_of ((of_char c :: nat) + 32) :: char) :: nat) = of_char c + 32" using True by auto
  ultimately have "lower_char c \<noteq> c'" "c \<noteq> c'" using True assms by auto
  then show ?thesis by simp
next
  case False
  then show ?thesis by (auto simp: lower_char_def Let_def)
qed

lemma lower_special [simp]:
  "lower_char c = at_sign \<longleftrightarrow> c = at_sign" "lower_char c = low_line \<longleftrightarrow> c = low_line"
  by (rule lower_char_iff, simp add: at_sign_def low_line_def)+

lemma special_lower [simp]:
  "at_sign = lower_char c \<longleftrightarrow> c = at_sign" "lower_char at_sign = at_sign" "at_sign \<noteq> low_line" "low_line \<noteq> at_sign"
  using lower_special(1) [of c] lower_special(1) [of at_sign] by (auto simp: at_sign_def low_line_def)

lemma lower_at [simp]: "at_sign \<in> set (lower s) \<longleftrightarrow> at_sign \<in> set s"
  by (auto simp: lower_def)

lemma lower_underscored [simp]: "underscored (lower s) \<longleftrightarrow> underscored s"
  by (cases s) (auto simp: lower_def underscored_def)

lemma lower_append: "lower (a @ b) = lower a @ lower b" "lower (c # a) = lower_char c # lower a" "lower [] = []"
  by (simp_all add: lower_def)

lemma sav_text_at: "at_sign \<notin> set t \<Longrightarrow> at_sign \<notin> set (sav_text t)"
  unfolding at_sign_def by (auto simp: sav_text_def)

lemma at_split: "x \<notin> set a \<Longrightarrow> x \<notin> set b \<Longrightarrow> a @ x # c = b @ x # d \<Longrightarrow> c = d"
  by (induction a arbitrary: b) (auto simp: Cons_eq_append_conv)

lemma mark_underscored:
  "(case x of [] \<Rightarrow> x | c # cs \<Rightarrow> if c = CHR ''_'' then CHR ''@'' # x else x) = (if underscored x then at_sign # x else x)"
  by (cases x) (simp_all add: underscored_def at_sign_def low_line_def)

lemma get_var_name_cases:
  "get_var_name u t given =
     (let s = sav_short t;
          checked = (if lower s \<in> lower ` set given
             then (if length s > 59 then take (length s - 5) s else s) @ at_sign # u else s);
          v = (if underscored checked then at_sign # checked else checked)
      in (v, given @ [v]))"
  unfolding get_var_name_def check_sav_column_def sav_short_def [symmetric] mark_underscored Let_def
  by (simp add: at_sign_def)

lemma var_kind_lower:
  "plain_var w \<Longrightarrow> at_sign \<notin> set (lower w) \<and> \<not> underscored (lower w)"
  "marked_var ss w \<Longrightarrow> \<exists>x. lower w = at_sign # x"
  "suffixed_var u k w \<Longrightarrow> at_sign \<in> set (lower w) \<and> \<not> underscored (lower w) \<and> (\<forall>x. lower w \<noteq> at_sign # x)"
proof -
  show "plain_var w \<Longrightarrow> at_sign \<notin> set (lower w) \<and> \<not> underscored (lower w)"
    by (simp add: plain_var_def)
  show "marked_var ss w \<Longrightarrow> \<exists>x. lower w = at_sign # x"
    by (auto simp: marked_var_def lower_append)
  assume "suffixed_var u k w"
  then obtain p n where p: "plain_var p" "w = p @ at_sign # u n" unfolding suffixed_var_def by blast
  then obtain c cs where "p = c # cs" by (cases p) (auto simp: plain_var_def)
  with p show "at_sign \<in> set (lower w) \<and> \<not> underscored (lower w) \<and> (\<forall>x. lower w \<noteq> at_sign # x)"
    by (auto simp: plain_var_def underscored_def lower_append)
qed

lemma kind_grows: "var_kinds u k ss v \<Longrightarrow> var_kinds u (Suc k) (ss @ ss') v"
  unfolding var_kinds_def marked_var_def suffixed_var_def using less_SucI by (metis Un_iff set_append)

lemma suffix_told_apart:
  assumes u: "proper_uuids m u" "k < m" and "plain_var p" "suffixed_var u k w"
  shows "lower (p @ at_sign # u k) \<noteq> lower w"
proof
  assume eq: "lower (p @ at_sign # u k) = lower w"
  obtain q n where q: "n < k" "plain_var q" "w = q @ at_sign # u n" using assms(4) unfolding suffixed_var_def by blast
  have "lower p @ at_sign # u k = lower q @ at_sign # u n"
    using eq q(1,3) u(2) proper_uuid [OF u(1), of k] proper_uuid [OF u(1), of n] by (simp add: lower_append)
  then have "u k = u n" using at_split [of at_sign "lower p" "lower q"] assms(3) q(2) by (simp add: plain_var_def)
  moreover have "inj_on u {0..<m}" using u(1) by (simp add: proper_uuids_def distinct_map)
  ultimately have "k = n" using u(2) q(1) by (elim inj_onD) auto
  with q(1) show False by simp
qed

text \<open>The name that is added is of one of the kinds, and different from all others.\<close>

lemma var_name_fresh:
  assumes u: "proper_uuids m u" "length given < m" and at: "at_sign \<notin> set t" and written: "sav_text t \<noteq> []"
    and kinds: "\<forall>v \<in> set given. var_kinds u (length given) ss v"
    and new: "underscored (sav_short t) \<longrightarrow> lower (sav_short t) \<notin> lower ` {s \<in> set ss. underscored s}"
    and v: "get_var_name (u (length given)) t given = (v, given')"
  shows "given' = given @ [v] \<and> lower v \<notin> lower ` set given \<and> var_kinds u (Suc (length given)) (ss @ [sav_short t]) v"
proof -
  let ?s = "sav_short t" and ?k = "length given"
  have s: "at_sign \<notin> set ?s" "?s \<noteq> []"
    using sav_text_at [OF at] written by (auto simp: sav_short_def dest: in_set_takeD)
  have kind: "plain_var w \<or> marked_var ss w \<or> suffixed_var u ?k w" if "w \<in> set given" for w
    using kinds that unfolding var_kinds_def by blast
  consider (marked) "underscored ?s" | (plain) "plain_var ?s" "lower ?s \<notin> lower ` set given"
    | (taken) "plain_var ?s" "lower ?s \<in> lower ` set given"
    using s by (auto simp: plain_var_def)
  then show ?thesis
  proof cases
    case marked
    have "lower ?s \<noteq> lower w" if "w \<in> set given" for w
      using kind [OF that] var_kind_lower(1) [of w] var_kind_lower(2) [of ss w] var_kind_lower(3) [of u ?k w] marked s(1) lower_underscored [of ?s] lower_at [of ?s] by (metis list.set_intros(1))
    then have "lower ?s \<notin> lower ` set given" by blast
    then have vs: "v = at_sign # ?s" "given' = given @ [v]"
      using v marked by (auto simp: get_var_name_cases Let_def)
    have "lower v \<noteq> lower w" if "w \<in> set given" for w
    proof (cases "marked_var ss w")
      case True
      then obtain s' where "s' \<in> set ss" "underscored s'" "w = at_sign # s'" unfolding marked_var_def by blast
      with new marked vs(1) show ?thesis by (auto simp: lower_append)
    next
      case False
      have "lower v = at_sign # lower ?s" using vs(1) by (simp add: lower_append)
      with False kind [OF that] var_kind_lower(1) [of w] var_kind_lower(3) [of u ?k w] show ?thesis
        by (metis list.set_intros(1))
    qed
    moreover have "marked_var (ss @ [?s]) v" using marked s vs(1) by (auto simp: marked_var_def)
    ultimately show ?thesis using vs by (auto simp: var_kinds_def)
  next
    case plain
    then have "v = ?s" "given' = given @ [v]"
      using v by (auto simp: get_var_name_cases plain_var_def Let_def)
    with plain show ?thesis by (auto simp: var_kinds_def)
  next
    case taken
    let ?p = "if length ?s > 59 then take (length ?s - 5) ?s else ?s"
    have p: "plain_var ?p"
      using taken(1) by (cases ?s) (auto simp: plain_var_def underscored_def take_Cons' dest: in_set_takeD)
    then have vs: "v = ?p @ at_sign # u ?k" "given' = given @ [v]"
      using v taken by (auto simp: get_var_name_cases plain_var_def underscored_def Let_def split: if_splits)
    have suffixed: "suffixed_var u (Suc ?k) v" using p vs(1) unfolding suffixed_var_def by blast
    have "lower v \<noteq> lower w" if "w \<in> set given" for w
      using kind [OF that] var_kind_lower(1) [of w] var_kind_lower(2) [of ss w] var_kind_lower(3) [OF suffixed] suffix_told_apart [OF u p] vs(1)
      by metis
    with suffixed vs(2) show ?thesis by (auto simp: var_kinds_def)
  qed
qed

lemma sav_names_fresh:
  "proper_uuids (length given + length cs) (sv_uuid sv) \<Longrightarrow> gps_xpaths pl = [] \<Longrightarrow> proper_titles (done @ map co_title cs) \<Longrightarrow>
     length given = length done \<Longrightarrow> \<forall>v \<in> set given. var_kinds (sv_uuid sv) (length given) (map sav_short done) v \<Longrightarrow>
     distinct (map lower given) \<Longrightarrow>
     length (sav_names sv pl cs [] given) = length given + length cs \<and> distinct (map lower (sav_names sv pl cs [] given))"
proof (induction cs arbitrary: "done" given)
  case (Cons c cs)
  let ?t = "co_title c" and ?u = "sv_uuid sv"
  obtain v given' where v: "get_var_name (?u (length given)) ?t given = (v, given')" by fastforce
  have "\<not> gps_xpaths pl \<noteq> []" using Cons.prems(2) by simp
  then have step: "sav_names sv pl (c # cs) [] given = sav_names sv pl cs [] given'"
    using v by (simp add: sav_title_def gps_mark_def)
  have "lower (sav_short ?t) \<notin> set (map lower (filter underscored (map sav_short done)))" if "underscored (sav_short ?t)"
    using Cons.prems(3) that by (simp add: proper_titles_def del: set_map set_filter)
  then have t: "at_sign \<notin> set ?t" "sav_text ?t \<noteq> []"
    "underscored (sav_short ?t) \<longrightarrow> lower (sav_short ?t) \<notin> lower ` {s \<in> set (map sav_short done). underscored s}"
    using Cons.prems(3) unfolding set_map [of lower] set_filter by (auto simp: proper_titles_def)
  note fresh = var_name_fresh [OF Cons.prems(1) _ t(1,2) Cons.prems(5) t(3) v]
  have "\<forall>w \<in> set given'. var_kinds ?u (length given') (map sav_short (done @ [?t])) w"
    using fresh Cons.prems(5) kind_grows [of ?u "length given" "map sav_short done" _ "[sav_short ?t]"] by auto
  moreover have "distinct (map lower given')" "length given' = length (done @ [?t])"
    using fresh Cons.prems(4,6) by auto
  ultimately show ?case
    using Cons.IH [of given' "done @ [?t]"] Cons.prems(1-3) fresh step by auto
qed simp

lemma sav_text_valid: "list_all valid_sav_char (sav_text t)"
proof -
  have "valid_sav_char CHR ''_''" by code_simp
  then show ?thesis by (auto simp: sav_text_def list_all_iff)
qed

lemma sav_short_valid: "list_all valid_sav_char (sav_short t) \<and> length (sav_short t) \<le> 64"
  using sav_text_valid [of t] by (auto simp: sav_short_def list_all_iff dest: in_set_takeD)

lemma name_valid:
  assumes "list_all valid_sav_char u" "length u = 4"
  shows "list_all valid_sav_char (fst (get_var_name u t given)) \<and> length (fst (get_var_name u t given)) \<le> 65"
proof -
  have c: "valid_sav_char at_sign" unfolding at_sign_def by code_simp
  then show ?thesis using assms sav_short_valid [of t]
    by (auto simp: get_var_name_cases Let_def list_all_iff dest: in_set_takeD)
qed

lemma names_valid:
  "proper_uuids (length given + length cs) (sv_uuid sv) \<Longrightarrow>
     \<forall>v \<in> set given. list_all valid_sav_char v \<and> length v \<le> 65 \<Longrightarrow> v \<in> set (sav_names sv pl cs marks given) \<Longrightarrow>
     list_all valid_sav_char v \<and> length v \<le> 65"
proof (induction cs arbitrary: marks given)
  case (Cons c cs)
  let ?u = "sv_uuid sv (length given)" and ?t = "sav_title marks c"
  obtain w where w: "get_var_name ?u ?t given = (w, given @ [w])" by (simp add: get_var_name_cases Let_def)
  moreover have "list_all valid_sav_char ?u" "length ?u = 4"
    using proper_uuid [OF Cons.prems(1), of "length given"] by simp_all
  ultimately have "list_all valid_sav_char w \<and> length w \<le> 65" using name_valid [of ?u ?t given] by simp
  with Cons.prems w show ?case
    by (intro Cons.IH [of "given @ [w]" "gps_mark pl c w marks"]) auto
qed simp


definition fruit_sav :: sav_env where
  "fruit_sav =
     \<lparr>sv_children = (\<lambda>_. None), sv_choices = None, sv_above = (\<lambda>_. None), sv_spss = (\<lambda>s f. Val (PStr s)),
      sv_uuid = (\<lambda>n. ''000'' @ show_nat (n mod 10))\<rparr>"

definition fruit_columns :: "column list" where
  "fruit_columns = map (\<lambda>t. extra_column t t ''string'' None) [''bought/fig'', ''Bought.Fig'', ''_id'']"

definition no_plan :: plan where
  "no_plan = \<lparr>pl_sections = [], pl_multiples = [], pl_ones = [], pl_gps = [], pl_osm = [], pl_encoded = []\<rparr>"


text \<open>Two titles that start with an underscore and are equal get one name, and the mark makes a name longer than the limit:
  the check comes before the mark.\<close>

theorem underscored_names_collide:
  "fst (get_var_name ''0001'' ''_q'' (snd (get_var_name ''0000'' ''_q'' []))) = fst (get_var_name ''0000'' ''_q'' [])"
  by code_simp

theorem underscored_name_too_long:
  "length (fst (get_var_name ''0000'' (CHR ''_'' # replicate 63 (CHR ''q'')) [])) = 65"
  by code_simp

end
