(* ===== verification/Flat_Csv.thy ===== *)
theory Flat_Csv
  imports Export_Files
begin

text \<open>
  The flat CSV of a form, \<open>onadata/libs/utils/csv_builder.py\<close>: every repeat becomes columns with an index,
  \<open>children[1]/name\<close>.  The data are read twice: the first time for the columns of the repeats, the second
  time for the rows.

  The rows are those given to the writer.  The export of an entity list, which has no form, is left out.
  An \<open>IndexError\<close> is \<open>Label_Failed Index_Error\<close>.
\<close>

section \<open>Parameters\<close>

text \<open>
  Beside those of the other exports: the tags around an index, and the text for what is missing.  The
  xpath of a choice is relative to its question.
\<close>

record flat_env = file_env +
  fl_open :: string
  fl_close :: string
  fl_na :: string

abbreviation form_of :: "'a file_env_scheme \<Rightarrow> form" where
  "form_of fe \<equiv> ce_form (fe_columns fe)"

abbreviation labelled :: "'a file_env_scheme \<Rightarrow> bool" where
  "labelled fe \<equiv> show_labels (fe_builder fe)"

abbreviation lang_of :: "'a file_env_scheme \<Rightarrow> string option" where
  "lang_of fe \<equiv> language (fe_builder fe)"

definition additional_columns :: "string list" where
  "additional_columns =
     [''_id'', ''_uuid'', ''_submission_time'', ''_date_modified'', ''_tags'', ''_notes'', ''_version'', ''_duration'',
      ''_submitted_by'', ''_last_edited_by'', ''_total_media'', ''_media_count'', ''_media_all_received'']"

definition flat_extra_columns :: "bool \<Rightarrow> string list \<Rightarrow> string list" where
  "flat_extra_columns include_reviews configured =
     additional_columns @ configured
     @ (if include_reviews then [''_review_status'', ''_review_comment'', ''_review_date''] else [])"

definition ignored_columns :: "string list" where
  "ignored_columns =
     [''_xform_id_string'', ''_status'', ''_attachments'', ''_geolocation'', ''_bamboo_dataset_id'', ''_deleted_at'',
      ''_edited'']"

section \<open>Select multiples\<close>

text \<open>A choice: its path, its name and its label.\<close>

type_synonym flat_choice = "string \<times> string \<times> string option"

definition labelled_choice :: "'a file_env_scheme \<Rightarrow> string \<times> string \<times> label \<Rightarrow> cell_error + flat_choice" where
  "labelled_choice fe c =
     (case c of (path, n, lab) \<Rightarrow>
        (case get_choice_label (fo_language (form_of fe)) (lang_of fe) lab of
           Inl e \<Rightarrow> Inl (Label_Failed e) | Inr l \<Rightarrow> Inr (path, n, l)))"

definition flat_choices :: "'a file_env_scheme \<Rightarrow> element \<Rightarrow> cell_error + flat_choice list" where
  "flat_choices fe e =
     (let xpath = abbreviated e; qi = ce_info (fe_columns fe) (el_path e)
      in case all_right (map (labelled_choice fe)
             (case options_of e of
                Some os \<Rightarrow> map (\<lambda>c. (xpath @ el_path c, el_name c, el_label c)) os | None \<Rightarrow> [])) of
           Inl err \<Rightarrow> Inl err
         | Inr choices \<Rightarrow>
             if ((choices = [] \<and> qi_filtered qi) \<or> randomized (qi_randomize qi))
               \<and> (case qi_itemset qi of Some s \<Rightarrow> s \<noteq> [] | None \<Rightarrow> False)
             then (case ce_itemsets (fe_columns fe) (the (qi_itemset qi)) of
                     Some (i # is) \<Rightarrow>
                       all_right (map (\<lambda>(n, lab).
                         labelled_choice fe (xpath @ ''/'' @ n, n, case lab of Some l \<Rightarrow> l | None \<Rightarrow> No_Label)) (i # is))
                   | _ \<Rightarrow> Inr choices)
             else Inr choices)"

fun collect_from :: "'a file_env_scheme \<Rightarrow> element list \<Rightarrow> cell_error + (string \<times> flat_choice list) list" where
  "collect_from fe [] = Inr []"
| "collect_from fe (e # es) =
     (case bound_type e of
        Inl err \<Rightarrow> Inl (Label_Failed err)
      | Inr t \<Rightarrow>
          if t = Some ''string'' \<and> type_of e = Some MULTIPLE_SELECT_TYPE
          then (case flat_choices fe e of
                  Inl err \<Rightarrow> Inl err
                | Inr choices \<Rightarrow> map_sum id (\<lambda>ms. (abbreviated e, choices) # ms) (collect_from fe es))
          else collect_from fe es)"

definition collect_select_multiples :: "'a file_env_scheme \<Rightarrow> cell_error + (string \<times> flat_choice list) list" where
  "collect_select_multiples fe =
     map_sum id (dict_update []) (collect_from fe (get_survey_elements_with_choices (form_of fe)))"

text \<open>The column of a choice: with labels every part of its path that begins like its name is replaced.\<close>

definition flat_choice_key :: "'a file_env_scheme \<Rightarrow> flat_choice \<Rightarrow> cell_error + string" where
  "flat_choice_key fe c =
     (case c of (path, n, lab) \<Rightarrow>
        if labelled fe
        then (case lab of Some l \<Rightarrow> Inr (replace_text (''/'' @ n) (''/'' @ l) path) | None \<Rightarrow> Inl Wrong_Type)
        else Inr path)"

text \<open>The value of a chosen choice; its place among the answers is its place among those split by one space.\<close>

definition chosen_value :: "'a file_env_scheme \<Rightarrow> string \<Rightarrow> string list \<Rightarrow> flat_choice \<Rightarrow> cell_error + pyval" where
  "chosen_value fe data sel c =
     (case c of (path, n, lab) \<Rightarrow>
        if value_multiples (fe_builder fe) then
          (if path \<notin> set sel then Inr PNone
           else if labelled fe then Inr (case lab of Some l \<Rightarrow> PStr l | None \<Rightarrow> PNone)
           else if index_of sel path < length (split_ws data) then Inr (PStr (split_ws data ! index_of sel path))
           else Inl (Label_Failed Index_Error))
        else if binary_multiples (fe_builder fe) then Inr (PInt (if path \<in> set sel then 1 else 0))
        else Inr (PBool (path \<in> set sel)))"

definition flat_choice_cell ::
    "'a file_env_scheme \<Rightarrow> string \<Rightarrow> string list \<Rightarrow> flat_choice \<Rightarrow> cell_error + (string \<times> pyval)" where
  "flat_choice_cell fe data sel c =
     (case flat_choice_key fe c of
        Inl e \<Rightarrow> Inl e | Inr k \<Rightarrow> map_sum id (\<lambda>v. (k, v)) (chosen_value fe data sel c))"

definition split_own :: "'a file_env_scheme \<Rightarrow> string \<Rightarrow> flat_choice list \<Rightarrow> pyval row \<Rightarrow> cell_error + pyval row" where
  "split_own fe key choices row =
     (case map_of row key of
        None \<Rightarrow> Inr row
      | Some (PStr data) \<Rightarrow>
          map_sum id (\<lambda>cells. AList.delete key (dict_update row cells))
            (all_right (map (flat_choice_cell fe data (map (\<lambda>r. key @ ''/'' @ r) (split_on CHR '' '' data))) choices))
      | Some v \<Rightarrow> Inl No_Attribute)"

text \<open>
  \<open>_split_select_multiples\<close> of a record, of its values and of the entries of a list.  It carries the number of
  levels below the record.
\<close>

function (sequential) split_multiple ::
    "'a file_env_scheme \<Rightarrow> (string \<times> flat_choice list) list \<Rightarrow> nat \<Rightarrow> (string \<times> flat_choice list) list \<Rightarrow> pyval row
     \<Rightarrow> cell_error + pyval row"
  and split_values ::
    "'a file_env_scheme \<Rightarrow> (string \<times> flat_choice list) list \<Rightarrow> nat \<Rightarrow> pyval row \<Rightarrow> cell_error + pyval row"
  and split_entries ::
    "'a file_env_scheme \<Rightarrow> (string \<times> flat_choice list) list \<Rightarrow> nat \<Rightarrow> pyval list \<Rightarrow> cell_error + pyval list" where
  "split_multiple fe all n [] row = Inr row"
| "split_multiple fe all n ((key, choices) # ms) row =
     (case split_own fe key choices row of
        Inl e \<Rightarrow> Inl e
      | Inr row1 \<Rightarrow> (case split_values fe all n row1 of Inl e \<Rightarrow> Inl e | Inr row2 \<Rightarrow> split_multiple fe all n ms row2))"
| "split_values fe all n [] = Inr []"
| "split_values fe all n ((k, v) # row) =
     (case (case v of PList xs \<Rightarrow> map_sum id PList (split_entries fe all n xs) | _ \<Rightarrow> Inr v) of
        Inl e \<Rightarrow> Inl e | Inr w \<Rightarrow> map_sum id (\<lambda>r. (k, w) # r) (split_values fe all n row))"
| "split_entries fe all n [] = Inr []"
| "split_entries fe all n (x # xs) =
     (case (case x of
              PDict d \<Rightarrow> (case n of 0 \<Rightarrow> Inl No_Return | Suc m \<Rightarrow> map_sum id PDict (split_multiple fe all m all d))
            | _ \<Rightarrow> Inr x) of
        Inl e \<Rightarrow> Inl e | Inr y \<Rightarrow> map_sum id (\<lambda>ys. y # ys) (split_entries fe all n xs))"
  by pat_completeness auto
termination
  by (relation "measures
        [\<lambda>x. case x of Inl (fe, all, n, ms, row) \<Rightarrow> n | Inr (Inl (fe, all, n, row)) \<Rightarrow> n | Inr (Inr (fe, all, n, xs)) \<Rightarrow> n,
         \<lambda>x. case x of Inl _ \<Rightarrow> 2 | Inr (Inl _) \<Rightarrow> 1 | Inr (Inr _) \<Rightarrow> 0,
         \<lambda>x. case x of Inl (fe, all, n, ms, row) \<Rightarrow> length ms | Inr (Inl (fe, all, n, row)) \<Rightarrow> length row
            | Inr (Inr (fe, all, n, xs)) \<Rightarrow> length xs]") auto

text \<open>The dictionaries inside one another, and \<open>split_record\<close> of a record.\<close>

fun levels :: "pyval \<Rightarrow> nat" where
  "levels (PDict d) = Suc (foldr (\<lambda>(k, v). max (levels v)) d 0)"
| "levels (PList xs) = foldr (\<lambda>x. max (levels x)) xs 0"
| "levels _ = 0"

definition split_record ::
    "'a file_env_scheme \<Rightarrow> (string \<times> flat_choice list) list \<Rightarrow> pyval row \<Rightarrow> cell_error + pyval row" where
  "split_record fe ms row = split_multiple fe ms (levels (PDict row)) ms row"

section \<open>Geopoints and tags\<close>

definition collect_gps_fields :: "form \<Rightarrow> string list" where
  "collect_gps_fields f = map abbreviated (filter (\<lambda>e. bind_type e = Some ''geopoint'') (fo_elements f))"

definition gps_parts :: "string \<Rightarrow> string \<Rightarrow> pyval row" where
  "gps_parts key s =
     (let xpaths = get_additional_geopoint_xpaths key; parts = split_on CHR '' '' s
      in if length parts = 4 then dict_update [] (zip xpaths (map PStr parts)) else dict_update [] (map (\<lambda>x. (x, PNone)) xpaths))"

text \<open>\<open>_split_gps_fields\<close>: the parts of all geopoints of a record are added at its end.\<close>

fun split_gps :: "string list \<Rightarrow> pyval \<Rightarrow> pyval" where
  "split_gps xs_gps (PDict d) =
     PDict (dict_update
       (map (\<lambda>(k, v).
          (k, case v of
                PList xs \<Rightarrow> PList (map (\<lambda>x. case x of PDict e \<Rightarrow> split_gps xs_gps x | _ \<Rightarrow> x) xs) | _ \<Rightarrow> v)) d)
       (concat (map (\<lambda>(k, v).
          case v of PStr s \<Rightarrow> if k \<in> set xs_gps then gps_parts k s else [] | _ \<Rightarrow> []) d)))"
| "split_gps xs_gps v = v"

fun insert_text :: "string \<Rightarrow> string list \<Rightarrow> string list" where
  "insert_text x [] = [x]"
| "insert_text x (y # ys) = (if str_less y x then y # insert_text x ys else x # y # ys)"

definition sorted_texts :: "string list \<Rightarrow> string list" where
  "sorted_texts xs = foldr insert_text xs []"

fun tag_texts :: "pyval list \<Rightarrow> cell_error + string list" where
  "tag_texts [] = Inr []"
| "tag_texts (v # vs) =
     (case v of
        PStr s \<Rightarrow>
          map_sum id (\<lambda>ts. (if CHR '','' \<in> set s \<and> CHR '' '' \<in> set s then CHR 0x22 # s @ [CHR 0x22] else s) # ts) (tag_texts vs)
      | _ \<Rightarrow> Inl Wrong_Type)"

definition tag_edit_string :: "pyval row \<Rightarrow> cell_error + pyval row" where
  "tag_edit_string row =
     (case map_of row ''_tags'' of
        None \<Rightarrow> Inr row
      | Some v \<Rightarrow>
          (case elements_of v of
             Inl e \<Rightarrow> Inl e
           | Inr xs \<Rightarrow>
               map_sum id (\<lambda>ts. AList.update ''_tags'' (PStr (join '', '' (sorted_texts ts))) row) (tag_texts xs)))"

section \<open>Columns of repeats\<close>

text \<open>The columns by the xpath they belong to; a repeat has a list.\<close>

type_synonym ordered_columns = "(string, string list option) dict"

fun list_items :: "pyval \<Rightarrow> pyval list" where
  "list_items (PList xs) = xs"
| "list_items _ = []"

definition choice_xpath :: "'a file_env_scheme \<Rightarrow> element \<Rightarrow> element \<Rightarrow> cell_error + string" where
  "choice_xpath fe e c =
     map_sum id get_abbreviated_xpath
       (if labelled fe
        then (case el_label c of
                Translations ts \<Rightarrow>
                  (case Option.bind (lang_of fe) (map_of ts) of Some l \<Rightarrow> Inr (el_path e @ ''/'' @ l) | None \<Rightarrow> Inl No_Key)
              | Label l \<Rightarrow> Inr (el_path e @ ''/'' @ l)
              | No_Label \<Rightarrow> Inl Wrong_Type)
        else Inr (el_path e @ el_path c))"

text \<open>The xpaths in a repeat, in the order of the form, and the values an entry has for them.\<close>

definition element_xpaths :: "'a file_env_scheme \<Rightarrow> element \<Rightarrow> cell_error + string list" where
  "element_xpaths fe e =
     (if question_types_to_exclude (type_of e) then Inr []
      else (case options_of e of
              Some os \<Rightarrow>
                if split_multiples (fe_builder fe) \<and> type_of e = Some MULTIPLE_SELECT_TYPE
                then all_right (map (choice_xpath fe e) os) else Inr [abbreviated e]
            | None \<Rightarrow> Inr [abbreviated e]))"

definition repeat_xpaths :: "'a file_env_scheme \<Rightarrow> string \<Rightarrow> cell_error + string list" where
  "repeat_xpaths fe xpath =
     (case get_child_elements (form_of fe) xpath (element_index (form_of fe)) of
        None \<Rightarrow> Inl No_Return
      | Some (children, ix) \<Rightarrow> map_sum id concat (all_right (map (element_xpaths fe) children)))"

definition ordered_item :: "flat_env \<Rightarrow> string \<Rightarrow> pyval row \<Rightarrow> cell_error + pyval row" where
  "ordered_item fe xpath d =
     map_sum id
       (\<lambda>xs. dict_update [] (map (\<lambda>x. (x, case map_of d x of Some v \<Rightarrow> v | None \<Rightarrow> PStr (fl_na fe))) xs))
       (repeat_xpaths fe xpath)"

definition flat_value :: "flat_env \<Rightarrow> pyval row \<Rightarrow> string \<Rightarrow> pyval \<Rightarrow> cell_error + pyval" where
  "flat_value fe row key v =
     (case (if labelled fe then label_cell (form_of fe) (lang_of fe) key v else Inr v) of
        Inl e \<Rightarrow> Inl e | Inr w \<Rightarrow> get_value_or_attachment_uri (fe_site fe) [] row key w)"

text \<open>The parts of the xpath of a field in the entry with number \<open>i\<close>, and a column for it.\<close>

definition entry_path :: "flat_env \<Rightarrow> string list option \<Rightarrow> string \<Rightarrow> nat \<Rightarrow> string" where
  "entry_path fe pre key i =
     (case pre of Some p \<Rightarrow> join ''/'' (p @ drop (length p) (split_on CHR ''/'' key)) | None \<Rightarrow> key)
     @ fl_open fe @ show_nat i @ fl_close fe"

definition base_length :: "string list option \<Rightarrow> string \<Rightarrow> nat" where
  "base_length pre key =
     length (split_on CHR ''/''
       (case pre of Some p \<Rightarrow> join ''/'' (p @ drop (length p) (split_on CHR ''/'' key)) | None \<Rightarrow> key))"

definition field_path :: "flat_env \<Rightarrow> string list option \<Rightarrow> string \<Rightarrow> nat \<Rightarrow> string \<Rightarrow> string" where
  "field_path fe pre key i nested_key =
     join ''/'' (entry_path fe pre key i # drop (base_length pre key) (split_on CHR ''/'' nested_key))"

definition note_column :: "string \<Rightarrow> string \<Rightarrow> ordered_columns \<Rightarrow> ordered_columns" where
  "note_column key x oc =
     (case map_of oc key of
        None \<Rightarrow> oc
      | Some None \<Rightarrow> AList.update key (Some [x]) oc
      | Some (Some xs) \<Rightarrow> if x \<in> set xs then oc else AList.update key (Some (xs @ [x])) oc)"

definition row_levels :: "pyval row \<Rightarrow> nat" where
  "row_levels d = foldr (\<lambda>(k, v). max (levels v)) d 0"

lemma row_levels_simps [simp]: "row_levels [] = 0" "row_levels ((k, v) # d) = max (levels v) (row_levels d)"
  "levels (PDict d) = Suc (row_levels d)"
  by (simp_all add: row_levels_def)

declare levels.simps(1) [simp del]

lemma levels_items [simp]: "is_list v \<Longrightarrow> foldr (\<lambda>x. max (levels x)) (list_items v) 0 = levels v"
  by (cases v) auto

lemma row_levels_le: "row_levels d \<le> n \<longleftrightarrow> (\<forall>(k, v) \<in> set d. levels v \<le> n)"
  by (induction d) auto

lemma set_update_row: "set (AList.update k v d) \<subseteq> insert (k, v) (set d)"
  by (induction d) auto

lemma set_dict_update: "set (dict_update d es) \<subseteq> set d \<union> set es"
proof (induction es arbitrary: d)
  case (Cons e es)
  have "set (dict_update d (e # es)) \<subseteq> set (AList.update (fst e) (snd e) d) \<union> set es"
    using Cons.IH [of "AList.update (fst e) (snd e) d"] by (simp add: dict_update_def case_prod_unfold)
  with set_update_row [of "fst e" "snd e" d] show ?case by auto
qed (simp add: dict_update_def)

lemma ordered_item_levels:
  assumes "ordered_item fe key d = Inr its"
  shows "row_levels its \<le> row_levels d"
proof -
  from assms obtain xs where "its = dict_update [] (map (\<lambda>x. (x, case map_of d x of Some v \<Rightarrow> v | None \<Rightarrow> PStr (fl_na fe))) xs)"
    by (auto simp: ordered_item_def map_sum_Inr)
  then have "levels v \<le> row_levels d" if "(k, v) \<in> set its" for k v
    using that set_dict_update row_levels_le [of d "row_levels d"]
    by (fastforce split: option.splits dest: map_of_SomeD)
  then show ?thesis by (auto simp: row_levels_le)
qed

text \<open>\<open>_reindex\<close>: of a value, of the entries of a list, of the fields of an entry.\<close>

function (sequential) reindex ::
    "flat_env \<Rightarrow> pyval row \<Rightarrow> string \<Rightarrow> pyval \<Rightarrow> string list option \<Rightarrow> ordered_columns
     \<Rightarrow> cell_error + (pyval row \<times> ordered_columns)"
  and reindex_entries ::
    "flat_env \<Rightarrow> pyval row \<Rightarrow> string \<Rightarrow> pyval \<Rightarrow> string list option \<Rightarrow> nat \<Rightarrow> pyval list \<Rightarrow> pyval row \<Rightarrow> ordered_columns
     \<Rightarrow> cell_error + (pyval row \<times> ordered_columns)"
  and reindex_fields ::
    "flat_env \<Rightarrow> pyval row \<Rightarrow> string \<Rightarrow> string list option \<Rightarrow> nat \<Rightarrow> pyval row \<Rightarrow> pyval row \<Rightarrow> ordered_columns
     \<Rightarrow> cell_error + (pyval row \<times> ordered_columns)" where
  "reindex fe row key v pre oc =
     (if is_list v \<and> truthy v \<and> key \<notin> {''_attachments'', ''_notes''}
      then reindex_entries fe row key v pre 1 (list_items v) [] oc
      else if key = ''_notes'' then Inr ([(key, PStr [])], oc)
      else map_sum id (\<lambda>w. ([(key, w)], oc)) (flat_value fe row key v))"
| "reindex_entries fe row key v pre i [] rc oc = Inr (rc, oc)"
| "reindex_entries fe row key v pre i (x # xs) rc oc =
     (case (case x of
              PDict d \<Rightarrow>
                (case ordered_item fe key d of
                   Inl e \<Rightarrow> Inl e
                 | Inr its \<Rightarrow>
                     reindex_fields fe row key pre i (if map_of its key = Some (PStr ''n/a'') then d else its) rc oc)
            | _ \<Rightarrow> map_sum id (\<lambda>w. (AList.update key w rc, oc)) (flat_value fe row key v)) of
        Inl e \<Rightarrow> Inl e
      | Inr (rc1, oc1) \<Rightarrow> reindex_entries fe row key v pre (i + 1) xs rc1 oc1)"
| "reindex_fields fe row key pre i [] rc oc = Inr (rc, oc)"
| "reindex_fields fe row key pre i ((k, w) # its) rc oc =
     (let path = field_path fe pre key i k
      in case (if is_list w
               then map_sum id (\<lambda>(r, oc1). (dict_update rc r, oc1))
                      (reindex fe row k w (Some (butlast (split_on CHR ''/'' path))) oc)
               else map_sum id (\<lambda>u. (AList.update path u rc, note_column key path oc)) (flat_value fe row k w)) of
           Inl e \<Rightarrow> Inl e
         | Inr (rc1, oc1) \<Rightarrow> reindex_fields fe row key pre i its rc1 oc1)"
  by pat_completeness auto
termination
  by (relation "measures
        [\<lambda>x. case x of Inl (fe, row, key, v, pre, oc) \<Rightarrow> levels v
           | Inr (Inl (fe, row, key, v, pre, i, xs, rc, oc)) \<Rightarrow> levels (PList xs)
           | Inr (Inr (fe, row, key, pre, i, its, rc, oc)) \<Rightarrow> row_levels its,
         \<lambda>x. case x of Inl _ \<Rightarrow> 1 | Inr (Inl _) \<Rightarrow> 0 | Inr (Inr _) \<Rightarrow> 2,
         \<lambda>x. case x of Inl _ \<Rightarrow> 0 | Inr (Inl (fe, row, key, v, pre, i, xs, rc, oc)) \<Rightarrow> length xs
           | Inr (Inr (fe, row, key, pre, i, its, rc, oc)) \<Rightarrow> length its]")
    (auto dest!: ordered_item_levels)

section \<open>Columns\<close>

text \<open>\<open>_build_ordered_columns\<close> of one child.\<close>

fun ordered_child :: "bool \<Rightarrow> element \<Rightarrow> ordered_columns \<Rightarrow> ordered_columns" where
  "ordered_child repeating (Section k n p b l es) oc =
     fold (ordered_child (k = Repeat \<or> (k = Group \<and> repeating))) es
       (if k = Repeat then AList.update (get_abbreviated_xpath p) (Some []) oc else oc)"
| "ordered_child repeating (Question n p t b l os) oc =
     (if question_types_to_exclude (Some t) \<or> repeating then oc else AList.update (get_abbreviated_xpath p) None oc)"
| "ordered_child repeating (Choice n p l) oc = oc"

definition build_ordered_columns :: "form \<Rightarrow> ordered_columns" where
  "build_ordered_columns f = fold (ordered_child False) (el_children (fo_root f)) []"

definition without_duplicates :: "string list \<Rightarrow> string list" where
  "without_duplicates xs = map fst (dict_update [] (map (\<lambda>x. (x, ())) xs))"

fun add_multiple_columns :: "flat_env \<Rightarrow> (string \<times> flat_choice list) list \<Rightarrow> ordered_columns \<Rightarrow> cell_error + ordered_columns" where
  "add_multiple_columns fe [] oc = Inr oc"
| "add_multiple_columns fe ((key, choices) # ms) oc =
     (if map_of oc key = None then add_multiple_columns fe ms oc
      else (case all_right (map (flat_choice_key fe) choices) of
              Inl e \<Rightarrow> Inl e
            | Inr ks \<Rightarrow> add_multiple_columns fe ms (AList.update key (Some (without_duplicates ks)) oc)))"

definition add_gps_columns :: "string list \<Rightarrow> ordered_columns \<Rightarrow> ordered_columns" where
  "add_gps_columns keys oc =
     dict_update oc (map (\<lambda>key. (key, Some (key # get_additional_geopoint_xpaths key))) keys)"

text \<open>What a record adds to the columns, and what its values become.\<close>

fun reindex_items ::
    "flat_env \<Rightarrow> pyval row \<Rightarrow> (string \<times> pyval) list \<Rightarrow> pyval row \<Rightarrow> ordered_columns
     \<Rightarrow> cell_error + (pyval row \<times> ordered_columns)" where
  "reindex_items fe row [] flat oc = Inr (flat, oc)"
| "reindex_items fe row ((k, v) # items) flat oc =
     (case reindex fe row k v None oc of
        Inl e \<Rightarrow> Inl e | Inr (rc, oc1) \<Rightarrow> reindex_items fe row items (dict_update flat rc) oc1)"

fun add_repeat_columns :: "flat_env \<Rightarrow> pyval row list \<Rightarrow> ordered_columns \<Rightarrow> cell_error + ordered_columns" where
  "add_repeat_columns fe [] oc = Inr oc"
| "add_repeat_columns fe (r # rs) oc =
     (case reindex_items fe r r [] oc of Inl e \<Rightarrow> Inl e | Inr (flat, oc1) \<Rightarrow> add_repeat_columns fe rs oc1)"

definition prepare_record ::
    "flat_env \<Rightarrow> (string \<times> flat_choice list) list \<Rightarrow> string list \<Rightarrow> pyval row \<Rightarrow> cell_error + pyval row" where
  "prepare_record fe ms gps r =
     (case (if split_multiples (fe_builder fe) then split_record fe ms r else Inr r) of
        Inl e \<Rightarrow> Inl e
      | Inr r1 \<Rightarrow> tag_edit_string (case split_gps gps (PDict r1) of PDict d \<Rightarrow> d | _ \<Rightarrow> r1))"

fun format_for_dataframe ::
    "flat_env \<Rightarrow> (string \<times> flat_choice list) list \<Rightarrow> string list \<Rightarrow> pyval row list \<Rightarrow> ordered_columns \<Rightarrow> cell_error + pyval row list" where
  "format_for_dataframe fe ms gps [] oc = Inr []"
| "format_for_dataframe fe ms gps (r # rs) oc =
     (case prepare_record fe ms gps r of
        Inl e \<Rightarrow> Inl e
      | Inr r1 \<Rightarrow>
          (case reindex_items fe r1 r1 [] oc of
             Inl e \<Rightarrow> Inl e
           | Inr (flat, oc1) \<Rightarrow> map_sum id (\<lambda>flats. flat # flats) (format_for_dataframe fe ms gps rs oc1)))"

definition group_columns :: "string \<times> string list option \<Rightarrow> string list" where
  "group_columns g = (case snd g of None \<Rightarrow> [fst g] | Some cs \<Rightarrow> cs)"

definition columns_of :: "ordered_columns \<Rightarrow> string list" where
  "columns_of oc = concat (map group_columns oc)"

text \<open>The columns of the file; those of a filtered dataset are selected by the beginning of their xpath.\<close>

definition export_columns :: "flat_env \<Rightarrow> ordered_columns \<Rightarrow> string list" where
  "export_columns fe oc =
     (case fe_dataview fe of
        Some cols \<Rightarrow>
          fold (\<lambda>col acc. if col \<notin> set acc \<and> col \<in> set (fe_extra fe) then acc @ [col] else acc) cols
            (columns_of (filter (\<lambda>g. list_ex (\<lambda>c. take (length c) (fst g) = c) cols) oc))
      | None \<Rightarrow>
          columns_of oc @ fe_extra fe
          @ concat (map (ce_osm (fe_columns fe)) (get_osm_survey_xpaths (form_of fe))))"

section \<open>Writing\<close>

definition parent_element :: "flat_env \<Rightarrow> string \<Rightarrow> cell_error + element" where
  "parent_element fe col =
     (case find_element (form_of fe) (parent_path col) of
        Inl e \<Rightarrow> Inl e | Inr None \<Rightarrow> Inl No_Attribute | Inr (Some p) \<Rightarrow> Inr p)"

definition ends_with :: "string \<Rightarrow> string \<Rightarrow> bool" where
  "ends_with s t \<longleftrightarrow> length t \<le> length s \<and> drop (length s - length t) s = t"

definition column_name :: "flat_env \<Rightarrow> string \<Rightarrow> cell_error + string" where
  "column_name fe col =
     (case find_element (form_of fe) col of
        Inl e \<Rightarrow> Inl e
      | Inr None \<Rightarrow>
          Inr (if list_ex (ends_with col) [''_latitude'', ''_longitude'', ''_altitude'', ''_precision'']
               then last (split_on (ce_delimiter (fe_columns fe)) col) else col)
      | Inr (Some (Choice n p l)) \<Rightarrow> map_sum id (\<lambda>e. join ''/'' [el_name e, n]) (parent_element fe col)
      | Inr (Some e) \<Rightarrow> Inr (el_name e))"

definition column_label :: "flat_env \<Rightarrow> string \<Rightarrow> cell_error + string" where
  "column_label fe col =
     (case find_element (form_of fe) col of
        Inl e \<Rightarrow> Inl e
      | Inr None \<Rightarrow> if col = [] then Inl No_Attribute else Inr col
      | Inr (Some e) \<Rightarrow>
          (let lab = element_label (fo_language (form_of fe)) (lang_of fe) (el_label e)
           in case e of
                Choice n p l \<Rightarrow>
                  (case parent_element fe col of
                     Inl err \<Rightarrow> Inl err
                   | Inr q \<Rightarrow>
                       (case lab of
                          None \<Rightarrow> Inl Wrong_Type | Some s \<Rightarrow> Inr (join [ce_delimiter (fe_columns fe)] [el_name q, s])))
              | _ \<Rightarrow> Inr (or_else lab (el_name e))))"

definition name_row :: "flat_env \<Rightarrow> string list \<Rightarrow> cell_error + string list" where
  "name_row fe cols =
     map_sum id
       (map (\<lambda>c. if ce_delimiter (fe_columns fe) = CHR ''/'' then c
                 else join [ce_delimiter (fe_columns fe)] (split_on CHR ''/'' c)))
       (if ce_remove_group (fe_columns fe) then all_right (map (column_name fe) cols) else Inr cols)"

definition flat_headers :: "flat_env \<Rightarrow> string list \<Rightarrow> cell_error + string list list" where
  "flat_headers fe cols =
     (case (if fe_labels_only fe then Inr [] else map_sum id (\<lambda>r. [r]) (name_row fe cols)) of
        Inl e \<Rightarrow> Inl e
      | Inr first \<Rightarrow>
          (case (if fe_labels fe \<or> fe_labels_only fe
                 then map_sum id (\<lambda>r. [r]) (all_right (map (column_label fe) cols)) else Inr []) of
             Inl e \<Rightarrow> Inl e
           | Inr second \<Rightarrow>
               Inr (first @ second
                 @ (if fe_hxl fe \<and> fe_hxl_columns fe \<noteq> [] \<and> cols \<noteq> []
                    then [map (\<lambda>c. case map_of (fe_hxl_columns fe) c of Some t \<Rightarrow> t | None \<Rightarrow> []) cols] else []))))"

definition flat_cells :: "flat_env \<Rightarrow> string list \<Rightarrow> pyval row \<Rightarrow> cell list" where
  "flat_cells fe cols row =
     map (\<lambda>c. sanitize_for_export (fe_py fe)
            (Val (if c \<in> set ignored_columns then PStr (fl_na fe)
                  else case map_of row c of Some v \<Rightarrow> v | None \<Rightarrow> PStr (fl_na fe)))) cols"

definition flat_columns ::
    "flat_env \<Rightarrow> (string \<times> flat_choice list) list \<Rightarrow> string list \<Rightarrow> pyval row list \<Rightarrow> cell_error + ordered_columns" where
  "flat_columns fe ms gps data =
     (case add_repeat_columns fe data (build_ordered_columns (form_of fe)) of
        Inl e \<Rightarrow> Inl e
      | Inr oc \<Rightarrow>
          map_sum id (add_gps_columns gps)
            (if split_multiples (fe_builder fe) then add_multiple_columns fe ms oc else Inr oc))"

definition to_flat_csv :: "flat_env \<Rightarrow> pyval row list \<Rightarrow> cell_error + cell list list" where
  "to_flat_csv fe data =
     (let gps = collect_gps_fields (form_of fe)
      in case collect_select_multiples fe of
           Inl e \<Rightarrow> Inl e
         | Inr ms \<Rightarrow>
             (case flat_columns fe ms gps data of
                Inl e \<Rightarrow> Inl e
              | Inr oc \<Rightarrow>
                  (let cols = export_columns fe oc
                   in case flat_headers fe cols of
                        Inl e \<Rightarrow> Inl e
                      | Inr headers \<Rightarrow>
                          map_sum id (\<lambda>flats.
                            map (map (\<lambda>t. sanitize_for_export (fe_py fe) (Val (PStr t)))) headers @ map (flat_cells fe cols) flats)
                            (format_for_dataframe fe ms gps data oc))))"

section \<open>Values with the same lists\<close>

text \<open>Two values are alike when they have lists, of alike entries, in the same places.\<close>

definition list_at :: "pyval row \<Rightarrow> string \<Rightarrow> bool" where
  "list_at d k \<longleftrightarrow> (\<exists>xs. map_of d k = Some (PList xs))"

inductive alike :: "pyval \<Rightarrow> pyval \<Rightarrow> bool" where
  lists: "list_all2 alike xs ys \<Longrightarrow> alike (PList xs) (PList ys)"
| dicts: "\<forall>k. \<not> list_at d k \<and> \<not> list_at e k
     \<or> (\<exists>xs ys. map_of d k = Some (PList xs) \<and> map_of e k = Some (PList ys) \<and> alike (PList xs) (PList ys)) \<Longrightarrow>
     alike (PDict d) (PDict e)"
| others: "\<not> is_list v \<and> \<not> is_dict v \<Longrightarrow> \<not> is_list w \<and> \<not> is_dict w \<Longrightarrow> alike v w"

inductive_cases alike_list: "alike (PList xs) w"
inductive_cases alike_dict: "alike (PDict d) w"

definition field_alike :: "pyval row \<Rightarrow> pyval row \<Rightarrow> string \<Rightarrow> bool" where
  "field_alike d e k \<longleftrightarrow>
     \<not> list_at d k \<and> \<not> list_at e k
     \<or> (\<exists>xs ys. map_of d k = Some (PList xs) \<and> map_of e k = Some (PList ys) \<and> alike (PList xs) (PList ys))"

lemma alike_dicts: "alike (PDict d) (PDict e) \<longleftrightarrow> (\<forall>k. field_alike d e k)"
proof
  show "alike (PDict d) (PDict e) \<Longrightarrow> \<forall>k. field_alike d e k"
    unfolding field_alike_def by (erule alike_dict) simp_all
  show "\<forall>k. field_alike d e k \<Longrightarrow> alike (PDict d) (PDict e)"
    unfolding field_alike_def by (rule alike.dicts)
qed

lemma alike_lists: "alike (PList xs) (PList ys) \<longleftrightarrow> list_all2 alike xs ys"
  by (auto elim!: alike_list intro: alike.lists)

lemma alike_kind: "alike v w \<Longrightarrow> is_list v = is_list w \<and> is_dict v = is_dict w"
  by (auto elim!: alike.cases)

lemma alike_list_list: "alike (PList xs) w \<Longrightarrow> \<exists>ys. w = PList ys"
  using alike_kind [of "PList xs" w] by (cases w) auto

lemma alike_refl: "alike v v"
proof (induction v)
  case (PList xs)
  then show ?case by (auto simp: alike_lists intro: list.rel_refl_strong)
next
  case (PDict d)
  have "alike (PList xs) (PList xs)" if "map_of d k = Some (PList xs)" for k xs
    using PDict [OF map_of_SomeD [OF that]] by (simp add: snds.simps)
  then show ?case unfolding alike_dicts field_alike_def list_at_def by blast
qed (rule alike.others, simp_all)+

lemma field_alike_same: "map_of e k = map_of d k \<Longrightarrow> field_alike d e k"
  using alike_refl unfolding field_alike_def list_at_def by auto

lemma alike_trans: "alike a b \<Longrightarrow> alike b c \<Longrightarrow> alike a c"
proof (induction arbitrary: c rule: alike.induct)
  case (lists xs ys)
  then obtain zs where c: "c = PList zs" "list_all2 alike ys zs" by (auto elim: alike_list)
  have "list_all2 alike xs zs"
    by (rule list_all2_trans [OF _ lists(1) c(2)]) blast
  with c show ?case by (simp add: alike_lists)
next
  case (dicts d e)
  from dicts(2) have "is_dict c" using alike_kind by fastforce
  then obtain f where f: "c = PDict f" by (cases c) auto
  with dicts(2) have c: "c = PDict f" "\<forall>k. field_alike e f k" by (simp_all add: alike_dicts)
  have "field_alike d f k" for k
  proof (cases "list_at d k")
    case True
    with dicts(1) obtain xs ys where "map_of d k = Some (PList xs)" "map_of e k = Some (PList ys)"
      "\<forall>c. alike (PList ys) c \<longrightarrow> alike (PList xs) c" by blast
    with c(2) [rule_format, of k] show ?thesis unfolding field_alike_def list_at_def by fastforce
  next
    case False
    with dicts(1) have "\<not> list_at e k" unfolding list_at_def by blast
    with c(2) [rule_format, of k] False show ?thesis unfolding field_alike_def list_at_def by auto
  qed
  with c(1) show ?case by (simp add: alike_dicts)
next
  case (others v w)
  then show ?case using alike_kind [of w c] by (auto intro: alike.others)
qed

text \<open>No list is under one of some names.\<close>

fun lists_avoid :: "string list \<Rightarrow> pyval \<Rightarrow> bool" where
  "lists_avoid C (PDict d) = list_all (\<lambda>(k, v). (is_list v \<longrightarrow> k \<notin> set C) \<and> lists_avoid C v) d"
| "lists_avoid C (PList xs) = list_all (lists_avoid C) xs"
| "lists_avoid C v = True"

section \<open>Preparing a record keeps its lists\<close>

definition choice_keys :: "'a file_env_scheme \<Rightarrow> (string \<times> flat_choice list) list \<Rightarrow> string list" where
  "choice_keys fe ms =
     concat (map (\<lambda>(key, cs). concat (map (\<lambda>c. case flat_choice_key fe c of Inl e \<Rightarrow> [] | Inr k \<Rightarrow> [k]) cs)) ms)"

lemma all_right_Inr: "all_right rs = Inr xs \<Longrightarrow> rs = map Inr xs"
  by (induction rs arbitrary: xs) (auto split: sum.splits)

lemma chosen_no_list: "chosen_value fe data sel c = Inr v \<Longrightarrow> \<not> is_list v \<and> \<not> is_dict v"
  by (auto simp: chosen_value_def split: prod.splits if_splits option.splits)

lemma choice_cells:
  assumes "all_right (map (flat_choice_cell fe data sel) choices) = Inr cells" "(key, choices) \<in> set ms" "(k, v) \<in> set cells"
  shows "k \<in> set (choice_keys fe ms) \<and> \<not> is_list v \<and> \<not> is_dict v"
proof -
  from assms(1,3) have "Inr (k, v) \<in> set (map (flat_choice_cell fe data sel) choices)"
    using all_right_Inr [OF assms(1)] by auto
  then obtain c where c: "c \<in> set choices" "flat_choice_cell fe data sel c = Inr (k, v)" by auto
  then have "flat_choice_key fe c = Inr k" "chosen_value fe data sel c = Inr v"
    by (auto simp: flat_choice_cell_def map_sum_Inr split: sum.splits)
  moreover have "k \<in> set (concat (map (\<lambda>c. case flat_choice_key fe c of Inl e \<Rightarrow> [] | Inr k \<Rightarrow> [k]) choices))"
    using c(1) calculation(1) by (auto intro!: bexI [of _ c])
  then have "k \<in> set (choice_keys fe ms)"
    using assms(2) by (auto simp: choice_keys_def intro!: bexI [of _ "(key, choices)"])
  ultimately show ?thesis using chosen_no_list by blast
qed

lemma set_delete: "set (AList.delete k d) \<subseteq> set d"
  by (auto simp: AList.delete_eq)

lemma map_delete: "map_of (AList.delete k d) x = (if x = k then None else map_of d x)"
  by (simp add: delete_conv')

lemma own_keeps_lists:
  assumes own: "split_own fe key choices row = Inr row1" and m: "(key, choices) \<in> set ms"
    and new: "set (choice_keys fe ms) \<subseteq> set C" and avoid: "lists_avoid C (PDict row)"
  shows "alike (PDict row) (PDict row1) \<and> lists_avoid C (PDict row1)"
proof (cases "map_of row key")
  case None
  with own avoid show ?thesis by (simp add: split_own_def alike_refl)
next
  case (Some v)
  with own obtain data cells where v: "v = PStr data"
    and cells: "all_right (map (flat_choice_cell fe data (map (\<lambda>r. key @ ''/'' @ r) (split_on CHR '' '' data))) choices) = Inr cells"
    and row1: "row1 = AList.delete key (dict_update row cells)"
    by (auto simp: split_own_def map_sum_Inr split: pyval.splits)
  note cell = choice_cells [OF cells m]
  have "lists_avoid C (PDict row1)"
  proof -
    have "set row1 \<subseteq> set row \<union> set cells" unfolding row1 using set_delete set_dict_update by fast
    moreover have "\<not> is_list v \<and> lists_avoid C v" if "(k, v) \<in> set cells" for k v
      using cell [OF that] by (cases v) auto
    ultimately show ?thesis using avoid by (fastforce simp: list_all_iff)
  qed
  moreover have "field_alike row row1 k" for k
  proof (cases "k \<noteq> key \<and> map_of (rev cells) k = None")
    case True
    then have "map_of row1 k = map_of row k" by (simp add: row1 map_delete dict_get_update)
    then show ?thesis by (rule field_alike_same)
  next
    case False
    have "\<not> list_at row k"
    proof (cases "k = key")
      case True
      with Some v show ?thesis by (simp add: list_at_def)
    next
      case False
      with \<open>\<not> (k \<noteq> key \<and> map_of (rev cells) k = None)\<close> obtain w where "(k, w) \<in> set cells"
        by (auto dest!: map_of_SomeD)
      from cell [OF this] new have "k \<in> set C" by blast
      with avoid show ?thesis by (fastforce simp: list_at_def list_all_iff dest: map_of_SomeD)
    qed
    moreover have "\<not> list_at row1 k"
    proof
      assume "list_at row1 k"
      then obtain xs where xs: "k \<noteq> key" "map_of (dict_update row cells) k = Some (PList xs)"
        unfolding list_at_def row1 map_delete by (auto split: if_splits)
      with False obtain w where "map_of (rev cells) k = Some w" by auto
      with xs(2) have "(k, PList xs) \<in> set cells" by (auto simp: dict_get_update dest: map_of_SomeD)
      from cell [OF this] show False by simp
    qed
    ultimately show ?thesis by (simp add: field_alike_def)
  qed
  ultimately show ?thesis by (simp add: alike_dicts)
qed

text \<open>Fields that stay as they are, but for the entries of lists.\<close>

definition same_fields :: "pyval row \<Rightarrow> pyval row \<Rightarrow> bool" where
  "same_fields = list_all2 (\<lambda>(k, v) (k', v'). k = k' \<and> alike v v')"

lemma same_fields_keys: "same_fields d e \<Longrightarrow> map fst e = map fst d"
  unfolding same_fields_def by (induction rule: list_all2_induct) auto

lemma same_fields_alike: "same_fields d e \<Longrightarrow> alike (PDict d) (PDict e)"
proof -
  assume s: "same_fields d e"
  have "(map_of d k = None \<and> map_of e k = None) \<or> (\<exists>v w. map_of d k = Some v \<and> map_of e k = Some w \<and> alike v w)" for k
    using s unfolding same_fields_def by (induction rule: list_all2_induct) auto
  then have "field_alike d e k" for k
  proof (cases "list_at d k")
    case True
    then obtain xs w where "map_of d k = Some (PList xs)" "map_of e k = Some w" "alike (PList xs) w"
      using \<open>\<And>k. (map_of d k = None \<and> map_of e k = None) \<or> _ k\<close> [of k] unfolding list_at_def by force
    moreover then obtain ys where "w = PList ys" using alike_list_list by blast
    ultimately show ?thesis unfolding field_alike_def by blast
  next
    case False
    have "\<not> list_at e k"
    proof
      assume "list_at e k"
      then obtain xs v where "map_of e k = Some (PList xs)" "map_of d k = Some v" "alike v (PList xs)"
        using \<open>\<And>k. (map_of d k = None \<and> map_of e k = None) \<or> _ k\<close> [of k] unfolding list_at_def by force
      then have "is_list v" using alike_kind by fastforce
      with \<open>map_of d k = Some v\<close> False show False unfolding list_at_def by (cases v) auto
    qed
    with False show ?thesis by (simp add: field_alike_def)
  qed
  then show ?thesis by (simp add: alike_dicts)
qed

lemma splitting_keeps_lists:
  "split_multiple fe all n ms row = Inr row' \<Longrightarrow> set ms \<subseteq> set all \<Longrightarrow> set (choice_keys fe all) \<subseteq> set C \<Longrightarrow> lists_avoid C (PDict row) \<Longrightarrow>
     alike (PDict row) (PDict row') \<and> lists_avoid C (PDict row')"
  "split_values fe all n row = Inr row' \<Longrightarrow> set (choice_keys fe all) \<subseteq> set C \<Longrightarrow> lists_avoid C (PDict row) \<Longrightarrow>
     same_fields row row' \<and> lists_avoid C (PDict row')"
  "split_entries fe all n xs = Inr ys \<Longrightarrow> set (choice_keys fe all) \<subseteq> set C \<Longrightarrow> lists_avoid C (PList xs) \<Longrightarrow>
     list_all2 alike xs ys \<and> lists_avoid C (PList ys)"
proof (induction fe all n ms row and fe all n row and fe all n xs arbitrary: row' and row' and ys
    rule: split_multiple_split_values_split_entries.induct)
  case (2 fe all n key choices ms row)
  from "2.prems"(1) obtain row1 row2 where own: "split_own fe key choices row = Inr row1"
    and vals: "split_values fe all n row1 = Inr row2" and more: "split_multiple fe all n ms row2 = Inr row'"
    by (auto split: sum.splits)
  have m: "(key, choices) \<in> set all" "set ms \<subseteq> set all" using "2.prems"(2) by auto
  note 1 = own_keeps_lists [OF own m(1) "2.prems"(3,4)]
  note 2 = "2.IH"(1) [OF own vals "2.prems"(3) conjunct2 [OF 1]]
  note 3 = "2.IH"(2) [OF own vals more m(2) "2.prems"(3) conjunct2 [OF 2]]
  from 1 2 3 same_fields_alike alike_trans show ?case by blast
next
  case (4 fe all n k v row)
  from "4.prems"(1) obtain w r where w: "(case v of PList xs \<Rightarrow> map_sum id PList (split_entries fe all n xs) | _ \<Rightarrow> Inr v) = Inr w"
    and r: "split_values fe all n row = Inr r" "row' = (k, w) # r"
    by (auto simp: map_sum_Inr split: sum.splits)
  have "alike v w \<and> lists_avoid C w \<and> is_list w = is_list v"
  proof (cases "is_list v")
    case True
    then obtain xs ys where x: "v = PList xs" "split_entries fe all n xs = Inr ys" "w = PList ys"
      using w by (cases v) (auto simp: map_sum_Inr)
    with "4.IH"(1) [of xs ys] "4.prems"(2,3) show ?thesis by (simp add: alike_lists)
  next
    case False
    with w "4.prems"(2,3) show ?thesis by (cases v) (auto simp: alike_refl)
  qed
  moreover have "same_fields row r \<and> lists_avoid C (PDict r)"
    using "4.IH"(2) [OF w r(1)] "4.prems"(2,3) by simp
  ultimately show ?case using r(2) "4.prems"(2,3) by (simp add: same_fields_def)
next
  case (6 fe all n x xs)
  from "6.prems"(1) obtain y zs where y: "(case x of
        PDict d \<Rightarrow> (case n of 0 \<Rightarrow> Inl No_Return | Suc m \<Rightarrow> map_sum id PDict (split_multiple fe all m all d)) | _ \<Rightarrow> Inr x) = Inr y"
    and zs: "split_entries fe all n xs = Inr zs" "ys = y # zs"
    by (auto simp: map_sum_Inr split: sum.splits)
  have "alike x y \<and> lists_avoid C y"
  proof (cases "is_dict x")
    case True
    then obtain d m e where "x = PDict d" "n = Suc m" "split_multiple fe all m all d = Inr e" "y = PDict e"
      using y by (cases x) (auto simp: map_sum_Inr split: nat.splits)
    with "6.IH"(1) [of d m e] "6.prems"(2,3) show ?thesis by simp
  next
    case False
    with y "6.prems"(2,3) show ?thesis by (cases x) (auto simp: alike_refl)
  qed
  with "6.IH"(2) [OF y zs(1)] zs(2) "6.prems"(2,3) show ?case by simp
qed (auto simp: alike_refl same_fields_def)

text \<open>The number of levels of a record is enough for its splitting: a greater one gives the same.\<close>

lemma own_levels:
  assumes "split_own fe key choices row = Inr row1"
  shows "row_levels row1 \<le> row_levels row"
proof (cases "map_of row key")
  case None
  with assms show ?thesis by (simp add: split_own_def)
next
  case (Some v)
  with assms obtain data sel cells where cells: "all_right (map (flat_choice_cell fe data sel) choices) = Inr cells"
    and row1: "row1 = AList.delete key (dict_update row cells)"
    by (auto simp: split_own_def map_sum_Inr split: pyval.splits)
  have "levels v = 0" if "(k, v) \<in> set cells" for k v
    using choice_cells [OF cells, of key "[(key, choices)]" k v] that by (cases v) auto
  moreover have "set row1 \<subseteq> set row \<union> set cells" unfolding row1 using set_delete set_dict_update by fast
  moreover have "levels v \<le> row_levels row" if "(k, v) \<in> set row" for k v
    using that row_levels_le [of row "row_levels row"] by blast
  ultimately show ?thesis unfolding row_levels_le by fastforce
qed

lemma splitting_levels:
  "split_multiple fe all n ms row = Inr row' \<Longrightarrow> row_levels row' \<le> row_levels row"
  "split_values fe all n row = Inr row' \<Longrightarrow> row_levels row' \<le> row_levels row"
  "split_entries fe all n xs = Inr ys \<Longrightarrow> levels (PList ys) \<le> levels (PList xs)"
proof (induction fe all n ms row and fe all n row and fe all n xs arbitrary: row' and row' and ys
    rule: split_multiple_split_values_split_entries.induct)
  case (2 fe all n key choices ms row)
  from "2.prems" obtain row1 row2 where own: "split_own fe key choices row = Inr row1"
    and vals: "split_values fe all n row1 = Inr row2" and more: "split_multiple fe all n ms row2 = Inr row'"
    by (auto split: sum.splits)
  from own_levels [OF own] "2.IH"(1) [OF own vals] "2.IH"(2) [OF own vals more] show ?case by linarith
next
  case (4 fe all n k v row)
  from "4.prems" obtain w r where w: "(case v of PList xs \<Rightarrow> map_sum id PList (split_entries fe all n xs) | _ \<Rightarrow> Inr v) = Inr w"
    and r: "split_values fe all n row = Inr r" "row' = (k, w) # r"
    by (auto simp: map_sum_Inr split: sum.splits)
  have "levels w \<le> levels v"
    using w "4.IH"(1) by (cases v) (auto simp: map_sum_Inr)
  with "4.IH"(2) [OF w r(1)] r(2) show ?case by auto
next
  case (6 fe all n x xs)
  from "6.prems" obtain y zs where y: "(case x of
        PDict d \<Rightarrow> (case n of 0 \<Rightarrow> Inl No_Return | Suc m \<Rightarrow> map_sum id PDict (split_multiple fe all m all d)) | _ \<Rightarrow> Inr x) = Inr y"
    and zs: "split_entries fe all n xs = Inr zs" "ys = y # zs"
    by (auto simp: map_sum_Inr split: sum.splits)
  have "levels y \<le> levels x"
  proof (cases "is_dict x")
    case True
    then obtain d m e where "x = PDict d" "n = Suc m" "split_multiple fe all m all d = Inr e" "y = PDict e"
      using y by (cases x) (auto simp: map_sum_Inr split: nat.splits)
    with "6.IH"(1) [of d m e] show ?thesis by simp
  next
    case False
    with y show ?thesis by (cases x) auto
  qed
  with "6.IH"(2) [OF y zs(1)] zs(2) show ?case by auto
qed auto

lemma levels_enough:
  "row_levels row \<le> n \<Longrightarrow> n \<le> m \<Longrightarrow> split_multiple fe all m ms row = split_multiple fe all n ms row"
  "row_levels row \<le> n \<Longrightarrow> n \<le> m \<Longrightarrow> split_values fe all m row = split_values fe all n row"
  "levels (PList xs) \<le> n \<Longrightarrow> n \<le> m \<Longrightarrow> split_entries fe all m xs = split_entries fe all n xs"
proof (induction fe all n ms row and fe all n row and fe all n xs arbitrary: m and m and m
    rule: split_multiple_split_values_split_entries.induct)
  case (2 fe all n key choices ms row)
  show ?case
  proof (cases "split_own fe key choices row")
    case (Inr row1)
    have le: "row_levels row1 \<le> n" using own_levels [OF Inr] "2.prems"(1) by simp
    have vals: "split_values fe all m row1 = split_values fe all n row1" using "2.IH"(1) [OF Inr le "2.prems"(2)] .
    show ?thesis
    proof (cases "split_values fe all n row1")
      case (Inr row2)
      with le have "row_levels row2 \<le> n" using splitting_levels(2) [OF Inr] by simp
      from "2.IH"(2) [OF \<open>split_own fe key choices row = Inr row1\<close> Inr this "2.prems"(2)] show ?thesis
        using \<open>split_own fe key choices row = Inr row1\<close> vals Inr by simp
    qed (use Inr vals in simp)
  qed simp
next
  case (4 fe all n k v row)
  let ?new = "\<lambda>n. case v of PList xs \<Rightarrow> map_sum id PList (split_entries fe all n xs) | _ \<Rightarrow> Inr v"
  have same: "?new m = ?new n"
  proof (cases "is_list v")
    case True
    then obtain xs where v: "v = PList xs" by (cases v) auto
    then have "split_entries fe all m xs = split_entries fe all n xs"
      using "4.prems" by (intro "4.IH"(1)) simp_all
    with v show ?thesis by simp
  next
    case False
    then show ?thesis by (cases v) simp_all
  qed
  show ?case
  proof (cases "?new n")
    case (Inr w)
    have "split_values fe all m row = split_values fe all n row"
      using "4.prems" by (intro "4.IH"(2) [OF Inr]) simp_all
    then show ?thesis using same by (simp only: split_values.simps)
  qed (use same in \<open>simp only: split_values.simps sum.case\<close>)
next
  case (6 fe all n x xs)
  let ?new = "\<lambda>n. case x of
      PDict d \<Rightarrow> (case n of 0 \<Rightarrow> Inl No_Return | Suc m \<Rightarrow> map_sum id PDict (split_multiple fe all m all d)) | _ \<Rightarrow> Inr x"
  have same: "?new m = ?new n"
  proof (cases "is_dict x")
    case True
    then obtain d where x: "x = PDict d" by (cases x) auto
    with "6.prems" obtain n' m' where nm: "n = Suc n'" "m = Suc m'" "row_levels d \<le> n'" "n' \<le> m'"
      by (cases n; cases m) auto
    then have "split_multiple fe all m' all d = split_multiple fe all n' all d" by (intro "6.IH"(1) [OF x])
    with x nm(1,2) show ?thesis by simp
  next
    case False
    then show ?thesis by (cases x) simp_all
  qed
  show ?case
  proof (cases "?new n")
    case (Inr y)
    have "split_entries fe all m xs = split_entries fe all n xs"
      using "6.prems" by (intro "6.IH"(2) [OF Inr]) simp_all
    then show ?thesis using same by (simp only: split_entries.simps)
  qed (use same in \<open>simp only: split_entries.simps sum.case\<close>)
qed simp_all

theorem split_record_levels:
  "levels (PDict row) \<le> n \<Longrightarrow> split_multiple fe ms n ms row = split_record fe ms row"
  unfolding split_record_def by (rule levels_enough) simp_all

definition gps_keys :: "string list \<Rightarrow> string list" where
  "gps_keys gps = concat (map get_additional_geopoint_xpaths gps)"

lemma gps_cells:
  assumes "(x, w) \<in> set (concat (map (\<lambda>(k, v). case v of PStr s \<Rightarrow> if k \<in> set gps then gps_parts k s else [] | _ \<Rightarrow> []) d))"
  shows "x \<in> set (gps_keys gps) \<and> \<not> is_list w"
proof -
  from assms obtain k s where k: "k \<in> set gps" "(x, w) \<in> set (gps_parts k s)"
    by (auto split: pyval.splits if_splits)
  let ?xs = "get_additional_geopoint_xpaths k"
  have "(x, w) \<in> set (zip ?xs (map PStr (split_on CHR '' '' s))) \<or> (x, w) \<in> set (map (\<lambda>x. (x, PNone)) ?xs)"
  proof (cases "length (split_on CHR '' '' s) = 4")
    case True
    with k(2) set_dict_update [of "[]" "zip ?xs (map PStr (split_on CHR '' '' s))"] show ?thesis
      unfolding gps_parts_def Let_def by auto
  next
    case False
    with k(2) set_dict_update [of "[]" "map (\<lambda>x. (x, PNone)) ?xs"] show ?thesis
      unfolding gps_parts_def Let_def by auto
  qed
  then have "x \<in> set ?xs \<and> \<not> is_list w"
    using set_zip_leftD [of x w ?xs "map PStr (split_on CHR '' '' s)"] set_zip_rightD [of x w ?xs "map PStr (split_on CHR '' '' s)"]
    by auto
  with k(1) show ?thesis by (auto simp: gps_keys_def)
qed

lemma update_keeps_lists:
  assumes "alike (PDict d) (PDict base)" "\<And>x w. (x, w) \<in> set cells \<Longrightarrow> \<not> list_at d x \<and> \<not> is_list w"
  shows "alike (PDict d) (PDict (dict_update base cells))"
proof -
  have "field_alike d (dict_update base cells) k" for k
  proof (cases "map_of (rev cells) k")
    case None
    then have "map_of (dict_update base cells) k = map_of base k" by (simp add: dict_get_update)
    with assms(1) show ?thesis by (simp add: alike_dicts field_alike_def list_at_def)
  next
    case (Some w)
    then have "\<not> list_at d k" "\<not> is_list w" using assms(2) by (auto dest: map_of_SomeD)
    with Some show ?thesis by (auto simp: field_alike_def list_at_def dict_get_update)
  qed
  then show ?thesis by (simp add: alike_dicts)
qed

lemma gps_keep_lists: "set (gps_keys gps) \<subseteq> set C \<Longrightarrow> lists_avoid C v \<Longrightarrow> alike v (split_gps gps v)"
proof (induction gps v rule: split_gps.induct)
  case (1 gps d)
  let ?sub = "\<lambda>v. case v of PList xs \<Rightarrow> PList (map (\<lambda>x. case x of PDict e \<Rightarrow> split_gps gps x | _ \<Rightarrow> x) xs) | _ \<Rightarrow> v"
  let ?base = "map (\<lambda>(k, v). (k, ?sub v)) d"
  have "alike v (?sub v)" if "(k, v) \<in> set d" for k v
  proof (cases "is_list v")
    case True
    then obtain xs where xs: "v = PList xs" by (cases v) auto
    have "alike x (case x of PDict e \<Rightarrow> split_gps gps x | _ \<Rightarrow> x)" if "x \<in> set xs" for x
    proof (cases x)
      case (PDict e)
      have "lists_avoid C x"
        using "1.prems"(1,2) \<open>(k, v) \<in> set d\<close> xs \<open>x \<in> set xs\<close> by (fastforce simp: list_all_iff)
      with "1.IH" [OF \<open>(k, v) \<in> set d\<close> refl xs that PDict "1.prems"(1)] PDict show ?thesis by simp
    qed (simp_all add: alike_refl)
    with xs show ?thesis by (simp add: alike_lists list_all2_conv_all_nth)
  next
    case False
    then show ?thesis by (cases v) (simp_all add: alike_refl)
  qed
  then have "same_fields d ?base" unfolding same_fields_def list_all2_map2 by (auto intro!: list.rel_refl_strong)
  then have base: "alike (PDict d) (PDict ?base)" by (rule same_fields_alike)
  have new: "\<not> list_at d x \<and> \<not> is_list w"
    if "(x, w) \<in> set (concat (map (\<lambda>(k, v). case v of PStr s \<Rightarrow> if k \<in> set gps then gps_parts k s else [] | _ \<Rightarrow> []) d))" for x w
    using gps_cells [OF that] "1.prems"(1,2) by (fastforce simp: list_at_def list_all_iff dest: map_of_SomeD)
  show ?case unfolding split_gps.simps by (rule update_keeps_lists [OF base new])
qed (simp_all add: alike_refl)

lemma split_ok: "split_multiple fe all n ms row = Inr row' \<Longrightarrow> dict_ok row \<Longrightarrow> dict_ok row'"
  "split_values fe all n row = Inr row' \<Longrightarrow> map fst row' = map fst row"
  "split_entries fe all n xs = Inr ys \<Longrightarrow> True"
proof (induction fe all n ms row and fe all n row and fe all n xs arbitrary: row' and row' and ys
    rule: split_multiple_split_values_split_entries.induct)
  case (2 fe all n key choices ms row)
  from "2.prems"(1) obtain row1 row2 where own: "split_own fe key choices row = Inr row1"
    and vals: "split_values fe all n row1 = Inr row2" and more: "split_multiple fe all n ms row2 = Inr row'"
    by (auto split: sum.splits)
  have "dict_ok row1"
    using own "2.prems"(2) by (auto simp: split_own_def map_sum_Inr dict_ok_def distinct_delete dict_ok_update [unfolded dict_ok_def]
        split: option.splits pyval.splits)
  then have "dict_ok row2" using "2.IH"(1) [OF own vals] by (simp add: dict_ok_def)
  from "2.IH"(2) [OF own vals more this] show ?case .
qed (auto simp: map_sum_Inr split: sum.splits)

lemma prepared:
  assumes "prepare_record fe ms gps r = Inr r'" "dict_ok r"
    and avoid: "lists_avoid (choice_keys fe ms @ gps_keys gps) (PDict r)"
  shows "k \<noteq> ''_tags'' \<Longrightarrow> field_alike r r' k" "dict_ok r'" "\<not> list_at r' ''_tags''"
proof -
  let ?C = "choice_keys fe ms @ gps_keys gps"
  obtain r1 where r1: "(if split_multiples (fe_builder fe) then split_record fe ms r else Inr r) = Inr r1"
    and tags: "tag_edit_string (case split_gps gps (PDict r1) of PDict d \<Rightarrow> d | _ \<Rightarrow> r1) = Inr r'"
    using assms(1) by (auto simp: prepare_record_def split: sum.splits)
  have 1: "alike (PDict r) (PDict r1) \<and> lists_avoid ?C (PDict r1)" "dict_ok r1"
    using r1 avoid assms(2) splitting_keeps_lists(1) [of fe ms _ ms r r1 ?C] split_ok(1) [of fe ms _ ms r r1]
    by (auto simp: split_record_def alike_refl split: if_splits)
  obtain d where d: "split_gps gps (PDict r1) = PDict d" by simp
  have "alike (PDict r1) (PDict d)" using gps_keep_lists [of gps ?C "PDict r1"] 1 d by simp
  with 1 have 2: "alike (PDict r) (PDict d)" using alike_trans by blast
  have "dict_ok d" using d 1(2) by (auto simp: dict_ok_def comp_def case_prod_unfold intro!: dict_ok_update [unfolded dict_ok_def])
  have "r' = d \<or> (\<exists>t. r' = AList.update ''_tags'' t d)"
    using tags d by (auto simp: tag_edit_string_def map_sum_Inr split: option.splits sum.splits)
  then have r': "map_of r' k = map_of d k" if "k \<noteq> ''_tags''" for k using that by (auto simp: update_conv')
  show "\<not> list_at r' ''_tags''"
    using tags d by (auto simp: tag_edit_string_def map_sum_Inr list_at_def split: option.splits sum.splits)
  show "dict_ok r'" using \<open>dict_ok d\<close> \<open>r' = d \<or> _\<close> by (auto simp: dict_ok_def distinct_update)
  show "field_alike r r' k" if "k \<noteq> ''_tags''"
    using 2 r' [OF that] by (simp add: alike_dicts field_alike_def list_at_def)
qed

section \<open>The fields of repeats have columns\<close>

text \<open>
  A nested value of repeats only: every list in it is under the name of a repeat, is not empty and has
  dictionaries as entries.
\<close>

fun nested_ok :: "string list \<Rightarrow> pyval \<Rightarrow> bool" where
  "nested_ok K (PDict d) =
     list_all (\<lambda>(k, v). is_list v \<longrightarrow>
       k \<in> set K \<and> k \<notin> {''_attachments'', ''_notes''} \<and> truthy v \<and> nested_ok K v) d"
| "nested_ok K (PList xs) = list_all (\<lambda>x. is_dict x \<and> nested_ok K x) xs"
| "nested_ok K v = True"

definition ready :: "string list \<Rightarrow> ordered_columns \<Rightarrow> bool" where
  "ready K oc \<longleftrightarrow> (\<forall>k \<in> set K. \<exists>xs. map_of oc k = Some (Some xs))"

definition listed :: "string list \<Rightarrow> ordered_columns \<Rightarrow> string \<Rightarrow> bool" where
  "listed K oc x \<longleftrightarrow> (\<exists>k \<in> set K. \<exists>xs. map_of oc k = Some (Some xs) \<and> x \<in> set xs)"

definition widened :: "string list \<Rightarrow> ordered_columns \<Rightarrow> ordered_columns \<Rightarrow> bool" where
  "widened K oc oc' \<longleftrightarrow> ready K oc' \<and> (\<forall>x. listed K oc x \<longrightarrow> listed K oc' x)"

lemma widened_refl: "ready K oc \<Longrightarrow> widened K oc oc"
  by (simp add: widened_def)

lemma widened_trans: "widened K a b \<Longrightarrow> widened K b c \<Longrightarrow> widened K a c"
  by (simp add: widened_def)

lemma column_noted:
  assumes "ready K oc" "key \<in> set K"
  shows "widened K oc (note_column key x oc) \<and> listed K (note_column key x oc) x"
proof -
  obtain xs where xs: "map_of oc key = Some (Some xs)" using assms unfolding ready_def by blast
  have at: "map_of (note_column key x oc) k =
      (if k = key then Some (Some (if x \<in> set xs then xs else xs @ [x])) else map_of oc k)" for k
    using xs by (simp add: note_column_def update_conv')
  have "ready K (note_column key x oc)" using assms(1) unfolding ready_def at by simp
  moreover have "listed K (note_column key x oc) x"
    unfolding listed_def at using assms(2) by (intro bexI [of _ key]) auto
  moreover have "listed K (note_column key x oc) y" if "listed K oc y" for y
  proof -
    from that obtain k ys where "k \<in> set K" "map_of oc k = Some (Some ys)" "y \<in> set ys" unfolding listed_def by blast
    with xs show ?thesis unfolding listed_def at by (intro bexI [of _ k]) auto
  qed
  ultimately show ?thesis by (simp add: widened_def)
qed

lemma ordered_item_values:
  assumes "ordered_item fe key d = Inr its" "(k, v) \<in> set its"
  shows "map_of d k = Some v \<or> v = PStr (fl_na fe)"
proof -
  from assms(1) obtain xs where "its = dict_update [] (map (\<lambda>x. (x, case map_of d x of Some v \<Rightarrow> v | None \<Rightarrow> PStr (fl_na fe))) xs)"
    by (auto simp: ordered_item_def map_sum_Inr)
  with assms(2) set_dict_update [of "[]"] show ?thesis by (fastforce split: option.splits)
qed

lemma ordered_item_ok:
  assumes "nested_ok K (PDict d)" "ordered_item fe key d = Inr its"
  shows "nested_ok K (PDict its)"
proof -
  have "is_list v \<longrightarrow> (k, v) \<in> set d" if "(k, v) \<in> set its" for k v
    using ordered_item_values [OF assms(2) that] by (auto dest: map_of_SomeD)
  with assms(1) show ?thesis by (fastforce simp: list_all_iff)
qed

lemma keys_update: "fst ` set (AList.update k v d) = insert k (fst ` set d)"
  using dom_update [of k v d] by (simp add: dom_map_of_conv_image_fst)

lemma keys_dict_update: "fst ` set (dict_update d es) = fst ` set d \<union> fst ` set es"
proof -
  have "dom (map_of (dict_update d es)) = dom (map_of d) \<union> dom (map_of (rev es))"
    by (auto simp: dict_get_update split: option.splits)
  then show ?thesis by (simp add: dom_map_of_conv_image_fst)
qed

lemma fields_have_columns:
  "reindex fe row key v pre oc = Inr (rc', oc') \<Longrightarrow> is_list v \<Longrightarrow> truthy v \<Longrightarrow> key \<in> set K \<Longrightarrow>
     key \<notin> {''_attachments'', ''_notes''} \<Longrightarrow> nested_ok K v \<Longrightarrow> ready K oc \<Longrightarrow>
     widened K oc oc' \<and> (\<forall>x \<in> fst ` set rc'. listed K oc' x)"
  "reindex_entries fe row key v pre i xs rc oc = Inr (rc', oc') \<Longrightarrow> key \<in> set K \<Longrightarrow> nested_ok K (PList xs) \<Longrightarrow> ready K oc \<Longrightarrow>
     \<forall>x \<in> fst ` set rc. listed K oc x \<Longrightarrow> widened K oc oc' \<and> (\<forall>x \<in> fst ` set rc'. listed K oc' x)"
  "reindex_fields fe row key pre i its rc oc = Inr (rc', oc') \<Longrightarrow> key \<in> set K \<Longrightarrow> nested_ok K (PDict its) \<Longrightarrow> ready K oc \<Longrightarrow>
     \<forall>x \<in> fst ` set rc. listed K oc x \<Longrightarrow> widened K oc oc' \<and> (\<forall>x \<in> fst ` set rc'. listed K oc' x)"
proof (induction fe row key v pre oc and fe row key v pre i xs rc oc and fe row key pre i its rc oc
    arbitrary: rc' oc' and rc' oc' and rc' oc' rule: reindex_reindex_entries_reindex_fields.induct)
  case (1 fe row key v pre oc)
  then obtain xs where v: "v = PList xs" by (cases v) auto
  then have "reindex_entries fe row key v pre 1 xs [] oc = Inr (rc', oc')" "nested_ok K (PList xs)"
    using "1.prems" by simp_all
  with "1.IH" v "1.prems" show ?case by simp
next
  case (2 fe row key v pre i rc oc)
  then show ?case by (simp add: widened_refl)
next
  case (3 fe row key v pre i x xs rc oc)
  from "3.prems"(3) obtain d where d: "x = PDict d" "nested_ok K (PDict d)" "nested_ok K (PList xs)" by (cases x) auto
  with "3.prems"(1) obtain its rc1 oc1 where its: "ordered_item fe key d = Inr its"
    and one: "reindex_fields fe row key pre i (if map_of its key = Some (PStr ''n/a'') then d else its) rc oc = Inr (rc1, oc1)"
    and rest: "reindex_entries fe row key v pre (i + 1) xs rc1 oc1 = Inr (rc', oc')"
    by (auto split: sum.splits)
  have "widened K oc oc1 \<and> (\<forall>x \<in> fst ` set rc1. listed K oc1 x)"
    using "3.IH"(1) [OF d(1) its one "3.prems"(2) _ "3.prems"(4,5)] ordered_item_ok [OF d(2) its] d(2) by simp
  moreover from this have "widened K oc1 oc' \<and> (\<forall>x \<in> fst ` set rc'. listed K oc' x)"
    using d(1,3) its one rest "3.prems"(2) by (intro "3.IH"(2)) (auto simp: widened_def)
  ultimately show ?case using widened_trans by blast
next
  case (4 fe row key pre i rc oc)
  then show ?case by (simp add: widened_refl)
next
  case (5 fe row key pre i k w its rc oc)
  let ?path = "field_path fe pre key i k"
  let ?pre = "Some (butlast (split_on CHR ''/'' ?path))"
  from "5.prems"(1) obtain rc1 oc1 where one: "(if is_list w
        then map_sum id (\<lambda>(r, oc1). (dict_update rc r, oc1)) (reindex fe row k w ?pre oc)
        else map_sum id (\<lambda>u. (AList.update ?path u rc, note_column key ?path oc)) (flat_value fe row k w)) = Inr (rc1, oc1)"
    and rest: "reindex_fields fe row key pre i its rc1 oc1 = Inr (rc', oc')"
    by (auto simp: Let_def split: sum.splits)
  have its: "nested_ok K (PDict its)" using "5.prems"(3) by simp
  have "widened K oc oc1 \<and> (\<forall>x \<in> fst ` set rc1. listed K oc1 x)"
  proof (cases "is_list w")
    case True
    with one obtain r where r: "reindex fe row k w ?pre oc = Inr (r, oc1)" "rc1 = dict_update rc r"
      by (auto simp: map_sum_Inr)
    have "widened K oc oc1 \<and> (\<forall>x \<in> fst ` set r. listed K oc1 x)"
      using "5.IH"(1) [OF refl True r(1) True] "5.prems"(3,4) True by simp
    with "5.prems"(5) r(2) show ?thesis by (auto simp: keys_dict_update widened_def)
  next
    case False
    with one obtain u where "rc1 = AList.update ?path u rc" "oc1 = note_column key ?path oc"
      by (auto simp: map_sum_Inr)
    with column_noted [OF "5.prems"(4,2), of ?path] "5.prems"(5) show ?thesis by (auto simp: keys_update widened_def)
  qed
  moreover from this have "widened K oc1 oc' \<and> (\<forall>x \<in> fst ` set rc'. listed K oc' x)"
    using "5.IH"(2) [OF refl one refl rest "5.prems"(2) its] by (simp add: widened_def)
  ultimately show ?case using widened_trans by blast
qed

section \<open>Alike values have the same fields\<close>

definition both_alike :: "pyval \<Rightarrow> pyval \<Rightarrow> bool" where
  "both_alike v w \<longleftrightarrow> is_list v = is_list w \<and> (is_list v \<longrightarrow> alike v w)"

definition items_alike :: "pyval row \<Rightarrow> pyval row \<Rightarrow> bool" where
  "items_alike = list_all2 (\<lambda>(k, v) (k', w). k = k' \<and> both_alike v w)"

lemma items_update: "items_alike d e \<Longrightarrow> both_alike v w \<Longrightarrow> items_alike (AList.update k v d) (AList.update k w e)"
  unfolding items_alike_def by (induction rule: list_all2_induct) auto

lemma items_dict_update:
  "items_alike d e \<Longrightarrow> \<forall>x. both_alike (f x) (g x) \<Longrightarrow>
     items_alike (dict_update d (map (\<lambda>x. (x, f x)) xs)) (dict_update e (map (\<lambda>x. (x, g x)) xs))"
proof (induction xs arbitrary: d e)
  case (Cons x xs)
  from Cons.IH [OF items_update [OF Cons.prems(1)] Cons.prems(2)] Cons.prems(2) show ?case
    by (simp add: dict_update_def)
qed (simp add: dict_update_def)

lemma items_lookup: "items_alike d e \<Longrightarrow> map_of d k = None \<longleftrightarrow> map_of e k = None"
  unfolding items_alike_def by (induction rule: list_all2_induct) auto

lemma ordered_items_alike:
  assumes "alike (PDict d) (PDict e)" "ordered_item fe key d = Inr its" "ordered_item fe key e = Inr its'"
  shows "items_alike its its'"
proof -
  let ?f = "\<lambda>d x. case map_of d x of Some v \<Rightarrow> v | None \<Rightarrow> PStr (fl_na fe)"
  obtain xs where xs: "its = dict_update [] (map (\<lambda>x. (x, ?f d x)) xs)" "its' = dict_update [] (map (\<lambda>x. (x, ?f e x)) xs)"
    using assms(2,3) by (auto simp: ordered_item_def map_sum_Inr)
  have "both_alike (?f d x) (?f e x)" for x
  proof (cases "list_at d x")
    case True
    with assms(1) [unfolded alike_dicts, rule_format, of x] show ?thesis
      by (auto simp: field_alike_def both_alike_def)
  next
    case False
    with assms(1) [unfolded alike_dicts, rule_format, of x] have "\<not> list_at e x"
      by (auto simp: field_alike_def list_at_def)
    with False have "\<not> is_list (?f d x)" "\<not> is_list (?f e x)"
      by (auto simp: list_at_def split: option.splits elim!: is_list.elims)
    then show ?thesis by (simp add: both_alike_def)
  qed
  then show ?thesis unfolding xs by (intro items_dict_update) (simp_all add: items_alike_def)
qed

text \<open>A repeat is not among its own fields.\<close>

definition proper_repeats :: "flat_env \<Rightarrow> string list \<Rightarrow> bool" where
  "proper_repeats fe K \<longleftrightarrow>
     list_all (\<lambda>k. case repeat_xpaths fe k of Inl e \<Rightarrow> True | Inr xs \<Rightarrow> k \<notin> set xs) K"

lemma not_own_field:
  assumes "proper_repeats fe K" "key \<in> set K" "ordered_item fe key d = Inr its"
  shows "map_of its key = None"
proof -
  obtain xs where xs: "repeat_xpaths fe key = Inr xs"
    "its = dict_update [] (map (\<lambda>x. (x, case map_of d x of Some v \<Rightarrow> v | None \<Rightarrow> PStr (fl_na fe))) xs)"
    using assms(3) by (auto simp: ordered_item_def map_sum_Inr)
  then have "key \<notin> set xs" using assms(1,2) by (fastforce simp: proper_repeats_def list_all_iff)
  then show ?thesis using keys_dict_update [of "[]" "map (\<lambda>x. (x, case map_of d x of Some v \<Rightarrow> v | None \<Rightarrow> PStr (fl_na fe))) xs"]
    unfolding xs(2) map_of_eq_None_iff by auto
qed

lemma same_columns:
  "reindex fe row key v pre oc = Inr (rc', oc') \<Longrightarrow> is_list v \<Longrightarrow> truthy v \<Longrightarrow> key \<in> set K \<Longrightarrow>
     key \<notin> {''_attachments'', ''_notes''} \<Longrightarrow> nested_ok K v \<Longrightarrow> proper_repeats fe K \<Longrightarrow> alike v w \<Longrightarrow>
     reindex fe row2 key w pre oc2 = Inr (rc2', oc2') \<Longrightarrow> fst ` set rc' = fst ` set rc2'"
  "reindex_entries fe row key v pre i xs rc oc = Inr (rc', oc') \<Longrightarrow> key \<in> set K \<Longrightarrow> nested_ok K (PList xs) \<Longrightarrow>
     proper_repeats fe K \<Longrightarrow> list_all2 alike xs ys \<Longrightarrow> fst ` set rc = fst ` set rc2 \<Longrightarrow>
     reindex_entries fe row2 key w pre i ys rc2 oc2 = Inr (rc2', oc2') \<Longrightarrow> fst ` set rc' = fst ` set rc2'"
  "reindex_fields fe row key pre i its rc oc = Inr (rc', oc') \<Longrightarrow> key \<in> set K \<Longrightarrow> nested_ok K (PDict its) \<Longrightarrow>
     proper_repeats fe K \<Longrightarrow> items_alike its its2 \<Longrightarrow> fst ` set rc = fst ` set rc2 \<Longrightarrow>
     reindex_fields fe row2 key pre i its2 rc2 oc2 = Inr (rc2', oc2') \<Longrightarrow> fst ` set rc' = fst ` set rc2'"
proof (induction fe row key v pre oc and fe row key v pre i xs rc oc and fe row key pre i its rc oc
    arbitrary: rc' oc' w row2 oc2 rc2' oc2' and rc' oc' ys w row2 rc2 oc2 rc2' oc2' and rc' oc' its2 row2 rc2 oc2 rc2' oc2'
    rule: reindex_reindex_entries_reindex_fields.induct)
  case (1 fe row key v pre oc)
  then obtain xs where xs: "v = PList xs" by (cases v) auto
  moreover obtain ys where "w = PList ys" using alike_list_list "1.prems"(8) xs by blast
  ultimately have v: "v = PList xs" "w = PList ys" .
  have same: "list_all2 alike xs ys" using "1.prems"(8) unfolding v alike_lists .
  then have "truthy w" using "1.prems"(3) v by auto
  have cond: "is_list v \<and> truthy v \<and> key \<notin> {''_attachments'', ''_notes''}" using "1.prems"(2,3,5) by blast
  have one: "reindex_entries fe row key v pre 1 (list_items v) [] oc = Inr (rc', oc')"
    using "1.prems"(1) unfolding reindex.simps [of fe row key v] if_P [OF cond] .
  have "is_list w \<and> truthy w \<and> key \<notin> {''_attachments'', ''_notes''}" using cond v(2) \<open>truthy w\<close> by simp
  then have two: "reindex_entries fe row2 key w pre 1 ys [] oc2 = Inr (rc2', oc2')"
    using "1.prems"(9) v(2) unfolding reindex.simps [of fe row2 key w] by simp
  show ?case
    by (rule "1.IH" [OF cond one "1.prems"(4) _ "1.prems"(7) _ refl two]) (use "1.prems"(6) v(1) same in simp_all)
next
  case (2 fe row key v pre i rc oc)
  then show ?case by simp
next
  case (3 fe row key v pre i x xs rc oc)
  from "3.prems"(5) obtain y zs where ys: "ys = y # zs" "alike x y" "list_all2 alike xs zs" by (auto simp: list_all2_Cons1)
  from "3.prems"(3) obtain d where d: "x = PDict d" "nested_ok K (PDict d)" "nested_ok K (PList xs)" by (cases x) auto
  moreover obtain e where e: "y = PDict e" using alike_kind [OF ys(2)] d(1) by (cases y) auto
  ultimately obtain its rc1 oc1 its2 rc3 oc3 where its: "ordered_item fe key d = Inr its" "ordered_item fe key e = Inr its2"
    and one: "reindex_fields fe row key pre i (if map_of its key = Some (PStr ''n/a'') then d else its) rc oc = Inr (rc1, oc1)"
      "reindex_fields fe row2 key pre i (if map_of its2 key = Some (PStr ''n/a'') then e else its2) rc2 oc2 = Inr (rc3, oc3)"
    and rest: "reindex_entries fe row key v pre (i + 1) xs rc1 oc1 = Inr (rc', oc')"
      "reindex_entries fe row2 key w pre (i + 1) zs rc3 oc3 = Inr (rc2', oc2')"
    using "3.prems"(1,7) ys(1) by (auto split: sum.splits)
  have own: "map_of its key = None" "map_of its2 key = None"
    using not_own_field [OF "3.prems"(4,2)] its by blast+
  have "fst ` set rc1 = fst ` set rc3"
    using "3.IH"(1) [OF d(1) its(1) one(1) "3.prems"(2) _ "3.prems"(4) _ "3.prems"(6), of its2 row2 oc2 rc3 oc3]
      one(2) own ordered_item_ok [OF d(2) its(1)] ordered_items_alike [OF _ its] ys(2) d(1) e by simp
  moreover have "(case x of
        PDict d \<Rightarrow>
          (case ordered_item fe key d of
             Inl e \<Rightarrow> Inl e
           | Inr its \<Rightarrow> reindex_fields fe row key pre i (if map_of its key = Some (PStr ''n/a'') then d else its) rc oc)
      | _ \<Rightarrow> map_sum id (\<lambda>w. (AList.update key w rc, oc)) (flat_value fe row key v)) = Inr (rc1, oc1)"
    using d(1) its(1) one(1) by simp
  ultimately show ?case
    using "3.IH"(2) [OF _ refl rest(1) "3.prems"(2) d(3) "3.prems"(4) ys(3) _ rest(2)] by blast
next
  case (4 fe row key pre i rc oc)
  then show ?case by (simp add: items_alike_def)
next
  case (5 fe row key pre i k w its rc oc)
  let ?path = "field_path fe pre key i k"
  let ?pre = "Some (butlast (split_on CHR ''/'' ?path))"
  let ?step = "\<lambda>row w rc oc. if is_list w
        then map_sum id (\<lambda>(r, oc1). (dict_update rc r, oc1)) (reindex fe row k w ?pre oc)
        else map_sum id (\<lambda>u. (AList.update ?path u rc, note_column key ?path oc)) (flat_value fe row k w)"
  from "5.prems"(5) obtain w2 its3 where its2: "its2 = (k, w2) # its3" "both_alike w w2" "items_alike its its3"
    by (auto simp: items_alike_def list_all2_Cons1)
  from "5.prems"(1) obtain rc1 oc1 where one: "?step row w rc oc = Inr (rc1, oc1)"
    and rest: "reindex_fields fe row key pre i its rc1 oc1 = Inr (rc', oc')"
    by (auto simp: Let_def split: sum.splits)
  from "5.prems"(7) obtain rc3 oc3 where two: "?step row2 w2 rc2 oc2 = Inr (rc3, oc3)"
    and rest2: "reindex_fields fe row2 key pre i its3 rc3 oc3 = Inr (rc2', oc2')"
    unfolding its2(1) by (auto simp: Let_def split: sum.splits)
  have "fst ` set rc1 = fst ` set rc3"
  proof (cases "is_list w")
    case True
    with one obtain r where r: "reindex fe row k w ?pre oc = Inr (r, oc1)" "rc1 = dict_update rc r"
      by (auto simp: map_sum_Inr)
    from True its2(2) have w2: "is_list w2" "alike w w2" by (simp_all add: both_alike_def)
    with two obtain r2 where r2: "reindex fe row2 k w2 ?pre oc2 = Inr (r2, oc3)" "rc3 = dict_update rc2 r2"
      by (auto simp: map_sum_Inr)
    have "fst ` set r = fst ` set r2"
      using "5.IH"(1) [OF refl True r(1) True _ _ _ _ "5.prems"(4) w2(2) r2(1)] "5.prems"(3) True by simp
    with "5.prems"(6) r(2) r2(2) show ?thesis by (simp add: keys_dict_update)
  next
    case False
    with its2(2) have "\<not> is_list w2" by (simp add: both_alike_def)
    with False one two obtain u u2 where "rc1 = AList.update ?path u rc" "rc3 = AList.update ?path u2 rc2"
      by (auto simp: map_sum_Inr)
    with "5.prems"(6) show ?thesis by (simp add: keys_update)
  qed
  moreover have "nested_ok K (PDict its)" using "5.prems"(3) by simp
  ultimately show ?case
    using "5.IH"(2) [OF refl one refl rest "5.prems"(2) _ "5.prems"(4) its2(3) _ rest2] by blast
qed

section \<open>No answer in a repeat is left out\<close>

declare reindex.simps [simp del]

definition plain_value :: "string \<Rightarrow> pyval \<Rightarrow> bool" where
  "plain_value k v \<longleftrightarrow> \<not> is_list v \<or> k \<in> {''_attachments'', ''_notes''} \<or> list_all (\<lambda>x. \<not> is_dict x) (list_items v)"

definition repeat_value :: "string list \<Rightarrow> string \<Rightarrow> pyval \<Rightarrow> bool" where
  "repeat_value K k v \<longleftrightarrow>
     is_list v \<and> truthy v \<and> k \<in> set K \<and> k \<notin> {''_attachments'', ''_notes''} \<and> nested_ok K v"

definition record_ok :: "string list \<Rightarrow> pyval row \<Rightarrow> bool" where
  "record_ok K r \<longleftrightarrow> dict_ok r \<and> list_all (\<lambda>(k, v). plain_value k v \<or> repeat_value K k v) r"

definition repeat_names :: "form \<Rightarrow> string list" where
  "repeat_names f =
     (let oc = build_ordered_columns f
      in filter (\<lambda>k. case map_of oc k of Some (Some xs) \<Rightarrow> True | _ \<Rightarrow> False) (map fst oc))"

text \<open>The repeats are no questions with choices, no geopoints and none of the fields added to records.\<close>

definition proper_form ::
    "flat_env \<Rightarrow> string list \<Rightarrow> (string \<times> flat_choice list) list \<Rightarrow> string list \<Rightarrow> bool" where
  "proper_form fe K ms gps \<longleftrightarrow>
     proper_repeats fe K \<and> list_all (\<lambda>k. k \<notin> set (map fst ms) \<and> k \<notin> set gps \<and> k \<noteq> ''_tags'') K"

lemma entries_plain:
  "reindex_entries fe row key v pre i xs rc oc = Inr (rc', oc') \<Longrightarrow> list_all (\<lambda>x. \<not> is_dict x) xs \<Longrightarrow> fst ` set rc \<subseteq> {key} \<Longrightarrow>
     oc' = oc \<and> fst ` set rc' \<subseteq> {key}"
proof (induction xs arbitrary: i rc)
  case (Cons x xs)
  then obtain w where "reindex_entries fe row key v pre (i + 1) xs (AList.update key w rc) oc = Inr (rc', oc')"
    by (cases x) (auto simp: map_sum_Inr split: sum.splits)
  with Cons.IH Cons.prems(2,3) show ?case by (simp add: keys_update)
qed simp

lemma plain_reindex:
  assumes "plain_value k v" "reindex fe row k v pre oc = Inr (rc, oc')"
  shows "oc' = oc \<and> fst ` set rc \<subseteq> {k}"
proof (cases "is_list v \<and> truthy v \<and> k \<notin> {''_attachments'', ''_notes''}")
  case True
  then have "reindex_entries fe row k v pre 1 (list_items v) [] oc = Inr (rc, oc')"
    using assms(2) unfolding reindex.simps [of fe row k v] if_P [OF True] by blast
  moreover have "list_all (\<lambda>x. \<not> is_dict x) (list_items v)" using assms(1) True unfolding plain_value_def by blast
  ultimately show ?thesis using entries_plain by fastforce
next
  case False
  show ?thesis
    using assms(2) unfolding reindex.simps [of fe row k v] if_not_P [OF False] by (auto simp: map_sum_Inr split: if_splits)
qed

definition value_noted :: "flat_env \<Rightarrow> pyval row \<Rightarrow> string list \<Rightarrow> ordered_columns \<Rightarrow> string \<Rightarrow> pyval \<Rightarrow> bool" where
  "value_noted fe r K oc k v \<longleftrightarrow>
     (\<exists>rc oca ocb. reindex fe r k v None oca = Inr (rc, ocb) \<and> (\<forall>x \<in> fst ` set rc. listed K oc x))"

definition all_noted :: "flat_env \<Rightarrow> pyval row \<Rightarrow> string list \<Rightarrow> ordered_columns \<Rightarrow> (string \<times> pyval) list \<Rightarrow> bool" where
  "all_noted fe r K oc items \<longleftrightarrow> (\<forall>(k, v) \<in> set items. repeat_value K k v \<longrightarrow> value_noted fe r K oc k v)"

lemma items_listed:
  "reindex_items fe row items flat oc = Inr (flat', oc') \<Longrightarrow>
     list_all (\<lambda>(k, v). plain_value k v \<or> repeat_value K k v) items \<Longrightarrow> ready K oc \<Longrightarrow>
     widened K oc oc' \<and> all_noted fe row K oc' items"
proof (induction items arbitrary: flat oc)
  case Nil
  then show ?case by (simp add: widened_refl all_noted_def)
next
  case (Cons item items)
  obtain k v where kv: "item = (k, v)" by fastforce
  with Cons.prems(1) obtain rc oc1 where one: "reindex fe row k v None oc = Inr (rc, oc1)"
    and rest: "reindex_items fe row items (dict_update flat rc) oc1 = Inr (flat', oc')"
    by (auto split: sum.splits)
  have ok: "plain_value k v \<or> repeat_value K k v" "list_all (\<lambda>(k, v). plain_value k v \<or> repeat_value K k v) items"
    using Cons.prems(2) kv by simp_all
  have first: "widened K oc oc1 \<and> (repeat_value K k v \<longrightarrow> (\<forall>x \<in> fst ` set rc. listed K oc1 x))"
  proof (cases "repeat_value K k v")
    case True
    with fields_have_columns(1) [OF one, of K] Cons.prems(3) show ?thesis unfolding repeat_value_def by blast
  next
    case False
    with ok(1) have "plain_value k v" by blast
    from plain_reindex [OF this one] Cons.prems(3) False show ?thesis by (simp add: widened_refl)
  qed
  then have "ready K oc1" unfolding widened_def by blast
  from Cons.IH [OF rest ok(2) this] have more: "widened K oc1 oc'" "all_noted fe row K oc' items" by blast+
  have "value_noted fe row K oc' k v" if r: "repeat_value K k v"
  proof -
    have "\<forall>x \<in> fst ` set rc. listed K oc' x"
    proof
      fix x assume "x \<in> fst ` set rc"
      with first r have "listed K oc1 x" by blast
      with more(1) show "listed K oc' x" unfolding widened_def by blast
    qed
    with one show ?thesis unfolding value_noted_def by (intro exI [of _ rc] exI [of _ oc] exI [of _ oc1] conjI)
  qed
  with more(2) have "all_noted fe row K oc' (item # items)" unfolding all_noted_def kv by (simp add: case_prod_unfold)
  with first more(1) widened_trans show ?case by blast
qed

definition noted :: "flat_env \<Rightarrow> string list \<Rightarrow> ordered_columns \<Rightarrow> pyval row \<Rightarrow> bool" where
  "noted fe K oc r \<longleftrightarrow> all_noted fe r K oc r"

lemma noted_widened: "noted fe K oc r \<Longrightarrow> widened K oc oc' \<Longrightarrow> noted fe K oc' r"
  unfolding noted_def all_noted_def value_noted_def widened_def by blast

lemma records_noted:
  "add_repeat_columns fe rs oc = Inr oc' \<Longrightarrow> list_all (record_ok K) rs \<Longrightarrow> ready K oc \<Longrightarrow>
     widened K oc oc' \<and> (\<forall>r \<in> set rs. noted fe K oc' r)"
proof (induction rs arbitrary: oc)
  case Nil
  then show ?case by (simp add: widened_refl)
next
  case (Cons r rs)
  from Cons.prems(1) obtain flat oc1 where one: "reindex_items fe r r [] oc = Inr (flat, oc1)"
    and rest: "add_repeat_columns fe rs oc1 = Inr oc'"
    by (auto split: sum.splits)
  have "widened K oc oc1 \<and> noted fe K oc1 r"
    using items_listed [OF one, of K] Cons.prems(2,3) unfolding noted_def record_ok_def by simp
  moreover from this have "widened K oc1 oc' \<and> (\<forall>r \<in> set rs. noted fe K oc' r)"
    using Cons.IH [OF rest] Cons.prems(2) by (simp add: widened_def)
  ultimately show ?case using widened_trans noted_widened by (metis set_ConsD)
qed

lemma names_ready: "ready (repeat_names f) (build_ordered_columns f)"
  by (auto simp: ready_def repeat_names_def Let_def split: option.splits)

lemma multiples_keep_lists:
  "add_multiple_columns fe ms oc = Inr oc' \<Longrightarrow> k \<notin> set (map fst ms) \<Longrightarrow> map_of oc' k = map_of oc k"
proof (induction ms arbitrary: oc)
  case (Cons m ms)
  obtain key choices where m: "m = (key, choices)" by fastforce
  show ?case
  proof (cases "map_of oc key")
    case None
    with Cons m show ?thesis by simp
  next
    case (Some g)
    with Cons.prems(1) m obtain ks
      where "add_multiple_columns fe ms (AList.update key (Some (without_duplicates ks)) oc) = Inr oc'"
      by (auto split: sum.splits)
    from Cons.IH [OF this] Cons.prems(2) m show ?thesis by (simp add: update_conv')
  qed
qed simp

lemma gps_keep_columns: "k \<notin> set gps \<Longrightarrow> map_of (add_gps_columns gps oc) k = map_of oc k"
proof -
  assume "k \<notin> set gps"
  then have "map_of (rev (map (\<lambda>key. (key, Some (key # get_additional_geopoint_xpaths key))) gps)) k = None"
    unfolding map_of_eq_None_iff by auto
  then show ?thesis by (simp add: add_gps_columns_def dict_get_update)
qed

lemma listed_column: "listed K oc x \<Longrightarrow> x \<in> set (columns_of oc)"
proof -
  assume "listed K oc x"
  then obtain k xs where "map_of oc k = Some (Some xs)" "x \<in> set xs" unfolding listed_def by blast
  then have "(k, Some xs) \<in> set oc" "x \<in> set (group_columns (k, Some xs))"
    by (auto simp: group_columns_def dest: map_of_SomeD)
  then show ?thesis unfolding columns_of_def set_concat set_map by blast
qed

lemma flat_columns_note:
  assumes "flat_columns fe ms gps data = Inr oc" and K: "K = repeat_names (form_of fe)" and "proper_form fe K ms gps"
    and "list_all (record_ok K) data" "r \<in> set data"
  shows "noted fe K oc r"
proof -
  obtain oc1 oc2 where 1: "add_repeat_columns fe data (build_ordered_columns (form_of fe)) = Inr oc1"
    and 2: "(if split_multiples (fe_builder fe) then add_multiple_columns fe ms oc1 else Inr oc1) = Inr oc2"
    and 3: "oc = add_gps_columns gps oc2"
    using assms(1) by (auto simp: flat_columns_def map_sum_Inr split: sum.splits)
  have n: "noted fe K oc1 r" "ready K oc1"
    using records_noted [OF 1 assms(4)] names_ready assms(5) unfolding K widened_def by blast+
  have "map_of oc k = map_of oc1 k" if "k \<in> set K" for k
  proof -
    have "k \<notin> set (map fst ms)" "k \<notin> set gps" using assms(3) that by (auto simp: proper_form_def list_all_iff)
    with 2 multiples_keep_lists gps_keep_columns show ?thesis unfolding 3 by (auto split: if_splits)
  qed
  then have "widened K oc1 oc" using n(2) unfolding widened_def ready_def listed_def by auto
  from noted_widened [OF n(1) this] show ?thesis .
qed

lemma items_fields:
  "reindex_items fe row items flat oc = Inr (flat', oc') \<Longrightarrow> fst ` set flat \<subseteq> S \<Longrightarrow>
     (\<And>k v rc oca ocb. (k, v) \<in> set items \<Longrightarrow> reindex fe row k v None oca = Inr (rc, ocb) \<Longrightarrow> fst ` set rc \<subseteq> S) \<Longrightarrow>
     fst ` set flat' \<subseteq> S"
proof (induction items arbitrary: flat oc)
  case (Cons item items)
  obtain k v where kv: "item = (k, v)" by fastforce
  with Cons.prems(1) obtain rc oc1 where one: "reindex fe row k v None oc = Inr (rc, oc1)"
    and rest: "reindex_items fe row items (dict_update flat rc) oc1 = Inr (flat', oc')"
    by (auto split: sum.splits)
  have "fst ` set rc \<subseteq> S" by (rule Cons.prems(3) [OF _ one]) (simp add: kv)
  with Cons.prems(2) have flat: "fst ` set (dict_update flat rc) \<subseteq> S" by (simp add: keys_dict_update)
  show ?case by (rule Cons.IH [OF rest flat], rule Cons.prems(3)) simp_all
qed simp

lemma value_columns:
  assumes ok: "record_ok K r" and K: "proper_repeats fe K" "''_tags'' \<notin> set K" and n: "noted fe K oc r"
    and r': "\<And>k. k \<noteq> ''_tags'' \<Longrightarrow> field_alike r r' k" "dict_ok r'" "\<not> list_at r' ''_tags''"
    and kv: "(k, w) \<in> set r'" and run: "reindex fe r' k w None oca = Inr (rc, ocb)"
  shows "fst ` set rc \<subseteq> insert k {x. listed K oc x}"
proof (cases "is_list w")
  case False
  then show ?thesis using plain_reindex [OF _ run] by (auto simp: plain_value_def)
next
  case True
  then obtain ys where w: "w = PList ys" by (cases w) auto
  have at: "map_of r' k = Some w" using r'(2) kv by (auto simp: dict_ok_def intro: map_of_is_SomeI)
  then have "k \<noteq> ''_tags''" using r'(3) w by (auto simp: list_at_def)
  from r'(1) [OF this] at w obtain xs where xs: "map_of r k = Some (PList xs)" "alike (PList xs) w"
    by (auto simp: field_alike_def list_at_def)
  then have "(k, PList xs) \<in> set r" by (auto dest: map_of_SomeD)
  with ok have "plain_value k (PList xs) \<or> repeat_value K k (PList xs)" by (auto simp: record_ok_def list_all_iff)
  then show ?thesis
  proof
    assume plain: "plain_value k (PList xs)"
    have "plain_value k w"
    proof (cases "k \<in> {''_attachments'', ''_notes''}")
      case False
      with plain have "list_all (\<lambda>x. \<not> is_dict x) xs" by (simp add: plain_value_def)
      moreover have "list_all2 alike xs ys" using xs(2) w by (simp add: alike_lists)
      ultimately have "list_all (\<lambda>x. \<not> is_dict x) ys"
        by (auto simp: list_all_length list_all2_conv_all_nth dest!: alike_kind)
      then show ?thesis using w by (simp add: plain_value_def)
    qed (simp add: plain_value_def)
    then show ?thesis using plain_reindex [OF _ run] by auto
  next
    assume rep: "repeat_value K k (PList xs)"
    then obtain rc0 oc0 oc1 where run0: "reindex fe r k (PList xs) None oc0 = Inr (rc0, oc1)"
      and listed: "\<forall>x \<in> fst ` set rc0. listed K oc x"
      using n \<open>(k, PList xs) \<in> set r\<close> unfolding noted_def all_noted_def value_noted_def by fast
    have v: "is_list (PList xs)" "truthy (PList xs)" "k \<in> set K" "k \<notin> {''_attachments'', ''_notes''}" "nested_ok K (PList xs)"
      using rep unfolding repeat_value_def by blast+
    have "fst ` set rc0 = fst ` set rc" using same_columns(1) [OF run0 v K(1) xs(2) run] .
    with listed show ?thesis by auto
  qed
qed

text \<open>C40: The two readings of the data agree: every field of every repeat, at any depth, that a row of the flat table
  gets in the second reading, after the choices, geopoints and tags have been split, has a column from the
  first, so that no answer in a repeat is left out.\<close>

theorem no_repeat_answer_left_out:
  assumes "flat_columns fe ms gps data = Inr oc" "format_for_dataframe fe ms gps data oc = Inr flats"
    and "proper_form fe (repeat_names (form_of fe)) ms gps"
    and "list_all (\<lambda>r. record_ok (repeat_names (form_of fe)) r
           \<and> lists_avoid (choice_keys fe ms @ gps_keys gps) (PDict r)) data"
  shows "list_all2 (\<lambda>r flat. \<exists>r'. prepare_record fe ms gps r = Inr r'
           \<and> fst ` set flat \<subseteq> set (columns_of oc) \<union> fst ` set r') data flats"
proof -
  let ?K = "repeat_names (form_of fe)"
  have ok: "list_all (record_ok ?K) data" using assms(4) by (simp add: list_all_iff)
  have K: "proper_repeats fe ?K" "''_tags'' \<notin> set ?K" using assms(3) by (auto simp: proper_form_def list_all_iff)
  have row: "fst ` set flat \<subseteq> set (columns_of oc) \<union> fst ` set r'"
    if r: "r \<in> set data" and r': "prepare_record fe ms gps r = Inr r'"
      and flat: "reindex_items fe r' r' [] oca = Inr (flat, ocb)" for r r' oca flat ocb
  proof -
    have r_ok: "record_ok ?K r" "dict_ok r" "lists_avoid (choice_keys fe ms @ gps_keys gps) (PDict r)"
      using r assms(4) by (auto simp: list_all_iff record_ok_def)
    note p = prepared [OF r' r_ok(2,3)]
    note n = flat_columns_note [OF assms(1) refl assms(3) ok r]
    have cols: "fst ` set rc \<subseteq> set (columns_of oc) \<union> fst ` set r'"
      if kw: "(k, w) \<in> set r'" and run: "reindex fe r' k w None ocx = Inr (rc, ocy)" for k w rc ocx ocy
    proof -
      have "k \<in> fst ` set r'" using kw by force
      then show ?thesis using value_columns [OF r_ok(1) K n p kw run] listed_column [of ?K oc] by blast
    qed
    show ?thesis by (rule items_fields [OF flat _ cols]) auto
  qed
  have "list_all2 (\<lambda>r flat. \<exists>r'. prepare_record fe ms gps r = Inr r'
      \<and> fst ` set flat \<subseteq> set (columns_of oc) \<union> fst ` set r') rs flats"
    if "format_for_dataframe fe ms gps rs oca = Inr flats" "set rs \<subseteq> set data" for rs oca flats
    using that
  proof (induction rs arbitrary: oca flats)
    case (Cons r rs)
    from Cons.prems(1) obtain r' flat oc1 more where r': "prepare_record fe ms gps r = Inr r'"
      and flat: "reindex_items fe r' r' [] oca = Inr (flat, oc1)"
      and more: "format_for_dataframe fe ms gps rs oc1 = Inr more" "flats = flat # more"
      by (auto simp: map_sum_Inr split: sum.splits)
    from row [OF _ r' flat] Cons.prems(2) r' Cons.IH [OF more(1)] show ?case unfolding more(2) by simp
  qed simp
  then show ?thesis using assms(2) by blast
qed

text \<open>A form with a repeat in a repeat and a question with choices.\<close>

definition family_form :: form where
  "family_form =
     (let tx = Some (Some ''string'');
          n = Question ''name'' ''/data/kids/name'' ''text'' tx No_Label None;
          m = Question ''likes'' ''/data/kids/likes'' MULTIPLE_SELECT_TYPE tx No_Label
                (Some [Choice ''ball'' ''/ball'' No_Label, Choice ''doll'' ''/doll'' No_Label]);
          y = Question ''toy'' ''/data/kids/toys/toy'' ''text'' tx No_Label None;
          t = Section Repeat ''toys'' ''/data/kids/toys'' None No_Label [y];
          k = Section Repeat ''kids'' ''/data/kids'' None No_Label [n, m, t];
          a = Question ''age'' ''/data/age'' ''integer'' (Some (Some ''int'')) No_Label None;
          root = Section Survey_Root ''data'' ''/data'' None No_Label [a, k]
      in \<lparr>fo_root = root, fo_elements = [root, a, k, n, m, t, y], fo_language = None\<rparr>)"

definition family_env :: flat_env where
  "family_env =
     \<lparr>fe_columns = \<lparr>ce_form = family_form, ce_info = (\<lambda>_. plain_info), ce_itemsets = (\<lambda>_. None), ce_osm = (\<lambda>_. []),
        ce_delimiter = CHR ''/'', ce_remove_group = False\<rparr>,
      fe_builder = plain_builder, fe_py = sample_py, fe_site = sample_site,
      fe_labels = False, fe_labels_only = False, fe_hxl = False, fe_hxl_columns = [], fe_dataview = None,
      fe_extra = [''_id''], fl_open = ''['', fl_close = '']'', fl_na = ''n/a''\<rparr>"

definition family_record :: "pyval row" where
  "family_record =
     [(''_id'', PInt 7), (''age'', PInt 40),
      (''kids'', PList
        [PDict [(''kids/name'', PStr ''Ann''), (''kids/likes'', PStr ''doll''),
                (''kids/toys'', PList [PDict [(''kids/toys/toy'', PStr ''car'')], PDict [(''kids/toys/toy'', PStr ''cup'')]])],
         PDict [(''kids/name'', PStr ''Bob'')]])]"

theorem no_repeat_answer_left_out_witness:
  "\<exists>oc flat. flat_columns family_env [(''kids/likes'', [(''kids/likes/ball'', ''ball'', None), (''kids/likes/doll'', ''doll'', None)])]
       [] [family_record] = Inr oc
     \<and> map_of flat ''kids[1]/toys[2]/toy'' = Some (PStr ''cup'') \<and> ''kids[1]/toys[2]/toy'' \<in> set (columns_of oc)"
proof -
  let ?ms = "[(''kids/likes'', [(''kids/likes/ball'', ''ball'', None), (''kids/likes/doll'', ''doll'', None)])]"
  have run: "(case flat_columns family_env ?ms [] [family_record] of
      Inl e \<Rightarrow> False
    | Inr oc \<Rightarrow>
        (case format_for_dataframe family_env ?ms [] [family_record] oc of
           Inr [flat] \<Rightarrow> map_of flat ''kids[1]/toys[2]/toy'' = Some (PStr ''cup'') | _ \<Rightarrow> False))"
    by code_simp
  then obtain oc flat where oc: "flat_columns family_env ?ms [] [family_record] = Inr oc"
    and flat: "format_for_dataframe family_env ?ms [] [family_record] oc = Inr [flat]"
    and cup: "map_of flat ''kids[1]/toys[2]/toy'' = Some (PStr ''cup'')"
    by (auto split: sum.splits list.splits)
  have ok: "proper_form family_env (repeat_names (form_of family_env)) ?ms []"
    "list_all (\<lambda>r. record_ok (repeat_names (form_of family_env)) r
       \<and> lists_avoid (choice_keys family_env ?ms @ gps_keys []) (PDict r)) [family_record]"
    by code_simp+
  obtain r' where r': "prepare_record family_env ?ms [] family_record = Inr r'"
    and keys: "fst ` set flat \<subseteq> set (columns_of oc) \<union> fst ` set r'"
    using no_repeat_answer_left_out [OF oc flat ok] by auto
  have "(case prepare_record family_env ?ms [] family_record of
      Inl e \<Rightarrow> False | Inr r' \<Rightarrow> ''kids[1]/toys[2]/toy'' \<notin> set (map fst r'))"
    by code_simp
  with r' have "''kids[1]/toys[2]/toy'' \<notin> fst ` set r'" by simp
  moreover have "''kids[1]/toys[2]/toy'' \<in> fst ` set flat" using map_of_SomeD [OF cup] by force
  ultimately have "''kids[1]/toys[2]/toy'' \<in> set (columns_of oc)" using keys by blast
  with oc cup show ?thesis by blast
qed

section \<open>Shortcomings\<close>

text \<open>A filtered dataset with the column age also gives away a column that only begins like it.\<close>

theorem filtered_dataset_gives_away_columns:
  "export_columns (family_env\<lparr>fe_dataview := Some [''age'']\<rparr>) [(''age'', None), (''age_of_first_child'', None)]
     = [''age'', ''age_of_first_child'']"
  by code_simp

text \<open>With labels, the name of a choice is replaced in the path of its question, too.\<close>

theorem label_replaces_path:
  "flat_choice_key (family_env\<lparr>fe_builder := plain_builder\<lparr>show_labels := True\<rparr>\<rparr>) (''g/apples/a'', ''a'', Some ''Red'')
     = Inr ''g/Redpples/Red''"
  by code_simp

text \<open>Two spaces between answers: the last one is not found among the answers.\<close>

theorem two_spaces_fail:
  "split_own (family_env\<lparr>fe_builder := plain_builder\<lparr>value_multiples := True\<rparr>\<rparr>) ''q'' [(''q/b'', ''b'', None)]
       [(''q'', PStr ''a  b'')] = Inl (Label_Failed Index_Error)"
  by code_simp

end
