(* ===== verification/Spec2Isabelle.thy ===== *)
theory Spec2Isabelle
  imports Onadata_Prelude Py_Time Permissions Deactivation Kms Instance_Parser Dict_Tools Submission_Store Submission Submission_Limits Csv_Nesting Xform_Lifecycle Exports Export_Requests Counters Query_Where Survey Export_Cells Export_Rows Export_Columns Export_Files Flat_Csv
begin

text \<open>
  Verification library of Ona Data, the Django application under \<open>src/onadata/\<close>: a server that
  keeps survey forms, receives their submissions and gives the data out again.

  \<^bold>\<open>The program\<close>

  A form (\<open>XForm\<close>) is made of a survey by pyxform.  A device sends a submission, an XML document with
  media files, to \<open>logger_tools.create_instance\<close>, which finds the form, checks the sender and the
  encryption, stores the submission or edits an earlier one, and parses it
  (\<open>xform_instance_parser.py\<close>) into the JSON data that queries and exports read.  Managed forms encrypt
  their submissions with keys of a key service (\<open>libs/kms\<close>).  Who may see or change a form, and which of
  its submissions, is decided by roles (\<open>libs/permissions.py\<close>); accounts that are not used are
  deactivated in stages (\<open>user_deactivation.py\<close>).  A request for data is a JSON query that becomes SQL
  (\<open>parsed_instance_tools.py\<close>), or a request for an export, which finds or generates a file
  (\<open>api_export_tools.py\<close>, \<open>export_tools.py\<close>, \<open>export_builder.py\<close>).

  \<^bold>\<open>The theories\<close>

  \<^item> \<open>Onadata_Prelude\<close>: Python's texts and dictionaries (the locale \<open>py_dict\<close>, interpreted on
    association lists in the order of insertion), JSON values and truth; \<open>Py_Time\<close>: times.
  \<^item> \<open>Permissions\<close>: \<open>libs/permissions.py\<close>.  The permission store is the locale \<open>perm_store\<close>, whose
    interpretation \<open>tbl\<close> is the table of permission rows.  Adding a role gives exactly its
    permissions; sharing and recognising a role is a round trip; the filters by submitter agree.
  \<^item> \<open>Deactivation\<close>: \<open>apps/main/models/user_deactivation.py\<close> and \<open>user_activity.py\<close>.  No account is
    deactivated without its warnings; the planner refines its announcements; reactivation starts over.
  \<^item> \<open>Kms\<close>: \<open>libs/kms/tools.py\<close> on \<open>apps/logger/models/kms.py\<close>: creation, rotation, expiry of keys,
    encryption of forms, decryption of submissions.
  \<^item> \<open>Instance_Parser\<close>: \<open>apps/logger/xform_instance_parser.py\<close>; no answer of a submission is lost.
  \<^item> \<open>Dict_Tools\<close>, \<open>Csv_Nesting\<close>: \<open>libs/utils/dict_tools.py\<close>.
  \<^item> \<open>Submission_Store\<close>, \<open>Submission\<close>, \<open>Submission_Limits\<close>: \<open>apps/logger/models/instance.py\<close>,
    \<open>attachment.py\<close> and \<open>libs/utils/logger_tools.py\<close>.  The store invariant is kept by every
    operation (the locale \<open>kept\<close> is the contract shared by them), a resubmission changes
    nothing, a refused submission leaves no trace, an acceptable one is saved.
  \<^item> \<open>Xform_Lifecycle\<close>: soft deletion and restoring of forms, which undo each other.
  \<^item> \<open>Exports\<close>, \<open>Export_Requests\<close>: \<open>apps/viewer/models/export.py\<close>, \<open>apps/viewer/tasks.py\<close>,
    \<open>libs/utils/export_tools.py\<close> and \<open>api_export_tools.py\<close>: the table of exports, its limit, its
    files, and what a request gets.
  \<^item> \<open>Counters\<close>: the cached counters of \<open>libs/utils/model_tools.py\<close> under interleaved commits.
  \<^item> \<open>Query_Where\<close>: JSON queries to SQL, \<open>apps/viewer/parsed_instance_tools.py\<close>,
    \<open>apps/viewer/models/parsed_instance.py\<close>, \<open>libs/models/sorting.py\<close>.
  \<^item> \<open>Survey\<close>: the survey of a form, \<open>XFormMixin\<close> of \<open>apps/logger/models/xform.py\<close>.
  \<^item> \<open>Export_Cells\<close>, \<open>Export_Rows\<close>, \<open>Export_Columns\<close>, \<open>Export_Files\<close>: \<open>libs/utils/export_builder.py\<close>:
    what happens to the cells of a row, the rows of a nested submission and of its repeats, the sections
    and columns of a form, the tables and options of CSV, XLSX and SPSS files.  No cell is a formula, the
    rows are numbered and linked, no question is left out, every row fits its header, and the titles of
    sheets and the names of variables are different.
  \<^item> \<open>Flat_Csv\<close>: the flat CSV of \<open>libs/utils/csv_builder.py\<close>: the split choices and geopoints,
    the indexed columns of repeats, headers and rows.  No answer in a repeat is left out, although the
    columns are found in one reading of the data and the rows are made in another.
  \<^item> This theory: the properties that span components, of exports and of queries under restricted
    permissions.

  \<^bold>\<open>Conventions\<close>

  A row of a database table is a record, a table the list of its rows in the order of their ids; an
  operation takes the tables and gives them back with an error or a value (a sum type whose left side
  is the error).  Where the code runs in a transaction, an error leaves the tables as they were; where
  it does not, the model returns the tables with the changes made so far.  What the code takes from
  outside (clock, settings, key service, storage, XML and JSON parsers, formats of dates and numbers)
  is an argument.  Python's integers are unbounded and are \<open>int\<close>; times are microseconds.
  Characters are those of HOL's \<open>char\<close>, so that texts outside of Latin-1 are left out.

  \<^bold>\<open>Bounds and fuel\<close>

  The merge of \<open>Csv_Nesting\<close> recurses on values it has built itself; it carries a fuel, and the
  depth of the rows is shown to be enough.  The search for a free file name in \<open>Exports\<close> counts its
  rounds, and as many rounds as the form has exports, and one more, are shown to find a name.  The lookup
  of an element in \<open>Survey\<close> is a \<open>partial_function\<close> whose ending is characterised, and so is the search for
  the title of a sheet in \<open>Export_Files\<close>, which is shown to end.  The
  splitting of choices in \<open>Flat_Csv\<close> carries the number of levels of the record, shown to be enough
  (\<open>split_record_levels\<close>); \<open>_reindex\<close> ends by a measure.  All other
  recursion ends by its definition.

  \<^bold>\<open>Not modelled\<close>

  The REST views, serializers, filters and renderers of \<open>apps/api\<close> and \<open>libs\<close>, the HTML views and
  forms of \<open>apps/main\<close> and \<open>apps/viewer\<close>, templates and JavaScript: they call the functions
  modelled here and turn their results into responses of Django and its REST framework.  Migrations,
  settings and management commands.  The text formats of exports (CSV and XLSX files as bytes, KML,
  OSM, Google Sheets), the flat CSV of a list of entities, the cursor of the database, the making of a survey by pyxform, the services for
  REST hooks, MQTT messaging and charts.  The manifest lists each of them with its reason.
\<close>

section \<open>Exports and permissions\<close>

text \<open>C26: A user restricted to own submissions who asks for an export without naming one gets a file of the
  form and type asked for whose stored query demands the user's own submissions (or is the JSON text
  of such a query, when the request bounds the time of submission), whether the file existed or was
  generated for the request.\<close>

theorem restricted_user_gets_own_export:
  assumes "\<forall>v. dumps js v \<noteq> []" "\<not> sees_all (rq_access rq) (rq_perm rq)"
    and "map_of (rq_params rq) ''export_id'' = None"
    and "custom_response_handler js env rq own requested_type T = (Inr (File_Of e f b), T')"
  shows "ex_owner e = own
    \<and> (\<exists>ty. get_export_type (google env) requested_type = Inr ty \<and> ex_type e = external_type rq ty)
    \<and> (\<exists>q. carries_own (rq_user rq) q \<and> map_of (ex_options e) ''query'' \<in> {Some q, Some (PStr (dumps js q))})"
proof -
  obtain q where q: "filter_queryset_xform_meta_perms_sql (loads js) (rq_access rq) (rq_user rq) (rq_perm rq) (rq_query rq) = Inr q"
    using assms(4) by (fastforce simp: custom_response_handler_def Let_def split: sum.splits perm_error.splits)
  have own: "carries_own (rq_user rq) q" by (rule own_query_kept [OF assms(2) q])
  note truthy = carries_own_truthy [OF own]
  obtain ty os where ty: "get_export_type (google env) requested_type = Inr ty"
    and found: "find_or_generate js env rq own (external_type rq ty) q os T = (Inr (Inr e), T')"
    and os: "''extension'' \<notin> fst ` set os" "map_of os ''query'' = Some q"
    using response_found [OF assms(4,3) q truthy] by blast
  obtain q' where e: "ex_owner e = own" "ex_type e = external_type rq ty"
    and q': "set_start_end_params (loads js) (dumps js) (rq_params rq) q = Inr q'"
      "truthy q' \<longrightarrow> map_of (ex_options e) ''query'' = Some q'"
    using served_query [OF found os(1) truthy os(2)] by blast
  have "q' = q \<or> (\<exists>r. carries_own (rq_user rq) r \<and> q' = PStr (dumps js r))" by (rule ranged_own [OF own q'(1)])
  moreover from this have "truthy q'" using truthy assms(1) by auto
  ultimately have "\<exists>r. carries_own (rq_user rq) r \<and> map_of (ex_options e) ''query'' \<in> {Some r, Some (PStr (dumps js r))}"
    using q'(2) own by auto
  with e ty show ?thesis by blast
qed

theorem restricted_user_gets_own_export_witness:
  "ex_owner own_export = 7 \<and> (\<exists>q. carries_own ''bob'' q
     \<and> map_of (ex_options own_export) ''query'' \<in> {Some q, Some (PStr (dumps sample_json q))})"
proof -
  have "\<forall>v. dumps sample_json v \<noteq> []" by (simp add: sample_json_def)
  moreover have "\<not> sees_all (rq_access (own_request [])) (rq_perm (own_request []))" by code_simp
  moreover have "map_of (rq_params (own_request [])) ''export_id'' = None" "rq_user (own_request []) = ''bob''"
    by (simp_all add: own_request_def)
  ultimately show ?thesis
    using restricted_user_gets_own_export [OF _ _ _ own_export_served] by simp
qed

section \<open>Queries and permissions\<close>

lemma query_demands_own:
  assumes "query_clauses tx integers q = Inr (w, ps)" "\<forall>p \<in> set ps. \<not> is_dict p" "carries_own me q"
  shows "demands_own me w ps"
proof (cases "\<exists>d. q = PDict d")
  case True
  then obtain d where q: "q = PDict d" by blast
  then show ?thesis using assms by (auto simp: query_clauses_def intro: get_where_demands_own)
next
  case False
  with assms(3) obtain d qs where q: "q = PList (PDict d # qs)" "map_of d ''_submitted_by'' = Some (PStr me)"
    by (cases "(me, q)" rule: carries_own.cases) auto
  then show ?thesis using assms(1,2) by (auto simp: query_clauses_def simp del: where_clauses.simps intro: where_demands_own)
qed

text \<open>C29: A user restricted to own submissions never reaches the submissions of others through the query of
  a request, whatever it is: when the statement has as many placeholders as parameters and no
  parameter is a dictionary (the driver refuses it otherwise), its condition is a conjunction of fixed
  clauses, one of which compares the submitter, and the parameters in its two places are the name of that
  field and the user.\<close>

theorem own_restriction_reaches_sql:
  assumes "\<not> sees_all xf perm"
    and "filter_queryset_xform_meta_perms_sql parse_json xf me perm query = Inr q"
    and sql: "build_sql_where tx fr q fl = Inr (sql, params)"
    and driver: "holes sql = length params" "\<forall>p \<in> set params. \<not> is_dict p"
  shows "\<exists>pre post ps qs. sql = base_where @ and_all (pre @ own_clause # post)
    \<and> (\<forall>c \<in> set (pre @ post). sql_clause c)
    \<and> params = ps @ [PStr ''_submitted_by'', PStr me] @ qs
    \<and> length ps = holes (base_where @ and_all pre)"
proof -
  obtain w ps where q: "query_clauses tx (fr_integers fr) q = Inr (w, ps)"
    and params: "params = PList (map PInt (xform_pks fr)) # ps @ snd (filter_clauses fr fl)"
    and exact: "holes_all w = length ps \<or> ps = []"
    and whole: "sql = base_where @ and_all ((if ps = [] then [] else w) @ fst (filter_clauses fr fl))"
    using build_sql_where_clauses [OF sql] driver(1) by metis
  have "demands_own me w ps"
    using query_demands_own [OF q] own_query_kept [OF assms(1,2)] driver(2) by (simp add: params)
  then obtain pre post p1 p2 where w: "w = pre @ own_clause # post" "ps = p1 @ own_params me @ p2"
    and "sound pre p1" "sound post p2"
    unfolding demands_own_def by blast
  moreover have "holes own_clause = length (own_params me)" by (simp add: own_clause_def own_params_def)
  moreover have "ps \<noteq> []" using w by (simp add: own_params_def)
  ultimately have "length p1 = holes_all pre" using exact by (auto simp: sound_def)
  then have "length (PList (map PInt (xform_pks fr)) # p1) = holes (base_where @ and_all pre)"
    using where_holes [of pre] \<open>sound pre p1\<close> by (simp add: sound_def)
  moreover have "sql = base_where @ and_all (pre @ own_clause # (post @ fst (filter_clauses fr fl)))"
    using whole \<open>ps \<noteq> []\<close> w(1) by simp
  moreover have "params = (PList (map PInt (xform_pks fr)) # p1) @ [PStr ''_submitted_by'', PStr me]
      @ (p2 @ snd (filter_clauses fr fl))"
    using params w(2) by (simp add: own_params_def)
  moreover have "\<forall>c \<in> set (pre @ post @ fst (filter_clauses fr fl)). sql_clause c"
    using \<open>sound pre p1\<close> \<open>sound post p2\<close> filters_sound [of fr fl] by (auto simp: sound_def)
  ultimately show ?thesis by blast
qed

theorem own_restriction_reaches_sql_witness:
  "let q = PDict [(''age'', PInt 3), (''_submitted_by'', PStr ''bob'')];
       tx = sample_texts\<lparr>json_loads := \<lambda>s. Some (PDict [(''age'', PInt 3)])\<rparr>
   in case build_sql_where tx sample_rows q no_filters of
        Inl e \<Rightarrow> False
      | Inr (sql, params) \<Rightarrow>
          \<exists>pre post ps qs. sql = base_where @ and_all (pre @ own_clause # post)
            \<and> params = ps @ [PStr ''_submitted_by'', PStr ''bob''] @ qs"
proof -
  let ?q = "PDict [(''age'', PInt 3), (''_submitted_by'', PStr ''bob'')]"
  let ?l = "\<lambda>s::string. Some (PDict [(''age'', PInt 3)])"
  let ?tx = "sample_texts\<lparr>json_loads := ?l\<rparr>"
  let ?xf = "\<lparr>fa_pk = 4, fa_shared_data = False, fa_metadata = [XFORM_META_PERMS]\<rparr>"
  have q: "\<not> sees_all ?xf (\<lambda>p. p = CAN_VIEW_XFORM_DATA)"
    "filter_queryset_xform_meta_perms_sql ?l ?xf ''bob'' (\<lambda>p. p = CAN_VIEW_XFORM_DATA) (PStr ''{}'') = Inr ?q"
    by (simp_all add: filter_queryset_xform_meta_perms_sql_def sees_all_def check_meta_perms_enabled_def)
  have "case build_sql_where ?tx sample_rows ?q no_filters of
      Inl e \<Rightarrow> False | Inr (sql, params) \<Rightarrow> holes sql = length params \<and> list_all (\<lambda>p. \<not> is_dict p) params"
    by code_simp
  then obtain sql params where sql: "build_sql_where ?tx sample_rows ?q no_filters = Inr (sql, params)"
    and d: "holes sql = length params" "\<forall>p \<in> set params. \<not> is_dict p"
    by (auto simp: list_all_iff split: sum.splits)
  show ?thesis
    unfolding Let_def sql sum.case prod.case
    using own_restriction_reaches_sql [OF q sql d] by blast
qed

end
